(* ===== verification/Prelude.thy ===== *)
theory Prelude
  imports Complex_Main "HOL-Library.AList"
begin

section \<open>Shared vocabulary of the development\<close>

text \<open>
  Types, lemma collections and generic facts that every component theory uses.
  \<^item> A Python operation that can raise is a function into \<open>'a res\<close>; when it also mutates an
    object it returns the pair of that result and the object's state at the point where it
    returned or raised, so state changed before a \<^verbatim>\<open>raise\<close> is kept.
  \<^item> A Python \<^verbatim>\<open>dict\<close> is an association list in insertion order with distinct keys
    (\<open>AList.update\<close> overwrites in place or appends, \<open>AList.delete\<close> removes).
  \<^item> Clock readings and ratios, floating-point numbers in the source, are exact rationals.
\<close>

datatype py_error =
    ValueError | AssertionError | RuntimeError | KeyError | TimeoutError | IndexError
  | AttributeError | RecursionError | ZeroDivisionError | TypeError
  | ChangedError | SummaryError | BusyError | ContextOverflowError | CancelledError
  | ContextBudgetError
  | ModelNotFoundError | ModelBusyError | ModelLoadingError | ModelTooLargeError | InsufficientMemoryError
  | ModelUnavailableError

type_synonym 'a res = "py_error + 'a"
type_synonym ('k, 'v) dict = "('k \<times> 'v) list"

named_theorems frame_simps \<open>what an operation leaves unchanged\<close>
named_theorems inv_intros \<open>an operation keeps an invariant\<close>

subsection \<open>Results\<close>

definition is_ok :: "'a res \<Rightarrow> bool" where
  "is_ok r = (case r of Inl _ \<Rightarrow> False | Inr _ \<Rightarrow> True)"

lemma is_ok_simps [simp]: "is_ok (Inr x)" "\<not> is_ok (Inl e)"
  by (simp_all add: is_ok_def)

text \<open>\<open>bind_res r f\<close>: go on with the value of \<open>r\<close>, or stop with its error.\<close>

definition bind_res :: "'a res \<Rightarrow> ('a \<Rightarrow> 'b res) \<Rightarrow> 'b res" where
  "bind_res r f = (case r of Inl e \<Rightarrow> Inl e | Inr x \<Rightarrow> f x)"

lemma bind_res_simps [simp]: "bind_res (Inl e) f = Inl e" "bind_res (Inr x) g = g x"
  by (simp_all add: bind_res_def)

lemma bind_res_Inr_iff: "bind_res r f = Inr y \<longleftrightarrow> (\<exists>x. r = Inr x \<and> f x = Inr y)"
  by (cases r) simp_all

primrec map_res :: "('a \<Rightarrow> 'b res) \<Rightarrow> 'a list \<Rightarrow> 'b list res" where
  "map_res f [] = Inr []"
| "map_res f (x # xs) = bind_res (f x) (\<lambda>y. bind_res (map_res f xs) (\<lambda>ys. Inr (y # ys)))"

lemma map_res_Inr_iff: "map_res f xs = Inr ys \<longleftrightarrow> list_all2 (\<lambda>x y. f x = Inr y) xs ys"
  by (induction xs arbitrary: ys) (auto simp: bind_res_Inr_iff list_all2_Cons1)

lemma map_res_append:
  "map_res f (xs @ ys) = bind_res (map_res f xs) (\<lambda>us. bind_res (map_res f ys) (\<lambda>vs. Inr (us @ vs)))"
  by (induction xs) (auto simp: bind_res_def split: sum.splits)

subsection \<open>Dictionaries\<close>

abbreviation dict_ok :: "('k, 'v) dict \<Rightarrow> bool" where
  "dict_ok d \<equiv> distinct (map fst d)"

abbreviation dict_get :: "('k, 'v) dict \<Rightarrow> 'k \<Rightarrow> 'v option" where
  "dict_get d k \<equiv> map_of d k"

abbreviation dict_set :: "'k \<Rightarrow> 'v \<Rightarrow> ('k, 'v) dict \<Rightarrow> ('k, 'v) dict" where
  "dict_set k v d \<equiv> AList.update k v d"

abbreviation dict_del :: "'k \<Rightarrow> ('k, 'v) dict \<Rightarrow> ('k, 'v) dict" where
  "dict_del k d \<equiv> AList.delete k d"

abbreviation dict_values :: "('k, 'v) dict \<Rightarrow> 'v list" where
  "dict_values d \<equiv> map snd d"

lemma dict_get_set [simp]: "map_of (AList.update k v d) = (map_of d)(k \<mapsto> v)"
  by (simp add: update_conv')

lemma dict_get_del [simp]: "map_of (AList.delete k d) = (map_of d)(k := None)"
  by (simp add: delete_conv')

lemma dict_ok_set [simp, intro]: "dict_ok d \<Longrightarrow> dict_ok (dict_set k v d)"
  by (simp add: distinct_update)

lemma dict_ok_del [simp, intro]: "dict_ok d \<Longrightarrow> dict_ok (dict_del k d)"
  by (simp add: distinct_delete)

lemma dict_set_absent: "map_of d k = None \<Longrightarrow> AList.update k v d = d @ [(k, v)]"
  by (induction d) (auto split: if_splits)

lemma dict_del_absent [simp]: "map_of d k = None \<Longrightarrow> AList.delete k d = d"
  by (induction d) (auto split: if_splits)

lemma dict_keys_set [simp]: "fst ` set (AList.update k v d) = insert k (fst ` set d)"
  using dom_update [of k v d] by (simp add: dom_map_of_conv_image_fst)

lemma dict_keys_del [simp]: "fst ` set (AList.delete k d) = fst ` set d - {k}"
  by (simp add: delete_keys [symmetric] flip: set_map) (auto simp: delete_keys)

lemma dict_get_None_iff: "map_of d k = None \<longleftrightarrow> k \<notin> fst ` set d"
  by (auto simp: map_of_eq_None_iff)

lemma dict_length_del:
  "dict_ok d \<Longrightarrow> map_of d k = Some v \<Longrightarrow> Suc (length (AList.delete k d)) = length d"
proof (induction d)
  case Nil
  then show ?case by simp
next
  case (Cons p d)
  then show ?case
    by (cases "fst p = k") (auto simp: dict_get_None_iff intro!: dict_del_absent [THEN arg_cong])
qed

lemma dict_length_set_absent:
  "map_of d k = None \<Longrightarrow> length (AList.update k v d) = Suc (length d)"
  by (simp add: dict_set_absent)

subsection \<open>Lists\<close>

lemma list_3_cases [case_names 1 2 3]:
  "(xs = [] \<Longrightarrow> P) \<Longrightarrow> (\<And>x. xs = [x] \<Longrightarrow> P) \<Longrightarrow> (\<And>x y ys. xs = x # y # ys \<Longrightarrow> P) \<Longrightarrow> P"
  by (metis neq_Nil_conv)

text \<open>Python indexing (a negative index counts from the end) and slices with bounds from 0 on.\<close>

definition py_nth :: "'a list \<Rightarrow> int \<Rightarrow> 'a res" where
  "py_nth xs i =
     (let j = (if i < 0 then int (length xs) + i else i)
      in if 0 \<le> j \<and> j < int (length xs) then Inr (xs ! nat j) else Inl IndexError)"

definition py_slice :: "'a list \<Rightarrow> int \<Rightarrow> int \<Rightarrow> 'a list" where
  "py_slice xs a b = take (nat (b - a)) (drop (nat a) xs)"

lemma filter_length_remove:
  assumes "dict_ok d" and "map_of d k = Some v"
  shows "length (filter P (map snd d)) = length (filter P (map snd (AList.delete k d))) +
    (if P v then 1 else 0)"
  using assms
proof (induction d)
  case Nil
  then show ?case by simp
next
  case (Cons p d)
  show ?case
  proof (cases "fst p = k")
    case True
    with Cons.prems have "map_of d k = None" and "snd p = v"
      by (auto simp: dict_get_None_iff)
    with True show ?thesis by (cases p) simp
  next
    case False
    with Cons show ?thesis by (cases p) auto
  qed
qed

subsection \<open>Stateful operations that can raise\<close>

text \<open>
  A method is a function from the object's state to its result and the state it leaves.
  \<open>bind_st\<close> is sequencing (an exception ends the method, the state changed so far stays),
  \<open>for_each\<close> is a \<^verbatim>\<open>for\<close> loop over a list.
\<close>

type_synonym ('s, 'a) method_st = "'s \<Rightarrow> 'a res \<times> 's"

definition ret :: "'a \<Rightarrow> ('s, 'a) method_st" where
  "ret x s = (Inr x, s)"

definition raise_st :: "py_error \<Rightarrow> ('s, 'a) method_st" where
  "raise_st e s = (Inl e, s)"

definition modify :: "('s \<Rightarrow> 's) \<Rightarrow> ('s, unit) method_st" where
  "modify f s = (Inr (), f s)"

definition bind_st :: "('s, 'a) method_st \<Rightarrow> ('a \<Rightarrow> ('s, 'b) method_st) \<Rightarrow> ('s, 'b) method_st" where
  "bind_st m f s = (case m s of (Inl e, s') \<Rightarrow> (Inl e, s') | (Inr x, s') \<Rightarrow> f x s')"

definition gets :: "('s \<Rightarrow> 'a) \<Rightarrow> ('s, 'a) method_st" where
  "gets f s = (Inr (f s), s)"

primrec for_each :: "'a list \<Rightarrow> ('a \<Rightarrow> ('s, unit) method_st) \<Rightarrow> ('s, unit) method_st" where
  "for_each [] f = ret ()"
| "for_each (x # xs) f = bind_st (f x) (\<lambda>_. for_each xs f)"

lemmas method_st_simps = ret_def raise_st_def modify_def gets_def bind_st_def

text \<open>
  \<open>runs m P Q\<close>: started in a state with \<open>P\<close>, the method returns (it never raises) and its
  result and final state satisfy \<open>Q\<close>.
\<close>

definition runs :: "('s, 'a) method_st \<Rightarrow> ('s \<Rightarrow> bool) \<Rightarrow> ('a \<Rightarrow> 's \<Rightarrow> bool) \<Rightarrow> bool" where
  "runs m P Q \<longleftrightarrow> (\<forall>s. P s \<longrightarrow> (\<exists>x s'. m s = (Inr x, s') \<and> Q x s'))"

lemma runsI: "(\<And>s. P s \<Longrightarrow> \<exists>x s'. m s = (Inr x, s') \<and> Q x s') \<Longrightarrow> runs m P Q"
  by (auto simp: runs_def)

lemma runsE:
  assumes "runs m P Q" and "P s"
  obtains x s' where "m s = (Inr x, s')" and "Q x s'"
  using assms by (auto simp: runs_def)

lemma runs_ret [intro]: "(\<And>s. P s \<Longrightarrow> Q x s) \<Longrightarrow> runs (ret x) P Q"
  by (auto simp: runs_def ret_def)

lemma runs_modify [intro]: "(\<And>s. P s \<Longrightarrow> Q () (f s)) \<Longrightarrow> runs (modify f) P Q"
  by (auto simp: runs_def modify_def)

lemma runs_bind:
  assumes "runs m P R" and "\<And>x. runs (f x) (R x) Q"
  shows "runs (bind_st m f) P Q"
proof (rule runsI)
  fix s assume "P s"
  from assms(1) this obtain x s' where "m s = (Inr x, s')" "R x s'" by (rule runsE)
  moreover from assms(2) this(2) obtain y t where "f x s' = (Inr y, t)" "Q y t" by (rule runsE)
  ultimately show "\<exists>y t. bind_st m f s = (Inr y, t) \<and> Q y t" by (simp add: bind_st_def)
qed

lemma runs_for_each:
  assumes "\<And>x. x \<in> set xs \<Longrightarrow> runs (f x) P (\<lambda>_. P)"
  shows "runs (for_each xs f) P (\<lambda>_. P)"
  using assms by (induction xs) (auto intro!: runs_bind [where R = "\<lambda>_. P"])

lemma runs_weaken:
  "runs m P Q \<Longrightarrow> (\<And>s. P' s \<Longrightarrow> P s) \<Longrightarrow> (\<And>x s. Q x s \<Longrightarrow> Q' x s) \<Longrightarrow> runs m P' Q'"
  by (fastforce simp: runs_def)

text \<open>
  \<open>keeps m I\<close>: the method keeps the invariant \<open>I\<close>, whether it returns or raises.
\<close>

definition keeps :: "('s, 'a) method_st \<Rightarrow> ('s \<Rightarrow> bool) \<Rightarrow> bool" where
  "keeps m I \<longleftrightarrow> (\<forall>s. I s \<longrightarrow> I (snd (m s)))"

named_theorems keeps_rules \<open>structural rules for invariants of methods\<close>

lemma keepsI: "(\<And>s. I s \<Longrightarrow> I (snd (m s))) \<Longrightarrow> keeps m I"
  by (simp add: keeps_def)

lemma keepsD: "keeps m I \<Longrightarrow> I s \<Longrightarrow> I (snd (m s))"
  by (simp add: keeps_def)

lemma keeps_ret [keeps_rules]: "keeps (ret x) I"
  by (simp add: keeps_def ret_def)

lemma keeps_raise [keeps_rules]: "keeps (raise_st e) I"
  by (simp add: keeps_def raise_st_def)

lemma keeps_gets [keeps_rules]: "keeps (gets f) I"
  by (simp add: keeps_def gets_def)

lemma keeps_modify [keeps_rules]: "(\<And>s. I s \<Longrightarrow> I (f s)) \<Longrightarrow> keeps (modify f) I"
  by (simp add: keeps_def modify_def)

lemma keeps_bind [keeps_rules]:
  "keeps m I \<Longrightarrow> (\<And>x. keeps (f x) I) \<Longrightarrow> keeps (bind_st m f) I"
  by (simp add: keeps_def bind_st_def split: prod.splits sum.splits) (metis snd_conv)

lemma keeps_bind_at:
  "I s \<Longrightarrow> keeps m I \<Longrightarrow> (\<And>x. keeps (f x) I) \<Longrightarrow> I (snd (bind_st m f s))"
  by (rule keepsD [OF keeps_bind])

lemma keeps_for_each [keeps_rules]:
  "(\<And>x. x \<in> set xs \<Longrightarrow> keeps (f x) I) \<Longrightarrow> keeps (for_each xs f) I"
  by (induction xs) (auto intro!: keeps_rules)

lemma keeps_if [keeps_rules]: "keeps m I \<Longrightarrow> keeps m' I \<Longrightarrow> keeps (if b then m else m') I"
  by simp

lemma fold_keeps: "(\<And>x s. x \<in> set xs \<Longrightarrow> I s \<Longrightarrow> I (f x s)) \<Longrightarrow> I s \<Longrightarrow> I (fold f xs s)"
  by (induction xs arbitrary: s) auto

lemma bind_st_Inr [simp]: "m s = (Inr x, s') \<Longrightarrow> bind_st m f s = f x s'"
  by (simp add: bind_st_def)

lemma bind_st_Inl [simp]: "m s = (Inl e, s') \<Longrightarrow> bind_st m f s = (Inl e, s')"
  by (simp add: bind_st_def)

lemma bind_st_prims [simp]:
  "bind_st (modify g) f1 = (\<lambda>s. f1 () (g s))" "bind_st (ret x) f2 = f2 x"
  "bind_st (gets h) f3 = (\<lambda>s. f3 (h s) s)" "bind_st (raise_st e) f4 = raise_st e"
  by (simp_all add: bind_st_def modify_def ret_def gets_def raise_st_def fun_eq_iff)

end
