(* ===== verification/FreeQueue.thy ===== *)
theory FreeQueue
  imports Prelude
begin

section \<open>The free-block queue of the paged KV cache\<close>

text \<open>
  \<^verbatim>\<open>CacheBlock\<close> and \<^verbatim>\<open>FreeKVCacheBlockQueue\<close> of \<^verbatim>\<open>src/omlx/cache/paged_cache.py\<close>: a doubly
  linked list threaded through the block objects, with a fake head and a fake tail. Block
  objects are identified by a reference; the heap maps a reference to the object's fields. The
  pointer operations are translated assignment by assignment. \<open>fq_ok q xs\<close> says that the heap
  of \<open>q\<close> holds exactly the list \<open>xs\<close>; each operation refines the list operation it stands for,
  and touches no field of a block but the two links.
\<close>

subsection \<open>Blocks and the heap\<close>

datatype ref = Blk nat | FakeHead | FakeTail

type_synonym block_hash = string  \<comment> \<open>a digest: a string of bytes\<close>

text \<open>
  The \<^verbatim>\<open>block_id\<close> a block object is created with, never assigned again: block \<open>i\<close> of
  the pool is the object \<open>Blk i\<close>, so the reference itself determines it.
\<close>

fun block_id :: "ref \<Rightarrow> int" where
  "block_id (Blk i) = int i"
| "block_id FakeHead = - 1"
| "block_id FakeTail = - 2"

lemma block_id_inj [simp]: "block_id a = block_id b \<longleftrightarrow> a = b"
  by (cases a; cases b) auto

record cache_block =
  ref_count :: int
  block_hash :: "block_hash option"
  prev_free_block :: "ref option"
  next_free_block :: "ref option"
  is_null :: bool
  token_count :: int
  last_access :: rat

type_synonym block_heap = "ref \<Rightarrow> cache_block"

text \<open>\<^verbatim>\<open>CacheBlock(block_id=i)\<close> created when the clock reads \<open>now\<close>.\<close>

definition new_block :: "rat \<Rightarrow> cache_block" where
  "new_block now = \<lparr>ref_count = 0, block_hash = None, prev_free_block = None,
     next_free_block = None, is_null = False, token_count = 0, last_access = now\<rparr>"

definition is_full :: "cache_block \<Rightarrow> int \<Rightarrow> bool" where
  "is_full b block_size \<longleftrightarrow> token_count b \<ge> block_size"

definition is_shared :: "cache_block \<Rightarrow> bool" where
  "is_shared b \<longleftrightarrow> ref_count b > 1"

definition reset_hash :: "cache_block \<Rightarrow> cache_block" where
  "reset_hash b = b\<lparr>block_hash := None\<rparr>"

definition touch_block :: "rat \<Rightarrow> cache_block \<Rightarrow> cache_block" where
  "touch_block now b = b\<lparr>last_access := now\<rparr>"

definition set_prev :: "ref \<Rightarrow> ref option \<Rightarrow> block_heap \<Rightarrow> block_heap" where
  "set_prev r v h = h(r := (h r)\<lparr>prev_free_block := v\<rparr>)"

definition set_next :: "ref \<Rightarrow> ref option \<Rightarrow> block_heap \<Rightarrow> block_heap" where
  "set_next r v h = h(r := (h r)\<lparr>next_free_block := v\<rparr>)"

lemma set_link_simps [simp]:
  "prev_free_block (set_prev r v h x) = (if x = r then v else prev_free_block (h x))"
  "next_free_block (set_prev r v h x) = next_free_block (h x)"
  "next_free_block (set_next r v h x) = (if x = r then v else next_free_block (h x))"
  "prev_free_block (set_next r v h x) = prev_free_block (h x)"
  by (simp_all add: set_prev_def set_next_def)

text \<open>The fields of a block the queue does not own.\<close>

definition meta :: "cache_block \<Rightarrow> cache_block" where
  "meta b = b\<lparr>prev_free_block := None, next_free_block := None\<rparr>"

lemma meta_set_link [simp]:
  "meta (set_prev r v h x) = meta (h x)" "meta (set_next r v h x) = meta (h x)"
  by (simp_all add: meta_def set_prev_def set_next_def)

lemma meta_eqD:
  assumes "meta b = meta c"
  shows "ref_count b = ref_count c" "block_hash b = block_hash c"
    "is_null b = is_null c" "token_count b = token_count c" "last_access b = last_access c"
  using assms by (simp_all add: meta_def) (metis cache_block.select_convs
      cache_block.surjective cache_block.update_convs(3,4))+

subsection \<open>The queue operations\<close>

record free_queue =
  heap :: block_heap
  num_free_blocks :: int

text \<open>\<^verbatim>\<open>__init__\<close>: link the blocks to their neighbours, then create and attach the sentinels.\<close>

definition link_neighbours :: "ref list \<Rightarrow> nat \<Rightarrow> block_heap \<Rightarrow> block_heap" where
  "link_neighbours blocks i h =
     (let h = (if i > 0 then set_prev (blocks ! i) (Some (blocks ! (i - 1))) h else h)
      in if Suc i < length blocks then set_next (blocks ! i) (Some (blocks ! Suc i)) h else h)"

definition init_queue :: "rat \<Rightarrow> ref list \<Rightarrow> block_heap \<Rightarrow> free_queue" where
  "init_queue now blocks h =
     (let h = fold (link_neighbours blocks) [0..<length blocks] h;
          h = h(FakeHead := new_block now, FakeTail := new_block now);
          h = (if blocks \<noteq> []
               then set_next (last blocks) (Some FakeTail)
                     (set_prev FakeTail (Some (last blocks))
                     (set_prev (hd blocks) (Some FakeHead)
                     (set_next FakeHead (Some (hd blocks)) h)))
               else set_prev FakeTail (Some FakeHead) (set_next FakeHead (Some FakeTail) h))
      in \<lparr>heap = h, num_free_blocks = int (length blocks)\<rparr>)"

definition popleft :: "free_queue \<Rightarrow> ref res \<times> free_queue" where
  "popleft q =
     (let h = heap q in
      if next_free_block (h FakeHead) = Some FakeTail then (Inl ValueError, q)
      else case next_free_block (h FakeHead) of
        None \<Rightarrow> (Inl AssertionError, q)
      | Some block \<Rightarrow>
          (let nxt = next_free_block (h block);
               h = set_next FakeHead nxt h;
               h = (case nxt of Some n \<Rightarrow> set_prev n (Some FakeHead) h | None \<Rightarrow> h);
               h = set_next block None (set_prev block None h)
           in (Inr block, q\<lparr>heap := h, num_free_blocks := num_free_blocks q - 1\<rparr>)))"

fun popleft_n_loop ::
    "nat \<Rightarrow> ref option \<Rightarrow> ref list \<Rightarrow> block_heap \<Rightarrow> (ref list \<times> ref option) res \<times> block_heap" where
  "popleft_n_loop 0 cur result h = (Inr (result, cur), h)"
| "popleft_n_loop (Suc n) cur result h =
     (case cur of
        None \<Rightarrow> (Inl AssertionError, h)
      | Some c \<Rightarrow>
          if c = FakeTail then (Inl AssertionError, h)
          else popleft_n_loop n (next_free_block (h c)) (result @ [c])
                 (set_next c None (set_prev c None h)))"

definition popleft_n :: "int \<Rightarrow> free_queue \<Rightarrow> ref list res \<times> free_queue" where
  "popleft_n n q =
     (if n = 0 then (Inr [], q)
      else if num_free_blocks q < n then (Inl AssertionError, q)
      else case popleft_n_loop (nat n) (next_free_block (heap q FakeHead)) [] (heap q) of
        (Inl e, h) \<Rightarrow> (Inl e, q\<lparr>heap := h\<rparr>)
      | (Inr (result, cur), h) \<Rightarrow>
          (let h = set_next FakeHead cur h;
               h = (case cur of Some c \<Rightarrow> set_prev c (Some FakeHead) h | None \<Rightarrow> h)
           in (Inr result, q\<lparr>heap := h, num_free_blocks := num_free_blocks q - n\<rparr>)))"

definition remove_block :: "ref \<Rightarrow> free_queue \<Rightarrow> unit res \<times> free_queue" where
  "remove_block block q =
     (let h = heap q in
      case (prev_free_block (h block), next_free_block (h block)) of
        (Some p, Some n) \<Rightarrow>
          (let h = set_next p (next_free_block (h block)) h;
               h = set_prev n (prev_free_block (h block)) h;
               h = set_next block None (set_prev block None h)
           in (Inr (), q\<lparr>heap := h, num_free_blocks := num_free_blocks q - 1\<rparr>))
      | _ \<Rightarrow> (Inl RuntimeError, q))"

definition append_block :: "ref \<Rightarrow> free_queue \<Rightarrow> unit res \<times> free_queue" where
  "append_block block q =
     (let h = heap q in
      case prev_free_block (h FakeTail) of
        None \<Rightarrow> (Inl AssertionError, q)
      | Some prior \<Rightarrow>
          (let h = set_next prior (Some block) h;
               h = set_prev block (Some prior) h;
               h = set_next block (Some FakeTail) h;
               h = set_prev FakeTail (Some block) h
           in (Inr (), q\<lparr>heap := h, num_free_blocks := num_free_blocks q + 1\<rparr>)))"

fun append_n_loop :: "ref list \<Rightarrow> ref \<Rightarrow> block_heap \<Rightarrow> ref \<times> block_heap" where
  "append_n_loop [] prior h = (prior, h)"
| "append_n_loop (block # blocks) prior h =
     append_n_loop blocks block (set_next prior (Some block) (set_prev block (Some prior) h))"

definition append_n :: "ref list \<Rightarrow> free_queue \<Rightarrow> unit res \<times> free_queue" where
  "append_n blocks q =
     (if blocks = [] then (Inr (), q)
      else case prev_free_block (heap q FakeTail) of
        None \<Rightarrow> (Inl AssertionError, q)
      | Some prior \<Rightarrow>
          (case append_n_loop blocks prior (heap q) of
            (prior, h) \<Rightarrow>
              (let h = set_prev FakeTail (Some prior) (set_next prior (Some FakeTail) h)
               in (Inr (), q\<lparr>heap := h,
                     num_free_blocks := num_free_blocks q + int (length blocks)\<rparr>))))"

text \<open>
  \<^verbatim>\<open>get_all_free_blocks\<close> follows the next links; on a cyclic list it does not return, which is
  the value \<open>None\<close>.
\<close>

partial_function (option) walk_free :: "block_heap \<Rightarrow> ref option \<Rightarrow> ref list option" where
  "walk_free h cur =
     (case cur of
        None \<Rightarrow> Some []
      | Some c \<Rightarrow>
          if c = FakeTail then Some []
          else Option.bind (walk_free h (next_free_block (h c))) (\<lambda>rest. Some (c # rest)))"

definition get_all_free_blocks :: "free_queue \<Rightarrow> ref list option" where
  "get_all_free_blocks q = walk_free (heap q) (next_free_block (heap q FakeHead))"

subsection \<open>The list a heap holds\<close>

fun dll :: "block_heap \<Rightarrow> ref \<Rightarrow> ref list \<Rightarrow> ref \<Rightarrow> bool" where
  "dll h a [] b \<longleftrightarrow> next_free_block (h a) = Some b \<and> prev_free_block (h b) = Some a"
| "dll h a (x # xs) b \<longleftrightarrow>
     next_free_block (h a) = Some x \<and> prev_free_block (h x) = Some a \<and> dll h x xs b"

definition fq_ok :: "free_queue \<Rightarrow> ref list \<Rightarrow> bool" where
  "fq_ok q xs \<longleftrightarrow>
     dll (heap q) FakeHead xs FakeTail \<and> distinct xs \<and> FakeHead \<notin> set xs \<and> FakeTail \<notin> set xs \<and>
     num_free_blocks q = int (length xs) \<and>
     (\<forall>r. r \<notin> set xs \<and> r \<noteq> FakeHead \<and> r \<noteq> FakeTail \<longrightarrow>
        prev_free_block (heap q r) = None \<and> next_free_block (heap q r) = None)"

lemma dll_append [simp]:
  "dll h a (xs @ y # ys) b \<longleftrightarrow> dll h a xs y \<and> dll h y ys b"
  by (induction xs arbitrary: a) auto

lemma dll_set_next_other:
  "r \<noteq> a \<Longrightarrow> r \<notin> set xs \<Longrightarrow> dll (set_next r v h) a xs b = dll h a xs b"
  by (induction xs arbitrary: a) auto

lemma dll_set_prev_other:
  "r \<noteq> b \<Longrightarrow> r \<notin> set xs \<Longrightarrow> dll (set_prev r v h) a xs b = dll h a xs b"
  by (induction xs arbitrary: a) auto

lemma dll_cong:
  "(\<And>r. r \<in> insert a (insert b (set xs)) \<Longrightarrow> h' r = h r) \<Longrightarrow> dll h' a xs b = dll h a xs b"
  by (induction xs arbitrary: a) auto

lemmas dll_frame = dll_set_next_other dll_set_prev_other

lemma dll_last_prev: "dll h a xs b \<Longrightarrow> prev_free_block (h b) = Some (last (a # xs))"
  by (induction xs arbitrary: a) auto

lemma dll_first_next: "dll h a xs b \<Longrightarrow> next_free_block (h a) = Some (hd (xs @ [b]))"
  by (cases xs) auto

lemma dll_walk:
  "dll h a xs FakeTail \<Longrightarrow> FakeTail \<notin> set xs \<Longrightarrow> walk_free h (next_free_block (h a)) = Some xs"
proof (induction xs arbitrary: a)
  case Nil
  then show ?case by (simp add: walk_free.simps)
next
  case (Cons x xs)
  then show ?case by (subst walk_free.simps) auto
qed

lemma fq_ok_walk: "fq_ok q xs \<Longrightarrow> get_all_free_blocks q = Some xs"
  by (simp add: fq_ok_def get_all_free_blocks_def dll_walk)

lemma fq_ok_unique: "fq_ok q xs \<Longrightarrow> fq_ok q ys \<Longrightarrow> xs = ys"
  by (drule fq_ok_walk)+ simp


subsection \<open>Each operation refines the list operation\<close>

named_theorems fq_meta \<open>a queue operation leaves the metadata of every block alone\<close>

lemma popleft_Nil: "fq_ok q [] \<Longrightarrow> popleft q = (Inl ValueError, q)"
  by (simp add: fq_ok_def popleft_def)

lemma popleft_Cons:
  assumes "fq_ok q (x # xs)"
  shows "fst (popleft q) = Inr x" and "fq_ok (snd (popleft q)) xs"
  using assms by (cases xs; auto simp: fq_ok_def popleft_def Let_def dll_frame)+

lemma popleft_meta [fq_meta]: "meta (heap (snd (popleft q)) r) = meta (heap q r)"
  by (auto simp: popleft_def Let_def split: option.splits)

lemma append_block_ok:
  assumes "fq_ok q xs" and "x \<notin> set xs" and "x \<noteq> FakeHead" and "x \<noteq> FakeTail"
  shows "fst (append_block x q) = Inr ()" and "fq_ok (snd (append_block x q)) (xs @ [x])"
proof -
  show "fst (append_block x q) = Inr ()"
    using assms by (auto simp: fq_ok_def append_block_def Let_def dest: dll_last_prev)
  show "fq_ok (snd (append_block x q)) (xs @ [x])"
    using assms
    by (cases xs rule: rev_cases) (auto simp: fq_ok_def append_block_def Let_def dll_frame)
qed

lemma append_block_meta [fq_meta]: "meta (heap (snd (append_block x q)) r) = meta (heap q r)"
  by (auto simp: append_block_def Let_def split: option.splits)

lemma remove_block_absent:
  assumes "fq_ok q xs" and "x \<notin> set xs" and "x \<noteq> FakeHead" and "x \<noteq> FakeTail"
  shows "remove_block x q = (Inl RuntimeError, q)"
  using assms by (simp add: fq_ok_def remove_block_def)

lemma remove_block_ok:
  assumes "fq_ok q (ys @ x # zs)"
  shows "fst (remove_block x q) = Inr ()" and "fq_ok (snd (remove_block x q)) (ys @ zs)"
proof -
  have p: "prev_free_block (heap q x) = Some (last (FakeHead # ys))"
    and n: "next_free_block (heap q x) = Some (hd (zs @ [FakeTail]))"
    using assms by (auto simp: fq_ok_def dest: dll_last_prev dll_first_next)
  show "fst (remove_block x q) = Inr ()"
    by (simp add: remove_block_def p n Let_def del: last.simps)
  show "fq_ok (snd (remove_block x q)) (ys @ zs)"
    using assms p n
    by (cases ys rule: rev_cases; cases zs)
      (auto simp: fq_ok_def remove_block_def Let_def dll_frame)
qed

lemma remove_block_meta [fq_meta]: "meta (heap (snd (remove_block x q)) r) = meta (heap q r)"
  by (auto simp: remove_block_def Let_def split: option.splits)


subsection \<open>Appending and popping several blocks\<close>

text \<open>A chain of links with its two ends open: what the loops of \<open>append_n\<close> and
  \<open>popleft_n\<close> work on before they reconnect the list.\<close>

fun chain :: "block_heap \<Rightarrow> ref \<Rightarrow> ref list \<Rightarrow> bool" where
  "chain h a [] \<longleftrightarrow> True"
| "chain h a (x # xs) \<longleftrightarrow>
     next_free_block (h a) = Some x \<and> prev_free_block (h x) = Some a \<and> chain h x xs"

lemma dll_chain:
  "dll h a xs b \<longleftrightarrow> chain h a xs \<and> next_free_block (h (last (a # xs))) = Some b \<and>
     prev_free_block (h b) = Some (last (a # xs))"
  by (induction xs arbitrary: a) auto

lemma chain_append: "chain h a (xs @ ys) \<longleftrightarrow> chain h a xs \<and> chain h (last (a # xs)) ys"
  by (induction xs arbitrary: a) auto

lemma chain_cong:
  assumes "chain h a xs"
    and "\<And>r. r \<in> set (butlast (a # xs)) \<Longrightarrow> next_free_block (h' r) = next_free_block (h r)"
    and "\<And>r. r \<in> set xs \<Longrightarrow> prev_free_block (h' r) = prev_free_block (h r)"
  shows "chain h' a xs"
  using assms by (induction xs arbitrary: a) (auto split: if_splits)

lemma append_n_loop_other:
  "r \<noteq> a \<Longrightarrow> r \<notin> set bs \<Longrightarrow> snd (append_n_loop bs a h) r = h r"
  by (induction bs arbitrary: a h) (auto simp: set_prev_def set_next_def)

lemma append_n_loop_prev_start:
  "a \<notin> set bs \<Longrightarrow> prev_free_block (snd (append_n_loop bs a h) a) = prev_free_block (h a)"
  by (cases bs) (auto simp: append_n_loop_other)

lemma append_n_loop_last: "fst (append_n_loop bs a h) = last (a # bs)"
  by (induction bs arbitrary: a h) auto

lemma append_n_loop_chain:
  "distinct (a # bs) \<Longrightarrow> chain (snd (append_n_loop bs a h)) a bs"
  by (induction bs arbitrary: a h)
    (auto simp: append_n_loop_other append_n_loop_prev_start)

lemma append_n_loop_meta: "meta (snd (append_n_loop bs a h) r) = meta (h r)"
  by (induction bs arbitrary: a h) auto

lemma append_n_ok:
  assumes ok: "fq_ok q xs" and d: "distinct bs" and disj: "set bs \<inter> set xs = {}"
    and h: "FakeHead \<notin> set bs" and t: "FakeTail \<notin> set bs"
  shows "fst (append_n bs q) = Inr ()" and "fq_ok (snd (append_n bs q)) (xs @ bs)"
proof -
  let ?a = "last (FakeHead # xs)"
  let ?h = "snd (append_n_loop bs ?a (heap q))"
  let ?l = "last (?a # bs)"
  have prv: "prev_free_block (heap q FakeTail) = Some ?a"
    using ok by (auto simp: fq_ok_def dest: dll_last_prev)
  have a_nin: "?a \<notin> set bs" and a_tail: "?a \<noteq> FakeTail"
    using ok disj h t by (auto simp: fq_ok_def split: if_splits) (metis last_in_set disjoint_iff)+
  show "fst (append_n bs q) = Inr ()"
    by (auto simp: append_n_def prv split: prod.splits)
  show "fq_ok (snd (append_n bs q)) (xs @ bs)"
  proof (cases "bs = []")
    case True
    then show ?thesis using ok by (simp add: append_n_def)
  next
    case False
    let ?h' = "set_prev FakeTail (Some ?l) (set_next ?l (Some FakeTail) ?h)"
    have eq: "snd (append_n bs q) =
        q\<lparr>heap := ?h', num_free_blocks := num_free_blocks q + int (length bs)\<rparr>"
      using False by (auto simp: append_n_def prv append_n_loop_last Let_def split: prod.splits)
        (metis append_n_loop_last fst_conv last.simps snd_conv)+
    have l: "?l = last bs" "?l \<in> set bs" using False by auto
    have old: "chain (heap q) FakeHead xs" and dx: "distinct xs"
      and hx: "FakeHead \<notin> set xs" and tx: "FakeTail \<notin> set xs"
      using ok by (auto simp: fq_ok_def dll_chain)
    have out: "?h r = heap q r" if "r \<noteq> ?a" "r \<notin> set bs" for r
      using that by (rule append_n_loop_other)
    have bl: "r \<noteq> ?a" "r \<notin> set bs" if "r \<in> set (butlast (FakeHead # xs))" for r
      using that disj h hx dx by (cases xs rule: rev_cases; auto simp: butlast_append)+
    have "chain ?h' FakeHead xs"
    proof (rule chain_cong [OF old])
      fix r assume "r \<in> set (butlast (FakeHead # xs))"
      from bl [OF this] have "?h r = heap q r" and "r \<noteq> ?l"
        using l(2) by (auto simp del: last.simps intro: out)
      then show "next_free_block (?h' r) = next_free_block (heap q r)"
        by (simp del: last.simps)
    next
      fix r assume r: "r \<in> set xs"
      then have "r \<notin> set bs" and "r \<noteq> FakeTail" using disj tx by auto
      moreover have "prev_free_block (?h r) = prev_free_block (heap q r)"
        using \<open>r \<notin> set bs\<close> append_n_loop_prev_start [OF a_nin, of "heap q"] out [of r]
        by (cases "r = ?a") simp_all
      ultimately show "prev_free_block (?h' r) = prev_free_block (heap q r)" by simp
    qed
    moreover have "chain ?h' ?a bs"
    proof (rule chain_cong)
      show "chain ?h ?a bs" using d a_nin by (intro append_n_loop_chain) simp
    next
      fix r assume "r \<in> set (butlast (?a # bs))"
      then show "next_free_block (?h' r) = next_free_block (?h r)"
        using d a_nin False by (cases bs rule: rev_cases) (auto simp: butlast_append)
    next
      fix r assume "r \<in> set bs"
      then show "prev_free_block (?h' r) = prev_free_block (?h r)" using t by auto
    qed
    ultimately have "dll ?h' FakeHead (xs @ bs) FakeTail"
      using False l t by (auto simp: dll_chain chain_append)
    moreover have "prev_free_block (?h' r) = None \<and> next_free_block (?h' r) = None"
      if "r \<notin> set (xs @ bs)" "r \<noteq> FakeHead" "r \<noteq> FakeTail" for r
    proof -
      have "r \<noteq> ?a" using that by (auto split: if_splits)
      then have "?h' r = heap q r" using that l out [of r]
        by (auto simp: set_prev_def set_next_def)
      then show ?thesis using ok that by (simp add: fq_ok_def)
    qed
    ultimately show ?thesis
      using ok d disj h t by (auto simp: eq fq_ok_def)
  qed
qed

lemma append_n_meta [fq_meta]: "meta (heap (snd (append_n bs q)) r) = meta (heap q r)"
  using append_n_loop_meta by (auto simp: append_n_def Let_def split: option.splits prod.splits)
    (metis snd_conv)


text \<open>The forward path the popping loop walks along.\<close>

fun path :: "block_heap \<Rightarrow> ref option \<Rightarrow> ref list \<Rightarrow> ref \<Rightarrow> bool" where
  "path h cur [] b \<longleftrightarrow> cur = Some b"
| "path h cur (x # xs) b \<longleftrightarrow> cur = Some x \<and> path h (next_free_block (h x)) xs b"

lemma path_cong:
  "(\<And>r. r \<in> set xs \<Longrightarrow> h' r = h r) \<Longrightarrow> path h' cur xs b = path h cur xs b"
  by (induction xs arbitrary: cur) auto

lemma dll_path: "dll h a xs b \<Longrightarrow> path h (next_free_block (h a)) xs b"
  by (induction xs arbitrary: a) auto

lemma popleft_n_loop_path:
  assumes "path h cur (xs @ ys) FakeTail" and "FakeTail \<notin> set xs" and "distinct (xs @ ys)"
  shows "\<exists>h'. popleft_n_loop (length xs) cur acc h =
            (Inr (acc @ xs, Some (hd (ys @ [FakeTail]))), h') \<and>
          (\<forall>r. r \<notin> set xs \<longrightarrow> h' r = h r) \<and>
          (\<forall>r \<in> set xs. prev_free_block (h' r) = None \<and> next_free_block (h' r) = None)"
  using assms
proof (induction xs arbitrary: h cur acc)
  case Nil
  then show ?case by (cases ys) auto
next
  case (Cons x xs)
  let ?h = "set_next x None (set_prev x None h)"
  have "path ?h (next_free_block (h x)) (xs @ ys) FakeTail"
    using Cons.prems by (subst path_cong [where h = h]) (auto simp: set_prev_def set_next_def)
  from Cons.IH [OF this, of "acc @ [x]"] Cons.prems obtain h' where
    h': "popleft_n_loop (length xs) (next_free_block (h x)) (acc @ [x]) ?h =
          (Inr (acc @ x # xs, Some (hd (ys @ [FakeTail]))), h')"
      "\<And>r. r \<notin> set xs \<Longrightarrow> h' r = ?h r"
      "\<And>r. r \<in> set xs \<Longrightarrow> prev_free_block (h' r) = None \<and> next_free_block (h' r) = None"
    by auto
  show ?case
    using Cons.prems h' by (intro exI [of _ h']) (auto simp: set_prev_def set_next_def)
qed

lemma popleft_n_loop_meta: "meta (snd (popleft_n_loop n cur acc h) r) = meta (h r)"
  by (induction n arbitrary: cur acc h) (auto split: option.splits)

lemma popleft_n_ok:
  assumes ok: "fq_ok q (xs @ ys)"
  shows "fst (popleft_n (int (length xs)) q) = Inr xs"
    and "fq_ok (snd (popleft_n (int (length xs)) q)) ys"
proof -
  let ?f = "hd (ys @ [FakeTail])"
  have facts: "dll (heap q) FakeHead (xs @ ys) FakeTail" "FakeTail \<notin> set xs"
      "distinct (xs @ ys)" "FakeHead \<notin> set (xs @ ys)" "FakeTail \<notin> set ys"
      "int (length xs) \<le> num_free_blocks q"
    using ok by (auto simp: fq_ok_def)
  then obtain h where
    h: "popleft_n_loop (length xs) (next_free_block (heap q FakeHead)) [] (heap q) =
          (Inr (xs, Some ?f), h)"
      "\<And>r. r \<notin> set xs \<Longrightarrow> h r = heap q r"
      "\<And>r. r \<in> set xs \<Longrightarrow> prev_free_block (h r) = None \<and> next_free_block (h r) = None"
    using popleft_n_loop_path [OF dll_path, of "heap q" FakeHead xs ys "[]"] by auto
  show "fst (popleft_n (int (length xs)) q) = Inr xs"
    using facts(6) by (auto simp: popleft_n_def h(1) Let_def)
  show "fq_ok (snd (popleft_n (int (length xs)) q)) ys"
  proof (cases "xs = []")
    case True
    then show ?thesis using ok by (simp add: popleft_n_def)
  next
    case False
    let ?h' = "set_prev ?f (Some FakeHead) (set_next FakeHead (Some ?f) h)"
    have "snd (popleft_n (int (length xs)) q) =
        q\<lparr>heap := ?h', num_free_blocks := num_free_blocks q - int (length xs)\<rparr>"
      using facts(6) False by (simp add: popleft_n_def h(1) Let_def)
    moreover have "dll ?h' FakeHead ys FakeTail"
    proof (cases ys)
      case (Cons y zs)
      then have "dll (heap q) y zs FakeTail" using facts(1) by simp
      moreover have "dll ?h' y zs FakeTail = dll h y zs FakeTail"
        using facts(3-5) Cons by (subst dll_set_prev_other; auto intro!: dll_set_next_other)
      moreover have "dll h y zs FakeTail = dll (heap q) y zs FakeTail"
        using facts(2,3) Cons h(2) by (intro dll_cong) auto
      ultimately show ?thesis using Cons by simp
    qed simp
    moreover have "prev_free_block (?h' r) = None \<and> next_free_block (?h' r) = None"
      if r: "r \<notin> set ys" "r \<noteq> FakeHead" "r \<noteq> FakeTail" for r
    proof -
      have "prev_free_block (h r) = None \<and> next_free_block (h r) = None"
        using r ok h(2) [of r] h(3) [of r] by (cases "r \<in> set xs") (auto simp: fq_ok_def)
      moreover have "r \<noteq> ?f" using r by (cases ys) auto
      ultimately show ?thesis using r by simp
    qed
    ultimately show ?thesis
      using ok facts by (simp add: fq_ok_def)
  qed
qed

lemma popleft_n_meta [fq_meta]: "meta (heap (snd (popleft_n n q)) r) = meta (heap q r)"
  using popleft_n_loop_meta by (auto simp: popleft_n_def Let_def split: option.splits prod.splits sum.splits)
    (metis snd_conv)+

subsection \<open>The initial queue\<close>

lemma link_neighbours_fold:
  assumes "distinct bs" and "k \<le> length bs"
  defines "g \<equiv> \<lambda>h. fold (link_neighbours bs) [0..<k] h"
  shows "i < k \<Longrightarrow> Suc i < length bs \<Longrightarrow> next_free_block (g h (bs ! i)) = Some (bs ! Suc i)"
    and "0 < i \<Longrightarrow> i < k \<Longrightarrow> prev_free_block (g h (bs ! i)) = Some (bs ! (i - 1))"
    and "r \<notin> set bs \<Longrightarrow> g h r = h r"
    and "meta (g h r) = meta (h r)"
proof -
  have "(\<forall>i. i < k \<and> Suc i < length bs \<longrightarrow> next_free_block (g h (bs ! i)) = Some (bs ! Suc i)) \<and>
    (\<forall>i. 0 < i \<and> i < k \<longrightarrow> prev_free_block (g h (bs ! i)) = Some (bs ! (i - 1))) \<and>
    (\<forall>r. r \<notin> set bs \<longrightarrow> g h r = h r) \<and> (\<forall>r. meta (g h r) = meta (h r))"
    using assms(2) unfolding g_def
  proof (induction k)
    case (Suc k)
    then have "bs \<noteq> []" by auto
    with Suc show ?case
      using assms(1)
      by (auto simp: link_neighbours_def Let_def nth_eq_iff_index_eq less_Suc_eq)
        (auto simp: set_next_def set_prev_def)
  qed simp
  then show "i < k \<Longrightarrow> Suc i < length bs \<Longrightarrow> next_free_block (g h (bs ! i)) = Some (bs ! Suc i)"
    and "0 < i \<Longrightarrow> i < k \<Longrightarrow> prev_free_block (g h (bs ! i)) = Some (bs ! (i - 1))"
    and "r \<notin> set bs \<Longrightarrow> g h r = h r"
    and "meta (g h r) = meta (h r)" by blast+
qed

lemma chain_nth:
  "chain h a xs \<longleftrightarrow>
     (\<forall>i < length xs. next_free_block (h ((a # xs) ! i)) = Some (xs ! i) \<and>
        prev_free_block (h (xs ! i)) = Some ((a # xs) ! i))"
proof (induction xs arbitrary: a)
  case (Cons x xs)
  show ?case
    by (auto simp: Cons.IH less_Suc_eq_0_disj)
qed simp

lemma init_queue_ok:
  assumes d: "distinct bs" and s: "FakeHead \<notin> set bs" "FakeTail \<notin> set bs"
    and fresh: "\<And>r. r \<noteq> FakeHead \<Longrightarrow> r \<noteq> FakeTail \<Longrightarrow> r \<notin> set bs \<Longrightarrow>
      prev_free_block (h r) = None \<and> next_free_block (h r) = None"
  shows "fq_ok (init_queue now bs h) bs"
proof (cases "bs = []")
  case True
  then show ?thesis using fresh by (simp add: init_queue_def fq_ok_def Let_def)
next
  case False
  let ?g = "fold (link_neighbours bs) [0..<length bs] h"
  let ?h = "heap (init_queue now bs h)"
  have len: "0 < length bs" using False by simp
  have lst: "last bs = bs ! (length bs - 1)" and hd: "hd bs = bs ! 0"
    using False by (simp_all add: last_conv_nth hd_conv_nth)
  have h: "?h = set_next (last bs) (Some FakeTail) (set_prev FakeTail (Some (last bs))
      (set_prev (hd bs) (Some FakeHead) (set_next FakeHead (Some (hd bs))
        (?g(FakeHead := new_block now, FakeTail := new_block now)))))"
    using False by (simp add: init_queue_def Let_def)
  have in_bs: "bs ! i \<noteq> FakeHead" "bs ! i \<noteq> FakeTail" if "i < length bs" for i
    using that s by (auto dest: nth_mem)
  have "chain ?h FakeHead bs"
    unfolding chain_nth
  proof (intro allI impI)
    fix i assume i: "i < length bs"
    show "next_free_block (?h ((FakeHead # bs) ! i)) = Some (bs ! i) \<and>
        prev_free_block (?h (bs ! i)) = Some ((FakeHead # bs) ! i)"
    proof (cases i)
      case 0
      then show ?thesis using in_bs [of 0] in_bs [of "length bs - 1"] len
        by (simp add: h lst hd)
    next
      case (Suc j)
      then have "bs ! j \<noteq> bs ! (length bs - 1)" "bs ! i \<noteq> bs ! 0"
        using i d False nth_eq_iff_index_eq [of bs j "length bs - 1"] nth_eq_iff_index_eq [of bs i 0]
        by auto
      then show ?thesis
        using Suc i d in_bs [of i] in_bs [of j] link_neighbours_fold [of bs "length bs"]
        by (auto simp: h lst hd)
    qed
  qed
  moreover have "prev_free_block (?h r) = None \<and> next_free_block (?h r) = None"
    if r: "r \<notin> set bs" "r \<noteq> FakeHead" "r \<noteq> FakeTail" for r
  proof -
    have "r \<noteq> last bs" "r \<noteq> hd bs" using r False by auto
    moreover have "?g r = h r" using d r by (intro link_neighbours_fold(3)) auto
    ultimately show ?thesis using r fresh [of r] by (simp add: h)
  qed
  moreover have "next_free_block (?h (last bs)) = Some FakeTail"
      "prev_free_block (?h FakeTail) = Some (last bs)"
    using s False by (auto simp: h)
  ultimately show ?thesis
    using d s False by (auto simp: fq_ok_def dll_chain) (simp add: init_queue_def Let_def)
qed

subsection \<open>The interface the block pool relies on\<close>

text \<open>
  A least-recently-used queue of free blocks: \<open>rep q xs\<close> says that the queue \<open>q\<close> holds the
  blocks \<open>xs\<close>, the next to be evicted first.
\<close>

locale lru_free_list =
  fixes rep :: "'q \<Rightarrow> ref list \<Rightarrow> bool"
    and pop :: "'q \<Rightarrow> ref res \<times> 'q"
    and push :: "ref \<Rightarrow> 'q \<Rightarrow> unit res \<times> 'q"
    and drop_out :: "ref \<Rightarrow> 'q \<Rightarrow> unit res \<times> 'q"
  assumes pop_empty: "rep q [] \<Longrightarrow> pop q = (Inl ValueError, q)"
    and pop_result: "rep q (x # xs) \<Longrightarrow> fst (pop q) = Inr x"
    and pop_rep: "rep q (x # xs) \<Longrightarrow> rep (snd (pop q)) xs"
    and push_result: "rep q xs \<Longrightarrow> Blk b \<notin> set xs \<Longrightarrow> fst (push (Blk b) q) = Inr ()"
    and push_rep: "rep q xs \<Longrightarrow> Blk b \<notin> set xs \<Longrightarrow> rep (snd (push (Blk b) q)) (xs @ [Blk b])"
    and drop_out_rep: "rep q (xs @ x # ys) \<Longrightarrow> rep (snd (drop_out x q)) (xs @ ys)"
    and drop_out_result: "rep q (xs @ x # ys) \<Longrightarrow> fst (drop_out x q) = Inr ()"
    and drop_out_absent: "rep q xs \<Longrightarrow> Blk b \<notin> set xs \<Longrightarrow> drop_out (Blk b) q = (Inl RuntimeError, q)"
    and rep_distinct: "rep q xs \<Longrightarrow> distinct xs"
begin

text \<open>Popping \<open>n\<close> blocks one after another.\<close>

primrec pops :: "nat \<Rightarrow> 'q \<Rightarrow> ref res list \<times> 'q" where
  "pops 0 q = ([], q)"
| "pops (Suc n) q = (let (r, q) = pop q; (rs, q) = pops n q in (r # rs, q))"

lemma pops_in_order:
  "rep q (xs @ ys) \<Longrightarrow> fst (pops (length xs) q) = map Inr xs \<and> rep (snd (pops (length xs) q)) ys"
proof (induction xs arbitrary: q)
  case (Cons x xs)
  then have "fst (pop q) = Inr x" and "rep (snd (pop q)) (xs @ ys)"
    by (auto intro: pop_result pop_rep)
  then show ?case using Cons.IH [of "snd (pop q)"]
    by (auto simp: Let_def case_prod_unfold)
qed simp

text \<open>A block that has just been freed is the last one to be handed out again.\<close>

lemma freed_block_evicted_last:
  assumes "rep q xs" and "Blk b \<notin> set xs"
  shows "fst (pops (Suc (length xs)) (snd (push (Blk b) q))) = map Inr (xs @ [Blk b])"
  using pops_in_order [of _ "xs @ [Blk b]" "[]"] push_rep [OF assms] by auto

text \<open>Popping a block and pushing it back rotates the queue.\<close>

lemma pop_push_rotates:
  assumes "rep q (Blk b # xs)"
  shows "rep (snd (push (Blk b) (snd (pop q)))) (xs @ [Blk b])"
  using pop_rep [OF assms] rep_distinct [OF assms] by (auto intro: push_rep)

lemma drop_out_keeps_order:
  assumes "rep q xs" and "Blk b \<in> set xs"
  shows "rep (snd (drop_out (Blk b) q)) (remove1 (Blk b) xs)"
proof -
  obtain ys zs where xs: "xs = ys @ Blk b # zs" "Blk b \<notin> set ys"
    using assms(2) by (metis split_list_first)
  with assms(1) show ?thesis by (auto simp: remove1_append intro: drop_out_rep)
qed

end

interpretation fq: lru_free_list fq_ok popleft append_block remove_block
proof unfold_locales
  show "distinct xs" if "fq_ok q xs" for q xs using that by (simp add: fq_ok_def)
qed (auto intro: popleft_Nil popleft_Cons append_block_ok remove_block_ok remove_block_absent)

end
