(* ===== verification/BlockIndex.thy ===== *)
theory BlockIndex
  imports FreeQueue
begin

section \<open>Block hashes and the hash-to-block index\<close>

text \<open>
  \<^verbatim>\<open>resolve_block_extra_keys\<close>, \<^verbatim>\<open>compute_block_hash\<close> and \<^verbatim>\<open>BlockHashToBlockMap\<close> of
  \<^verbatim>\<open>src/omlx/cache/paged_cache.py\<close>. Byte strings are \<^typ>\<open>string\<close>s (a \<^typ>\<open>char\<close> is a byte);
  SHA-256 is a parameter. Extra keys are a tuple, given by the \<^verbatim>\<open>repr\<close> of each element.
\<close>

subsection \<open>Rendering a tuple of tokens\<close>

definition digit :: "nat \<Rightarrow> char" where
  "digit d = char_of (48 + d)"

fun show_nat :: "nat \<Rightarrow> string" where
  "show_nat n = (if n < 10 then [digit n] else show_nat (n div 10) @ [digit (n mod 10)])"

declare show_nat.simps [simp del]

definition show_int :: "int \<Rightarrow> string" where
  "show_int i = (if i < 0 then CHR ''-'' # show_nat (nat (- i)) else show_nat (nat i))"

fun join_comma :: "string list \<Rightarrow> string" where
  "join_comma [] = []"
| "join_comma [x] = x"
| "join_comma (x # y # ys) = x @ '', '' @ join_comma (y # ys)"

text \<open>\<^verbatim>\<open>str(t)\<close> of a tuple, from the \<^verbatim>\<open>repr\<close> of its elements: a 1-tuple ends in a comma.\<close>

definition tuple_str :: "string list \<Rightarrow> string" where
  "tuple_str xs =
     ''('' @ (case xs of [x] \<Rightarrow> x @ '','' | _ \<Rightarrow> join_comma xs) @ '')''"

subsection \<open>Block hashes\<close>

type_synonym extra_keys = "string list"

fun select_extra :: "int \<Rightarrow> (int \<times> extra_keys) list \<Rightarrow> extra_keys option \<Rightarrow> extra_keys option" where
  "select_extra block_end [] selected = selected"
| "select_extra block_end ((start, keys) # rs) selected =
     (if block_end > start then select_extra block_end rs (Some keys) else selected)"

definition resolve_block_extra_keys ::
    "int \<Rightarrow> extra_keys option \<Rightarrow> int option \<Rightarrow> (int \<times> extra_keys) list option \<Rightarrow>
     extra_keys option res" where
  "resolve_block_extra_keys block_end extra token_start ranges =
     (case ranges of
        Some (r # rs) \<Rightarrow>
          if sorted (map fst (r # rs)) then Inr (select_extra block_end (r # rs) None)
          else Inl AssertionError
      | _ \<Rightarrow>
          Inr (if extra \<noteq> None \<and> (token_start = None \<or> block_end > the token_start)
               then extra else None))"

definition hash_input ::
    "block_hash option \<Rightarrow> int list \<Rightarrow> extra_keys option \<Rightarrow> string \<Rightarrow> string" where
  "hash_input parent_hash token_ids extra model_name =
     model_name @
     (case parent_hash of
        Some (b # bs) \<Rightarrow> b # bs
      | _ \<Rightarrow> ''omlx-root'') @
     tuple_str (map show_int token_ids) @
     (case extra of
        Some (k # ks) \<Rightarrow> tuple_str (k # ks)
      | _ \<Rightarrow> [])"

definition compute_block_hash ::
    "(string \<Rightarrow> block_hash) \<Rightarrow> block_hash option \<Rightarrow> int list \<Rightarrow> extra_keys option \<Rightarrow> string \<Rightarrow>
     block_hash" where
  "compute_block_hash sha256 parent_hash token_ids extra model_name =
     sha256 (hash_input parent_hash token_ids extra model_name)"

subsection \<open>The index\<close>

datatype index_entry = Single ref | Multi "(int, ref) dict"

type_synonym block_index = "(block_hash, index_entry) dict"

text \<open>An empty inner dictionary is never stored (\<open>index_ok\<close> below).\<close>

definition get_block :: "block_index \<Rightarrow> block_hash \<Rightarrow> ref option" where
  "get_block cache h =
     (case dict_get cache h of
        None \<Rightarrow> None
      | Some (Single b) \<Rightarrow> Some b
      | Some (Multi d) \<Rightarrow> (case d of [] \<Rightarrow> None | (_, b) # _ \<Rightarrow> Some b))"

definition index_insert ::
    "block_hash \<Rightarrow> ref \<Rightarrow> block_index \<Rightarrow> block_index" where
  "index_insert h block cache =
     (case dict_get cache h of
        None \<Rightarrow> dict_set h (Single block) cache
      | Some (Single existing) \<Rightarrow>
          dict_set h (Multi (dict_set (block_id block) block [(block_id existing, existing)])) cache
      | Some (Multi d) \<Rightarrow> dict_set h (Multi (dict_set (block_id block) block d)) cache)"

definition index_pop ::
    "block_hash \<Rightarrow> int \<Rightarrow> block_index \<Rightarrow> ref option \<times> block_index" where
  "index_pop h bid cache =
     (let rest = dict_del h cache in
      case dict_get cache h of
        None \<Rightarrow> (None, rest)
      | Some (Single b) \<Rightarrow>
          if block_id b = bid then (Some b, rest) else (None, dict_set h (Single b) rest)
      | Some (Multi d) \<Rightarrow>
          (let d' = dict_del bid d
           in (dict_get d bid, if d' \<noteq> [] then dict_set h (Multi d') rest else rest)))"

subsection \<open>What the index holds\<close>

definition entry_refs :: "index_entry \<Rightarrow> ref set" where
  "entry_refs e = (case e of Single b \<Rightarrow> {b} | Multi d \<Rightarrow> ran (map_of d))"

definition blocks_of :: "block_index \<Rightarrow> block_hash \<Rightarrow> ref set" where
  "blocks_of cache h = (case dict_get cache h of None \<Rightarrow> {} | Some e \<Rightarrow> entry_refs e)"

definition entry_ok :: "index_entry \<Rightarrow> bool" where
  "entry_ok e \<longleftrightarrow>
     (case e of
        Single b \<Rightarrow> True
      | Multi d \<Rightarrow> d \<noteq> [] \<and> (\<forall>k b. dict_get d k = Some b \<longrightarrow> k = block_id b))"

definition index_ok :: "block_index \<Rightarrow> bool" where
  "index_ok cache \<longleftrightarrow> (\<forall>h e. dict_get cache h = Some e \<longrightarrow> entry_ok e)"

lemma index_ok_empty [simp]: "index_ok []"
  by (simp add: index_ok_def)

lemma blocks_of_empty [simp]: "blocks_of [] h = {}"
  by (simp add: blocks_of_def)

lemma index_okD: "index_ok c \<Longrightarrow> dict_get c h = Some e \<Longrightarrow> entry_ok e"
  by (simp add: index_ok_def)

lemma entry_ok_Multi:
  "entry_ok (Multi d) \<longleftrightarrow> d \<noteq> [] \<and> (\<forall>k b. dict_get d k = Some b \<longrightarrow> k = block_id b)"
  by (simp add: entry_ok_def)

lemma entry_ok_Single [simp]: "entry_ok (Single b)"
  by (simp add: entry_ok_def)

lemma dict_set_not_Nil [simp]: "dict_set k v d \<noteq> []"
  by (cases d) auto

lemma mem_refs:
  assumes "\<forall>k b. dict_get d k = Some b \<longrightarrow> k = block_id b"
  shows "x \<in> ran (map_of d) \<longleftrightarrow> dict_get d (block_id x) = Some x"
  using assms by (auto simp: ran_def)

lemma refs_set:
  assumes "\<forall>k b. dict_get d k = Some b \<longrightarrow> k = block_id b"
  shows "ran (map_of (dict_set (block_id b) b d)) = insert b (ran (map_of d))"
proof -
  have "\<forall>k b'. dict_get (dict_set (block_id b) b d) k = Some b' \<longrightarrow> k = block_id b'"
    using assms by simp
  from mem_refs [OF this] mem_refs [OF assms] show ?thesis
    by (intro set_eqI) simp
qed

lemma refs_del:
  assumes "\<forall>k b. dict_get d k = Some b \<longrightarrow> k = block_id b"
  shows "ran (map_of (dict_del (block_id b) d)) = ran (map_of d) - {b}"
proof -
  have "\<forall>k b'. dict_get (dict_del (block_id b) d) k = Some b' \<longrightarrow> k = block_id b'"
    using assms by simp
  from mem_refs [OF this] mem_refs [OF assms] show ?thesis
    by (intro set_eqI) simp
qed

lemma blocks_of_Some: "dict_get c h = Some e \<Longrightarrow> blocks_of c h = entry_refs e"
  by (simp add: blocks_of_def)

lemma entry_refs_simps [simp]:
  "entry_refs (Single b) = {b}" "entry_refs (Multi d) = ran (map_of d)"
  by (simp_all add: entry_refs_def)

lemma blocks_of_set [simp]:
  "blocks_of (dict_set h e c) h' = (if h' = h then entry_refs e else blocks_of c h')"
  by (simp add: blocks_of_def)

lemma blocks_of_del [simp]:
  "blocks_of (dict_del h c) h' = (if h' = h then {} else blocks_of c h')"
  by (simp add: blocks_of_def)

lemma index_ok_set: "index_ok c \<Longrightarrow> entry_ok e \<Longrightarrow> index_ok (dict_set h e c)"
  by (simp add: index_ok_def)

lemma index_ok_del: "index_ok c \<Longrightarrow> index_ok (dict_del h c)"
  by (simp add: index_ok_def)

lemma blocks_of_insert:
  assumes "index_ok c"
  shows "blocks_of (index_insert h b c) h' =
    (if h' = h then insert b (blocks_of c h) else blocks_of c h')"
proof (cases "dict_get c h")
  case None
  then show ?thesis by (simp add: index_insert_def) (simp add: blocks_of_def)
next
  case (Some e)
  note bo = blocks_of_Some [OF Some]
  show ?thesis
  proof (cases e)
    case (Single x)
    then show ?thesis using Some bo by (simp add: index_insert_def) auto
  next
    case (Multi d)
    with index_okD [OF assms Some] have "ran (map_of (dict_set (block_id b) b d)) = insert b (ran (map_of d))"
      by (intro refs_set) (simp add: entry_ok_Multi)
    then show ?thesis using Some Multi bo
      by (simp add: index_insert_def del: dict_get_set)
  qed
qed

lemma index_insert_ok:
  assumes "index_ok c"
  shows "index_ok (index_insert h b c)"
proof (cases "dict_get c h")
  case None
  with assms show ?thesis by (simp add: index_insert_def index_ok_set)
next
  case (Some e)
  with index_okD [OF assms Some] assms show ?thesis
    by (cases e) (auto simp: index_insert_def entry_ok_Multi intro!: index_ok_set)
qed

lemma blocks_of_pop:
  assumes "index_ok c"
  shows "blocks_of (snd (index_pop h (block_id b) c)) h' =
    (if h' = h then blocks_of c h - {b} else blocks_of c h')"
proof (cases "dict_get c h")
  case None
  then show ?thesis by (simp add: index_pop_def) (simp add: blocks_of_def)
next
  case (Some e)
  show ?thesis
  proof (cases e)
    case (Multi d)
    with index_okD [OF assms Some] have "ran (map_of (dict_del (block_id b) d)) = ran (map_of d) - {b}"
      by (intro refs_del) (simp add: entry_ok_Multi)
    moreover have "blocks_of c h = ran (map_of d)"
      using Some Multi by (simp add: blocks_of_def entry_refs_def)
    ultimately show ?thesis using Some Multi
      by (cases "dict_del (block_id b) d = []") (auto simp: index_pop_def Let_def entry_refs_def simp del: dict_get_del)
  qed (use Some in \<open>auto simp: index_pop_def Let_def entry_refs_def blocks_of_def\<close>)
qed

lemma index_pop_ok:
  assumes "index_ok c"
  shows "index_ok (snd (index_pop h k c))"
proof (cases "dict_get c h")
  case None
  with assms show ?thesis by (simp add: index_pop_def)
next
  case (Some e)
  with index_okD [OF assms Some] assms show ?thesis
    by (cases e) (auto simp: index_pop_def Let_def entry_ok_Multi split: if_splits
        intro!: index_ok_set index_ok_del)
qed

lemma index_pop_result:
  assumes "index_ok c"
  shows "fst (index_pop h (block_id b) c) = (if b \<in> blocks_of c h then Some b else None)"
proof (cases "dict_get c h")
  case None
  then show ?thesis by (simp add: index_pop_def blocks_of_def)
next
  case (Some e)
  show ?thesis
  proof (cases e)
    case (Multi d)
    with index_okD [OF assms Some] have "k = block_id b'" if "dict_get d k = Some b'" for k b'
      using that by (simp add: entry_ok_Multi)
    with Some Multi show ?thesis
      by (cases "dict_get d (block_id b)")
        (fastforce simp: index_pop_def blocks_of_def entry_refs_def ran_def Let_def)+
  qed (use Some in \<open>auto simp: index_pop_def Let_def entry_refs_def blocks_of_def\<close>)
qed

lemma get_block_mem: "get_block c h = Some b \<Longrightarrow> b \<in> blocks_of c h"
  by (auto simp: get_block_def blocks_of_def entry_refs_def ran_def
      split: option.splits index_entry.splits list.splits)

lemma get_block_None:
  assumes "index_ok c"
  shows "get_block c h = None \<longleftrightarrow> blocks_of c h = {}"
proof
  assume "get_block c h = None"
  with assms show "blocks_of c h = {}"
    by (auto simp: get_block_def blocks_of_def index_ok_def entry_ok_def
        split: option.splits index_entry.splits list.splits)
next
  assume "blocks_of c h = {}"
  then show "get_block c h = None" using get_block_mem [of c h] by (cases "get_block c h") auto
qed

subsection \<open>Rendered tokens determine the tokens\<close>

lemma split_at_unique:
  "d \<notin> set x \<Longrightarrow> d \<notin> set y \<Longrightarrow> x @ d # r = y @ d # r' \<longleftrightarrow> x = y \<and> r = r'"
proof (induction x arbitrary: y)
  case Nil
  then show ?case by (cases y) auto
next
  case (Cons c x)
  then show ?case by (cases y) auto
qed

definition read_nat :: "string \<Rightarrow> nat" where
  "read_nat s = foldl (\<lambda>n c. 10 * n + (of_char c - 48)) 0 s"

lemma of_char_digit: "d < 10 \<Longrightarrow> (of_char (digit d) :: nat) = 48 + d"
  by (simp add: digit_def)

lemma digit_plain: "d < 10 \<Longrightarrow> digit d \<notin> {CHR '','', CHR '')'', CHR ''-''}"
  using of_char_digit [of d] by auto

lemma read_show_nat: "read_nat (show_nat n) = n"
proof (induction n rule: show_nat.induct)
  case (1 n)
  show ?case
  proof (cases "n < 10")
    case True
    then show ?thesis by (subst show_nat.simps) (simp add: read_nat_def of_char_digit)
  next
    case False
    with 1 have "read_nat (show_nat n) = 10 * (n div 10) + n mod 10"
      by (subst show_nat.simps) (simp add: read_nat_def of_char_digit)
    then show ?thesis by simp
  qed
qed

lemma show_nat_plain: "c \<in> set (show_nat n) \<Longrightarrow> c \<notin> {CHR '','', CHR '')'', CHR ''-''}"
proof (induction n rule: show_nat.induct)
  case (1 n)
  then show ?case
    using digit_plain [of n] digit_plain [of "n mod 10"]
    by (subst (asm) (2) show_nat.simps) (auto split: if_splits)
qed

lemma show_nat_nonempty: "show_nat n \<noteq> []"
  by (subst show_nat.simps) simp

lemma show_int_plain: "CHR '','' \<notin> set (show_int i)" "CHR '')'' \<notin> set (show_int i)"
  using show_nat_plain by (auto simp: show_int_def)

lemma show_int_inj: "show_int i = show_int j \<longleftrightarrow> i = j"
proof
  assume eq: "show_int i = show_int j"
  have neg: "CHR ''-'' # x \<noteq> show_nat n" for x n
    using show_nat_plain [of "CHR ''-''" n] by (metis insertCI list.set_intros(1))
  show "i = j"
  proof (cases "i < 0 \<longleftrightarrow> j < 0")
    case True
    with eq have "show_nat (nat \<bar>i\<bar>) = show_nat (nat \<bar>j\<bar>)" by (auto simp: show_int_def split: if_splits)
    then have "nat \<bar>i\<bar> = nat \<bar>j\<bar>" by (metis read_show_nat)
    with True show ?thesis by linarith
  next
    case False
    with eq neg show ?thesis by (auto simp: show_int_def split: if_splits) metis+
  qed
qed simp

lemma join_comma_inj:
  assumes "\<forall>x \<in> set xs. CHR '','' \<notin> set x" and "\<forall>y \<in> set ys. CHR '','' \<notin> set y"
    and "xs \<noteq> []" and "ys \<noteq> []" and "join_comma xs = join_comma ys"
  shows "xs = ys"
  using assms
proof (induction xs arbitrary: ys rule: join_comma.induct)
  case (2 x)
  then show ?case by (cases ys rule: join_comma.cases) auto
next
  case (3 x x' xs)
  show ?case
  proof (cases ys rule: join_comma.cases)
    case (3 y y' ys')
    have eq: "x @ CHR '','' # CHR '' '' # join_comma (x' # xs) =
        y @ CHR '','' # CHR '' '' # join_comma (y' # ys')"
      using "3.prems"(5) 3 by simp
    have "x = y" and "join_comma (x' # xs) = join_comma (y' # ys')"
      using eq "3.prems"(1,2) 3 by (simp_all add: split_at_unique)
    moreover have "x' # xs = y' # ys'"
      using "3.prems"(1,2) 3 calculation(2) by (intro "3.IH") auto
    ultimately show ?thesis using 3 by simp
  qed (use "3.prems" in auto)
qed simp

definition tuple_body :: "string list \<Rightarrow> string" where
  "tuple_body xs = (case xs of [x] \<Rightarrow> x @ '','' | _ \<Rightarrow> join_comma xs)"

lemma set_join_comma: "c \<in> set (join_comma xs) \<Longrightarrow> c \<in> {CHR '','', CHR '' ''} \<union> \<Union> (set ` set xs)"
  by (induction xs rule: join_comma.induct) auto

lemma tokens_no_paren: "CHR '')'' \<notin> set (tuple_body (map show_int ts))"
proof -
  have "CHR '')'' \<notin> set (join_comma (map show_int ts))"
    using set_join_comma [of "CHR '')''" "map show_int ts"] show_int_plain by auto
  then show ?thesis using show_int_plain
    by (auto simp: tuple_body_def split: list.splits)
qed

lemma tuple_body_inj:
  assumes "tuple_body (map show_int ts) = tuple_body (map show_int us)"
  shows "ts = us"
proof -
  have ne: "show_int i \<noteq> []" for i by (simp add: show_int_def show_nat_nonempty)
  have single: "x @ '','' \<noteq> join_comma (y # y' # ys)"
    if "CHR '','' \<notin> set x" "CHR '','' \<notin> set y" for x y y' ys
    using split_at_unique [OF that, of "[]" "CHR '' '' # join_comma (y' # ys)"] by simp
  have inj: "map show_int ts = map show_int us \<Longrightarrow> ts = us"
    by (rule map_injective) (auto simp: inj_def show_int_inj)
  have many: "ts = us" if "tuple_body (map show_int ts) = join_comma (map show_int ts)"
      "tuple_body (map show_int us) = join_comma (map show_int us)" "ts \<noteq> []" "us \<noteq> []"
    using that assms show_int_plain(1) by (intro inj join_comma_inj) auto
  show ?thesis
  proof (cases ts rule: list_3_cases)
    case 1
    with assms ne show ?thesis
      by (cases us rule: list_3_cases) (auto simp: tuple_body_def)
  next
    case (2 t)
    show ?thesis
    proof (cases us rule: list_3_cases)
      case (3 u u' us')
      with 2 assms single [of "show_int t" "show_int u" "show_int u'" "map show_int us'"]
        show_int_plain(1) show ?thesis by (simp add: tuple_body_def)
    qed (use 2 assms ne in \<open>auto simp: tuple_body_def show_int_inj\<close>)
  next
    case (3 t t' ts')
    show ?thesis
    proof (cases us rule: list_3_cases)
      case (2 u)
      with 3 assms single [of "show_int u" "show_int t" "show_int t'" "map show_int ts'"]
        show_int_plain(1) show ?thesis by (simp add: tuple_body_def)
    qed (use 3 assms ne many in \<open>auto simp: tuple_body_def\<close>)
  qed
qed

lemma tuple_str_tokens_inj:
  "tuple_str (map show_int ts) @ r = tuple_str (map show_int us) @ r' \<longleftrightarrow> ts = us \<and> r = r'"
proof -
  have "tuple_str xs @ r = CHR ''('' # tuple_body xs @ CHR '')'' # r" for xs r
    by (simp add: tuple_str_def tuple_body_def split: list.splits)
  then show ?thesis
    using split_at_unique [OF tokens_no_paren tokens_no_paren, of ts r us r'] tuple_body_inj
    by auto
qed

lemma hash_input_eq_iff:
  assumes "\<And>x. p = Some x \<Longrightarrow> length x = n \<and> x \<noteq> []" and "\<And>x. p' = Some x \<Longrightarrow> length x = n \<and> x \<noteq> []"
    and "p = None \<longleftrightarrow> p' = None"
  shows "hash_input p ts e m = hash_input p' us e' m \<longleftrightarrow>
    p = p' \<and> ts = us \<and>
    (case e of Some (k # ks) \<Rightarrow> tuple_str (k # ks) | _ \<Rightarrow> []) =
    (case e' of Some (k # ks) \<Rightarrow> tuple_str (k # ks) | _ \<Rightarrow> [])"
proof (cases p)
  case None
  with assms(3) show ?thesis by (simp add: hash_input_def tuple_str_tokens_inj)
next
  case (Some x)
  with assms obtain y where y: "p' = Some y" "length x = length y" "x \<noteq> []" "y \<noteq> []"
    by (metis option.exhaust)
  have "(case Some z of Some (b # bs) \<Rightarrow> b # bs | _ \<Rightarrow> ''omlx-root'') = z" if "z \<noteq> []" for z
    using that by (cases z) auto
  with Some y show ?thesis
    by (simp add: hash_input_def tuple_str_tokens_inj)
qed

end
