(* ===== verification/PagedCache.thy ===== *)
theory PagedCache
  imports BlockIndex
begin

section \<open>The paged KV cache manager\<close>

text \<open>
  \<^verbatim>\<open>BlockTable\<close> and \<^verbatim>\<open>PagedCacheManager\<close> of \<^verbatim>\<open>src/omlx/cache/paged_cache.py\<close>: the object's
  fields as a record, one definition per method. Clock readings (\<^verbatim>\<open>time.time()\<close>), SHA-256 and
  the SSD tier's \<^verbatim>\<open>has_block\<close> are parameters; the two lifecycle hooks are modelled by the list
  of calls made to them. Methods run under the manager's lock, so each is one atomic step.
  Log messages are left out.
\<close>

subsection \<open>State\<close>

record paged_stats =
  st_hits :: int
  st_misses :: int
  st_evictions :: int
  st_allocated_blocks :: int
  st_free_blocks :: int
  st_shared_blocks :: int
  st_total_tokens_cached :: int
  st_cow_copies :: int
  st_total_blocks :: int

record block_table =
  request_id :: string
  block_ids :: "int list"
  num_tokens :: int

text \<open>\<^verbatim>\<open>BlockTable\<close> objects are shared by reference; \<open>table_store\<close> holds them by identity.\<close>

type_synonym table_ref = nat

record paged_cache =
  block_size :: int
  max_blocks :: int
  enable_caching :: bool
  model_name :: string
  initial_blocks :: int
  current_allocated_count :: int
  blocks :: "ref list"
  free_block_queue :: free_queue
  cached_block_hash_to_block :: block_index
  table_store :: "(table_ref, block_table) dict"
  request_tables :: "(string, table_ref) dict"
  allocated_blocks :: "(int, ref) dict"
  null_block :: ref
  stats :: paged_stats
  ssd_has_block :: "(block_hash \<Rightarrow> bool) option"
  drop_hook :: bool
  dropped :: "block_hash list"
  clear_hook :: bool
  cleared :: nat

definition blk :: "paged_cache \<Rightarrow> ref \<Rightarrow> cache_block" where
  "blk s r = heap (free_block_queue s) r"

definition upd_blk :: "ref \<Rightarrow> (cache_block \<Rightarrow> cache_block) \<Rightarrow> paged_cache \<Rightarrow> paged_cache" where
  "upd_blk r f s =
     s\<lparr>free_block_queue := (free_block_queue s)
         \<lparr>heap := (heap (free_block_queue s))(r := f (blk s r))\<rparr>\<rparr>"

definition upd_stats :: "(paged_stats \<Rightarrow> paged_stats) \<Rightarrow> paged_cache \<Rightarrow> paged_cache" where
  "upd_stats f s = s\<lparr>stats := f (stats s)\<rparr>"

definition on_queue :: "(free_queue \<Rightarrow> 'a res \<times> free_queue) \<Rightarrow> (paged_cache, 'a) method_st" where
  "on_queue op s = (case op (free_block_queue s) of (r, q) \<Rightarrow> (r, s\<lparr>free_block_queue := q\<rparr>))"

subsection \<open>Block tables\<close>

definition add_block :: "int \<Rightarrow> int \<Rightarrow> block_table \<Rightarrow> block_table" where
  "add_block bid n t = t\<lparr>block_ids := block_ids t @ [bid], num_tokens := num_tokens t + n\<rparr>"

definition copy_table :: "string \<Rightarrow> block_table \<Rightarrow> block_table" where
  "copy_table new_request_id t =
     \<lparr>request_id = new_request_id, block_ids = block_ids t, num_tokens = num_tokens t\<rparr>"

subsection \<open>Construction\<close>

definition fresh_stats :: "int \<Rightarrow> paged_stats" where
  "fresh_stats n = \<lparr>st_hits = 0, st_misses = 0, st_evictions = 0, st_allocated_blocks = 1,
     st_free_blocks = n - 1, st_shared_blocks = 0, st_total_tokens_cached = 0,
     st_cow_copies = 0, st_total_blocks = n\<rparr>"

definition new_refs :: "int \<Rightarrow> int \<Rightarrow> ref list" where
  "new_refs start count = map Blk [nat start..<nat (start + count)]"

definition create_blocks :: "rat \<Rightarrow> ref list \<Rightarrow> block_heap \<Rightarrow> block_heap" where
  "create_blocks now rs h = (\<lambda>r. if r \<in> set rs then new_block now else h r)"

text \<open>Take the first block out of the queue and make it the null block.\<close>

definition reserve_null :: "(paged_cache, unit) method_st" where
  "reserve_null =
     bind_st (on_queue popleft) (\<lambda>b.
     modify (\<lambda>s. upd_blk b (\<lambda>x. x\<lparr>is_null := True, ref_count := 1\<rparr>)
       (s\<lparr>null_block := b, allocated_blocks := dict_set (block_id b) b (allocated_blocks s)\<rparr>)))"

definition init_manager :: "rat \<Rightarrow> int \<Rightarrow> int \<Rightarrow> bool \<Rightarrow> string \<Rightarrow> int \<Rightarrow> paged_cache res" where
  "init_manager now bsize mblocks caching name iblocks =
     (let initial_count = min iblocks mblocks;
          rs = new_refs 0 initial_count;
          s = \<lparr>block_size = bsize, max_blocks = mblocks, enable_caching = caching,
               model_name = name, initial_blocks = iblocks,
               current_allocated_count = initial_count, blocks = rs,
               free_block_queue = init_queue now rs (create_blocks now rs (\<lambda>_. new_block now)),
               cached_block_hash_to_block = [], table_store = [], request_tables = [],
               allocated_blocks = [], null_block = FakeHead, stats = fresh_stats initial_count,
               ssd_has_block = None, drop_hook = False, dropped = [], clear_hook = False,
               cleared = 0\<rparr>
      in case reserve_null s of (Inl e, _) \<Rightarrow> Inl e | (Inr _, s) \<Rightarrow> Inr s)"

definition set_paged_ssd_cache_manager :: "(block_hash \<Rightarrow> bool) option \<Rightarrow> paged_cache \<Rightarrow> paged_cache" where
  "set_paged_ssd_cache_manager ssd s = s\<lparr>ssd_has_block := ssd\<rparr>"

subsection \<open>Growth and allocation\<close>

definition grow_blocks :: "rat \<Rightarrow> int \<Rightarrow> (paged_cache, int) method_st" where
  "grow_blocks now additional_blocks s =
     (let available = max_blocks s - current_allocated_count s;
          to_create = min additional_blocks available
      in if to_create \<le> 0 then (Inr 0, s)
         else
           (let rs = new_refs (current_allocated_count s) to_create;
                s = s\<lparr>free_block_queue := (free_block_queue s)
                        \<lparr>heap := create_blocks now rs (heap (free_block_queue s))\<rparr>,
                      blocks := blocks s @ rs\<rparr>
            in bind_st (on_queue (append_n rs)) (\<lambda>_.
               bind_st (modify (\<lambda>s. s\<lparr>current_allocated_count := current_allocated_count s + to_create\<rparr>)) (\<lambda>_.
               bind_st (modify (\<lambda>s. upd_stats (\<lambda>t. t\<lparr>st_total_blocks := current_allocated_count s,
                          st_free_blocks := num_free_blocks (free_block_queue s)\<rparr>) s)) (\<lambda>_.
               ret to_create))) s))"

definition notify_hash_dropped :: "block_hash option \<Rightarrow> paged_cache \<Rightarrow> paged_cache" where
  "notify_hash_dropped h s =
     (case h of
        None \<Rightarrow> s
      | Some h \<Rightarrow>
          if \<not> drop_hook s then s
          else if get_block (cached_block_hash_to_block s) h = None
               then s\<lparr>dropped := dropped s @ [h]\<rparr> else s)"

definition pop_index :: "block_hash \<Rightarrow> int \<Rightarrow> paged_cache \<Rightarrow> ref option \<times> paged_cache" where
  "pop_index h bid s =
     (case index_pop h bid (cached_block_hash_to_block s) of
        (r, cache) \<Rightarrow> (r, s\<lparr>cached_block_hash_to_block := cache\<rparr>))"

definition maybe_evict_cached_block :: "ref \<Rightarrow> paged_cache \<Rightarrow> bool \<times> paged_cache" where
  "maybe_evict_cached_block block s =
     (case block_hash (blk s block) of
        None \<Rightarrow> (False, s)
      | Some h \<Rightarrow>
          (let (evicted, s) = pop_index h (block_id block) s;
               s = notify_hash_dropped (Some h) s
           in if evicted \<noteq> None
              then (True, upd_stats (\<lambda>t. t\<lparr>st_evictions := st_evictions t + 1\<rparr>)
                            (upd_blk block reset_hash s))
              else (False, s)))"

text \<open>The body both allocation methods run for a block just taken from the queue.\<close>

definition claim_block :: "rat \<Rightarrow> ref \<Rightarrow> paged_cache \<Rightarrow> paged_cache" where
  "claim_block now block s =
     (let s = (if enable_caching s then snd (maybe_evict_cached_block block s) else s);
          s = upd_blk block (\<lambda>b. touch_block now (b\<lparr>ref_count := 1\<rparr>)) s
      in s\<lparr>allocated_blocks := dict_set (block_id block) block (allocated_blocks s)\<rparr>)"

definition allocate_block :: "rat \<Rightarrow> (paged_cache, ref option) method_st" where
  "allocate_block now =
     bind_st (\<lambda>s. if num_free_blocks (free_block_queue s) = 0
                  then bind_st (grow_blocks now (min 256 (max_blocks s - current_allocated_count s)))
                         (\<lambda>grown. ret (grown \<noteq> 0)) s
                  else (Inr True, s)) (\<lambda>available.
     if \<not> available then ret None
     else bind_st (on_queue popleft) (\<lambda>block.
       bind_st (modify (claim_block now block)) (\<lambda>_.
       bind_st (modify (upd_stats (\<lambda>t. t\<lparr>st_allocated_blocks := st_allocated_blocks t + 1,
                                         st_free_blocks := st_free_blocks t - 1\<rparr>))) (\<lambda>_.
       ret (Some block)))))"

definition get_new_blocks :: "rat \<Rightarrow> int \<Rightarrow> (paged_cache, ref list) method_st" where
  "get_new_blocks now num_blocks =
     bind_st (\<lambda>s. if num_blocks > num_free_blocks (free_block_queue s)
                  then bind_st (grow_blocks now
                         (num_blocks - num_free_blocks (free_block_queue s) + 128)) (\<lambda>_. ret ()) s
                  else (Inr (), s)) (\<lambda>_.
     bind_st (gets (\<lambda>s. num_blocks > num_free_blocks (free_block_queue s))) (\<lambda>short.
     if short then raise_st ValueError
     else bind_st (on_queue (popleft_n num_blocks)) (\<lambda>bs.
       bind_st (for_each bs (\<lambda>b. modify (claim_block now b))) (\<lambda>_.
       bind_st (modify (upd_stats (\<lambda>t. t\<lparr>st_allocated_blocks := st_allocated_blocks t + num_blocks,
                                         st_free_blocks := st_free_blocks t - num_blocks\<rparr>))) (\<lambda>_.
       ret bs)))))"

subsection \<open>Reference counting\<close>

definition dec_ref :: "ref \<Rightarrow> paged_cache \<Rightarrow> paged_cache" where
  "dec_ref b = upd_blk b (\<lambda>x. x\<lparr>ref_count := ref_count x - 1\<rparr>)"

definition inc_ref_touch :: "rat \<Rightarrow> ref \<Rightarrow> paged_cache \<Rightarrow> paged_cache" where
  "inc_ref_touch now b = upd_blk b (\<lambda>x. touch_block now (x\<lparr>ref_count := ref_count x + 1\<rparr>))"

text \<open>\<^verbatim>\<open>if block.block_hash is not None: pop it from the index and notify\<close>.\<close>

definition unindex :: "ref \<Rightarrow> paged_cache \<Rightarrow> paged_cache" where
  "unindex block s =
     (case block_hash (blk s block) of
        None \<Rightarrow> s
      | Some h \<Rightarrow> notify_hash_dropped (Some h) (snd (pop_index h (block_id block) s)))"

definition free_block :: "int \<Rightarrow> (paged_cache, bool) method_st" where
  "free_block bid s =
     (case dict_get (allocated_blocks s) bid of
        None \<Rightarrow> (Inr False, s)
      | Some block \<Rightarrow>
          if is_null (blk s block) then (Inr False, s)
          else
            (let s = dec_ref block s in
             if ref_count (blk s block) \<le> 0 then
               (let s = unindex block s;
                    s = s\<lparr>allocated_blocks := dict_del bid (allocated_blocks s)\<rparr>
                in bind_st (on_queue (append_block block)) (\<lambda>_.
                   bind_st (modify (\<lambda>s. upd_stats (\<lambda>t. t\<lparr>
                       st_allocated_blocks := st_allocated_blocks t - 1,
                       st_free_blocks := st_free_blocks t + 1,
                       st_total_tokens_cached := st_total_tokens_cached t - token_count (blk s block)\<rparr>) s)) (\<lambda>_.
                   ret True)) s)
             else (Inr False, s)))"

definition touch_one :: "rat \<Rightarrow> ref \<Rightarrow> paged_cache \<Rightarrow> paged_cache" where
  "touch_one now block s =
     (let s = (if ref_count (blk s block) = 0 \<and> \<not> is_null (blk s block)
               then (case on_queue (remove_block block) s of
                       (Inl _, s) \<Rightarrow> s  \<comment> \<open>\<^verbatim>\<open>except RuntimeError: pass\<close>\<close>
                     | (Inr _, s) \<Rightarrow>
                         (let s = upd_stats (\<lambda>t. t\<lparr>st_free_blocks := st_free_blocks t - 1,
                                     st_allocated_blocks := st_allocated_blocks t + 1\<rparr>) s
                          in s\<lparr>allocated_blocks := dict_set (block_id block) block (allocated_blocks s)\<rparr>))
               else s)
      in inc_ref_touch now block s)"

definition touch :: "rat \<Rightarrow> ref list \<Rightarrow> paged_cache \<Rightarrow> paged_cache" where
  "touch now bs s = fold (touch_one now) bs s"

definition count_shared :: "ref \<Rightarrow> paged_cache \<Rightarrow> paged_cache" where
  "count_shared block s =
     (if ref_count (blk s block) = 2
      then upd_stats (\<lambda>t. t\<lparr>st_shared_blocks := st_shared_blocks t + 1\<rparr>) s else s)"

definition increment_ref :: "rat \<Rightarrow> int \<Rightarrow> paged_cache \<Rightarrow> bool \<times> paged_cache" where
  "increment_ref now bid s =
     (case dict_get (allocated_blocks s) bid of
        None \<Rightarrow> (False, s)
      | Some block \<Rightarrow> (True, count_shared block (inc_ref_touch now block s)))"

definition acquire_cached_block ::
    "rat \<Rightarrow> int \<Rightarrow> block_hash \<Rightarrow> paged_cache \<Rightarrow> ref option \<times> paged_cache" where
  "acquire_cached_block now bid expected_hash s =
     (case dict_get (allocated_blocks s) bid of
        None \<Rightarrow> (None, s)
      | Some block \<Rightarrow>
          if is_null (blk s block) \<or> block_hash (blk s block) \<noteq> Some expected_hash then (None, s)
          else (Some block, count_shared block (inc_ref_touch now block s)))"

definition decrement_ref :: "int \<Rightarrow> (paged_cache, bool) method_st" where
  "decrement_ref bid = free_block bid"

definition release_one :: "int \<Rightarrow> int \<times> paged_cache \<Rightarrow> int \<times> paged_cache" where
  "release_one bid = (\<lambda>(released, s).
     case dict_get (allocated_blocks s) bid of
       None \<Rightarrow> (released, s)
     | Some block \<Rightarrow>
         if is_null (blk s block) then (released, s)
         else if ref_count (blk s block) > 0 then
           (let s = dec_ref block s
            in (released + 1,
                if ref_count (blk s block) = 1
                then upd_stats (\<lambda>t. t\<lparr>st_shared_blocks := max 0 (st_shared_blocks t - 1)\<rparr>) s
                else s))
         else (released, s))"

definition release_for_eviction :: "int list \<Rightarrow> paged_cache \<Rightarrow> int \<times> paged_cache" where
  "release_for_eviction bids s = fold release_one bids (0, s)"

subsection \<open>Prefix caching\<close>

definition count_hit :: "paged_cache \<Rightarrow> paged_cache" where
  "count_hit = upd_stats (\<lambda>t. t\<lparr>st_hits := st_hits t + 1\<rparr>)"

definition count_miss :: "paged_cache \<Rightarrow> paged_cache" where
  "count_miss = upd_stats (\<lambda>t. t\<lparr>st_misses := st_misses t + 1\<rparr>)"

definition get_cached_block :: "block_hash \<Rightarrow> paged_cache \<Rightarrow> ref option \<times> paged_cache" where
  "get_cached_block h s =
     (if \<not> enable_caching s then (None, s)
      else case get_block (cached_block_hash_to_block s) h of
        Some block \<Rightarrow> (Some block, count_hit s)
      | None \<Rightarrow> (None, count_miss s))"

definition insert_index :: "block_hash \<Rightarrow> ref \<Rightarrow> paged_cache \<Rightarrow> paged_cache" where
  "insert_index h block s =
     s\<lparr>cached_block_hash_to_block := index_insert h block (cached_block_hash_to_block s)\<rparr>"

fun cache_full_loop ::
    "(string \<Rightarrow> block_hash) \<Rightarrow> ref list \<Rightarrow> int list \<Rightarrow> extra_keys option \<Rightarrow> int list \<Rightarrow>
     block_hash option \<Rightarrow> (paged_cache, unit) method_st" where
  "cache_full_loop sha256 bs token_ids extra [] parent_hash = ret ()"
| "cache_full_loop sha256 bs token_ids extra (i # is) parent_hash =
     (\<lambda>s. case py_nth bs i of
        Inl e \<Rightarrow> (Inl e, s)
      | Inr block \<Rightarrow>
          (case block_hash (blk s block) of
             Some h \<Rightarrow> cache_full_loop sha256 bs token_ids extra is (Some h) s
           | None \<Rightarrow>
               (let start = i * block_size s;
                    block_tokens = py_slice token_ids start (start + block_size s);
                    h = compute_block_hash sha256 parent_hash block_tokens extra (model_name s);
                    s = upd_blk block (\<lambda>b. b\<lparr>block_hash := Some h,
                                             token_count := int (length block_tokens)\<rparr>) s;
                    s = insert_index h block s
                in cache_full_loop sha256 bs token_ids extra is (Some h) s)))"

definition cache_full_blocks ::
    "(string \<Rightarrow> block_hash) \<Rightarrow> ref list \<Rightarrow> int list \<Rightarrow> int \<Rightarrow> int \<Rightarrow> extra_keys option \<Rightarrow>
     (paged_cache, unit) method_st" where
  "cache_full_blocks sha256 bs token_ids num_cached_blocks num_full_blocks extra s =
     (if \<not> enable_caching s then (Inr (), s)
      else if num_cached_blocks \<ge> num_full_blocks then (Inr (), s)
      else
        (let rng = [num_cached_blocks..num_full_blocks - 1] in
         if num_cached_blocks > 0 then
           (case py_nth bs (num_cached_blocks - 1) of
              Inl e \<Rightarrow> (Inl e, s)
            | Inr prior \<Rightarrow>
                cache_full_loop sha256 bs token_ids extra rng (block_hash (blk s prior)) s)
         else cache_full_loop sha256 bs token_ids extra rng None s))"

text \<open>A block found on the SSD tier only is registered with a reference count of 0.\<close>

definition lazy_restore :: "rat \<Rightarrow> block_hash \<Rightarrow> (paged_cache, ref option) method_st" where
  "lazy_restore now h s =
     (case ssd_has_block s of
        None \<Rightarrow> (Inr None, s)
      | Some has_block \<Rightarrow>
          if \<not> has_block h then (Inr None, s)
          else bind_st (allocate_block now) (\<lambda>b.
            case b of
              None \<Rightarrow> ret None
            | Some block \<Rightarrow>
                bind_st (modify (\<lambda>s. insert_index h block (upd_blk block (\<lambda>x. x\<lparr>
                   block_hash := Some h, token_count := block_size s, ref_count := 0\<rparr>) s))) (\<lambda>_.
                ret (Some block))) s)"

record lookup_keys =
  key_extra :: "extra_keys option"
  key_token_start :: "int option"
  key_ranges :: "(int \<times> extra_keys) list option"

fun computed_loop ::
    "(string \<Rightarrow> block_hash) \<Rightarrow> rat \<Rightarrow> int list \<Rightarrow> lookup_keys \<Rightarrow> int list \<Rightarrow> block_hash option \<Rightarrow>
     ref list \<Rightarrow> int \<Rightarrow> (paged_cache, ref list \<times> int) method_st" where
  "computed_loop sha256 now token_ids ks [] parent_hash found n = ret (found, n)"
| "computed_loop sha256 now token_ids ks (i # is) parent_hash found n =
     (\<lambda>s. let start = i * block_size s;
              stop = start + block_size s;
              block_tokens = py_slice token_ids start stop
          in case resolve_block_extra_keys stop (key_extra ks) (key_token_start ks) (key_ranges ks) of
            Inl e \<Rightarrow> (Inl e, s)
          | Inr block_extra \<Rightarrow>
              (let h = compute_block_hash sha256 parent_hash block_tokens block_extra (model_name s)
               in bind_st (case get_block (cached_block_hash_to_block s) h of
                             Some b \<Rightarrow> ret (Some b)
                           | None \<Rightarrow> lazy_restore now h) (\<lambda>cached_block.
                  case cached_block of
                    None \<Rightarrow> bind_st (modify count_miss) (\<lambda>_. ret (found, n))
                  | Some b \<Rightarrow>
                      bind_st (modify count_hit) (\<lambda>_.
                      computed_loop sha256 now token_ids ks is (Some h) (found @ [b])
                        (n + block_size s))) s))"

definition get_computed_blocks ::
    "(string \<Rightarrow> block_hash) \<Rightarrow> rat \<Rightarrow> int list \<Rightarrow> lookup_keys \<Rightarrow>
     (paged_cache, ref list \<times> int) method_st" where
  "get_computed_blocks sha256 now token_ids ks s =
     (if \<not> enable_caching s then (Inr ([], 0), s)
      else if block_size s = 0 then (Inl ZeroDivisionError, s)
      else computed_loop sha256 now token_ids ks
             [0..int (length token_ids) div block_size s - 1] None [] 0 s)"

definition find_cached_block ::
    "(string \<Rightarrow> block_hash) \<Rightarrow> rat \<Rightarrow> int list \<Rightarrow> block_hash option \<Rightarrow> extra_keys option \<Rightarrow>
     paged_cache \<Rightarrow> ref option \<times> paged_cache" where
  "find_cached_block sha256 now tokens parent_hash extra s =
     (if \<not> enable_caching s then (None, s)
      else
        (let h = compute_block_hash sha256 parent_hash tokens extra (model_name s) in
         case get_block (cached_block_hash_to_block s) h of
           Some block \<Rightarrow> (Some block, count_hit (upd_blk block (touch_block now) s))
         | None \<Rightarrow> (None, count_miss s)))"

definition register_block_hash ::
    "(string \<Rightarrow> block_hash) \<Rightarrow> ref \<Rightarrow> int list \<Rightarrow> block_hash option \<Rightarrow> extra_keys option \<Rightarrow>
     paged_cache \<Rightarrow> paged_cache" where
  "register_block_hash sha256 block tokens parent_hash extra s =
     (if \<not> enable_caching s then s
      else
        (let h = compute_block_hash sha256 parent_hash tokens extra (model_name s)
         in insert_index h block (upd_blk block (\<lambda>b. b\<lparr>block_hash := Some h\<rparr>) s)))"

subsection \<open>Block tables\<close>

definition put_table :: "table_ref \<Rightarrow> block_table \<Rightarrow> paged_cache \<Rightarrow> paged_cache" where
  "put_table t x s = s\<lparr>table_store := dict_set t x (table_store s)\<rparr>"

text \<open>\<open>BlockTable(request_id=rid)\<close>: a new object, entered under \<open>rid\<close>.\<close>

definition create_block_table :: "string \<Rightarrow> paged_cache \<Rightarrow> table_ref \<times> paged_cache" where
  "create_block_table rid s =
     (let t = length (table_store s);
          s = put_table t \<lparr>request_id = rid, block_ids = [], num_tokens = 0\<rparr> s
      in (t, s\<lparr>request_tables := dict_set rid t (request_tables s)\<rparr>))"

definition get_block_table :: "string \<Rightarrow> paged_cache \<Rightarrow> table_ref option" where
  "get_block_table rid s = dict_get (request_tables s) rid"

definition get_or_create_block_table :: "string \<Rightarrow> paged_cache \<Rightarrow> table_ref \<times> paged_cache" where
  "get_or_create_block_table rid s =
     (case dict_get (request_tables s) rid of
        None \<Rightarrow> create_block_table rid s
      | Some t \<Rightarrow> (t, s))"

definition delete_block_table :: "string \<Rightarrow> (paged_cache, unit) method_st" where
  "delete_block_table rid s =
     (case dict_get (request_tables s) rid of
        None \<Rightarrow> (Inr (), s)
      | Some t \<Rightarrow>
          (let s = s\<lparr>request_tables := dict_del rid (request_tables s)\<rparr> in
           case dict_get (table_store s) t of
             None \<Rightarrow> (Inr (), s)  \<comment> \<open>not reached: every reference has an object\<close>
           | Some x \<Rightarrow> for_each (block_ids x) (\<lambda>bid. bind_st (free_block bid) (\<lambda>_. ret ())) s))"

definition add_block_to_table :: "table_ref \<Rightarrow> ref \<Rightarrow> int \<Rightarrow> paged_cache \<Rightarrow> paged_cache" where
  "add_block_to_table t block n s =
     (case dict_get (table_store s) t of
        None \<Rightarrow> s
      | Some x \<Rightarrow>
          upd_stats (\<lambda>y. y\<lparr>st_total_tokens_cached := st_total_tokens_cached y + n\<rparr>)
            (upd_blk block (\<lambda>b. b\<lparr>token_count := n\<rparr>) (put_table t (add_block (block_id block) n x) s)))"

subsection \<open>Prefix sharing and copy on write\<close>

definition find_shared_prefix ::
    "(string \<Rightarrow> block_hash) \<Rightarrow> rat \<Rightarrow> int list \<Rightarrow> lookup_keys \<Rightarrow>
     (paged_cache, int list \<times> int list) method_st" where
  "find_shared_prefix sha256 now tokens ks =
     bind_st (get_computed_blocks sha256 now tokens ks) (\<lambda>(cached_blocks, num_cached_tokens).
     ret (map block_id cached_blocks, drop (nat num_cached_tokens) tokens))"

definition fork_block_table ::
    "rat \<Rightarrow> table_ref \<Rightarrow> string \<Rightarrow> paged_cache \<Rightarrow> table_ref option \<times> paged_cache" where
  "fork_block_table now source_table new_request_id s =
     (case dict_get (table_store s) source_table of
        None \<Rightarrow> (None, s)
      | Some x \<Rightarrow>
          (let t = length (table_store s);
               s = put_table t (copy_table new_request_id x) s;
               s = fold (\<lambda>bid s. snd (increment_ref now bid s)) (block_ids x) s
           in (Some t, s\<lparr>request_tables := dict_set new_request_id t (request_tables s)\<rparr>)))"

definition cow_copy_block :: "rat \<Rightarrow> ref \<Rightarrow> (paged_cache, ref option) method_st" where
  "cow_copy_block now source_block =
     bind_st (allocate_block now) (\<lambda>new_block.
     case new_block of
       None \<Rightarrow> ret None
     | Some b \<Rightarrow>
         bind_st (modify (\<lambda>s. upd_blk b (\<lambda>x. x\<lparr>token_count := token_count (blk s source_block),
                                block_hash := block_hash (blk s source_block)\<rparr>) s)) (\<lambda>_.
         bind_st (modify (dec_ref source_block)) (\<lambda>_.
         bind_st (modify (\<lambda>s. if ref_count (blk s source_block) = 1
                              then upd_stats (\<lambda>t. t\<lparr>st_shared_blocks := st_shared_blocks t - 1\<rparr>) s
                              else s)) (\<lambda>_.
         ret (Some b)))))"

text \<open>
  The loop of \<open>get_blocks_for_generation\<close> over the positions of the table's block list, whose
  entries it overwrites while it runs.
\<close>

definition set_table_entry :: "table_ref \<Rightarrow> nat \<Rightarrow> int \<Rightarrow> paged_cache \<Rightarrow> paged_cache" where
  "set_table_entry t i bid s =
     (case dict_get (table_store s) t of
        None \<Rightarrow> s
      | Some x \<Rightarrow> put_table t (x\<lparr>block_ids := (block_ids x)[i := bid]\<rparr>) s)"

definition table_ids :: "table_ref \<Rightarrow> paged_cache \<Rightarrow> int list" where
  "table_ids t s = (case dict_get (table_store s) t of None \<Rightarrow> [] | Some x \<Rightarrow> block_ids x)"

text \<open>One block of the loop: the block used for generation, and whether it was copied.\<close>

definition generation_step ::
    "rat \<Rightarrow> table_ref \<Rightarrow> nat \<Rightarrow> ref \<Rightarrow> (paged_cache, ref \<times> bool) method_st" where
  "generation_step now t i block =
     bind_st (\<lambda>s. if is_shared (blk s block) then
                    bind_st (cow_copy_block now block) (\<lambda>copied.
                    case copied of
                      None \<Rightarrow> ret (block, False)
                    | Some b \<Rightarrow>
                        bind_st (modify (set_table_entry t i (block_id b))) (\<lambda>_.
                        bind_st (modify (upd_stats (\<lambda>y. y\<lparr>st_cow_copies := st_cow_copies y + 1\<rparr>))) (\<lambda>_.
                        ret (b, True)))) s
                  else (Inr (block, False), s)) (\<lambda>res.
     bind_st (modify (upd_blk block (touch_block now))) (\<lambda>_. ret res))"

fun generation_loop ::
    "rat \<Rightarrow> table_ref \<Rightarrow> nat list \<Rightarrow> ref list \<Rightarrow> bool \<Rightarrow> (paged_cache, ref list \<times> bool) method_st" where
  "generation_loop now t [] acc was_copied = ret (acc, was_copied)"
| "generation_loop now t (i # is) acc was_copied =
     (\<lambda>s. case dict_get (allocated_blocks s) (table_ids t s ! i) of
            None \<Rightarrow> generation_loop now t is acc was_copied s
          | Some block \<Rightarrow>
              bind_st (generation_step now t i block) (\<lambda>(b, copied).
              generation_loop now t is (acc @ [b]) (was_copied \<or> copied)) s)"

definition get_blocks_for_generation ::
    "rat \<Rightarrow> table_ref \<Rightarrow> (paged_cache, ref list \<times> bool) method_st" where
  "get_blocks_for_generation now t s =
     generation_loop now t [0..<length (table_ids t s)] [] False s"

definition allocate_blocks_for_tokens :: "rat \<Rightarrow> int \<Rightarrow> (paged_cache, ref list) method_st" where
  "allocate_blocks_for_tokens now n s =
     (if block_size s = 0 then (Inl ZeroDivisionError, s)
      else get_new_blocks now ((n + block_size s - 1) div block_size s) s)"

subsection \<open>Eviction\<close>

fun evict_lru_loop :: "nat \<Rightarrow> int \<Rightarrow> (paged_cache, int) method_st" where
  "evict_lru_loop 0 evicted s = (Inr evicted, s)"
| "evict_lru_loop (Suc k) evicted s =
     (case on_queue popleft s of
        (Inl e, s) \<Rightarrow> if e = ValueError then (Inr evicted, s) else (Inl e, s)
      | (Inr block, s) \<Rightarrow>
          (case on_queue (append_block block) (snd (maybe_evict_cached_block block s)) of
             (Inl e, s) \<Rightarrow> (Inl e, s)
           | (Inr _, s) \<Rightarrow> evict_lru_loop k (evicted + 1) s))"

definition evict_lru_blocks :: "int \<Rightarrow> (paged_cache, int) method_st" where
  "evict_lru_blocks num_blocks s =
     evict_lru_loop (nat (min num_blocks (num_free_blocks (free_block_queue s)))) 0 s"

definition handle_memory_pressure :: "int \<Rightarrow> (paged_cache, bool) method_st" where
  "handle_memory_pressure requested_blocks s =
     (if num_free_blocks (free_block_queue s) \<ge> requested_blocks then (Inr True, s)
      else bind_st (evict_lru_blocks (requested_blocks - num_free_blocks (free_block_queue s)))
             (\<lambda>_. gets (\<lambda>s. num_free_blocks (free_block_queue s) \<ge> requested_blocks)) s)"

subsection \<open>Statistics and reset\<close>

definition free_blocks :: "paged_cache \<Rightarrow> int" where
  "free_blocks s = num_free_blocks (free_block_queue s)"

definition usage :: "paged_cache \<Rightarrow> rat" where
  "usage s =
     (let total = max_blocks s - 1
      in if total = 0 then 0 else 1 - of_int (free_blocks s) / of_int total)"

definition get_stats :: "paged_cache \<Rightarrow> paged_stats \<times> paged_cache" where
  "get_stats s =
     (let shared = int (length (filter (\<lambda>b. ref_count (blk s b) > 1) (dict_values (allocated_blocks s))));
          s = upd_stats (\<lambda>t. t\<lparr>st_shared_blocks := shared,
                               st_free_blocks := num_free_blocks (free_block_queue s)\<rparr>) s
      in (stats s, s))"

record memory_usage =
  mu_block_size :: int
  mu_max_blocks :: int
  mu_allocated_blocks :: int
  mu_free_blocks :: int
  mu_shared_blocks :: int
  mu_total_tokens_cached :: int
  mu_utilization :: rat
  mu_cache_hit_rate :: rat

definition get_memory_usage :: "(paged_cache, memory_usage) method_st" where
  "get_memory_usage s =
     (let (st, s) = get_stats s;
          lookups = st_hits st + st_misses st
      in if max_blocks s = 0 then (Inl ZeroDivisionError, s)
         else (Inr \<lparr>mu_block_size = block_size s, mu_max_blocks = max_blocks s,
                 mu_allocated_blocks = st_allocated_blocks st, mu_free_blocks = st_free_blocks st,
                 mu_shared_blocks = st_shared_blocks st,
                 mu_total_tokens_cached = st_total_tokens_cached st,
                 mu_utilization = of_int (st_allocated_blocks st) / of_int (max_blocks s),
                 mu_cache_hit_rate =
                   (if lookups > 0 then of_int (st_hits st) / of_int lookups else 0)\<rparr>, s))"

definition reset_stats :: "paged_cache \<Rightarrow> paged_cache" where
  "reset_stats = upd_stats (\<lambda>t. t\<lparr>st_hits := 0, st_misses := 0, st_cow_copies := 0, st_evictions := 0\<rparr>)"

definition clear_index :: "paged_cache \<Rightarrow> paged_cache" where
  "clear_index s =
     s\<lparr>cached_block_hash_to_block := [],
       cleared := (if clear_hook s then Suc (cleared s) else cleared s)\<rparr>"

definition reset_prefix_cache :: "paged_cache \<Rightarrow> bool \<times> paged_cache" where
  "reset_prefix_cache s =
     (let num_used = max_blocks s - num_free_blocks (free_block_queue s)
      in if num_used > 1 then (False, s)
         else
           (let s = fold (\<lambda>b. upd_blk b reset_hash) (blocks s) (clear_index s)
            in (True, upd_stats (\<lambda>t. t\<lparr>st_evictions := 0, st_hits := 0, st_misses := 0\<rparr>) s)))"

text \<open>
  \<open>clear\<close> builds new block objects; here they take the identities of the objects of the same
  \<^verbatim>\<open>block_id\<close> that they replace, so a reference kept from before a clear is not told apart
  from one obtained after it.
\<close>

definition clear :: "rat \<Rightarrow> (paged_cache, int) method_st" where
  "clear now s =
     (let cleared_count = int (length (allocated_blocks s)) - 1;
          initial_count = min (initial_blocks s) (max_blocks s);
          rs = new_refs 0 initial_count;
          s = s\<lparr>current_allocated_count := initial_count, blocks := rs,
                free_block_queue := init_queue now rs (create_blocks now rs (\<lambda>_. new_block now))\<rparr>;
          s = (clear_index s)\<lparr>request_tables := [], allocated_blocks := []\<rparr>
      in bind_st reserve_null (\<lambda>_.
         bind_st (modify (upd_stats (\<lambda>_. fresh_stats initial_count))) (\<lambda>_.
         ret (max 0 cleared_count))) s)"

subsection \<open>SSD support and reporting\<close>

text \<open>
  The walk along the free queue stops at the sentinel or with \<open>count\<close> candidates; on a cyclic
  list without enough candidates it does not return (\<open>None\<close>).
\<close>

partial_function (option) evictable_walk ::
    "block_heap \<Rightarrow> int \<Rightarrow> ref option \<Rightarrow> ref list \<Rightarrow> ref list option" where
  "evictable_walk h count cur acc =
     (case cur of
        None \<Rightarrow> Some acc
      | Some c \<Rightarrow>
          if c = FakeTail \<or> int (length acc) \<ge> count then Some acc
          else evictable_walk h count (next_free_block (h c))
                 (if \<not> is_null (h c) \<and> ref_count (h c) = 0 then acc @ [c] else acc))"

definition get_evictable_blocks :: "int \<Rightarrow> paged_cache \<Rightarrow> ref list option" where
  "get_evictable_blocks count s =
     (let h = heap (free_block_queue s) in
      case evictable_walk h count (next_free_block (h FakeHead)) [] of
        None \<Rightarrow> None
      | Some candidates \<Rightarrow>
          if int (length candidates) < count then
            (let rest = filter (\<lambda>b. \<not> is_null (h b) \<and> ref_count (h b) = 0 \<and> b \<notin> set candidates)
                          (dict_values (allocated_blocks s));
                 rest = sort_key (\<lambda>b. last_access (h b)) rest;
                 candidates = candidates @ take (nat (count - int (length candidates))) rest
             in Some (take (nat count) candidates))
          else Some (take (nat count) candidates))"

text \<open>\<^verbatim>\<open>self.blocks[block_id] if block_id < len(self.blocks) else None\<close>\<close>

definition lookup_block :: "int \<Rightarrow> paged_cache \<Rightarrow> ref option res" where
  "lookup_block bid s =
     (if bid < int (length (blocks s))
      then (case py_nth (blocks s) bid of Inl e \<Rightarrow> Inl e | Inr b \<Rightarrow> Inr (Some b))
      else Inr None)"

definition mark_block_cold :: "int \<Rightarrow> (paged_cache, bool) method_st" where
  "mark_block_cold bid s =
     (case lookup_block bid s of
        Inl e \<Rightarrow> (Inl e, s)
      | Inr None \<Rightarrow> (Inr False, s)
      | Inr (Some block) \<Rightarrow>
          if ref_count (blk s block) > 0 then (Inr False, s)
          else if is_null (blk s block) then (Inr False, s)
          else (Inr True, upd_stats (\<lambda>t. t\<lparr>st_evictions := st_evictions t + 1\<rparr>) s))"

definition evict_block_permanently :: "int \<Rightarrow> (paged_cache, bool) method_st" where
  "evict_block_permanently bid s =
     (case lookup_block bid s of
        Inl e \<Rightarrow> (Inl e, s)
      | Inr None \<Rightarrow> (Inr False, s)
      | Inr (Some block) \<Rightarrow>
          if ref_count (blk s block) > 0 then (Inr False, s)
          else if is_null (blk s block) then (Inr False, s)
          else
            (let s = unindex block s;
                 s = upd_blk block (\<lambda>b. (reset_hash b)\<lparr>token_count := 0\<rparr>) s;
                 s = (if dict_get (allocated_blocks s) bid \<noteq> None
                      then upd_stats (\<lambda>t. t\<lparr>st_allocated_blocks := st_allocated_blocks t - 1\<rparr>)
                             (s\<lparr>allocated_blocks := dict_del bid (allocated_blocks s)\<rparr>)
                      else s)
             in bind_st (on_queue (append_block block)) (\<lambda>_.
                bind_st (modify (upd_stats (\<lambda>t. t\<lparr>st_free_blocks := st_free_blocks t + 1,
                                                  st_evictions := st_evictions t + 1\<rparr>))) (\<lambda>_.
                ret True)) s))"

definition restore_block :: "rat \<Rightarrow> int \<Rightarrow> (paged_cache, bool) method_st" where
  "restore_block now bid s =
     (case lookup_block bid s of
        Inl e \<Rightarrow> (Inl e, s)
      | Inr None \<Rightarrow> (Inr False, s)
      | Inr (Some block) \<Rightarrow> (Inr True, upd_blk block (touch_block now) s))"

definition get_cold_blocks :: "paged_cache \<Rightarrow> ref list" where
  "get_cold_blocks s =
     filter (\<lambda>b. block_hash (blk s b) \<noteq> None \<and> \<not> is_null (blk s b)) (blocks s)"

definition cold_block_count :: "paged_cache \<Rightarrow> int" where
  "cold_block_count s = int (length (get_cold_blocks s))"

definition get_ref_count_distribution :: "paged_cache \<Rightarrow> (int, int) dict" where
  "get_ref_count_distribution s =
     fold (\<lambda>b d. let rc = ref_count (blk s b)
                 in dict_set rc ((case dict_get d rc of None \<Rightarrow> 0 | Some n \<Rightarrow> n) + 1) d)
       (dict_values (allocated_blocks s)) []"

fun join_parts :: "string list \<Rightarrow> string" where
  "join_parts [] = []"
| "join_parts [x] = x"
| "join_parts (x # y # ys) = x @ '','' @ join_parts (y # ys)"

definition get_ref_count_summary :: "paged_cache \<Rightarrow> string" where
  "get_ref_count_summary s =
     (let dist = get_ref_count_distribution s in
      if dist = [] then ''rc=none''
      else
        (let ssd_count = int (length (filter
               (\<lambda>b. ref_count (blk s b) = 0 \<and> block_hash (blk s b) \<noteq> None)
               (dict_values (allocated_blocks s))))
         in join_parts (map (\<lambda>(k, v).
              if k = 0 then ''rc0='' @ show_int v @ ''(ssd='' @ show_int ssd_count @ '')''
              else ''rc'' @ show_int k @ ''='' @ show_int v) (sort_key fst dist))))"

subsection \<open>The \<open>CacheManager\<close> interface\<close>

text \<open>A key of the generic interface: a hash, a block number, or any other object.\<close>

datatype cache_key = HashKey block_hash | IdKey int | OtherKey

fun fetch :: "cache_key \<Rightarrow> paged_cache \<Rightarrow> (ref option \<times> bool) \<times> paged_cache" where
  "fetch (HashKey h) s =
     (case get_cached_block h s of
        (Some b, s) \<Rightarrow> ((Some b, True), s)
      | (None, s) \<Rightarrow> ((None, False), s))"
| "fetch _ s = ((None, False), s)"

fun store :: "cache_key \<Rightarrow> ref option \<Rightarrow> paged_cache \<Rightarrow> bool \<times> paged_cache" where
  "store (HashKey h) (Some block) s =
     (True, insert_index h block (upd_blk block (\<lambda>b. b\<lparr>block_hash := Some h\<rparr>) s))"
| "store _ _ s = (False, s)"

fun evict :: "cache_key \<Rightarrow> (paged_cache, bool) method_st" where
  "evict (HashKey h) =
     (\<lambda>s. case get_block (cached_block_hash_to_block s) h of
            Some block \<Rightarrow> evict_block_permanently (block_id block) s
          | None \<Rightarrow> (Inr False, s))"
| "evict (IdKey bid) = evict_block_permanently bid"
| "evict OtherKey = ret False"

definition size_prop :: "paged_cache \<Rightarrow> int" where
  "size_prop s = max 0 (int (length (allocated_blocks s)) - 1)"

definition max_size :: "paged_cache \<Rightarrow> int" where
  "max_size s = max_blocks s"

end
