(* ===== verification/PoolInvariant.thy ===== *)
theory PoolInvariant
  imports PagedCache
begin

section \<open>The invariant of the block pool\<close>

text \<open>
  \<open>pool s fs T\<close>: the blocks are exactly the objects \<open>Blk 0, ..., Blk (n - 1)\<close>, never more
  than \<open>max_blocks\<close>; every one of them is in exactly one of the free queue (\<open>fs\<close>, in eviction
  order), the table of allocated blocks, and the set \<open>T\<close> of blocks a method is moving from
  one to the other; the null block is allocated; a block in the queue has no references.
\<close>

definition in_use :: "paged_cache \<Rightarrow> ref set" where
  "in_use s = ran (map_of (allocated_blocks s))"

definition pool :: "paged_cache \<Rightarrow> ref list \<Rightarrow> ref set \<Rightarrow> bool" where
  "pool s fs T \<longleftrightarrow>
     blocks s = new_refs 0 (current_allocated_count s) \<and>
     0 < current_allocated_count s \<and> current_allocated_count s \<le> max_blocks s \<and>
     fq_ok (free_block_queue s) fs \<and>
     dict_ok (allocated_blocks s) \<and>
     (\<forall>k b. dict_get (allocated_blocks s) k = Some b \<longrightarrow> k = block_id b) \<and>
     set fs \<inter> in_use s = {} \<and> set fs \<inter> T = {} \<and> in_use s \<inter> T = {} \<and>
     set fs \<union> in_use s \<union> T = set (blocks s) \<and>
     null_block s \<in> in_use s \<and>
     (\<forall>b \<in> set (blocks s). is_null (blk s b) \<longleftrightarrow> b = null_block s) \<and>
     (\<forall>b \<in> set fs. ref_count (blk s b) \<le> 0)"

definition stats_ok :: "paged_cache \<Rightarrow> bool" where
  "stats_ok s \<longleftrightarrow>
     st_allocated_blocks (stats s) = int (length (allocated_blocks s)) \<and>
     st_free_blocks (stats s) = num_free_blocks (free_block_queue s) \<and>
     st_total_blocks (stats s) = current_allocated_count s"

text \<open>An index entry points at an allocated block that carries the entry's hash.\<close>

definition index_inv :: "paged_cache \<Rightarrow> bool" where
  "index_inv s \<longleftrightarrow>
     index_ok (cached_block_hash_to_block s) \<and>
     (\<forall>h b. b \<in> blocks_of (cached_block_hash_to_block s) h \<longrightarrow>
        block_hash (blk s b) = Some h \<and> b \<in> in_use s)"

definition cache_inv :: "paged_cache \<Rightarrow> bool" where
  "cache_inv s \<longleftrightarrow> (\<exists>fs. pool s fs {}) \<and> stats_ok s \<and> index_inv s"

subsection \<open>What the field updates leave alone\<close>

lemma blk_frame [frame_simps]:
  "blk (s\<lparr>stats := x\<rparr>) = blk s" "blk (s\<lparr>cached_block_hash_to_block := c\<rparr>) = blk s"
  "blk (s\<lparr>table_store := ts\<rparr>) = blk s" "blk (s\<lparr>request_tables := rt\<rparr>) = blk s"
  "blk (s\<lparr>dropped := d\<rparr>) = blk s" "blk (s\<lparr>cleared := n\<rparr>) = blk s"
  "blk (s\<lparr>allocated_blocks := a\<rparr>) = blk s" "blk (s\<lparr>null_block := nb\<rparr>) = blk s"
  by (simp_all add: blk_def fun_eq_iff)

lemma in_use_frame [frame_simps]:
  "in_use (s\<lparr>stats := x\<rparr>) = in_use s" "in_use (s\<lparr>cached_block_hash_to_block := c\<rparr>) = in_use s"
  "in_use (s\<lparr>table_store := ts\<rparr>) = in_use s" "in_use (s\<lparr>request_tables := rt\<rparr>) = in_use s"
  "in_use (s\<lparr>dropped := d\<rparr>) = in_use s" "in_use (s\<lparr>cleared := n\<rparr>) = in_use s"
  "in_use (s\<lparr>free_block_queue := q\<rparr>) = in_use s" "in_use (upd_blk b f s) = in_use s"
  "in_use (upd_stats g s) = in_use s"
  by (simp_all add: in_use_def upd_blk_def upd_stats_def)

lemma pool_frame [frame_simps]:
  "pool (s\<lparr>stats := x\<rparr>) fs T = pool s fs T"
  "pool (s\<lparr>cached_block_hash_to_block := c\<rparr>) fs T = pool s fs T"
  "pool (s\<lparr>table_store := ts\<rparr>) fs T = pool s fs T" "pool (s\<lparr>request_tables := rt\<rparr>) fs T = pool s fs T"
  "pool (s\<lparr>dropped := d\<rparr>) fs T = pool s fs T" "pool (s\<lparr>cleared := n\<rparr>) fs T = pool s fs T"
  "pool (upd_stats g s) fs T = pool s fs T"
  by (simp_all add: pool_def frame_simps upd_stats_def)

lemma blk_upd_blk [simp]: "blk (upd_blk b f s) r = (if r = b then f (blk s b) else blk s r)"
  by (simp add: blk_def upd_blk_def)

lemma blk_upd_stats [simp]: "blk (upd_stats g s) = blk s"
  by (simp add: blk_def upd_stats_def fun_eq_iff)

lemma upd_sel [simp]:
  "stats (upd_blk b f s) = stats s" "stats (upd_stats g s) = g (stats s)"
  "blocks (upd_blk b f s) = blocks s" "blocks (upd_stats g s) = blocks s"
  "allocated_blocks (upd_blk b f s) = allocated_blocks s"
  "allocated_blocks (upd_stats g s) = allocated_blocks s"
  "cached_block_hash_to_block (upd_blk b f s) = cached_block_hash_to_block s"
  "cached_block_hash_to_block (upd_stats g s) = cached_block_hash_to_block s"
  "current_allocated_count (upd_blk b f s) = current_allocated_count s"
  "current_allocated_count (upd_stats g s) = current_allocated_count s"
  "max_blocks (upd_blk b f s) = max_blocks s" "max_blocks (upd_stats g s) = max_blocks s"
  "null_block (upd_blk b f s) = null_block s" "null_block (upd_stats g s) = null_block s"
  "num_free_blocks (free_block_queue (upd_blk b f s)) = num_free_blocks (free_block_queue s)"
  "free_block_queue (upd_stats g s) = free_block_queue s"
  by (simp_all add: upd_blk_def upd_stats_def)

subsection \<open>Reading the invariant\<close>

lemma pool_facts:
  assumes "pool s fs T"
  shows "blocks s = new_refs 0 (current_allocated_count s)"
    and "0 < current_allocated_count s" and "current_allocated_count s \<le> max_blocks s"
    and "fq_ok (free_block_queue s) fs" and "dict_ok (allocated_blocks s)"
    and "dict_get (allocated_blocks s) k = Some b \<Longrightarrow> k = block_id b"
    and "set fs \<inter> in_use s = {}" and "set fs \<inter> T = {}" and "in_use s \<inter> T = {}"
    and "set fs \<union> in_use s \<union> T = set (blocks s)"
    and "null_block s \<in> in_use s"
    and "b \<in> set (blocks s) \<Longrightarrow> is_null (blk s b) \<longleftrightarrow> b = null_block s"
    and "b \<in> set fs \<Longrightarrow> ref_count (blk s b) \<le> 0"
  using assms by (simp_all add: pool_def)

lemma in_use_iff:
  "pool s fs T \<Longrightarrow> b \<in> in_use s \<longleftrightarrow> dict_get (allocated_blocks s) (block_id b) = Some b"
  unfolding in_use_def by (rule mem_refs) (simp add: pool_def)

lemma new_refs_mem: "b \<in> set (new_refs i n) \<Longrightarrow> \<exists>k. b = Blk k \<and> nat i \<le> k \<and> k < nat (i + n)"
  by (auto simp: new_refs_def)

lemma block_not_sentinel:
  "pool s fs T \<Longrightarrow> b \<in> set (blocks s) \<Longrightarrow> b \<noteq> FakeHead \<and> b \<noteq> FakeTail"
  by (drule pool_facts(1)) (auto dest: new_refs_mem)

lemma pool_queue_length:
  "pool s fs T \<Longrightarrow> num_free_blocks (free_block_queue s) = int (length fs)"
  by (drule pool_facts(4)) (simp add: fq_ok_def)

lemma in_use_card: "pool s fs T \<Longrightarrow> card (in_use s) = length (allocated_blocks s)"
proof -
  assume p: "pool s fs T"
  have "inj_on snd (set (allocated_blocks s))"
  proof (rule inj_onI)
    fix x y assume "x \<in> set (allocated_blocks s)" "y \<in> set (allocated_blocks s)" "snd x = snd y"
    then show "x = y"
      using pool_facts(5,6) [OF p] by (metis map_of_is_SomeI prod.collapse)
  qed
  moreover have "in_use s = snd ` set (allocated_blocks s)"
    unfolding in_use_def using pool_facts(5) [OF p] by (rule ran_distinct)
  ultimately show ?thesis
    using pool_facts(5) [OF p] by (simp add: card_image distinct_card distinct_map)
qed

text \<open>The pool is accounted for: free, allocated and moving blocks add up to the pool size.\<close>

lemma pool_count:
  assumes "pool s fs T"
  shows "int (length fs) + int (length (allocated_blocks s)) + int (card T) =
    current_allocated_count s"
proof -
  note p = pool_facts [OF assms]
  have "finite (set (blocks s))" by simp
  with p(10) have "finite (in_use s)" "finite T" by (metis finite_Un)+
  moreover have "card (set fs) = length fs"
    using p(4) by (simp add: fq_ok_def distinct_card)
  moreover have "card (set (blocks s)) = nat (current_allocated_count s)"
    by (simp add: p(1) new_refs_def card_image inj_on_def)
  moreover have "card (set fs \<union> in_use s \<union> T) = card (set fs) + card (in_use s) + card T"
    using p(7-9) calculation by (subst card_Un_disjoint; auto simp: card_Un_disjoint)
  ultimately show ?thesis
    using p(2,10) in_use_card [OF assms] by simp
qed

subsection \<open>The primitive moves\<close>

lemma on_queue_frame:
  "snd (on_queue op s) = s\<lparr>free_block_queue := snd (op (free_block_queue s))\<rparr>"
  "fst (on_queue op s) = fst (op (free_block_queue s))"
  by (simp_all add: on_queue_def split: prod.splits)

text \<open>Replacing the queue by one with the same block metadata.\<close>

lemma blk_new_queue:
  assumes "\<And>r. meta (heap q r) = meta (heap (free_block_queue s) r)"
  shows "ref_count (blk (s\<lparr>free_block_queue := q\<rparr>) r) = ref_count (blk s r)"
    and "block_hash (blk (s\<lparr>free_block_queue := q\<rparr>) r) = block_hash (blk s r)"
    and "is_null (blk (s\<lparr>free_block_queue := q\<rparr>) r) = is_null (blk s r)"
    and "token_count (blk (s\<lparr>free_block_queue := q\<rparr>) r) = token_count (blk s r)"
  using meta_eqD [OF assms, of r] by (simp_all add: blk_def)

lemma pool_new_queue:
  assumes "pool s fs T" and "\<And>r. meta (heap q r) = meta (heap (free_block_queue s) r)"
    and "fq_ok q fs'" and "set fs' \<union> T' = set fs \<union> T" and "set fs' \<inter> T' = {}"
    and "\<And>b. b \<in> set fs' \<Longrightarrow> ref_count (blk s b) \<le> 0"
  shows "pool (s\<lparr>free_block_queue := q\<rparr>) fs' T'"
proof -
  have "set fs' \<inter> in_use s = {}" "in_use s \<inter> T' = {}" "set fs' \<union> in_use s \<union> T' = set (blocks s)"
    using pool_facts(7-10) [OF assms(1)] assms(4) by blast+
  then show ?thesis
    using assms pool_facts [OF assms(1)] by (simp add: pool_def frame_simps blk_new_queue)
qed

lemma pool_popleft:
  assumes "pool s (b # fs) T"
  obtains q where "on_queue popleft s = (Inr b, s\<lparr>free_block_queue := q\<rparr>)"
    and "pool (s\<lparr>free_block_queue := q\<rparr>) fs (insert b T)"
    and "\<And>r. meta (heap q r) = meta (heap (free_block_queue s) r)"
    and "num_free_blocks q = num_free_blocks (free_block_queue s) - 1"
proof
  let ?q = "snd (popleft (free_block_queue s))"
  note ok = pool_facts(4) [OF assms]
  show "on_queue popleft s = (Inr b, s\<lparr>free_block_queue := ?q\<rparr>)"
    using fq.pop_result [OF ok] by (intro prod_eqI) (simp_all add: on_queue_frame)
  have nf: "b \<notin> set fs" using fq.rep_distinct [OF ok] by simp
  show "pool (s\<lparr>free_block_queue := ?q\<rparr>) fs (insert b T)"
    using pool_facts(8,13) [OF assms] nf
    by (intro pool_new_queue [OF assms]) (auto simp: fq_meta intro: fq.pop_rep [OF ok])
  show "meta (heap ?q r) = meta (heap (free_block_queue s) r)" for r by (simp add: fq_meta)
  show "num_free_blocks ?q = num_free_blocks (free_block_queue s) - 1"
    using fq.pop_rep [OF ok] ok by (simp add: fq_ok_def)
qed

lemma pool_append:
  assumes "pool s fs (insert b T)" and "b \<notin> T" and "ref_count (blk s b) \<le> 0"
  obtains q where "on_queue (append_block b) s = (Inr (), s\<lparr>free_block_queue := q\<rparr>)"
    and "pool (s\<lparr>free_block_queue := q\<rparr>) (fs @ [b]) T"
    and "\<And>r. meta (heap q r) = meta (heap (free_block_queue s) r)"
    and "num_free_blocks q = num_free_blocks (free_block_queue s) + 1"
proof
  let ?q = "snd (append_block b (free_block_queue s))"
  note ok = pool_facts(4) [OF assms(1)]
  have b: "b \<in> set (blocks s)" "b \<notin> set fs"
    using pool_facts(8,10) [OF assms(1)] by auto
  with pool_facts(1) [OF assms(1)] obtain i where i: "b = Blk i" by (auto dest: new_refs_mem)
  show "on_queue (append_block b) s = (Inr (), s\<lparr>free_block_queue := ?q\<rparr>)"
    using fq.push_result [OF ok] b i by (intro prod_eqI) (simp_all add: on_queue_frame)
  have ok': "fq_ok ?q (fs @ [b])" using fq.push_rep [OF ok] b i by simp
  show "pool (s\<lparr>free_block_queue := ?q\<rparr>) (fs @ [b]) T"
    using pool_facts(8,13) [OF assms(1)] assms(2,3)
    by (intro pool_new_queue [OF assms(1) _ ok']) (auto simp: fq_meta)
  show "meta (heap ?q r) = meta (heap (free_block_queue s) r)" for r by (simp add: fq_meta)
  show "num_free_blocks ?q = num_free_blocks (free_block_queue s) + 1"
    using ok' ok by (simp add: fq_ok_def)
qed

lemma pool_remove:
  assumes "pool s fs T" and "b \<in> set fs"
  obtains q where "on_queue (remove_block b) s = (Inr (), s\<lparr>free_block_queue := q\<rparr>)"
    and "pool (s\<lparr>free_block_queue := q\<rparr>) (remove1 b fs) (insert b T)"
    and "\<And>r. meta (heap q r) = meta (heap (free_block_queue s) r)"
    and "num_free_blocks q = num_free_blocks (free_block_queue s) - 1"
proof
  let ?q = "snd (remove_block b (free_block_queue s))"
  note ok = pool_facts(4) [OF assms(1)]
  from assms(2) obtain ys zs where fs: "fs = ys @ b # zs" "b \<notin> set ys" by (metis split_list_first)
  then have r1: "remove1 b fs = ys @ zs" by (simp add: remove1_append)
  have d: "distinct fs" using fq.rep_distinct [OF ok] .
  show "on_queue (remove_block b) s = (Inr (), s\<lparr>free_block_queue := ?q\<rparr>)"
    using fq.drop_out_result [of "free_block_queue s" ys b zs] ok fs
    by (intro prod_eqI) (simp_all add: on_queue_frame)
  have ok': "fq_ok ?q (remove1 b fs)" using fq.drop_out_rep ok fs r1 by metis
  show "pool (s\<lparr>free_block_queue := ?q\<rparr>) (remove1 b fs) (insert b T)"
    using pool_facts(8,13) [OF assms(1)] fs d
    by (intro pool_new_queue [OF assms(1) _ ok']) (auto simp: fq_meta r1)
  show "meta (heap ?q r) = meta (heap (free_block_queue s) r)" for r by (simp add: fq_meta)
  show "num_free_blocks ?q = num_free_blocks (free_block_queue s) - 1"
    using ok' ok fs r1 by (simp add: fq_ok_def)
qed

lemma dll_links_cong:
  "(\<And>r. next_free_block (h' r) = next_free_block (h r) \<and> prev_free_block (h' r) = prev_free_block (h r))
    \<Longrightarrow> dll h' a xs b = dll h a xs b"
  by (induction xs arbitrary: a) auto

lemma fq_ok_links_cong:
  assumes "\<And>r. next_free_block (h' r) = next_free_block (heap q r) \<and>
      prev_free_block (h' r) = prev_free_block (heap q r)"
  shows "fq_ok (q\<lparr>heap := h'\<rparr>) xs = fq_ok q xs"
  using assms by (simp add: fq_ok_def dll_links_cong [of h' "heap q"])

definition data_update :: "(cache_block \<Rightarrow> cache_block) \<Rightarrow> bool" where
  "data_update f \<longleftrightarrow> (\<forall>x. next_free_block (f x) = next_free_block x \<and>
     prev_free_block (f x) = prev_free_block x \<and> is_null (f x) = is_null x)"

lemma pool_upd_blk:
  assumes "pool s fs T" and "data_update f" and "b \<in> set fs \<Longrightarrow> ref_count (f (blk s b)) \<le> 0"
  shows "pool (upd_blk b f s) fs T"
proof -
  have "fq_ok (free_block_queue (upd_blk b f s)) fs"
    using pool_facts(4) [OF assms(1)] assms(2)
    by (simp add: upd_blk_def) (subst fq_ok_links_cong, auto simp: data_update_def blk_def)
  then show ?thesis
    using assms pool_facts [OF assms(1)] by (auto simp: pool_def frame_simps data_update_def)
qed

lemma in_use_set:
  assumes "pool s fs T"
  shows "in_use (s\<lparr>allocated_blocks := dict_set (block_id b) b (allocated_blocks s)\<rparr>) = insert b (in_use s)"
  using pool_facts(6) [OF assms] refs_set [of "allocated_blocks s" b]
  by (simp add: in_use_def del: dict_get_set)

lemma in_use_del:
  assumes "pool s fs T"
  shows "in_use (s\<lparr>allocated_blocks := dict_del (block_id b) (allocated_blocks s)\<rparr>) = in_use s - {b}"
  using pool_facts(6) [OF assms] refs_del [of "allocated_blocks s" b]
  by (simp add: in_use_def del: dict_get_del)

lemma pool_enter:
  assumes "pool s fs (insert b T)" and "b \<notin> T"
  shows "pool (s\<lparr>allocated_blocks := dict_set (block_id b) b (allocated_blocks s)\<rparr>) fs T"
  using assms pool_facts(5-13) [OF assms(1)] in_use_set [OF assms(1), of b]
  by (auto simp: pool_def frame_simps)

lemma pool_leave:
  assumes "pool s fs T" and "b \<in> in_use s" and "b \<noteq> null_block s"
  shows "pool (s\<lparr>allocated_blocks := dict_del (block_id b) (allocated_blocks s)\<rparr>) fs (insert b T)"
proof -
  note p = pool_facts [OF assms(1)]
  have "b \<notin> set fs" "b \<notin> T" using p(7,9) assms(2) by blast+
  then show ?thesis
    using assms p in_use_del [OF assms(1), of b]
    by (simp add: pool_def frame_simps) blast
qed

lemma fresh_refs_disjoint:
  assumes "pool s fs T" and "r \<in> set (new_refs (current_allocated_count s) n)"
  shows "r \<notin> set (blocks s)" and "r \<noteq> FakeHead" and "r \<noteq> FakeTail"
  using assms(2) pool_facts(1,2) [OF assms(1)] by (auto simp: new_refs_def)

lemma new_refs_append:
  assumes "0 \<le> m" and "0 \<le> n"
  shows "new_refs 0 m @ new_refs m n = new_refs 0 (m + n)"
proof -
  have "nat (m + n) = nat m + nat n" using assms by simp
  then show ?thesis
    using upt_add_eq_append [of 0 "nat m" "nat n"] by (simp add: new_refs_def flip: map_append)
qed

lemma pool_grow:
  fixes now :: rat
  assumes p: "pool s fs T" and n: "0 < n" "current_allocated_count s + n \<le> max_blocks s"
  defines "rs \<equiv> new_refs (current_allocated_count s) n"
  defines "s1 \<equiv> s\<lparr>free_block_queue := (free_block_queue s)
      \<lparr>heap := create_blocks now rs (heap (free_block_queue s))\<rparr>, blocks := blocks s @ rs\<rparr>"
  shows "fst (on_queue (append_n rs) s1) = Inr ()"
    and "pool ((snd (on_queue (append_n rs) s1))\<lparr>current_allocated_count := current_allocated_count s + n\<rparr>)
      (fs @ rs) T"
    and "index_inv s \<Longrightarrow>
      index_inv ((snd (on_queue (append_n rs) s1))\<lparr>current_allocated_count := current_allocated_count s + n\<rparr>)"
proof -
  note f = pool_facts [OF p]
  note fresh = fresh_refs_disjoint [OF p, of _ n, folded rs_def]
  let ?q1 = "free_block_queue s1"
  have q1: "heap ?q1 r = (if r \<in> set rs then new_block now else heap (free_block_queue s) r)" for r
    by (simp add: s1_def create_blocks_def)
  have "distinct rs" by (simp add: rs_def new_refs_def distinct_map inj_on_def)
  have links: "next_free_block (heap ?q1 r) = next_free_block (heap (free_block_queue s) r) \<and>
      prev_free_block (heap ?q1 r) = prev_free_block (heap (free_block_queue s) r)" for r
  proof (cases "r \<in> set rs")
    case True
    then have "r \<notin> set fs" "r \<noteq> FakeHead" "r \<noteq> FakeTail" using fresh f(10) by auto
    then have "next_free_block (heap (free_block_queue s) r) = None \<and>
        prev_free_block (heap (free_block_queue s) r) = None"
      using f(4) by (simp add: fq_ok_def)
    with True show ?thesis by (simp add: q1 new_block_def)
  qed (simp add: q1)
  then have ok1: "fq_ok ?q1 fs"
    using f(4) by (simp add: s1_def) (subst fq_ok_links_cong, auto simp: create_blocks_def)
  have disj: "set rs \<inter> set fs = {}" "FakeHead \<notin> set rs" "FakeTail \<notin> set rs"
    using fresh f(10) by auto
  note app = append_n_ok [OF ok1 \<open>distinct rs\<close>]
  show "fst (on_queue (append_n rs) s1) = Inr ()"
    using disj by (simp add: on_queue_frame app)
  let ?q = "snd (append_n rs ?q1)" and ?s = "(snd (on_queue (append_n rs) s1))
      \<lparr>current_allocated_count := current_allocated_count s + n\<rparr>"
  have okq: "fq_ok ?q (fs @ rs)" using disj by (intro app) auto
  have s: "?s = s\<lparr>free_block_queue := ?q, blocks := blocks s @ rs,
      current_allocated_count := current_allocated_count s + n\<rparr>"
    by (simp add: on_queue_frame) (simp add: s1_def)
  have m: "meta (heap ?q r) = meta (if r \<in> set rs then new_block now else blk s r)" for r
    by (simp add: fq_meta q1 blk_def)
  have b: "ref_count (blk ?s r) = (if r \<in> set rs then 0 else ref_count (blk s r))"
      "is_null (blk ?s r) = (if r \<in> set rs then False else is_null (blk s r))"
      "block_hash (blk ?s r) = (if r \<in> set rs then None else block_hash (blk s r))" for r
    using meta_eqD [OF m, of r] by (auto simp: s blk_def new_block_def)
  have bl: "blocks s @ rs = new_refs 0 (current_allocated_count s + n)"
    using f(2) n(1) by (simp add: f(1) rs_def new_refs_append)
  have iu: "in_use ?s = in_use s" by (simp add: s in_use_def)
  have nr: "null_block s \<notin> set rs" using fresh(1) f(10,11) by blast
  show "pool ?s (fs @ rs) T"
  proof -
    have sel: "blocks ?s = blocks s @ rs" "free_block_queue ?s = ?q"
        "allocated_blocks ?s = allocated_blocks s" "null_block ?s = null_block s"
        "max_blocks ?s = max_blocks s"
        "current_allocated_count ?s = current_allocated_count s + n"
      by (simp_all add: s)
    have "set (fs @ rs) \<inter> in_use s = {}" "set (fs @ rs) \<inter> T = {}"
        "set (fs @ rs) \<union> in_use s \<union> T = set (blocks s @ rs)"
      using f(7,8,10) fresh(1) by auto
    moreover have "is_null (blk ?s x) = (x = null_block s)" if "x \<in> set (blocks s @ rs)" for x
      using that f(12) fresh(1) nr by (auto simp: b)
    moreover have "ref_count (blk ?s x) \<le> 0" if "x \<in> set (fs @ rs)" for x
      using that f(13) by (auto simp: b)
    ultimately show ?thesis
      using okq f(2,5,6,9,11) n bl by (simp add: pool_def iu sel)
  qed
  show "index_inv ?s" if "index_inv s"
  proof -
    have ix: "cached_block_hash_to_block ?s = cached_block_hash_to_block s" by (simp add: s)
    from that fresh(1) f(10) show ?thesis unfolding index_inv_def iu ix by (auto simp: b)
  qed
qed

subsection \<open>The index part\<close>

definition unindexed :: "ref \<Rightarrow> paged_cache \<Rightarrow> bool" where
  "unindexed b s \<longleftrightarrow> (\<forall>h. b \<notin> blocks_of (cached_block_hash_to_block s) h)"

lemma index_inv_frame [frame_simps]:
  "index_inv (s\<lparr>stats := x\<rparr>) = index_inv s"
  "index_inv (s\<lparr>table_store := ts\<rparr>) = index_inv s" "index_inv (s\<lparr>request_tables := rt\<rparr>) = index_inv s"
  "index_inv (s\<lparr>dropped := d\<rparr>) = index_inv s" "index_inv (s\<lparr>cleared := n\<rparr>) = index_inv s"
  "index_inv (upd_stats g s) = index_inv s"
  "unindexed b (upd_stats g s) = unindexed b s" "unindexed b (upd_blk r f s) = unindexed b s"
  "unindexed b (s\<lparr>dropped := d\<rparr>) = unindexed b s"
  "unindexed b (s\<lparr>allocated_blocks := a\<rparr>) = unindexed b s"
  by (simp_all add: index_inv_def unindexed_def frame_simps)

lemma not_in_use_unindexed: "index_inv s \<Longrightarrow> b \<notin> in_use s \<Longrightarrow> unindexed b s"
  by (auto simp: index_inv_def unindexed_def)

lemma index_inv_upd_blk:
  assumes "index_inv s" and "\<And>h. block_hash (blk s b) = Some h \<Longrightarrow> \<not> unindexed b s \<Longrightarrow>
      block_hash (f (blk s b)) = Some h"
  shows "index_inv (upd_blk b f s)"
  using assms by (auto simp: index_inv_def frame_simps unindexed_def)

lemma index_inv_new_queue:
  assumes "index_inv s" and "\<And>r. meta (heap q r) = meta (heap (free_block_queue s) r)"
  shows "index_inv (s\<lparr>free_block_queue := q\<rparr>)"
  using assms by (simp add: index_inv_def frame_simps blk_new_queue)

lemma index_inv_enter:
  assumes "pool s fs T" and "index_inv s"
  shows "index_inv (s\<lparr>allocated_blocks := dict_set (block_id b) b (allocated_blocks s)\<rparr>)"
  using assms(2) in_use_set [OF assms(1), of b] by (auto simp: index_inv_def frame_simps)

lemma index_inv_leave:
  assumes "pool s fs T" and "index_inv s" and "unindexed b s"
  shows "index_inv (s\<lparr>allocated_blocks := dict_del (block_id b) (allocated_blocks s)\<rparr>)"
  using assms(2,3) in_use_del [OF assms(1), of b]
  by (auto simp: index_inv_def frame_simps unindexed_def)

lemma index_inv_insert:
  assumes "index_inv s" and "block_hash (blk s b) = Some h" and "b \<in> in_use s"
  shows "index_inv (insert_index h b s)"
  using assms by (auto simp: index_inv_def insert_index_def frame_simps blocks_of_insert
      index_insert_ok split: if_splits)

text \<open>Dropping a block from the index under its own hash.\<close>

lemma notify_hash_dropped_eq:
  "\<exists>d. notify_hash_dropped h s = s\<lparr>dropped := d\<rparr>"
proof -
  have "notify_hash_dropped h s = s\<lparr>dropped := dropped s\<rparr> \<or>
      (\<exists>x. notify_hash_dropped h s = s\<lparr>dropped := dropped s @ [x]\<rparr>)"
    by (auto simp: notify_hash_dropped_def split: option.splits)
  then show ?thesis by blast
qed

lemma index_pop_step:
  assumes "index_inv s" and "block_hash (blk s b) = Some h"
  obtains c d where
    "notify_hash_dropped (Some h) (snd (pop_index h (block_id b) s)) =
       s\<lparr>cached_block_hash_to_block := c, dropped := d\<rparr>"
    and "index_ok c" and "\<And>h'. blocks_of c h' = blocks_of (cached_block_hash_to_block s) h' - {b}"
    and "fst (pop_index h (block_id b) s) = (if unindexed b s then None else Some b)"
proof -
  let ?i = "cached_block_hash_to_block s"
  let ?c = "snd (index_pop h (block_id b) ?i)"
  have ok: "index_ok ?i" using assms(1) by (simp add: index_inv_def)
  have own: "h' = h" if "b \<in> blocks_of ?i h'" for h'
    using assms that by (auto simp: index_inv_def)
  have s1: "snd (pop_index h (block_id b) s) = s\<lparr>cached_block_hash_to_block := ?c\<rparr>"
    by (simp add: pop_index_def split: prod.splits)
  obtain d where "notify_hash_dropped (Some h) (s\<lparr>cached_block_hash_to_block := ?c\<rparr>) =
      s\<lparr>cached_block_hash_to_block := ?c, dropped := d\<rparr>"
    using notify_hash_dropped_eq by blast
  moreover have "index_ok ?c" using ok by (rule index_pop_ok)
  moreover have "blocks_of ?c h' = blocks_of ?i h' - {b}" for h'
    using blocks_of_pop [OF ok, of h b h'] own by auto
  moreover have "fst (pop_index h (block_id b) s) = (if unindexed b s then None else Some b)"
    using index_pop_result [OF ok, of h b] own
    by (auto simp: pop_index_def unindexed_def split: prod.splits)
  ultimately show thesis using that s1 by metis
qed

lemma index_inv_new_index:
  assumes "index_inv s" and "index_ok c"
    and "\<And>h'. blocks_of c h' = blocks_of (cached_block_hash_to_block s) h' - {b}"
  shows "index_inv (s\<lparr>cached_block_hash_to_block := c, dropped := d\<rparr>)"
    and "unindexed b (s\<lparr>cached_block_hash_to_block := c, dropped := d\<rparr>)"
  using assms by (auto simp: index_inv_def frame_simps unindexed_def)

text \<open>Taking a block out of the index changes the index and the reported hashes only.\<close>

lemma unindex_step:
  assumes "index_inv s"
  obtains c d where "unindex b s = s\<lparr>cached_block_hash_to_block := c, dropped := d\<rparr>"
    and "index_inv (unindex b s)" and "unindexed b (unindex b s)"
proof (cases "block_hash (blk s b)")
  case None
  then have "unindex b s = s\<lparr>cached_block_hash_to_block := cached_block_hash_to_block s, dropped := dropped s\<rparr>"
    and "unindexed b s" using assms by (auto simp: unindex_def unindexed_def index_inv_def)
  with assms show thesis
    by (intro that [where c = "cached_block_hash_to_block s" and d = "dropped s"]) simp_all
next
  case (Some h)
  from index_pop_step [OF assms Some] obtain c d where
    "unindex b s = s\<lparr>cached_block_hash_to_block := c, dropped := d\<rparr>" "index_ok c"
    "\<And>h'. blocks_of c h' = blocks_of (cached_block_hash_to_block s) h' - {b}"
    using Some by (simp add: unindex_def) metis
  with that index_inv_new_index [OF assms] show thesis by metis
qed

text \<open>
  A block outside the table of allocated blocks is not indexed, so taking one from the free
  queue evicts nothing.
\<close>

lemma maybe_evict_unindexed:
  assumes "index_inv s" and "unindexed b s"
  obtains c d where "maybe_evict_cached_block b s = (False, s\<lparr>cached_block_hash_to_block := c, dropped := d\<rparr>)"
    and "index_inv (s\<lparr>cached_block_hash_to_block := c, dropped := d\<rparr>)"
    and "blocks_of c = blocks_of (cached_block_hash_to_block s)"
proof (cases "block_hash (blk s b)")
  case None
  then have "maybe_evict_cached_block b s =
      (False, s\<lparr>cached_block_hash_to_block := cached_block_hash_to_block s, dropped := dropped s\<rparr>)"
    by (simp add: maybe_evict_cached_block_def)
  with assms show thesis
    by (intro that [where c = "cached_block_hash_to_block s" and d = "dropped s"]) simp_all
next
  case (Some h)
  from index_pop_step [OF assms(1) Some] obtain c d where
    c: "notify_hash_dropped (Some h) (snd (pop_index h (block_id b) s)) =
       s\<lparr>cached_block_hash_to_block := c, dropped := d\<rparr>" "index_ok c"
    "\<And>h'. blocks_of c h' = blocks_of (cached_block_hash_to_block s) h' - {b}"
    "fst (pop_index h (block_id b) s) = (if unindexed b s then None else Some b)"
    by metis
  with assms(2) have "fst (pop_index h (block_id b) s) = None" by simp
  then have "maybe_evict_cached_block b s = (False, s\<lparr>cached_block_hash_to_block := c, dropped := d\<rparr>)"
    using Some c(1) by (simp add: maybe_evict_cached_block_def case_prod_unfold Let_def)
  moreover have "blocks_of c = blocks_of (cached_block_hash_to_block s)"
    using c(3) assms(2) by (auto simp: unindexed_def fun_eq_iff)
  ultimately show thesis using that c index_inv_new_index(1) [OF assms(1)] by metis
qed

subsection \<open>Allocation\<close>

lemma data_updates [simp, intro]:
  "data_update (\<lambda>b. touch_block now (b\<lparr>ref_count := n\<rparr>))" "data_update reset_hash"
  "data_update (touch_block now)" "data_update (\<lambda>b. b\<lparr>ref_count := g b\<rparr>)"
  "data_update (\<lambda>b. touch_block now (b\<lparr>ref_count := g b\<rparr>))"
  "data_update (\<lambda>b. b\<lparr>block_hash := h, token_count := k\<rparr>)"
  "data_update (\<lambda>b. b\<lparr>token_count := k, block_hash := h\<rparr>)"
  "data_update (\<lambda>b. b\<lparr>block_hash := h\<rparr>)" "data_update (\<lambda>b. b\<lparr>token_count := k\<rparr>)"
  "data_update (\<lambda>b. (reset_hash b)\<lparr>token_count := k\<rparr>)"
  "data_update (\<lambda>b. b\<lparr>block_hash := h, token_count := k, ref_count := n\<rparr>)"
  by (simp_all add: data_update_def touch_block_def reset_hash_def)

text \<open>What claiming a block in transit does.\<close>

definition claimed :: "ref \<Rightarrow> paged_cache \<Rightarrow> paged_cache \<Rightarrow> bool" where
  "claimed b s s' \<longleftrightarrow>
     stats s' = stats s \<and> allocated_blocks s' = dict_set (block_id b) b (allocated_blocks s) \<and>
     num_free_blocks (free_block_queue s') = num_free_blocks (free_block_queue s) \<and>
     current_allocated_count s' = current_allocated_count s \<and> blocks s' = blocks s \<and>
     (\<forall>r. r \<noteq> b \<longrightarrow> blk s' r = blk s r) \<and> ref_count (blk s' b) = 1 \<and>
     blocks_of (cached_block_hash_to_block s') = blocks_of (cached_block_hash_to_block s) \<and>
     table_store s' = table_store s"

lemma claim_block_step:
  assumes p: "pool s fs (insert b T)" and b: "b \<notin> T" and i: "index_inv s"
  shows "pool (claim_block now b s) fs T" and "index_inv (claim_block now b s)"
    and "claimed b s (claim_block now b s)"
proof -
  have "b \<notin> in_use s" using pool_facts(9) [OF p] by blast
  then have u: "unindexed b s" by (rule not_in_use_unindexed [OF i])
  let ?s1 = "if enable_caching s then snd (maybe_evict_cached_block b s) else s"
  obtain c d where c: "?s1 = s\<lparr>cached_block_hash_to_block := c, dropped := d\<rparr>"
      "index_inv (s\<lparr>cached_block_hash_to_block := c, dropped := d\<rparr>)"
      "blocks_of c = blocks_of (cached_block_hash_to_block s)"
  proof (cases "enable_caching s")
    case True
    with maybe_evict_unindexed [OF i u] that show thesis by (metis snd_conv)
  next
    case False
    with i show thesis
      by (intro that [where c = "cached_block_hash_to_block s" and d = "dropped s"]) simp_all
  qed
  let ?s2 = "upd_blk b (\<lambda>b. touch_block now (b\<lparr>ref_count := 1\<rparr>)) ?s1"
  have claim: "claim_block now b s =
      ?s2\<lparr>allocated_blocks := dict_set (block_id b) b (allocated_blocks ?s2)\<rparr>"
    by (simp add: claim_block_def Let_def)
  have "pool ?s1 fs (insert b T)" using p unfolding c(1) by (simp add: frame_simps)
  then have p2: "pool ?s2 fs (insert b T)"
    using pool_facts(8) [OF p] by (intro pool_upd_blk) auto
  then show "pool (claim_block now b s) fs T" unfolding claim using b by (rule pool_enter)
  have "index_inv ?s2" using c by (intro index_inv_upd_blk) (simp_all add: touch_block_def)
  then show "index_inv (claim_block now b s)" unfolding claim by (rule index_inv_enter [OF p2])
  show "claimed b s (claim_block now b s)"
    unfolding claim c(1) using c(3)
    by (simp add: claimed_def frame_simps touch_block_def) (simp add: upd_blk_def)
qed

lemma pool_length_alloc:
  "pool s fs {} \<Longrightarrow> int (length (allocated_blocks s)) = current_allocated_count s - int (length fs)"
  using pool_count [of s fs "{}"] by simp

lemma stats_ok_pool:
  "pool s fs {} \<Longrightarrow> stats_ok s \<longleftrightarrow> st_free_blocks (stats s) = int (length fs) \<and>
     st_allocated_blocks (stats s) = current_allocated_count s - int (length fs) \<and>
     st_total_blocks (stats s) = current_allocated_count s"
  by (auto simp: stats_ok_def pool_queue_length pool_length_alloc)

text \<open>Growing the pool: new blocks go to the end of the queue.\<close>

lemma grow_blocks_eq:
  fixes now :: rat and n :: int
  assumes "pool s fs T" and "0 < k" and "k = min n (max_blocks s - current_allocated_count s)"
  defines "rs \<equiv> new_refs (current_allocated_count s) k"
  defines "s1 \<equiv> s\<lparr>free_block_queue := (free_block_queue s)
      \<lparr>heap := create_blocks now rs (heap (free_block_queue s))\<rparr>, blocks := blocks s @ rs\<rparr>"
  defines "s2 \<equiv> (snd (on_queue (append_n rs) s1))\<lparr>current_allocated_count := current_allocated_count s + k\<rparr>"
  shows "grow_blocks now n s = (Inr k, upd_stats (\<lambda>t. t\<lparr>st_total_blocks := current_allocated_count s2,
      st_free_blocks := num_free_blocks (free_block_queue s2)\<rparr>) s2)"
proof -
  have "fst (on_queue (append_n rs) s1) = Inr ()"
    unfolding s1_def rs_def using assms(1-3) by (intro pool_grow(1)) auto
  then have "on_queue (append_n rs) s1 = (Inr (), snd (on_queue (append_n rs) s1))"
    by (metis prod.collapse)
  moreover have "current_allocated_count (snd (on_queue (append_n rs) s1)) = current_allocated_count s"
    by (simp add: on_queue_frame) (simp add: s1_def)
  ultimately show ?thesis
    using assms(2) unfolding grow_blocks_def assms(3) [symmetric] Let_def
    by (simp add: s1_def [symmetric] rs_def [symmetric] s2_def modify_def ret_def)
qed

lemma grow_blocks_step:
  fixes now :: rat and n :: int
  assumes p: "pool s fs {}" and st: "stats_ok s" and i: "index_inv s"
  defines "k \<equiv> max 0 (min n (max_blocks s - current_allocated_count s))"
  defines "s' \<equiv> snd (grow_blocks now n s)"
  shows "fst (grow_blocks now n s) = Inr k"
    and "pool s' (fs @ new_refs (current_allocated_count s) k) {}"
    and "stats_ok s'" and "index_inv s'"
    and "allocated_blocks s' = allocated_blocks s"
    and "\<And>r. r \<in> set (blocks s) \<Longrightarrow> meta (blk s' r) = meta (blk s r)"
    and "cached_block_hash_to_block s' = cached_block_hash_to_block s"
    and "table_store s' = table_store s" and "max_blocks s' = max_blocks s"
    and "current_allocated_count s' = current_allocated_count s + k"
proof -
  let ?rs = "new_refs (current_allocated_count s) k"
  have "fst (grow_blocks now n s) = Inr k \<and> pool s' (fs @ ?rs) {} \<and> stats_ok s' \<and> index_inv s' \<and>
    allocated_blocks s' = allocated_blocks s \<and>
    (\<forall>r \<in> set (blocks s). meta (blk s' r) = meta (blk s r)) \<and>
    cached_block_hash_to_block s' = cached_block_hash_to_block s \<and>
    table_store s' = table_store s \<and> max_blocks s' = max_blocks s \<and>
    current_allocated_count s' = current_allocated_count s + k"
  proof (cases "k = 0")
    case True
    then have "grow_blocks now n s = (Inr 0, s)"
      unfolding grow_blocks_def k_def Let_def by (auto simp: max_def split: if_splits)
    then show ?thesis using True p st i by (simp add: s'_def new_refs_def)
  next
    case False
    then have k: "0 < k" "k = min n (max_blocks s - current_allocated_count s)"
        "current_allocated_count s + k \<le> max_blocks s"
      by (auto simp: k_def)
    define s1 where "s1 = s\<lparr>free_block_queue := (free_block_queue s)
      \<lparr>heap := create_blocks now ?rs (heap (free_block_queue s))\<rparr>, blocks := blocks s @ ?rs\<rparr>"
    define s2 where "s2 = (snd (on_queue (append_n ?rs) s1))
      \<lparr>current_allocated_count := current_allocated_count s + k\<rparr>"
    note eq = grow_blocks_eq [OF p k(1,2), of now, folded s1_def s2_def]
    have p2: "pool s2 (fs @ ?rs) {}" and i2: "index_inv s2"
      unfolding s2_def s1_def using pool_grow [OF p k(1,3)] i by blast+
    have s2: "allocated_blocks s2 = allocated_blocks s" "table_store s2 = table_store s"
        "cached_block_hash_to_block s2 = cached_block_hash_to_block s" "stats s2 = stats s"
        "max_blocks s2 = max_blocks s" "current_allocated_count s2 = current_allocated_count s + k"
      by (simp_all add: s2_def on_queue_frame) (simp_all add: s1_def)
    have "meta (blk s2 r) = meta (blk s r)" if "r \<in> set (blocks s)" for r
      using that fresh_refs_disjoint(1) [OF p, of r k]
      by (auto simp: s2_def blk_def on_queue_frame fq_meta) (auto simp: s1_def create_blocks_def)
    moreover have "stats_ok s'"
      using st s2 by (simp add: s'_def eq stats_ok_def)
    ultimately show ?thesis
      using p2 i2 s2 by (simp add: s'_def eq frame_simps) (simp add: upd_stats_def)
  qed
  then show "fst (grow_blocks now n s) = Inr k" "pool s' (fs @ ?rs) {}" "stats_ok s'" "index_inv s'"
    "allocated_blocks s' = allocated_blocks s"
    "\<And>r. r \<in> set (blocks s) \<Longrightarrow> meta (blk s' r) = meta (blk s r)"
    "cached_block_hash_to_block s' = cached_block_hash_to_block s"
    "table_store s' = table_store s" "max_blocks s' = max_blocks s"
    "current_allocated_count s' = current_allocated_count s + k"
    by blast+
qed

text \<open>
  \<open>allocate_block\<close> hands out the block at the front of the queue (a new one when the queue is
  empty and the pool can grow), never one in use.
\<close>

definition gave_out :: "ref \<Rightarrow> paged_cache \<Rightarrow> paged_cache \<Rightarrow> bool" where
  "gave_out b s s' \<longleftrightarrow>
     b \<notin> in_use s \<and> b \<in> set (blocks s') \<and> in_use s' = insert b (in_use s) \<and> unindexed b s' \<and>
     ref_count (blk s' b) = 1 \<and> table_store s' = table_store s \<and>
     (\<forall>r \<in> in_use s. meta (blk s' r) = meta (blk s r)) \<and>
     blocks_of (cached_block_hash_to_block s') = blocks_of (cached_block_hash_to_block s)"

lemma allocate_nonempty:
  assumes p: "pool s (b # fs) {}" and st: "stats_ok s" and i: "index_inv s"
  obtains s' where "allocate_block now s = (Inr (Some b), s')" and "pool s' fs {}"
    and "stats_ok s'" and "index_inv s'" and "gave_out b s s'"
    and "current_allocated_count s' = current_allocated_count s"
proof -
  obtain q where
    q: "on_queue popleft s = (Inr b, s\<lparr>free_block_queue := q\<rparr>)"
      "pool (s\<lparr>free_block_queue := q\<rparr>) fs {b}"
      "\<And>r. meta (heap q r) = meta (heap (free_block_queue s) r)"
      "num_free_blocks q = num_free_blocks (free_block_queue s) - 1"
    by (rule pool_popleft [OF p]) blast
  let ?s1 = "s\<lparr>free_block_queue := q\<rparr>"
  have i1: "index_inv ?s1" using i q(3) by (rule index_inv_new_queue)
  note c = claim_block_step [OF q(2) _ i1, of now]
  let ?s2 = "claim_block now b ?s1"
  let ?s3 = "upd_stats (\<lambda>t. t\<lparr>st_allocated_blocks := st_allocated_blocks t + 1,
      st_free_blocks := st_free_blocks t - 1\<rparr>) ?s2"
  have cl: "claimed b ?s1 ?s2" using c by simp
  have run: "allocate_block now s = (Inr (Some b), ?s3)"
    using pool_queue_length [OF p] by (simp add: allocate_block_def q(1) modify_def ret_def)
  have nb: "b \<notin> in_use s" using pool_facts(7) [OF p] by auto
  have p3: "pool ?s3 fs {}" using c by (simp add: frame_simps)
  moreover have "stats_ok ?s3"
    using st cl p3 unfolding stats_ok_pool [OF p3] stats_ok_pool [OF p] claimed_def by simp
  moreover have "index_inv ?s3" using c by (simp add: frame_simps)
  moreover have "gave_out b s ?s3"
  proof -
    have "meta (blk ?s3 r) = meta (blk s r)" if "r \<in> in_use s" for r
      using that nb cl q(3) [of r] by (auto simp: claimed_def blk_def)
    moreover have "in_use ?s3 = insert b (in_use s)"
      using cl in_use_set [OF q(2), of b] by (simp add: claimed_def frame_simps in_use_def)
    moreover have "unindexed b s" by (rule not_in_use_unindexed [OF i nb])
    moreover have "b \<in> set (blocks s)" using pool_facts(10) [OF p] by auto
    ultimately show ?thesis
      using nb cl by (simp add: gave_out_def unindexed_def claimed_def) (simp add: upd_stats_def)
  qed
  moreover have "current_allocated_count ?s3 = current_allocated_count s"
    using cl by (simp add: claimed_def)
  ultimately show thesis using that run by blast
qed

lemma gave_out_after_grow:
  assumes "gave_out b s1 s'" and "allocated_blocks s1 = allocated_blocks s"
    and "pool s fs {}" and "\<And>r. r \<in> set (blocks s) \<Longrightarrow> meta (blk s1 r) = meta (blk s r)"
    and "cached_block_hash_to_block s1 = cached_block_hash_to_block s" and "table_store s1 = table_store s"
  shows "gave_out b s s'"
  using assms(1,2,4-6) pool_facts(10) [OF assms(3)] by (auto simp: gave_out_def in_use_def)

lemma allocate_block_cases:
  assumes p: "pool s fs {}" and st: "stats_ok s" and i: "index_inv s"
  obtains (full) "fs = []" "current_allocated_count s = max_blocks s"
      "allocate_block now s = (Inr None, s)"
  | (fresh) k s' where "fs = []" "current_allocated_count s < max_blocks s"
      "k = min 256 (max_blocks s - current_allocated_count s)"
      "allocate_block now s = (Inr (Some (Blk (nat (current_allocated_count s)))), s')"
      "pool s' (tl (new_refs (current_allocated_count s) k)) {}" "stats_ok s'" "index_inv s'"
      "gave_out (Blk (nat (current_allocated_count s))) s s'"
      "current_allocated_count s' = current_allocated_count s + k"
  | (reused) b fs' s' where "fs = b # fs'" "allocate_block now s = (Inr (Some b), s')"
      "pool s' fs' {}" "stats_ok s'" "index_inv s'" "gave_out b s s'"
      "current_allocated_count s' = current_allocated_count s"
proof (cases fs)
  case (Cons b fs')
  with allocate_nonempty [of s b fs' now] p st i reused show thesis by metis
next
  case Nil
  let ?k = "min 256 (max_blocks s - current_allocated_count s)"
  let ?c = "current_allocated_count s"
  note g = grow_blocks_step [OF p st i, where now = now and n = ?k]
  let ?s1 = "snd (grow_blocks now ?k s)"
  have nf: "num_free_blocks (free_block_queue s) = 0" using pool_queue_length [OF p] Nil by simp
  have le: "?c \<le> max_blocks s" "0 < ?c" using pool_facts(2,3) [OF p] by simp_all
  show thesis
  proof (cases "?c = max_blocks s")
    case True
    then have "grow_blocks now ?k s = (Inr 0, s)" by (simp add: grow_blocks_def)
    with Nil True nf show thesis
      by (intro full) (simp_all add: allocate_block_def bind_st_def ret_def)
  next
    case False
    with le have k: "0 < ?k" "max 0 (min ?k (max_blocks s - ?c)) = ?k" by auto
    have "new_refs ?c ?k = Blk (nat ?c) # tl (new_refs ?c ?k)"
      using k(1) le by (simp add: new_refs_def upt_conv_Cons nat_less_eq_zless)
    with g(2) Nil k(2) have p1: "pool ?s1 (Blk (nat ?c) # tl (new_refs ?c ?k)) {}" by simp
    from allocate_nonempty [OF p1 g(3,4), of now] obtain s' where
      s': "allocate_block now ?s1 = (Inr (Some (Blk (nat ?c))), s')"
        "pool s' (tl (new_refs ?c ?k)) {}" "stats_ok s'" "index_inv s'"
        "gave_out (Blk (nat ?c)) ?s1 s'" "current_allocated_count s' = current_allocated_count ?s1" .
    have "grow_blocks now ?k s = (Inr ?k, ?s1)" using g(1) k(2) by (metis prod.collapse)
    moreover have "num_free_blocks (free_block_queue ?s1) \<noteq> 0"
      using pool_queue_length [OF p1] by simp
    ultimately have "allocate_block now s = allocate_block now ?s1"
      using nf k(1) by (simp add: allocate_block_def ret_def)
    moreover have "gave_out (Blk (nat ?c)) s s'"
      using s'(5) g(5) p g(6-8) by (rule gave_out_after_grow)
    ultimately show thesis
      using s' g(10) k le False Nil by (intro fresh [of ?k s']) simp_all
  qed
qed

text \<open>Several blocks at once.\<close>

lemma claim_all:
  assumes "pool s fs (set bs \<union> T)" and "distinct bs" and "set bs \<inter> T = {}" and "index_inv s"
  shows "\<exists>s'. for_each bs (\<lambda>b. modify (claim_block now b)) s = (Inr (), s') \<and>
    pool s' fs T \<and> index_inv s' \<and> stats s' = stats s \<and>
    current_allocated_count s' = current_allocated_count s \<and> in_use s' = set bs \<union> in_use s \<and>
    (\<forall>b \<in> set bs. ref_count (blk s' b) = 1) \<and> (\<forall>r. r \<notin> set bs \<longrightarrow> blk s' r = blk s r)"
  using assms
proof (induction bs arbitrary: s)
  case Nil
  then show ?case by (simp add: ret_def)
next
  case (Cons b bs)
  let ?s1 = "claim_block now b s"
  have "pool s fs (insert b (set bs \<union> T))" "b \<notin> set bs \<union> T" using Cons.prems by auto
  note c = claim_block_step [OF this Cons.prems(4), of now]
  from Cons.IH [OF c(1) _ _ c(2)] Cons.prems obtain s' where
    s': "for_each bs (\<lambda>b. modify (claim_block now b)) ?s1 = (Inr (), s')" "pool s' fs T" "index_inv s'"
      "stats s' = stats ?s1" "current_allocated_count s' = current_allocated_count ?s1"
      "in_use s' = set bs \<union> in_use ?s1" "\<forall>b \<in> set bs. ref_count (blk s' b) = 1"
      "\<forall>r. r \<notin> set bs \<longrightarrow> blk s' r = blk ?s1 r" by auto
  have "in_use ?s1 = insert b (in_use s)"
    using c(3) in_use_set [OF Cons.prems(1), of b] by (simp add: claimed_def in_use_def)
  with s' c(3) Cons.prems(2) show ?case
    by (intro exI [of _ s']) (auto simp: claimed_def)
qed

lemma pool_popleft_n:
  assumes "pool s (xs @ ys) {}"
  obtains q where "on_queue (popleft_n (int (length xs))) s = (Inr xs, s\<lparr>free_block_queue := q\<rparr>)"
    and "pool (s\<lparr>free_block_queue := q\<rparr>) ys (set xs)"
    and "\<And>r. meta (heap q r) = meta (heap (free_block_queue s) r)"
proof
  let ?q = "snd (popleft_n (int (length xs)) (free_block_queue s))"
  note ok = pool_facts(4) [OF assms]
  show "on_queue (popleft_n (int (length xs))) s = (Inr xs, s\<lparr>free_block_queue := ?q\<rparr>)"
    using popleft_n_ok(1) [OF ok] by (intro prod_eqI) (simp_all add: on_queue_frame)
  show "pool (s\<lparr>free_block_queue := ?q\<rparr>) ys (set xs)"
    using pool_facts(13) [OF assms] fq.rep_distinct [OF ok]
    by (intro pool_new_queue [OF assms]) (auto simp: fq_meta intro: popleft_n_ok(2) [OF ok])
  show "meta (heap ?q r) = meta (heap (free_block_queue s) r)" for r by (simp add: fq_meta)
qed

lemma get_new_blocks_enough:
  assumes p: "pool s (xs @ ys) {}" and st: "stats_ok s" and i: "index_inv s"
  obtains s' where "get_new_blocks now (int (length xs)) s = (Inr xs, s')" and "pool s' ys {}"
    and "stats_ok s'" and "index_inv s'" and "in_use s' = set xs \<union> in_use s"
    and "\<And>b. b \<in> set xs \<Longrightarrow> ref_count (blk s' b) = 1"
    and "\<And>r. r \<in> in_use s \<Longrightarrow> meta (blk s' r) = meta (blk s r)"
proof -
  obtain q where q: "on_queue (popleft_n (int (length xs))) s = (Inr xs, s\<lparr>free_block_queue := q\<rparr>)"
    "pool (s\<lparr>free_block_queue := q\<rparr>) ys (set xs)"
    "\<And>r. meta (heap q r) = meta (heap (free_block_queue s) r)"
    by (rule pool_popleft_n [OF p]) blast
  let ?s1 = "s\<lparr>free_block_queue := q\<rparr>"
  have i1: "index_inv ?s1" using i q(3) by (rule index_inv_new_queue)
  have d: "distinct xs" using fq.rep_distinct [OF pool_facts(4) [OF p]] by simp
  from claim_all [of ?s1 ys xs "{}" now] q(2) d i1 obtain s2 where
    s2: "for_each xs (\<lambda>b. modify (claim_block now b)) ?s1 = (Inr (), s2)" "pool s2 ys {}" "index_inv s2"
      "stats s2 = stats s" "current_allocated_count s2 = current_allocated_count s"
      "in_use s2 = set xs \<union> in_use s" "\<forall>b \<in> set xs. ref_count (blk s2 b) = 1"
      "\<forall>r. r \<notin> set xs \<longrightarrow> blk s2 r = blk ?s1 r" by (auto simp: frame_simps)
  let ?n = "int (length xs)"
  let ?s3 = "upd_stats (\<lambda>t. t\<lparr>st_allocated_blocks := st_allocated_blocks t + ?n,
      st_free_blocks := st_free_blocks t - ?n\<rparr>) s2"
  have p3: "pool ?s3 ys {}" using s2(2) by (simp add: frame_simps)
  have "get_new_blocks now ?n s = (Inr xs, ?s3)"
    using pool_queue_length [OF p] q(1) s2(1)
    by (simp add: get_new_blocks_def bind_st_def ret_def gets_def modify_def)
  moreover have "stats_ok ?s3"
    using st s2(4,5) unfolding stats_ok_pool [OF p3] stats_ok_pool [OF p] by simp
  moreover have "meta (blk ?s3 r) = meta (blk s r)" if "r \<in> in_use s" for r
  proof -
    have "r \<notin> set xs" using that pool_facts(7) [OF p] by auto
    with s2(8) q(3) [of r] show ?thesis by (simp add: blk_def)
  qed
  ultimately show thesis using that p3 s2 by (simp add: frame_simps)
qed

text \<open>The state in which \<open>get_new_blocks\<close> looks at the queue, after it may have grown the pool.\<close>

lemma get_new_blocks_grown:
  fixes now :: rat
  assumes p: "pool s fs {}" and st: "stats_ok s" and i: "index_inv s"
  obtains s1 gs where "pool s1 (fs @ gs) {}" and "stats_ok s1" and "index_inv s1"
    and "n \<le> int (length (fs @ gs)) \<and> get_new_blocks now n s = get_new_blocks now n s1 \<or>
         n > int (length (fs @ gs)) \<and> get_new_blocks now n s = (Inl ValueError, s1)"
    and "n > int (length (fs @ gs)) \<longleftrightarrow>
         n > int (length fs) + (max_blocks s - current_allocated_count s)"
    and "allocated_blocks s1 = allocated_blocks s"
    and "\<And>r. r \<in> in_use s \<Longrightarrow> meta (blk s1 r) = meta (blk s r)"
proof (cases "n > int (length fs)")
  case False
  then show thesis
    using p st i pool_facts(3) [OF p] by (intro that [of s "[]"]) auto
next
  case True
  let ?m = "n - int (length fs) + 128" and ?c = "current_allocated_count s"
  define s1 where "s1 = snd (grow_blocks now ?m s)"
  note g = grow_blocks_step [OF p st i, where now = now and n = ?m, folded s1_def]
  let ?k = "max 0 (min ?m (max_blocks s - ?c))"
  let ?gs = "new_refs ?c ?k"
  have len: "int (length ?gs) = ?k" using pool_facts(2) [OF p] by (simp add: new_refs_def)
  have grown: "grow_blocks now ?m s = (Inr ?k, s1)" using g(1) s1_def by (metis prod.collapse)
  have q: "num_free_blocks (free_block_queue s) = int (length fs)"
    "num_free_blocks (free_block_queue s1) = int (length (fs @ ?gs))"
    using pool_queue_length [OF p] pool_queue_length [OF g(2)] by simp_all
  have enough: "n > int (length (fs @ ?gs)) \<longleftrightarrow> n > int (length fs) + (max_blocks s - ?c)"
    using True pool_facts(3) [OF p] len by auto
  have "n \<le> int (length (fs @ ?gs)) \<and> get_new_blocks now n s = get_new_blocks now n s1 \<or>
      n > int (length (fs @ ?gs)) \<and> get_new_blocks now n s = (Inl ValueError, s1)"
  proof (cases "n > int (length (fs @ ?gs))")
    case short: True
    then have "get_new_blocks now n s = (Inl ValueError, s1)"
      using True grown q unfolding get_new_blocks_def
      by (simp add: bind_st_def [of "\<lambda>s. if num_free_blocks (free_block_queue s) < n then _ s else _ s"]
          ret_def raise_st_def del: length_append)
    with short show ?thesis by simp
  next
    case False
    then show ?thesis
      using True grown q unfolding get_new_blocks_def
      by (simp add: bind_st_def [of "\<lambda>s. if num_free_blocks (free_block_queue s) < n then _ s else _ s"]
          ret_def del: length_append)
  qed
  moreover have "r \<in> set (blocks s)" if "r \<in> in_use s" for r
    using that pool_facts(10) [OF p] by auto
  ultimately show thesis
    using g(2-6) enough by (intro that [of s1 ?gs]) blast+
qed

text \<open>
  \<open>get_new_blocks\<close> succeeds exactly when the free blocks and the room left to grow suffice, and
  leaves the pool well-formed when it raises.
\<close>

lemma get_new_blocks_cases:
  assumes p: "pool s fs {}" and st: "stats_ok s" and i: "index_inv s" and n: "0 \<le> n"
  obtains (ok) bs fs' s' where "n \<le> int (length fs) + (max_blocks s - current_allocated_count s)"
      "get_new_blocks now n s = (Inr bs, s')" "int (length bs) = n" "distinct bs"
      "set bs \<inter> in_use s = {}" "in_use s' = set bs \<union> in_use s"
      "\<And>b. b \<in> set bs \<Longrightarrow> ref_count (blk s' b) = 1"
      "\<And>r. r \<in> in_use s \<Longrightarrow> meta (blk s' r) = meta (blk s r)"
      "pool s' fs' {}" "stats_ok s'" "index_inv s'"
  | (short) fs' s' where "n > int (length fs) + (max_blocks s - current_allocated_count s)"
      "get_new_blocks now n s = (Inl ValueError, s')" "in_use s' = in_use s"
      "pool s' fs' {}" "stats_ok s'" "index_inv s'"
proof -
  obtain s1 gs where g: "pool s1 (fs @ gs) {}" "stats_ok s1" "index_inv s1"
    "n \<le> int (length (fs @ gs)) \<and> get_new_blocks now n s = get_new_blocks now n s1 \<or>
       n > int (length (fs @ gs)) \<and> get_new_blocks now n s = (Inl ValueError, s1)"
    "n > int (length (fs @ gs)) \<longleftrightarrow> n > int (length fs) + (max_blocks s - current_allocated_count s)"
    "allocated_blocks s1 = allocated_blocks s"
    "\<And>r. r \<in> in_use s \<Longrightarrow> meta (blk s1 r) = meta (blk s r)"
    by (rule get_new_blocks_grown [OF p st i, where now = now and n = n]) blast
  have iu: "in_use s1 = in_use s" using g(6) by (simp add: in_use_def)
  show thesis
  proof (cases "n > int (length (fs @ gs))")
    case True
    then have "get_new_blocks now n s = (Inl ValueError, s1)" using g(4) by linarith
    with True g iu show thesis by (intro short) blast+
  next
    case False
    let ?xs = "take (nat n) (fs @ gs)" and ?ys = "drop (nat n) (fs @ gs)"
    have p1: "pool s1 (?xs @ ?ys) {}" and len: "int (length ?xs) = n"
      using g(1) False n by (simp_all del: take_append drop_append)
    obtain s' where s': "get_new_blocks now (int (length ?xs)) s1 = (Inr ?xs, s')" "pool s' ?ys {}"
      "stats_ok s'" "index_inv s'" "in_use s' = set ?xs \<union> in_use s1"
      "\<And>b. b \<in> set ?xs \<Longrightarrow> ref_count (blk s' b) = 1"
      "\<And>r. r \<in> in_use s1 \<Longrightarrow> meta (blk s' r) = meta (blk s1 r)"
      by (rule get_new_blocks_enough [OF p1 g(2,3), where now = now]) blast
    have "distinct (fs @ gs)" using fq.rep_distinct [OF pool_facts(4) [OF g(1)]] .
    then have "distinct ?xs" by (rule distinct_take)
    moreover have "set ?xs \<inter> in_use s = {}"
      using pool_facts(7) [OF g(1)] iu by (auto dest: in_set_takeD)
    moreover have "get_new_blocks now n s = (Inr ?xs, s')"
      using g(4) False s'(1) len by auto
    ultimately show thesis
      using s' iu g(5,7) False len by (intro ok [of ?xs s' ?ys]) (auto simp del: take_append drop_append)
  qed
qed

end
