(* ===== verification/PoolSafety.thy ===== *)
theory PoolSafety
  imports PoolInvariant
begin

section \<open>Every operation of the manager keeps the invariant\<close>

text \<open>
  One lemma per method of \<^verbatim>\<open>PagedCacheManager\<close>, then the transition system of all its calls:
  every state a client can reach satisfies \<open>cache_inv\<close>. The guards of the transition system
  are the obligations of the callers (a block handed to a method is one the manager handed
  out, the number of blocks asked for is not negative, only an allocated block is evicted
  permanently).
\<close>

subsection \<open>Small state changes\<close>

lemma cache_invI: "pool s fs {} \<Longrightarrow> stats_ok s \<Longrightarrow> index_inv s \<Longrightarrow> cache_inv s"
  by (auto simp: cache_inv_def)

lemma cache_invE:
  assumes "cache_inv s"
  obtains fs where "pool s fs {}" and "stats_ok s" and "index_inv s"
  using assms by (auto simp: cache_inv_def)

lemma cache_inv_frame [frame_simps]:
  "cache_inv (s\<lparr>table_store := ts\<rparr>) = cache_inv s" "cache_inv (s\<lparr>request_tables := rt\<rparr>) = cache_inv s"
  "cache_inv (s\<lparr>dropped := d\<rparr>) = cache_inv s" "cache_inv (s\<lparr>cleared := n\<rparr>) = cache_inv s"
  "cache_inv (put_table t x s) = cache_inv s" "in_use (put_table t x s) = in_use s"
  by (simp_all add: cache_inv_def frame_simps put_table_def stats_ok_def)

lemma inv_upd_stats [inv_intros]:
  assumes "cache_inv s"
    and "st_allocated_blocks (g (stats s)) = st_allocated_blocks (stats s)"
    and "st_free_blocks (g (stats s)) = st_free_blocks (stats s)"
    and "st_total_blocks (g (stats s)) = st_total_blocks (stats s)"
  shows "cache_inv (upd_stats g s)"
  using assms by (auto simp: cache_inv_def frame_simps stats_ok_def)

lemma inv_upd_blk:
  assumes "cache_inv s" and "data_update f"
    and "b \<notin> in_use s \<Longrightarrow> ref_count (blk s b) \<le> 0 \<Longrightarrow> ref_count (f (blk s b)) \<le> 0"
    and "\<And>h. block_hash (blk s b) = Some h \<Longrightarrow> \<not> unindexed b s \<Longrightarrow> block_hash (f (blk s b)) = Some h"
  shows "cache_inv (upd_blk b f s)"
proof -
  obtain fs where p: "pool s fs {}" "stats_ok s" "index_inv s" using assms(1) by (rule cache_invE)
  have "pool (upd_blk b f s) fs {}"
    using pool_facts(7,13) [OF p(1)] assms(3) by (intro pool_upd_blk [OF p(1) assms(2)]) blast
  moreover have "index_inv (upd_blk b f s)" using p(3) assms(4) by (rule index_inv_upd_blk)
  ultimately show ?thesis using p(2) by (intro cache_invI) (auto simp: stats_ok_def)
qed

lemma in_use_get: "cache_inv s \<Longrightarrow> dict_get (allocated_blocks s) k = Some b \<Longrightarrow> b \<in> in_use s \<and> k = block_id b"
  by (auto simp: in_use_def ranI cache_inv_def pool_facts)

lemma in_use_blocks: "cache_inv s \<Longrightarrow> in_use s \<subseteq> set (blocks s)"
  by (auto simp: cache_inv_def dest: pool_facts(10))

lemma inv_inc_ref [inv_intros]: "cache_inv s \<Longrightarrow> b \<in> in_use s \<Longrightarrow> cache_inv (inc_ref_touch now b s)"
  unfolding inc_ref_touch_def by (rule inv_upd_blk) (auto simp: touch_block_def data_update_def)

lemma inv_dec_ref [inv_intros]: "cache_inv s \<Longrightarrow> cache_inv (dec_ref b s)"
  unfolding dec_ref_def by (rule inv_upd_blk) (auto simp: data_update_def)

lemma inv_touch_block [inv_intros]: "cache_inv s \<Longrightarrow> cache_inv (upd_blk b (touch_block now) s)"
  by (rule inv_upd_blk) (auto simp: touch_block_def data_update_def)

lemma inv_count_shared [inv_intros]: "cache_inv s \<Longrightarrow> cache_inv (count_shared b s)"
  by (auto simp: count_shared_def intro: inv_intros)

lemma inv_count_hit [inv_intros]: "cache_inv s \<Longrightarrow> cache_inv (count_hit s)"
  by (auto simp: count_hit_def intro: inv_intros)

lemma inv_count_miss [inv_intros]: "cache_inv s \<Longrightarrow> cache_inv (count_miss s)"
  by (auto simp: count_miss_def intro: inv_intros)

lemma inv_insert_index:
  assumes "cache_inv s" and "block_hash (blk s b) = Some h" and "b \<in> in_use s"
  shows "cache_inv (insert_index h b s)"
proof -
  obtain fs where p: "pool s fs {}" "stats_ok s" "index_inv s" using assms(1) by (rule cache_invE)
  have "index_inv (insert_index h b s)" using p(3) assms(2,3) by (rule index_inv_insert)
  with p show ?thesis
    by (intro cache_invI [of _ fs]) (auto simp: insert_index_def frame_simps stats_ok_def)
qed

lemma indexed_in_use: "cache_inv s \<Longrightarrow> get_block (cached_block_hash_to_block s) h = Some b \<Longrightarrow>
    b \<in> in_use s \<and> block_hash (blk s b) = Some h"
  by (auto simp: cache_inv_def index_inv_def dest: get_block_mem)

subsection \<open>Allocation\<close>

lemma allocate_block_inv:
  assumes "cache_inv s"
  obtains (full) "allocate_block now s = (Inr None, s)"
      and "num_free_blocks (free_block_queue s) = 0" and "current_allocated_count s = max_blocks s"
  | (given) b s' where "allocate_block now s = (Inr (Some b), s')" and "cache_inv s'" and "gave_out b s s'"
proof -
  obtain fs where p: "pool s fs {}" "stats_ok s" "index_inv s" using assms by (rule cache_invE)
  from p show thesis
  proof (cases rule: allocate_block_cases [where now = now])
    case full
    then show thesis using that(1) pool_queue_length [OF p(1)] by simp
  qed (auto intro: that(2) cache_invI)
qed

lemma get_new_blocks_inv:
  assumes "cache_inv s" and "0 \<le> n"
  obtains (ok) bs s' where "get_new_blocks now n s = (Inr bs, s')" and "cache_inv s'"
      and "int (length bs) = n" and "distinct bs" and "set bs \<inter> in_use s = {}"
      and "in_use s' = set bs \<union> in_use s" and "\<forall>b \<in> set bs. ref_count (blk s' b) = 1"
      and "n \<le> num_free_blocks (free_block_queue s) + (max_blocks s - current_allocated_count s)"
  | (short) s' where "get_new_blocks now n s = (Inl ValueError, s')" and "cache_inv s'"
      and "in_use s' = in_use s"
      and "n > num_free_blocks (free_block_queue s) + (max_blocks s - current_allocated_count s)"
proof -
  obtain fs where p: "pool s fs {}" "stats_ok s" "index_inv s" using assms(1) by (rule cache_invE)
  from p assms(2) show thesis
  proof (cases rule: get_new_blocks_cases [where now = now])
    case (ok bs fs' s')
    then show thesis using that(1) pool_queue_length [OF p(1)] by (metis cache_invI)
  next
    case (short fs' s')
    then show thesis using that(2) pool_queue_length [OF p(1)] by (metis cache_invI)
  qed
qed

lemma keeps_allocate_block [keeps_rules]: "keeps (allocate_block now) cache_inv"
proof (rule keepsI)
  fix s assume i: "cache_inv s"
  then show "cache_inv (snd (allocate_block now s))"
    using i by (cases rule: allocate_block_inv [where now = now]) auto
qed

lemma keeps_get_new_blocks [keeps_rules]: "0 \<le> n \<Longrightarrow> keeps (get_new_blocks now n) cache_inv"
proof (rule keepsI)
  fix s assume "cache_inv s" and "0 \<le> n"
  then show "cache_inv (snd (get_new_blocks now n s))"
    by (cases rule: get_new_blocks_inv [where now = now]) auto
qed

subsection \<open>Freeing\<close>

text \<open>The steps shared by \<open>free_block\<close> and \<open>evict_block_permanently\<close>: an allocated block
  without references leaves the index and the table, and goes to the end of the queue.\<close>

lemma retire_block:
  assumes p: "pool s fs {}" and i: "index_inv s" and b: "b \<in> in_use s" "b \<noteq> null_block s"
    and r: "ref_count (blk s b) \<le> 0"
  defines "s1 \<equiv> unindex b s"
  defines "s2 \<equiv> s1\<lparr>allocated_blocks := dict_del (block_id b) (allocated_blocks s1)\<rparr>"
  obtains q where "on_queue (append_block b) s2 = (Inr (), s2\<lparr>free_block_queue := q\<rparr>)"
    and "pool (s2\<lparr>free_block_queue := q\<rparr>) (fs @ [b]) {}" and "index_inv (s2\<lparr>free_block_queue := q\<rparr>)"
    and "unindexed b (s2\<lparr>free_block_queue := q\<rparr>)"
    and "in_use (s2\<lparr>free_block_queue := q\<rparr>) = in_use s - {b}"
    and "stats s2 = stats s" and "current_allocated_count s2 = current_allocated_count s"
    and "\<And>r. meta (blk (s2\<lparr>free_block_queue := q\<rparr>) r) = meta (blk s r)"
    and "allocated_blocks s1 = allocated_blocks s" and "null_block s2 = null_block s"
proof -
  obtain c d where u: "s1 = s\<lparr>cached_block_hash_to_block := c, dropped := d\<rparr>"
      "index_inv s1" "unindexed b s1"
    using unindex_step [OF i, of b] unfolding s1_def by metis
  have p1: "pool s1 fs {}" using p by (simp add: u(1) frame_simps)
  have iu: "in_use s1 = in_use s" "null_block s1 = null_block s" "blk s1 = blk s"
    by (simp_all add: u(1) frame_simps)
  have p2: "pool s2 fs {b}"
    unfolding s2_def using pool_leave [OF p1, of b] b iu by simp
  have i2: "index_inv s2" "unindexed b s2"
    using index_inv_leave [OF p1 u(2,3)] u(3) by (simp_all add: s2_def frame_simps)
  obtain q where q: "on_queue (append_block b) s2 = (Inr (), s2\<lparr>free_block_queue := q\<rparr>)"
      "pool (s2\<lparr>free_block_queue := q\<rparr>) (fs @ [b]) {}"
      "\<And>r. meta (heap q r) = meta (heap (free_block_queue s2) r)"
    by (rule pool_append [of s2 fs b "{}"]) (use p2 r iu in \<open>auto simp: s2_def frame_simps\<close>)
  have "in_use (s2\<lparr>free_block_queue := q\<rparr>) = in_use s - {b}"
    using in_use_del [OF p1, of b] iu by (simp add: s2_def frame_simps)
  moreover have "index_inv (s2\<lparr>free_block_queue := q\<rparr>)" using i2(1) q(3) by (rule index_inv_new_queue)
  moreover have "unindexed b (s2\<lparr>free_block_queue := q\<rparr>)" using i2(2) by (simp add: unindexed_def)
  moreover have "meta (blk (s2\<lparr>free_block_queue := q\<rparr>) r) = meta (blk s r)" for r
    using q(3) [of r] by (simp add: blk_def s2_def u(1))
  moreover have "stats s2 = stats s" "current_allocated_count s2 = current_allocated_count s"
      "allocated_blocks s1 = allocated_blocks s" "null_block s2 = null_block s"
    by (simp_all add: s2_def u(1))
  ultimately show thesis by (intro that [OF q(1,2)])
qed

text \<open>\<open>free_block\<close> gives up one reference; the last one sends the block back to the queue.\<close>

lemma free_block_cases:
  assumes inv: "cache_inv s"
  obtains (absent) "dict_get (allocated_blocks s) k = None" "free_block k s = (Inr False, s)"
  | (null) "dict_get (allocated_blocks s) k = Some (null_block s)" "free_block k s = (Inr False, s)"
  | (shared) b where "dict_get (allocated_blocks s) k = Some b" "b \<noteq> null_block s"
      "ref_count (blk s b) > 1" "free_block k s = (Inr False, dec_ref b s)"
  | (last_ref) b fs s' where "dict_get (allocated_blocks s) k = Some b" "b \<noteq> null_block s"
      "ref_count (blk s b) \<le> 1" "free_block k s = (Inr True, s')" "pool s fs {}"
      "pool s' (fs @ [b]) {}" "stats_ok s'" "index_inv s'" "unindexed b s'"
      "in_use s' = in_use s - {b}"
proof (cases "dict_get (allocated_blocks s) k")
  case None
  then show thesis by (intro absent) (simp_all add: free_block_def)
next
  case (Some b)
  obtain fs where p: "pool s fs {}" "stats_ok s" "index_inv s" using inv by (rule cache_invE)
  have b: "b \<in> in_use s" "k = block_id b" using in_use_get [OF inv Some] by simp_all
  have nl: "is_null (blk s b) \<longleftrightarrow> b = null_block s"
    using pool_facts(12) [OF p(1)] in_use_blocks [OF inv] b by blast
  show thesis
  proof (cases "b = null_block s")
    case True
    with Some nl show thesis by (intro null) (simp_all add: free_block_def)
  next
    case nn: False
    let ?s0 = "dec_ref b s"
    have r0: "ref_count (blk ?s0 b) = ref_count (blk s b) - 1" by (simp add: dec_ref_def)
    show thesis
    proof (cases "ref_count (blk s b) \<le> 1")
      case False
      with Some nl nn r0 show thesis by (intro shared [of b]) (simp_all add: free_block_def Let_def)
    next
      case True
      have i0: "cache_inv ?s0" using inv by (rule inv_dec_ref)
      have p0: "pool ?s0 fs {}"
        unfolding dec_ref_def using p(1) pool_facts(7) [OF p(1)] b(1)
        by (intro pool_upd_blk) auto
      have fr: "in_use ?s0 = in_use s" "null_block ?s0 = null_block s" "stats ?s0 = stats s"
          "allocated_blocks ?s0 = allocated_blocks s"
          "current_allocated_count ?s0 = current_allocated_count s" "index_inv ?s0"
        using i0 by (simp_all add: dec_ref_def frame_simps cache_inv_def)
      let ?s1 = "unindex b ?s0"
      let ?s2 = "?s1\<lparr>allocated_blocks := dict_del (block_id b) (allocated_blocks ?s1)\<rparr>"
      obtain q where q: "on_queue (append_block b) ?s2 = (Inr (), ?s2\<lparr>free_block_queue := q\<rparr>)"
        "pool (?s2\<lparr>free_block_queue := q\<rparr>) (fs @ [b]) {}" "index_inv (?s2\<lparr>free_block_queue := q\<rparr>)"
        "unindexed b (?s2\<lparr>free_block_queue := q\<rparr>)" "in_use (?s2\<lparr>free_block_queue := q\<rparr>) = in_use ?s0 - {b}"
        "stats ?s2 = stats ?s0" "current_allocated_count ?s2 = current_allocated_count ?s0"
        by (rule retire_block [OF p0 fr(6)]) (use b nn fr True r0 in auto)
      let ?s3 = "?s2\<lparr>free_block_queue := q\<rparr>"
      let ?s4 = "upd_stats (\<lambda>t. t\<lparr>st_allocated_blocks := st_allocated_blocks t - 1,
        st_free_blocks := st_free_blocks t + 1,
        st_total_tokens_cached := st_total_tokens_cached t - token_count (blk ?s3 b)\<rparr>) ?s3"
      have run: "free_block k s = (Inr True, ?s4)"
        using Some nl nn True q(1) b(2) by (simp add: free_block_def Let_def r0 ret_def)
      have p4: "pool ?s4 (fs @ [b]) {}" using q(2) by (simp add: frame_simps)
      have "stats_ok ?s4"
        using p(2) q(6,7) fr unfolding stats_ok_pool [OF p4] stats_ok_pool [OF p(1)] by simp
      with Some nn True run p(1) p4 q(3-5) fr show thesis
        by (intro last_ref [of b ?s4 fs]) (simp_all add: frame_simps)
    qed
  qed
qed

lemma keeps_free_block [keeps_rules]: "keeps (free_block k) cache_inv"
proof (rule keepsI)
  fix s assume i: "cache_inv s"
  then show "cache_inv (snd (free_block k s))"
    by (cases rule: free_block_cases [where k = k]) (auto intro: cache_invI inv_dec_ref i)
qed

subsection \<open>Reference counting\<close>

lemma inv_touch_one [inv_intros]:
  assumes inv: "cache_inv s" and b: "b \<in> set (blocks s)"
  shows "cache_inv (touch_one now b s)" and "blocks (touch_one now b s) = blocks s"
proof -
  obtain fs where p: "pool s fs {}" "stats_ok s" "index_inv s" using inv by (rule cache_invE)
  have "cache_inv (touch_one now b s) \<and> blocks (touch_one now b s) = blocks s"
  proof (cases "b \<in> in_use s")
    case True
    then have "b \<notin> set fs" "b \<noteq> FakeHead \<and> b \<noteq> FakeTail"
      using pool_facts(7) [OF p(1)] block_not_sentinel [OF p(1) b] by auto
    then obtain i where i: "b = Blk i" by (cases b) auto
    have "on_queue (remove_block b) s = (Inl RuntimeError, s)"
      using fq.drop_out_absent [OF pool_facts(4) [OF p(1)]] \<open>b \<notin> set fs\<close> i
      by (simp add: on_queue_def)
    then have "touch_one now b s = inc_ref_touch now b s" by (simp add: touch_one_def)
    with inv True show ?thesis by (simp add: inv_inc_ref) (simp add: inc_ref_touch_def)
  next
    case nu: False
    then have bf: "b \<in> set fs" using b pool_facts(10) [OF p(1)] by auto
    have nn: "\<not> is_null (blk s b)" using nu pool_facts(11,12) [OF p(1)] b by auto
    show ?thesis
    proof (cases "ref_count (blk s b) = 0")
      case False
      then have "ref_count (blk s b) < 0" using pool_facts(13) [OF p(1) bf] by simp
      with False have "touch_one now b s = inc_ref_touch now b s" by (simp add: touch_one_def)
      moreover have "cache_inv (inc_ref_touch now b s)"
        unfolding inc_ref_touch_def using inv \<open>ref_count (blk s b) < 0\<close>
        by (intro inv_upd_blk) (auto simp: touch_block_def data_update_def)
      ultimately show ?thesis by (simp add: inc_ref_touch_def)
    next
      case True
      obtain q where q: "on_queue (remove_block b) s = (Inr (), s\<lparr>free_block_queue := q\<rparr>)"
        "pool (s\<lparr>free_block_queue := q\<rparr>) (remove1 b fs) {b}"
        "\<And>r. meta (heap q r) = meta (heap (free_block_queue s) r)"
        by (rule pool_remove [OF p(1) bf]) blast
      let ?s1 = "upd_stats (\<lambda>t. t\<lparr>st_free_blocks := st_free_blocks t - 1,
          st_allocated_blocks := st_allocated_blocks t + 1\<rparr>) (s\<lparr>free_block_queue := q\<rparr>)"
      let ?s2 = "?s1\<lparr>allocated_blocks := dict_set (block_id b) b (allocated_blocks ?s1)\<rparr>"
      have t: "touch_one now b s = inc_ref_touch now b ?s2"
        using True nn q(1) by (simp add: touch_one_def Let_def)
      have p1: "pool ?s1 (remove1 b fs) {b}" using q(2) by (simp add: frame_simps)
      have i1: "index_inv ?s1" using index_inv_new_queue [OF p(3) q(3)] by (simp add: frame_simps)
      have p2: "pool ?s2 (remove1 b fs) {}" by (rule pool_enter [OF p1]) simp
      have len: "int (length (remove1 b fs)) = int (length fs) - 1"
        using bf length_pos_if_in_set [OF bf] unfolding length_remove1
        by (simp only: if_True)
      have "stats_ok ?s2"
        using p(2) len unfolding stats_ok_pool [OF p2] stats_ok_pool [OF p(1)] by simp
      moreover have "index_inv ?s2" using p1 i1 by (rule index_inv_enter)
      ultimately have "cache_inv ?s2" using p2 by (intro cache_invI)
      moreover have "b \<in> in_use ?s2" using in_use_set [OF p1, of b] by simp
      ultimately show ?thesis unfolding t by (simp add: inv_inc_ref) (simp add: inc_ref_touch_def)
    qed
  qed
  then show "cache_inv (touch_one now b s)" and "blocks (touch_one now b s) = blocks s" by simp_all
qed

lemma inv_touch [inv_intros]:
  assumes "cache_inv s" and "set bs \<subseteq> set (blocks s)"
  shows "cache_inv (touch now bs s)"
  using assms unfolding touch_def
proof (induction bs arbitrary: s)
  case (Cons b bs)
  then show ?case using inv_touch_one [of s b now] by simp
qed simp

lemma inv_increment_ref [inv_intros]: "cache_inv s \<Longrightarrow> cache_inv (snd (increment_ref now k s))"
  by (auto simp: increment_ref_def split: option.split dest: in_use_get intro: inv_intros)

lemma inv_acquire [inv_intros]: "cache_inv s \<Longrightarrow> cache_inv (snd (acquire_cached_block now k h s))"
  by (auto simp: acquire_cached_block_def split: option.split dest: in_use_get intro: inv_intros)

lemma inv_release_one: "cache_inv (snd rs) \<Longrightarrow> cache_inv (snd (release_one k rs))"
  by (auto simp: release_one_def Let_def split: option.split prod.split intro!: inv_intros)

lemma inv_release_for_eviction [inv_intros]:
  "cache_inv s \<Longrightarrow> cache_inv (snd (release_for_eviction ks s))"
  unfolding release_for_eviction_def
  by (rule fold_keeps [where I = "\<lambda>rs. cache_inv (snd rs)"]) (auto intro: inv_release_one)

subsection \<open>Prefix caching\<close>

lemma inv_get_cached_block [inv_intros]: "cache_inv s \<Longrightarrow> cache_inv (snd (get_cached_block h s))"
  by (auto simp: get_cached_block_def split: option.split intro: inv_intros)

lemma inv_set_hash_and_insert:
  assumes "cache_inv s" and "b \<in> in_use s" and "data_update f"
    and "block_hash (f (blk s b)) = Some h" and "unindexed b s \<or> block_hash (blk s b) = Some h"
  shows "cache_inv (insert_index h b (upd_blk b f s))"
proof (rule inv_insert_index)
  show "cache_inv (upd_blk b f s)"
    using assms by (intro inv_upd_blk) auto
  show "block_hash (blk (upd_blk b f s) b) = Some h" using assms(4) by simp
  show "b \<in> in_use (upd_blk b f s)" using assms(2) by (simp add: frame_simps)
qed

lemma no_hash_unindexed: "cache_inv s \<Longrightarrow> block_hash (blk s b) = None \<Longrightarrow> unindexed b s"
  by (auto simp: cache_inv_def index_inv_def unindexed_def)

lemma in_use_insert_index [frame_simps]: "in_use (insert_index h b s) = in_use s"
  by (simp add: insert_index_def frame_simps)

lemma py_nth_mem: "py_nth xs i = Inr x \<Longrightarrow> x \<in> set xs"
  by (auto simp: py_nth_def Let_def split: if_splits)

lemma inv_cache_full_loop:
  assumes "cache_inv s" and "set bs \<subseteq> in_use s"
  shows "cache_inv (snd (cache_full_loop sha256 bs toks extra is parent s))"
  using assms
proof (induction "is" arbitrary: s parent)
  case Nil
  then show ?case by (simp add: ret_def)
next
  case (Cons i "is")
  show ?case
  proof (cases "py_nth bs i")
    case (Inl e)
    with Cons.prems show ?thesis by simp
  next
    case (Inr b)
    with Cons.prems have b: "b \<in> in_use s" by (auto dest: py_nth_mem)
    show ?thesis
    proof (cases "block_hash (blk s b)")
      case (Some h)
      with Cons Inr show ?thesis by simp
    next
      case None
      let ?ts = "py_slice toks (i * block_size s) (i * block_size s + block_size s)"
      let ?h = "compute_block_hash sha256 parent ?ts extra (model_name s)"
      let ?s1 = "insert_index ?h b (upd_blk b (\<lambda>b. b\<lparr>block_hash := Some ?h,
          token_count := int (length ?ts)\<rparr>) s)"
      have "cache_inv ?s1"
        using Cons.prems(1) b no_hash_unindexed [OF Cons.prems(1) None]
        by (intro inv_set_hash_and_insert) (auto simp: data_update_def)
      moreover have "set bs \<subseteq> in_use ?s1" using Cons.prems(2) by (simp add: frame_simps)
      ultimately show ?thesis using Cons.IH Inr None by (simp add: Let_def)
    qed
  qed
qed

lemma inv_cache_full_blocks [inv_intros]:
  assumes "cache_inv s" and "set bs \<subseteq> in_use s"
  shows "cache_inv (snd (cache_full_blocks sha256 bs toks nc nf extra s))"
  using assms by (auto simp: cache_full_blocks_def Let_def split: sum.split intro!: inv_cache_full_loop)

lemma keeps_lazy_restore [keeps_rules]: "keeps (lazy_restore now h) cache_inv"
proof (rule keepsI)
  fix s assume i: "cache_inv s"
  then show "cache_inv (snd (lazy_restore now h s))"
  proof (cases rule: allocate_block_inv [where now = now])
    case full
    with i show ?thesis by (auto simp: lazy_restore_def ret_def split: option.split)
  next
    case (given b s')
    with i show ?thesis
      by (auto simp: lazy_restore_def ret_def gave_out_def split: option.split
          intro!: inv_set_hash_and_insert)
  qed
qed

lemma keeps_computed_loop [keeps_rules]:
  "keeps (computed_loop sha256 now toks ks is parent found n) cache_inv"
proof (induction "is" arbitrary: parent found n)
  case Nil
  then show ?case by (simp add: keeps_ret)
next
  case (Cons i "is")
  show ?case
  proof (rule keepsI)
    fix s assume inv: "cache_inv s"
    let ?stop = "i * block_size s + block_size s"
    show "cache_inv (snd (computed_loop sha256 now toks ks (i # is) parent found n s))"
    proof (cases "resolve_block_extra_keys ?stop (key_extra ks) (key_token_start ks) (key_ranges ks)")
      case (Inl e)
      with inv show ?thesis by (simp add: Let_def)
    next
      case (Inr x)
      let ?h = "compute_block_hash sha256 parent (py_slice toks (i * block_size s) ?stop) x (model_name s)"
      show ?thesis
        unfolding computed_loop.simps Let_def Inr sum.case
        by (rule keeps_bind_at [where I = cache_inv, OF inv])
          (auto intro!: keeps_rules inv_intros Cons.IH simp del: bind_st_prims split: option.split)
    qed
  qed
qed

lemma keeps_get_computed_blocks [keeps_rules]: "keeps (get_computed_blocks sha256 now toks ks) cache_inv"
proof (rule keepsI)
  fix s assume "cache_inv s"
  then show "cache_inv (snd (get_computed_blocks sha256 now toks ks s))"
    using keepsD [OF keeps_computed_loop] by (simp add: get_computed_blocks_def)
qed

lemma inv_find_cached_block [inv_intros]:
  "cache_inv s \<Longrightarrow> cache_inv (snd (find_cached_block sha256 now toks parent extra s))"
  by (auto simp: find_cached_block_def Let_def split: option.split intro!: inv_intros)

text \<open>Re-registering a block under another hash is safe only when it is not indexed yet.\<close>

lemma inv_register_block_hash [inv_intros]:
  assumes "cache_inv s" and "b \<in> in_use s" and "unindexed b s"
  shows "cache_inv (register_block_hash sha256 b toks parent extra s)"
  using assms by (auto simp: register_block_hash_def Let_def intro!: inv_set_hash_and_insert)

subsection \<open>Block tables\<close>

lemma inv_create_block_table [inv_intros]: "cache_inv s \<Longrightarrow> cache_inv (snd (create_block_table rid s))"
  by (simp add: create_block_table_def Let_def frame_simps)

lemma inv_get_or_create_block_table [inv_intros]:
  "cache_inv s \<Longrightarrow> cache_inv (snd (get_or_create_block_table rid s))"
  by (auto simp: get_or_create_block_table_def split: option.split intro: inv_intros)

lemma keeps_delete_block_table [keeps_rules]: "keeps (delete_block_table rid) cache_inv"
proof (rule keepsI)
  fix s assume "cache_inv s"
  then have i: "cache_inv (s\<lparr>request_tables := rt\<rparr>)" for rt by (simp add: frame_simps)
  have k: "keeps (for_each ks (\<lambda>k. bind_st (free_block k) (\<lambda>_. ret ()))) cache_inv" for ks
    by (intro keeps_for_each keeps_bind keeps_free_block keeps_ret)
  show "cache_inv (snd (delete_block_table rid s))"
    using \<open>cache_inv s\<close> i keepsD [OF k i]
    by (simp add: delete_block_table_def Let_def split: option.split)
qed

lemma inv_add_block_to_table [inv_intros]: "cache_inv s \<Longrightarrow> cache_inv (add_block_to_table t b n s)"
  by (auto simp: add_block_to_table_def frame_simps data_update_def split: option.split
      intro!: inv_intros inv_upd_blk)

lemma keeps_find_shared_prefix [keeps_rules]: "keeps (find_shared_prefix sha256 now toks ks) cache_inv"
  by (auto simp: find_shared_prefix_def intro!: keeps_rules split: prod.split)

lemma inv_fork_block_table [inv_intros]:
  "cache_inv s \<Longrightarrow> cache_inv (snd (fork_block_table now t rid s))"
  by (auto simp: fork_block_table_def Let_def frame_simps split: option.split
      intro!: fold_keeps [where I = cache_inv] inv_intros)

lemma keeps_cow_copy_block [keeps_rules]: "keeps (cow_copy_block now b) cache_inv"
proof (rule keepsI)
  fix s assume i: "cache_inv s"
  then show "cache_inv (snd (cow_copy_block now b s))"
  proof (cases rule: allocate_block_inv [where now = now])
    case full
    with i show ?thesis by (simp add: cow_copy_block_def ret_def)
  next
    case (given c s')
    then have "unindexed c s'" by (simp add: gave_out_def)
    with given(2) have "cache_inv (upd_blk c (\<lambda>x. x\<lparr>token_count := token_count (blk s' b),
        block_hash := block_hash (blk s' b)\<rparr>) s')"
      by (intro inv_upd_blk) (auto simp: data_update_def)
    with given(1) show ?thesis
      by (auto simp: cow_copy_block_def ret_def intro!: inv_intros)
  qed
qed

lemma inv_set_table_entry [inv_intros]: "cache_inv s \<Longrightarrow> cache_inv (set_table_entry t i k s)"
  by (auto simp: set_table_entry_def frame_simps split: option.split)

lemma keeps_generation_step [keeps_rules]: "keeps (generation_step now t i b) cache_inv"
proof -
  have "keeps (\<lambda>s. if is_shared (blk s b) then
      bind_st (cow_copy_block now b) (\<lambda>copied.
        case copied of
          None \<Rightarrow> ret (b, False)
        | Some c \<Rightarrow>
            bind_st (modify (set_table_entry t i (block_id c))) (\<lambda>_.
            bind_st (modify (upd_stats (\<lambda>y. y\<lparr>st_cow_copies := st_cow_copies y + 1\<rparr>))) (\<lambda>_.
            ret (c, True)))) s
      else (Inr (b, False), s)) cache_inv" (is "keeps ?m _")
  proof (rule keepsI)
    fix s assume "cache_inv s"
    then show "cache_inv (snd (?m s))"
      by (cases "is_shared (blk s b)")
        (auto intro!: keeps_bind_at [where I = cache_inv] keeps_rules inv_intros
          simp del: bind_st_prims split: option.split)
  qed
  then show ?thesis
    unfolding generation_step_def by (intro keeps_bind keeps_modify keeps_ret inv_touch_block)
qed

lemma keeps_generation_loop [keeps_rules]: "keeps (generation_loop now t is acc copied) cache_inv"
proof (induction "is" arbitrary: acc copied)
  case Nil
  then show ?case by (simp add: keeps_ret)
next
  case (Cons i "is")
  show ?case
  proof (rule keepsI)
    fix s assume inv: "cache_inv s"
    then show "cache_inv (snd (generation_loop now t (i # is) acc copied s))"
      using keepsD [OF Cons.IH]
      by (auto simp: case_prod_unfold split: option.split
          intro!: keeps_bind_at [where I = cache_inv] keeps_rules Cons.IH)
  qed
qed

lemma keeps_get_blocks_for_generation [keeps_rules]: "keeps (get_blocks_for_generation now t) cache_inv"
  using keepsD [OF keeps_generation_loop] by (auto simp: get_blocks_for_generation_def intro: keepsI)

lemma inv_allocate_blocks_for_tokens [inv_intros]:
  assumes "cache_inv s" and "0 < block_size s" and "0 \<le> n"
  shows "cache_inv (snd (allocate_blocks_for_tokens now n s))"
proof -
  have "0 \<le> (n + block_size s - 1) div block_size s"
    using assms by (simp add: pos_imp_zdiv_nonneg_iff)
  with assms show ?thesis
    by (auto simp: allocate_blocks_for_tokens_def intro: keepsD keeps_rules)
qed

subsection \<open>Eviction, statistics and reset\<close>

text \<open>
  A round of \<open>evict_lru_blocks\<close> takes the front block and puts it back at the end; the block
  was not indexed, so nothing is evicted.
\<close>

lemma evict_round:
  assumes p: "pool s (b # fs) {}" and st: "stats_ok s" and i: "index_inv s"
  obtains s1 s2 where "on_queue popleft s = (Inr b, s1)"
    and "on_queue (append_block b) (snd (maybe_evict_cached_block b s1)) = (Inr (), s2)"
    and "pool s2 (fs @ [b]) {}" and "stats_ok s2" and "index_inv s2"
    and "blocks_of (cached_block_hash_to_block s2) = blocks_of (cached_block_hash_to_block s)"
    and "allocated_blocks s2 = allocated_blocks s" and "stats s2 = stats s"
proof -
  obtain q where q: "on_queue popleft s = (Inr b, s\<lparr>free_block_queue := q\<rparr>)"
    "pool (s\<lparr>free_block_queue := q\<rparr>) fs {b}"
    "\<And>r. meta (heap q r) = meta (heap (free_block_queue s) r)"
    by (rule pool_popleft [OF p]) blast
  let ?s1 = "s\<lparr>free_block_queue := q\<rparr>"
  have i1: "index_inv ?s1" using i q(3) by (rule index_inv_new_queue)
  have "b \<notin> in_use ?s1" using pool_facts(9) [OF q(2)] by blast
  then have u: "unindexed b ?s1" by (rule not_in_use_unindexed [OF i1])
  obtain c d where cd: "maybe_evict_cached_block b ?s1 =
        (False, ?s1\<lparr>cached_block_hash_to_block := c, dropped := d\<rparr>)"
      "index_inv (?s1\<lparr>cached_block_hash_to_block := c, dropped := d\<rparr>)"
      "blocks_of c = blocks_of (cached_block_hash_to_block s)"
    by (rule maybe_evict_unindexed [OF i1 u]) simp
  let ?s2 = "?s1\<lparr>cached_block_hash_to_block := c, dropped := d\<rparr>"
  have p2: "pool ?s2 fs {b}" using q(2) by (simp only: frame_simps)
  have "ref_count (blk ?s2 b) \<le> 0"
    using pool_facts(13) [OF p, of b] meta_eqD(1) [OF q(3), of b] by (simp add: frame_simps blk_def)
  then obtain q' where q': "on_queue (append_block b) ?s2 = (Inr (), ?s2\<lparr>free_block_queue := q'\<rparr>)"
      "pool (?s2\<lparr>free_block_queue := q'\<rparr>) (fs @ [b]) {}"
      "\<And>r. meta (heap q' r) = meta (heap (free_block_queue ?s2) r)"
    using p2 by (rule_tac pool_append [of ?s2 fs b "{}"]) auto
  let ?s3 = "?s2\<lparr>free_block_queue := q'\<rparr>"
  have "stats_ok ?s3"
    using st unfolding stats_ok_pool [OF q'(2)] stats_ok_pool [OF p] by simp
  moreover have "index_inv ?s3" using cd(2) q'(3) by (rule index_inv_new_queue)
  ultimately show thesis
    using q(1) q' cd by (intro that [of ?s1 ?s3]) simp_all
qed

lemma evict_lru_loop_run:
  assumes "pool s fs {}" and "stats_ok s" and "index_inv s" and "k \<le> length fs"
  shows "\<exists>s'. evict_lru_loop k n s = (Inr (n + int k), s') \<and> pool s' (drop k fs @ take k fs) {} \<and>
    stats_ok s' \<and> index_inv s' \<and> allocated_blocks s' = allocated_blocks s \<and> stats s' = stats s \<and>
    blocks_of (cached_block_hash_to_block s') = blocks_of (cached_block_hash_to_block s)"
  using assms
proof (induction k arbitrary: n s fs)
  case 0
  then show ?case by simp
next
  case (Suc k)
  then obtain b gs where fs: "fs = b # gs" by (cases fs) auto
  obtain s1 s2 where r: "on_queue popleft s = (Inr b, s1)"
    "on_queue (append_block b) (snd (maybe_evict_cached_block b s1)) = (Inr (), s2)"
    "pool s2 (gs @ [b]) {}" "stats_ok s2" "index_inv s2"
    "blocks_of (cached_block_hash_to_block s2) = blocks_of (cached_block_hash_to_block s)"
    "allocated_blocks s2 = allocated_blocks s" "stats s2 = stats s"
    by (rule evict_round [OF Suc.prems(1) [unfolded fs] Suc.prems(2,3)]) blast
  have "k \<le> length (gs @ [b])" using Suc.prems(4) fs by simp
  from Suc.IH [OF r(3-5) this, of "n + 1"] r Suc.prems(4) fs show ?case by (auto simp: algebra_simps)
qed

lemma evict_lru_blocks_run:
  fixes n :: int
  assumes "pool s fs {}" and "stats_ok s" and "index_inv s"
  defines "k \<equiv> nat (min n (int (length fs)))"
  shows "\<exists>s'. evict_lru_blocks n s = (Inr (int k), s') \<and> pool s' (drop k fs @ take k fs) {} \<and>
    stats_ok s' \<and> index_inv s' \<and> allocated_blocks s' = allocated_blocks s \<and> stats s' = stats s \<and>
    blocks_of (cached_block_hash_to_block s') = blocks_of (cached_block_hash_to_block s)"
  using evict_lru_loop_run [OF assms(1-3), of k 0] pool_queue_length [OF assms(1)]
  by (simp add: evict_lru_blocks_def k_def)

lemma keeps_evict_lru_blocks [keeps_rules]: "keeps (evict_lru_blocks n) cache_inv"
proof (rule keepsI)
  fix s assume "cache_inv s"
  then obtain fs where p: "pool s fs {}" "stats_ok s" "index_inv s" by (rule cache_invE)
  from evict_lru_blocks_run [OF p, of n] show "cache_inv (snd (evict_lru_blocks n s))"
    by (auto intro: cache_invI)
qed

lemma keeps_handle_memory_pressure [keeps_rules]: "keeps (handle_memory_pressure n) cache_inv"
proof (rule keepsI)
  fix s assume i: "cache_inv s"
  then show "cache_inv (snd (handle_memory_pressure n s))"
    by (auto simp: handle_memory_pressure_def
        intro!: keeps_bind_at [where I = cache_inv] keeps_evict_lru_blocks keeps_gets)
qed

lemma inv_get_stats [inv_intros]: "cache_inv s \<Longrightarrow> cache_inv (snd (get_stats s))"
  by (auto simp: get_stats_def Let_def cache_inv_def stats_ok_def frame_simps)

lemma inv_get_memory_usage [inv_intros]: "cache_inv s \<Longrightarrow> cache_inv (snd (get_memory_usage s))"
  using inv_get_stats [of s] by (simp add: get_memory_usage_def Let_def case_prod_unfold)

lemma inv_reset_stats [inv_intros]: "cache_inv s \<Longrightarrow> cache_inv (reset_stats s)"
  by (auto simp: reset_stats_def intro: inv_intros)

lemma inv_clear_index [inv_intros]: "cache_inv s \<Longrightarrow> cache_inv (clear_index s)"
  by (auto simp: clear_index_def cache_inv_def frame_simps index_inv_def stats_ok_def)

lemma fold_reset_hash:
  "cache_inv s \<Longrightarrow> (\<And>b. unindexed b s) \<Longrightarrow> cache_inv (fold (\<lambda>b. upd_blk b reset_hash) bs s)"
proof (induction bs arbitrary: s)
  case (Cons b bs)
  from Cons.prems have "cache_inv (upd_blk b reset_hash s)"
    by (intro inv_upd_blk) (auto simp: data_update_def reset_hash_def)
  with Cons show ?case by (simp add: frame_simps)
qed simp

lemma inv_reset_prefix_cache [inv_intros]: "cache_inv s \<Longrightarrow> cache_inv (snd (reset_prefix_cache s))"
  by (auto simp: reset_prefix_cache_def Let_def intro!: inv_upd_stats fold_reset_hash inv_clear_index)
    (simp add: unindexed_def clear_index_def)

lemma inv_mark_block_cold [inv_intros]: "cache_inv s \<Longrightarrow> cache_inv (snd (mark_block_cold k s))"
  by (auto simp: mark_block_cold_def split: sum.split option.split intro: inv_intros)

lemma inv_restore_block [inv_intros]: "cache_inv s \<Longrightarrow> cache_inv (snd (restore_block now k s))"
  by (auto simp: restore_block_def split: sum.split option.split intro: inv_intros)

lemma evict_block_permanently_allocated:
  assumes inv: "cache_inv s" and k: "dict_get (allocated_blocks s) k = Some b" "b \<noteq> null_block s"
    and r: "ref_count (blk s b) \<le> 0"
  obtains fs s' where "evict_block_permanently k s = (Inr True, s')" and "cache_inv s'"
    and "pool s fs {}" and "pool s' (fs @ [b]) {}" and "in_use s' = in_use s - {b}" and "unindexed b s'"
proof -
  obtain fs where p: "pool s fs {}" "stats_ok s" "index_inv s" using inv by (rule cache_invE)
  have b: "b \<in> in_use s" "k = block_id b" "b \<in> set (blocks s)"
    using in_use_get [OF inv k(1)] in_use_blocks [OF inv] by auto
  from pool_facts(1,2) [OF p(1)] b(3) obtain i where i: "b = Blk i" "blocks s ! i = b" "i < length (blocks s)"
    by (auto simp: new_refs_def)
  then have look: "lookup_block k s = Inr (Some b)"
    by (simp add: lookup_block_def py_nth_def b(2))
  have nl: "\<not> is_null (blk s b)" using pool_facts(12) [OF p(1) b(3)] k(2) by simp
  let ?s1 = "unindex b s"
  obtain c d where u: "?s1 = s\<lparr>cached_block_hash_to_block := c, dropped := d\<rparr>"
      "index_inv ?s1" "unindexed b ?s1"
    using unindex_step [OF p(3), of b] by metis
  let ?f = "\<lambda>b. (reset_hash b)\<lparr>token_count := 0\<rparr>"
  let ?s2 = "upd_blk b ?f ?s1"
  have p1: "pool ?s1 fs {}" using p(1) by (simp add: u(1) frame_simps)
  have bf: "b \<notin> set fs" using pool_facts(7) [OF p(1)] b(1) by auto
  have p2: "pool ?s2 fs {}" using p1 bf by (intro pool_upd_blk) auto
  have i2: "index_inv ?s2" using u(2,3) by (intro index_inv_upd_blk) auto
  have fr: "in_use ?s2 = in_use s" "null_block ?s2 = null_block s" "stats ?s2 = stats s"
      "allocated_blocks ?s2 = allocated_blocks s" "current_allocated_count ?s2 = current_allocated_count s"
    by (simp_all add: u(1) frame_simps)
  let ?s3 = "?s2\<lparr>allocated_blocks := dict_del (block_id b) (allocated_blocks ?s2)\<rparr>"
  let ?s4 = "upd_stats (\<lambda>t. t\<lparr>st_allocated_blocks := st_allocated_blocks t - 1\<rparr>) ?s3"
  have p3: "pool ?s3 fs {b}" using pool_leave [OF p2, of b] b(1) k(2) fr by simp
  have u2: "unindexed b ?s2" using u(3) by (simp add: frame_simps)
  have i3: "index_inv ?s3" using index_inv_leave [OF p2 i2 u2] .
  obtain q where q: "on_queue (append_block b) ?s4 = (Inr (), ?s4\<lparr>free_block_queue := q\<rparr>)"
      "pool (?s4\<lparr>free_block_queue := q\<rparr>) (fs @ [b]) {}"
      "\<And>r. meta (heap q r) = meta (heap (free_block_queue ?s4) r)"
    by (rule pool_append [of ?s4 fs b "{}"])
      (use p3 r in \<open>auto simp: frame_simps u(1) reset_hash_def\<close>)
  let ?s5 = "upd_stats (\<lambda>t. t\<lparr>st_free_blocks := st_free_blocks t + 1,
      st_evictions := st_evictions t + 1\<rparr>) (?s4\<lparr>free_block_queue := q\<rparr>)"
  have run: "evict_block_permanently k s = (Inr True, ?s5)"
    using look r nl k(1) fr(4) q(1)
    by (simp add: evict_block_permanently_def Let_def b(2) ret_def)
  have p5: "pool ?s5 (fs @ [b]) {}" using q(2) by (simp add: frame_simps)
  have "stats_ok ?s5"
    using p(2) fr unfolding stats_ok_pool [OF p5] stats_ok_pool [OF p(1)] by simp
  moreover have "index_inv ?s5"
    using index_inv_new_queue [OF _ q(3)] i3 by (simp add: frame_simps)
  moreover have "in_use ?s5 = in_use s - {b}"
    using in_use_del [OF p2, of b] fr(1) by (simp add: frame_simps)
  moreover have "unindexed b ?s5" using u2 by (simp add: unindexed_def)
  ultimately show thesis using run p(1) p5 by (intro that [of ?s5 fs] cache_invI)
qed

lemma evict_block_permanently_refused:
  assumes "cache_inv s" and "dict_get (allocated_blocks s) k = Some b"
    and "b = null_block s \<or> ref_count (blk s b) > 0"
  shows "evict_block_permanently k s = (Inr False, s)"
proof -
  obtain fs where p: "pool s fs {}" using assms(1) by (rule cache_invE)
  have b: "k = block_id b" "b \<in> set (blocks s)"
    using in_use_get [OF assms(1,2)] in_use_blocks [OF assms(1)] by auto
  from pool_facts(1,2) [OF p] b obtain i where i: "b = Blk i" "blocks s ! i = b" "i < length (blocks s)"
    by (auto simp: new_refs_def)
  then have "lookup_block k s = Inr (Some b)" by (simp add: lookup_block_def py_nth_def b(1))
  with assms(3) pool_facts(12) [OF p b(2)] show ?thesis by (auto simp: evict_block_permanently_def)
qed

lemma inv_evict_block_permanently [inv_intros]:
  assumes "cache_inv s" and "dict_get (allocated_blocks s) k \<noteq> None"
  shows "cache_inv (snd (evict_block_permanently k s))"
proof -
  from assms(2) obtain b where b: "dict_get (allocated_blocks s) k = Some b" by auto
  show ?thesis
  proof (cases "b = null_block s \<or> ref_count (blk s b) > 0")
    case True
    with evict_block_permanently_refused [OF assms(1) b] assms(1) show ?thesis by simp
  next
    case False
    then obtain s' where "evict_block_permanently k s = (Inr True, s')" "cache_inv s'"
      using evict_block_permanently_allocated [OF assms(1) b] by (metis linorder_not_less)
    then show ?thesis by simp
  qed
qed

subsection \<open>Construction and clearing\<close>

lemma reserve_null_ok:
  fixes now :: rat
  assumes n: "0 < n" "n \<le> max_blocks s" and c: "current_allocated_count s = n" "blocks s = new_refs 0 n"
    and q: "free_block_queue s = init_queue now (new_refs 0 n) (create_blocks now (new_refs 0 n) (\<lambda>_. new_block now))"
    and e: "allocated_blocks s = []" "cached_block_hash_to_block s = []"
  obtains s' where "reserve_null s = (Inr (), s')" and "pool s' (tl (new_refs 0 n)) {}" and "index_inv s'"
    and "null_block s' = Blk 0" and "allocated_blocks s' = [(0, Blk 0)]"
    and "current_allocated_count s' = n" and "cached_block_hash_to_block s' = []"
    and "max_blocks s' = max_blocks s" and "stats s' = stats s"
proof -
  let ?rs = "new_refs 0 n" and ?h = "create_blocks now (new_refs 0 n) (\<lambda>_. new_block now)"
  have rs: "?rs = Blk 0 # tl ?rs" using n(1) by (simp add: new_refs_def upt_conv_Cons)
  have d: "distinct ?rs" by (simp add: new_refs_def distinct_map inj_on_def)
  have ok: "fq_ok (free_block_queue s) ?rs"
    unfolding q using d by (intro init_queue_ok) (auto simp: new_refs_def create_blocks_def new_block_def)
  have m: "meta (heap (free_block_queue s) r) = meta (new_block now)" if "r \<in> set ?rs" for r
  proof -
    have "r \<noteq> FakeHead" "r \<noteq> FakeTail" "?rs \<noteq> []" using that by (auto simp: new_refs_def)
    then show ?thesis using that link_neighbours_fold(4) [OF d, of "length ?rs" ?h r]
      by (simp add: q init_queue_def Let_def create_blocks_def)
  qed
  let ?q = "snd (popleft (free_block_queue s))"
  from ok have ok': "fq_ok (free_block_queue s) (Blk 0 # tl ?rs)" using rs by simp
  let ?s1 = "s\<lparr>free_block_queue := ?q\<rparr>"
  have pop: "on_queue popleft s = (Inr (Blk 0), ?s1)"
    using fq.pop_result [OF ok'] by (intro prod_eqI) (simp_all add: on_queue_frame)
  let ?f = "\<lambda>x. x\<lparr>is_null := True, ref_count := 1\<rparr>"
  let ?s2 = "?s1\<lparr>null_block := Blk 0, allocated_blocks := [(0, Blk 0)]\<rparr>"
  let ?s' = "upd_blk (Blk 0) ?f ?s2"
  have run: "reserve_null s = (Inr (), ?s')"
    using pop e by (simp add: reserve_null_def modify_def)
  have "fq_ok (free_block_queue ?s') (tl ?rs)"
    using fq.pop_rep [OF ok'] by (simp add: upd_blk_def) (subst fq_ok_links_cong, auto simp: blk_def)
  moreover have iu: "in_use ?s' = {Blk 0}" by (simp add: in_use_def)
  moreover have nt: "Blk 0 \<notin> set (tl ?rs)" using d rs by (metis distinct.simps(2))
  moreover have "insert (Blk 0) (set (tl ?rs)) = set ?rs" using rs by (metis list.simps(15))
  moreover have m': "meta (blk ?s2 r) = meta (new_block now)" if "r \<in> set ?rs" for r
    using m [OF that] by (simp add: blk_def fq_meta)
  moreover have "is_null (blk ?s' r) = (r = Blk 0)" if "r \<in> set ?rs" for r
    using meta_eqD(3) [OF m' [OF that]] by (simp add: new_block_def)
  moreover have "ref_count (blk ?s' r) \<le> 0" if "r \<in> set (tl ?rs)" for r
  proof -
    have "r \<in> set ?rs" using that by (metis list.set_sel(2) list.sel(2))
    moreover have "r \<noteq> Blk 0" using that nt by auto
    ultimately show ?thesis using meta_eqD(1) [OF m', of r] by (simp add: new_block_def)
  qed
  ultimately have "pool ?s' (tl ?rs) {}"
    using n c by (simp add: pool_def)
  moreover have "index_inv ?s'" using e by (simp add: index_inv_def)
  ultimately show thesis using run c e by (intro that [of ?s']) simp_all
qed

lemma fresh_pool_inv:
  assumes "pool s (tl (new_refs 0 n)) {}" and "index_inv s" and "0 < n"
    and "current_allocated_count s = n"
  shows "cache_inv (upd_stats (\<lambda>_. fresh_stats n) s)"
proof -
  let ?s = "upd_stats (\<lambda>_. fresh_stats n) s"
  have p: "pool ?s (tl (new_refs 0 n)) {}" using assms(1) by (simp add: frame_simps)
  have "length (tl (new_refs 0 n)) = nat n - 1" by (simp add: new_refs_def)
  with assms(3,4) have "stats_ok ?s" unfolding stats_ok_pool [OF p] by (simp add: fresh_stats_def)
  with p assms(2) show ?thesis by (intro cache_invI) (simp_all add: frame_simps)
qed

lemma upd_stats_id: "stats s = x \<Longrightarrow> upd_stats (\<lambda>_. x) s = s"
  by (auto simp: upd_stats_def)

text \<open>A new manager satisfies the invariant; without room for the null block there is none.\<close>

lemma init_manager_ok:
  assumes "0 < min iblocks mblocks"
  obtains s where "init_manager now bsize mblocks caching name iblocks = Inr s" and "cache_inv s"
    and "allocated_blocks s = [(0, Blk 0)]" and "null_block s = Blk 0"
    and "pool s (tl (new_refs 0 (min iblocks mblocks))) {}" and "cached_block_hash_to_block s = []"
    and "max_blocks s = mblocks"
proof -
  let ?n = "min iblocks mblocks"
  define s0 where "s0 = \<lparr>block_size = bsize, max_blocks = mblocks, enable_caching = caching,
       model_name = name, initial_blocks = iblocks, current_allocated_count = ?n,
       blocks = new_refs 0 ?n,
       free_block_queue = init_queue now (new_refs 0 ?n) (create_blocks now (new_refs 0 ?n) (\<lambda>_. new_block now)),
       cached_block_hash_to_block = [], table_store = [], request_tables = [],
       allocated_blocks = [], null_block = FakeHead, stats = fresh_stats ?n,
       ssd_has_block = None, drop_hook = False, dropped = [], clear_hook = False, cleared = 0\<rparr>"
  obtain s where s: "reserve_null s0 = (Inr (), s)" "pool s (tl (new_refs 0 ?n)) {}" "index_inv s"
    "null_block s = Blk 0" "allocated_blocks s = [(0, Blk 0)]" "current_allocated_count s = ?n"
    "cached_block_hash_to_block s = []" "max_blocks s = max_blocks s0" "stats s = stats s0"
    by (rule reserve_null_ok [of ?n s0 now]) (use assms in \<open>simp_all add: s0_def\<close>)
  have "init_manager now bsize mblocks caching name iblocks = Inr s"
    using s(1) by (simp add: init_manager_def Let_def s0_def)
  moreover have "cache_inv s"
    using fresh_pool_inv [OF s(2,3) assms s(6)] upd_stats_id [of s "fresh_stats ?n"] s(9)
    by (simp add: s0_def)
  ultimately show thesis using s that by (simp add: s0_def)
qed

lemma init_manager_no_room:
  assumes "min iblocks mblocks \<le> 0"
  shows "init_manager now bsize mblocks caching name iblocks = Inl ValueError"
  using assms
  by (simp add: init_manager_def Let_def new_refs_def reserve_null_def on_queue_def popleft_def
      init_queue_def bind_st_def)

lemma clear_ok:
  assumes "0 < min (initial_blocks s) (max_blocks s)"
  obtains s' where "clear now s = (Inr (max 0 (int (length (allocated_blocks s)) - 1)), s')"
    and "cache_inv s'" and "allocated_blocks s' = [(0, Blk 0)]" and "cached_block_hash_to_block s' = []"
    and "pool s' (tl (new_refs 0 (min (initial_blocks s) (max_blocks s)))) {}"
proof -
  let ?n = "min (initial_blocks s) (max_blocks s)"
  let ?s0 = "(clear_index (s\<lparr>current_allocated_count := ?n, blocks := new_refs 0 ?n,
      free_block_queue := init_queue now (new_refs 0 ?n)
        (create_blocks now (new_refs 0 ?n) (\<lambda>_. new_block now))\<rparr>))
      \<lparr>request_tables := [], allocated_blocks := []\<rparr>"
  obtain s1 where s: "reserve_null ?s0 = (Inr (), s1)" "pool s1 (tl (new_refs 0 ?n)) {}" "index_inv s1"
    "allocated_blocks s1 = [(0, Blk 0)]" "current_allocated_count s1 = ?n" "cached_block_hash_to_block s1 = []"
    by (rule reserve_null_ok [of ?n ?s0 now]) (use assms in \<open>simp_all add: clear_index_def\<close>)
  let ?s' = "upd_stats (\<lambda>_. fresh_stats ?n) s1"
  have "clear now s = (Inr (max 0 (int (length (allocated_blocks s)) - 1)), ?s')"
    using s(1) by (simp add: clear_def Let_def ret_def)
  moreover have "cache_inv ?s'" using s(2,3) assms s(5) by (rule fresh_pool_inv)
  ultimately show thesis using s by (intro that [of ?s']) (simp_all add: frame_simps)
qed

subsection \<open>The generic interface\<close>

lemma inv_fetch [inv_intros]: "cache_inv s \<Longrightarrow> cache_inv (snd (fetch k s))"
  by (cases k) (auto simp: get_cached_block_def count_hit_def count_miss_def
      split: prod.split option.split intro!: inv_intros)

lemma inv_store [inv_intros]:
  "cache_inv s \<Longrightarrow> b \<in> in_use s \<Longrightarrow> unindexed b s \<Longrightarrow> cache_inv (snd (store k (Some b) s))"
  by (cases k) (auto intro!: inv_set_hash_and_insert)

lemma inv_evict_hash [inv_intros]:
  assumes "cache_inv s"
  shows "cache_inv (snd (evict (HashKey h) s))"
proof (cases "get_block (cached_block_hash_to_block s) h")
  case None
  with assms show ?thesis by simp
next
  case (Some b)
  obtain fs where "pool s fs {}" using assms by (rule cache_invE)
  with indexed_in_use [OF assms Some] have "dict_get (allocated_blocks s) (block_id b) = Some b"
    using in_use_iff by blast
  then have "cache_inv (snd (evict_block_permanently (block_id b) s))"
    using assms by (intro inv_evict_block_permanently) simp_all
  with Some show ?thesis by simp
qed

subsection \<open>All reachable states\<close>

text \<open>
  One method call of a client, with the obligations the callers meet. The calls that only read
  are left out; the batch methods stand for their single-block versions too. The obligation that
  not every caller meets is \<open>evictable_id\<close>: a block that is already free must not be evicted.
\<close>

definition evictable_id :: "paged_cache \<Rightarrow> int \<Rightarrow> bool" where
  "evictable_id s k \<longleftrightarrow> dict_get (allocated_blocks s) k \<noteq> None \<or> int (length (blocks s)) \<le> k"

lemma inv_evict_id [inv_intros]:
  assumes "cache_inv s" and "evictable_id s k"
  shows "cache_inv (snd (evict_block_permanently k s))"
proof (cases "dict_get (allocated_blocks s) k")
  case None
  then have "lookup_block k s = Inr None" using assms(2) by (simp add: evictable_id_def lookup_block_def)
  then show ?thesis using assms(1) by (simp add: evict_block_permanently_def)
qed (use assms(1) in \<open>simp add: inv_evict_block_permanently\<close>)

lemma inv_evict_key [inv_intros]:
  "evictable_id s k \<Longrightarrow> cache_inv s \<Longrightarrow> cache_inv (snd (evict (IdKey k) s))"
  "cache_inv s \<Longrightarrow> cache_inv (snd (evict OtherKey s))"
  by (simp_all add: inv_evict_id ret_def)

inductive call :: "paged_cache \<Rightarrow> paged_cache \<Rightarrow> bool" where
  call_allocate: "call s (snd (allocate_block now s))"
| call_get_new: "0 \<le> n \<Longrightarrow> call s (snd (get_new_blocks now n s))"
| call_for_tokens: "0 < block_size s \<Longrightarrow> 0 \<le> n \<Longrightarrow> call s (snd (allocate_blocks_for_tokens now n s))"
| call_free: "call s (snd (free_block k s))"
| call_touch: "set bs \<subseteq> set (blocks s) \<Longrightarrow> call s (touch now bs s)"
| call_increment: "call s (snd (increment_ref now k s))"
| call_acquire: "call s (snd (acquire_cached_block now k h s))"
| call_release: "call s (snd (release_for_eviction ks s))"
| call_get_cached: "call s (snd (get_cached_block h s))"
| call_cache_full: "set bs \<subseteq> in_use s \<Longrightarrow> call s (snd (cache_full_blocks sha256 bs toks nc nf extra s))"
| call_get_computed: "call s (snd (get_computed_blocks sha256 now toks ks s))"
| call_find_cached: "call s (snd (find_cached_block sha256 now toks parent extra s))"
| call_register: "b \<in> in_use s \<Longrightarrow> unindexed b s \<Longrightarrow>
    call s (register_block_hash sha256 b toks parent extra s)"
| call_create_table: "call s (snd (create_block_table rid s))"
| call_get_or_create_table: "call s (snd (get_or_create_block_table rid s))"
| call_delete_table: "call s (snd (delete_block_table rid s))"
| call_add_to_table: "call s (add_block_to_table t b n s)"
| call_shared_prefix: "call s (snd (find_shared_prefix sha256 now toks ks s))"
| call_fork: "call s (snd (fork_block_table now t rid s))"
| call_generation: "call s (snd (get_blocks_for_generation now t s))"
| call_evict_lru: "call s (snd (evict_lru_blocks n s))"
| call_pressure: "call s (snd (handle_memory_pressure n s))"
| call_stats: "call s (snd (get_stats s))"
| call_memory_usage: "call s (snd (get_memory_usage s))"
| call_reset_stats: "call s (reset_stats s)"
| call_reset_cache: "call s (snd (reset_prefix_cache s))"
| call_clear: "0 < min (initial_blocks s) (max_blocks s) \<Longrightarrow> call s (snd (clear now s))"
| call_mark_cold: "call s (snd (mark_block_cold k s))"
| call_evict_permanently: "evictable_id s k \<Longrightarrow> call s (snd (evict_block_permanently k s))"
| call_restore: "call s (snd (restore_block now k s))"
| call_store: "b \<in> in_use s \<Longrightarrow> unindexed b s \<Longrightarrow> call s (snd (store k (Some b) s))"
| call_evict_hash: "call s (snd (evict (HashKey h) s))"
| call_evict_id: "evictable_id s k \<Longrightarrow> call s (snd (evict (IdKey k) s))"
| call_evict_other: "call s (snd (evict OtherKey s))"
| call_set_ssd: "call s (set_paged_ssd_cache_manager ssd s)"

inductive reachable :: "paged_cache \<Rightarrow> bool" where
  reachable_init: "init_manager now bsize mblocks caching name iblocks = Inr s \<Longrightarrow> reachable s"
| reachable_call: "reachable s \<Longrightarrow> call s s' \<Longrightarrow> reachable s'"

lemma inv_set_ssd [inv_intros]:
  assumes "cache_inv s"
  shows "cache_inv (set_paged_ssd_cache_manager ssd s)"
proof -
  have "pool (s\<lparr>ssd_has_block := ssd\<rparr>) fs T = pool s fs T" for fs T
    by (simp add: pool_def in_use_def blk_def)
  with assms show ?thesis
    by (simp add: set_paged_ssd_cache_manager_def cache_inv_def stats_ok_def index_inv_def
        in_use_def blk_def)
qed

lemma clear_inv: "0 < min (initial_blocks s) (max_blocks s) \<Longrightarrow> cache_inv (snd (clear now s))"
  using clear_ok [of s now] by (metis snd_conv)

lemma call_inv: "call s s' \<Longrightarrow> cache_inv s \<Longrightarrow> cache_inv s'"
  by (induction rule: call.induct)
    (simp_all add: inv_intros clear_inv keepsD keeps_allocate_block keeps_get_new_blocks
      keeps_free_block keeps_get_computed_blocks keeps_delete_block_table keeps_find_shared_prefix
      keeps_get_blocks_for_generation keeps_evict_lru_blocks keeps_handle_memory_pressure
      del: evict.simps fetch.simps store.simps)

lemma reachable_inv: "reachable s \<Longrightarrow> cache_inv s"
proof (induction rule: reachable.induct)
  case (reachable_init now bsize mblocks caching name iblocks s)
  have "0 < min iblocks mblocks"
    using init_manager_no_room reachable_init by (metis Inl_Inr_False linorder_not_less)
  then show ?case using reachable_init by (metis init_manager_ok sum.inject(2))
qed (rule call_inv)

end
