(* ===== verification/PrefixLookup.thy ===== *)
theory PrefixLookup
  imports PoolSafety
begin

section \<open>Looking a prefix up\<close>

text \<open>
  What \<open>get_computed_blocks\<close> of \<^verbatim>\<open>src/omlx/cache/paged_cache.py\<close> finds: the chain of hashes of a
  token sequence, the loop over it without an SSD tier, and the loop with one, where a block that
  is only on the SSD is registered in a free block on the way.
\<close>

subsection \<open>The chain of hashes\<close>

text \<open>The chain of hashes a token sequence has, block by block.\<close>

fun chain_hashes ::
    "(string \<Rightarrow> block_hash) \<Rightarrow> string \<Rightarrow> int \<Rightarrow> int list \<Rightarrow> (int \<Rightarrow> extra_keys option) \<Rightarrow>
     block_hash option \<Rightarrow> int list \<Rightarrow> block_hash list" where
  "chain_hashes sha256 m bs toks ek parent [] = []"
| "chain_hashes sha256 m bs toks ek parent (i # is) =
     (let h = compute_block_hash sha256 parent (py_slice toks (i * bs) (i * bs + bs)) (ek (i * bs + bs)) m
      in h # chain_hashes sha256 m bs toks ek (Some h) is)"

text \<open>The longest prefix of a list of optional values that are there.\<close>

fun present :: "'a option list \<Rightarrow> 'a list" where
  "present (Some x # xs) = x # present xs"
| "present _ = []"

definition count_lookup :: "nat \<Rightarrow> bool \<Rightarrow> paged_cache \<Rightarrow> paged_cache" where
  "count_lookup hits miss = upd_stats (\<lambda>t. t\<lparr>st_hits := st_hits t + int hits,
     st_misses := st_misses t + (if miss then 1 else 0)\<rparr>)"

lemma count_lookup_sel [simp]:
  "cached_block_hash_to_block (count_lookup n b s) = cached_block_hash_to_block s"
  "block_size (count_lookup n b s) = block_size s" "model_name (count_lookup n b s) = model_name s"
  "ssd_has_block (count_lookup n b s) = ssd_has_block s"
  by (simp_all add: count_lookup_def upd_stats_def)

lemma count_lookup_Suc: "count_lookup n b (count_hit s) = count_lookup (Suc n) b s"
  by (simp add: count_lookup_def count_hit_def upd_stats_def)

lemma count_hit_sel:
  "cached_block_hash_to_block (count_hit s) = cached_block_hash_to_block s"
  "block_size (count_hit s) = block_size s" "model_name (count_hit s) = model_name s"
  "ssd_has_block (count_hit s) = ssd_has_block s"
  by (simp_all add: count_hit_def upd_stats_def)

definition cached_prefix ::
    "(string \<Rightarrow> block_hash) \<Rightarrow> paged_cache \<Rightarrow> int list \<Rightarrow> (int \<Rightarrow> extra_keys option) \<Rightarrow>
     block_hash option \<Rightarrow> int list \<Rightarrow> ref list" where
  "cached_prefix sha256 s toks ek parent is =
     present (map (get_block (cached_block_hash_to_block s))
       (chain_hashes sha256 (model_name s) (block_size s) toks ek parent is))"

lemma computed_loop_present:
  assumes "ssd_has_block s = None"
    and "\<And>e. resolve_block_extra_keys e (key_extra ks) (key_token_start ks) (key_ranges ks) = Inr (ek e)"
  shows "computed_loop sha256 now toks ks is parent acc n s =
    (Inr (acc @ cached_prefix sha256 s toks ek parent is,
          n + block_size s * int (length (cached_prefix sha256 s toks ek parent is))),
     count_lookup (length (cached_prefix sha256 s toks ek parent is))
       (length (cached_prefix sha256 s toks ek parent is) < length is) s)"
  using assms(1) unfolding cached_prefix_def
proof (induction "is" arbitrary: parent acc n s)
  case Nil
  then show ?case by (simp add: ret_def count_lookup_def upd_stats_def)
next
  case (Cons i "is")
  let ?h = "compute_block_hash sha256 parent
      (py_slice toks (i * block_size s) (i * block_size s + block_size s))
      (ek (i * block_size s + block_size s)) (model_name s)"
  show ?case
  proof (cases "get_block (cached_block_hash_to_block s) ?h")
    case None
    with Cons.prems assms(2) show ?thesis
      by (simp add: Let_def lazy_restore_def bind_st_def [of "lazy_restore _ _"] ret_def
          count_miss_def count_lookup_def)
  next
    case (Some b)
    with Cons.prems assms(2) Cons.IH [of "count_hit s" "Some ?h" "acc @ [b]" "n + block_size s"]
    show ?thesis
      by (simp add: Let_def count_hit_sel count_lookup_Suc algebra_simps)
  qed
qed

subsection \<open>With an SSD tier\<close>

text \<open>What allocating a block leaves alone\<close>

definition lookup_frame ::
    "paged_cache \<Rightarrow> (int \<times> string \<times> (block_hash \<Rightarrow> bool) option) \<times> int \<times> int" where
  "lookup_frame s = ((block_size s, model_name s, ssd_has_block s), st_hits (stats s), st_misses (stats s))"

lemma keeps_on_queue_frame: "keeps (on_queue op) (\<lambda>s. lookup_frame s = v)"
  by (rule keepsI) (simp add: on_queue_frame lookup_frame_def)

lemma frame_upd_stats:
  "st_hits (f (stats s)) = st_hits (stats s) \<Longrightarrow> st_misses (f (stats s)) = st_misses (stats s) \<Longrightarrow>
    lookup_frame (upd_stats f s) = lookup_frame s"
  by (simp add: lookup_frame_def upd_stats_def)

lemma frame_upd_blk: "lookup_frame (upd_blk b f s) = lookup_frame s"
  by (simp add: lookup_frame_def upd_blk_def)

lemma frame_claim: "lookup_frame (claim_block now b s) = lookup_frame s"
proof -
  have "lookup_frame (snd (maybe_evict_cached_block b s)) = lookup_frame s"
    by (auto simp: maybe_evict_cached_block_def pop_index_def notify_hash_dropped_def Let_def lookup_frame_def
        upd_blk_def upd_stats_def split: option.split prod.split)
  then show ?thesis
    by (simp add: claim_block_def Let_def) (simp add: lookup_frame_def upd_blk_def)
qed

lemma keeps_grow_frame: "keeps (grow_blocks now n) (\<lambda>s. lookup_frame s = v)"
  by (rule keepsI) (auto simp: grow_blocks_def Let_def bind_st_def modify_def ret_def on_queue_def lookup_frame_def
    upd_stats_def split: prod.split sum.split)

lemma frame_allocate: "lookup_frame (snd (allocate_block now s)) = lookup_frame s"
proof -
  have 1: "keeps (bind_st (grow_blocks now n) (\<lambda>grown. ret (grown \<noteq> 0))) (\<lambda>t. lookup_frame t = lookup_frame s)" for n
    by (intro keeps_bind keeps_grow_frame keeps_ret)
  have "keeps (allocate_block now) (\<lambda>t. lookup_frame t = lookup_frame s)"
    unfolding allocate_block_def
    by (intro keeps_bind keeps_if keeps_ret keeps_on_queue_frame keeps_modify)
      (auto simp: frame_claim frame_upd_stats intro!: keepsI dest: keepsD [OF 1])
  then show ?thesis by (rule keepsD) simp
qed

text \<open>What a lookup on the SSD does for a hash that is not in the index\<close>

lemma lazy_restore_cases:
  assumes i: "cache_inv s" and h: "blocks_of (cached_block_hash_to_block s) h = {}"
  obtains (absent) "lazy_restore now h s = (Inr None, s)"
      "(case ssd_has_block s of None \<Rightarrow> True | Some has_block \<Rightarrow> \<not> has_block h) \<or>
       num_free_blocks (free_block_queue s) = 0 \<and> current_allocated_count s = max_blocks s"
  | (restored) b s' where "lazy_restore now h s = (Inr (Some b), s')" "cache_inv s'" "b \<notin> in_use s"
      "\<exists>has_block. ssd_has_block s = Some has_block \<and> has_block h" "in_use s' = insert b (in_use s)"
      "blocks_of (cached_block_hash_to_block s') = (blocks_of (cached_block_hash_to_block s))(h := {b})"
      "lookup_frame s' = lookup_frame s" "\<And>r. r \<in> in_use s \<Longrightarrow> ref_count (blk s' r) = ref_count (blk s r)"
proof (cases "\<exists>has_block. ssd_has_block s = Some has_block \<and> has_block h")
  case False
  then show thesis by (intro absent) (auto simp: lazy_restore_def split: option.split)
next
  case True
  then obtain f where f: "ssd_has_block s = Some f" "f h" by blast
  from i show thesis
  proof (cases rule: allocate_block_inv [where now = now])
    case full
    with f show thesis by (intro absent) (simp_all add: lazy_restore_def ret_def)
  next
    case (given b t)
    let ?t = "upd_blk b (\<lambda>x. x\<lparr>block_hash := Some h, token_count := block_size t, ref_count := 0\<rparr>) t"
    have run: "lazy_restore now h s = (Inr (Some b), insert_index h b ?t)"
      using given(1) f by (simp add: lazy_restore_def ret_def)
    have "index_ok (cached_block_hash_to_block t)" using given(2) by (simp add: cache_inv_def index_inv_def)
    then have "blocks_of (cached_block_hash_to_block (insert_index h b ?t)) =
        (blocks_of (cached_block_hash_to_block s))(h := {b})"
      using given(3) h by (auto simp: insert_index_def blocks_of_insert gave_out_def fun_eq_iff)
    moreover have "lookup_frame (insert_index h b ?t) = lookup_frame s"
      using frame_allocate [of now s] given(1)
      by (simp add: frame_upd_blk insert_index_def lookup_frame_def upd_blk_def)
    moreover have "cache_inv (insert_index h b ?t)"
      using keepsD [OF keeps_lazy_restore i, of now h] run by simp
    moreover have "ref_count (blk (insert_index h b ?t) r) = ref_count (blk s r)" if "r \<in> in_use s" for r
    proof -
      have "meta (blk t r) = meta (blk s r)" "r \<noteq> b" using that given(3) by (auto simp: gave_out_def)
      then show ?thesis by (auto simp: insert_index_def frame_simps dest: meta_eqD(1))
    qed
    moreover have "in_use (insert_index h b ?t) = insert b (in_use s)"
      using given(3) by (simp add: insert_index_def frame_simps gave_out_def)
    moreover have "b \<notin> in_use s" using given(3) by (simp add: gave_out_def)
    ultimately show thesis using run f by (intro restored) blast+
  qed
qed

text \<open>
  The loop answers the blocks of the longest prefix of the hashes that is in the index or can be
  brought in from the SSD; \<open>found s hs s' bs\<close> says what that means for the two states.
\<close>

definition on_ssd :: "paged_cache \<Rightarrow> block_hash \<Rightarrow> bool" where
  "on_ssd s h \<longleftrightarrow> (case ssd_has_block s of None \<Rightarrow> False | Some has_block \<Rightarrow> has_block h)"

definition out_of_blocks :: "paged_cache \<Rightarrow> bool" where
  "out_of_blocks s \<longleftrightarrow> num_free_blocks (free_block_queue s) = 0 \<and> current_allocated_count s = max_blocks s"

definition found_prefix :: "paged_cache \<Rightarrow> block_hash list \<Rightarrow> paged_cache \<Rightarrow> ref list \<Rightarrow> bool" where
  "found_prefix s hs s' bs \<longleftrightarrow> length bs \<le> length hs \<and>
     (\<forall>i < length bs. bs ! i \<in> blocks_of (cached_block_hash_to_block s') (hs ! i) \<and>
        (bs ! i \<in> blocks_of (cached_block_hash_to_block s) (hs ! i) \<or> bs ! i \<notin> in_use s \<and> on_ssd s (hs ! i))) \<and>
     (length bs < length hs \<longrightarrow> blocks_of (cached_block_hash_to_block s') (hs ! length bs) = {} \<and>
        (\<not> on_ssd s (hs ! length bs) \<or> out_of_blocks s'))"

text \<open>Entries are only added, for the blocks found; no reference count of a block in use changes.\<close>

definition only_adds :: "paged_cache \<Rightarrow> paged_cache \<Rightarrow> ref list \<Rightarrow> bool" where
  "only_adds s s' bs \<longleftrightarrow>
     (\<forall>h. blocks_of (cached_block_hash_to_block s) h \<subseteq> blocks_of (cached_block_hash_to_block s') h \<and>
        blocks_of (cached_block_hash_to_block s') h \<subseteq> blocks_of (cached_block_hash_to_block s) h \<union> set bs) \<and>
     in_use s \<subseteq> in_use s' \<and> in_use s' \<subseteq> in_use s \<union> set bs \<and>
     (\<forall>r \<in> in_use s. ref_count (blk s' r) = ref_count (blk s r))"

lemma found_prefix_Cons:
  assumes f: "found_prefix t hs s' bs" and a: "only_adds s t [b]" "on_ssd t = on_ssd s" "index_inv t"
    and a': "only_adds t s' bs"
    and b: "b \<in> blocks_of (cached_block_hash_to_block t) h"
      "b \<in> blocks_of (cached_block_hash_to_block s) h \<or> b \<notin> in_use s \<and> on_ssd s h"
  shows "found_prefix s (h # hs) s' (b # bs)" and "only_adds s s' (b # bs)"
proof -
  let ?c = "\<lambda>s. blocks_of (cached_block_hash_to_block s)"
  have src: "r \<in> ?c s k \<or> r \<notin> in_use s \<and> on_ssd s k" if "r \<in> ?c t k \<or> r \<notin> in_use t \<and> on_ssd t k" for r k
  proof (cases "r \<in> ?c t k")
    case True
    then have "r \<in> ?c s k \<or> r = b" using a(1) by (auto simp: only_adds_def)
    moreover have "k = h" if "r = b"
    proof -
      have "block_hash (blk t b) = Some k" "block_hash (blk t b) = Some h"
        using a(3) True b(1) that unfolding index_inv_def by blast+
      then show ?thesis by simp
    qed
    ultimately show ?thesis using b(2) by blast
  next
    case False
    then show ?thesis using that a(1,2) by (auto simp: only_adds_def)
  qed
  have first: "b \<in> ?c s' h" using b(1) a' by (auto simp: only_adds_def)
  have "(b # bs) ! i \<in> ?c s' ((h # hs) ! i) \<and>
      ((b # bs) ! i \<in> ?c s ((h # hs) ! i) \<or> (b # bs) ! i \<notin> in_use s \<and> on_ssd s ((h # hs) ! i))"
    if "i < length (b # bs)" for i
    using that f first b(2) src by (cases i) (simp_all add: found_prefix_def)
  then show "found_prefix s (h # hs) s' (b # bs)" using f by (simp add: found_prefix_def a(2))
  show "only_adds s s' (b # bs)"
    unfolding only_adds_def
  proof (intro conjI allI ballI)
    fix k r
    show "?c s k \<subseteq> ?c s' k" "?c s' k \<subseteq> ?c s k \<union> set (b # bs)"
      using a(1) a' unfolding only_adds_def by (blast, fastforce)
    show "in_use s \<subseteq> in_use s'" "in_use s' \<subseteq> in_use s \<union> set (b # bs)"
      using a(1) a' unfolding only_adds_def by (blast, fastforce)
    assume "r \<in> in_use s"
    then show "ref_count (blk s' r) = ref_count (blk s r)" using a(1) a' by (auto simp: only_adds_def)
  qed
qed

lemma computed_loop_found:
  assumes "cache_inv s"
    and "\<And>e. resolve_block_extra_keys e (key_extra ks) (key_token_start ks) (key_ranges ks) = Inr (ek e)"
  shows "\<exists>bs s'. computed_loop sha256 now toks ks is parent acc n s =
      (Inr (acc @ bs, n + block_size s * int (length bs)), s') \<and> cache_inv s' \<and>
    found_prefix s (chain_hashes sha256 (model_name s) (block_size s) toks ek parent is) s' bs \<and>
    only_adds s s' bs \<and> fst (lookup_frame s') = fst (lookup_frame s) \<and>
    st_hits (stats s') = st_hits (stats s) + int (length bs) \<and>
    st_misses (stats s') = st_misses (stats s) + (if length bs < length is then 1 else 0)"
  using assms(1)
proof (induction "is" arbitrary: parent acc n s)
  case Nil
  then show ?case by (intro exI [of _ "[]"] exI [of _ s]) (simp add: ret_def found_prefix_def only_adds_def)
next
  case (Cons i "is")
  let ?h = "compute_block_hash sha256 parent
      (py_slice toks (i * block_size s) (i * block_size s + block_size s))
      (ek (i * block_size s + block_size s)) (model_name s)"
  let ?c = "\<lambda>s. cached_block_hash_to_block s"
  have ok: "index_ok (?c s)" using Cons.prems by (simp add: cache_inv_def index_inv_def)
  text \<open>The first block is in \<open>t\<close>, the state before it is counted.\<close>
  have hit: ?case
    if t: "cache_inv t" "lookup_frame t = lookup_frame s" "b \<in> blocks_of (?c t) ?h"
        "b \<in> blocks_of (?c s) ?h \<or> b \<notin> in_use s \<and> on_ssd s ?h" "only_adds s t [b]"
      and run: "computed_loop sha256 now toks ks (i # is) parent acc n s =
        computed_loop sha256 now toks ks is (Some ?h) (acc @ [b]) (n + block_size s) (count_hit t)"
    for b t
  proof -
    have inv: "cache_inv (count_hit t)" using t(1) by (rule inv_count_hit)
    have fr: "block_size t = block_size s" "model_name t = model_name s" "ssd_has_block t = ssd_has_block s"
        "st_hits (stats t) = st_hits (stats s)" "st_misses (stats t) = st_misses (stats s)"
      using t(2) by (simp_all add: lookup_frame_def)
    have st: "st_hits (stats (count_hit t)) = st_hits (stats s) + 1" "st_misses (stats (count_hit t)) = st_misses (stats s)"
      by (simp_all add: count_hit_def fr)
    let ?hs = "chain_hashes sha256 (model_name s) (block_size s) toks ek (Some ?h) is"
    obtain bs s' where ih: "computed_loop sha256 now toks ks is (Some ?h) (acc @ [b]) (n + block_size s) (count_hit t) =
        (Inr ((acc @ [b]) @ bs, n + block_size s + block_size s * int (length bs)), s')" "cache_inv s'"
      "found_prefix (count_hit t) ?hs s' bs" "only_adds (count_hit t) s' bs"
      "fst (lookup_frame s') = fst (lookup_frame (count_hit t))"
      "st_hits (stats s') = st_hits (stats s) + 1 + int (length bs)"
      "st_misses (stats s') = st_misses (stats s) + (if length bs < length is then 1 else 0)"
      using Cons.IH [OF inv, of "Some ?h" "acc @ [b]" "n + block_size s"]
      unfolding count_hit_sel fr st by blast
    have cf: "?c (count_hit t) = ?c t" "in_use (count_hit t) = in_use t" "blk (count_hit t) = blk t"
        "on_ssd (count_hit t) = on_ssd s"
      by (simp_all add: count_hit_def frame_simps on_ssd_def fr fun_eq_iff) (simp add: upd_stats_def fr)
    have same: "found_prefix (count_hit t) = found_prefix t" "only_adds (count_hit t) = only_adds t"
      by (simp_all add: found_prefix_def only_adds_def cf fun_eq_iff on_ssd_def fr count_hit_sel)
    have "on_ssd t = on_ssd s" "index_inv t" using t(1) by (simp_all add: on_ssd_def fr fun_eq_iff cache_inv_def)
    from found_prefix_Cons [OF ih(3) [unfolded same] t(5) this ih(4) [unfolded same] t(3,4)]
    have "found_prefix s (?h # ?hs) s' (b # bs)" "only_adds s s' (b # bs)" .
    then show ?thesis
      using ih run fr
      by (intro exI [of _ "b # bs"] exI [of _ s'])
        (simp add: Let_def algebra_simps lookup_frame_def count_hit_sel)
  qed
  show ?case
  proof (cases "get_block (?c s) ?h")
    case (Some b)
    show ?thesis
      by (rule hit [of s b]) (use Cons.prems assms(2) Some get_block_mem [OF Some] in
        \<open>auto simp: Let_def only_adds_def\<close>)
  next
    case None
    then have e: "blocks_of (?c s) ?h = {}" using get_block_None [OF ok] by simp
    from Cons.prems e show ?thesis
    proof (cases rule: lazy_restore_cases [where now = now])
      case absent
      have "only_adds s (count_miss s) []" "found_prefix s (?h # hs) (count_miss s) []" for hs
        using absent(2) e
        by (auto simp: only_adds_def found_prefix_def count_miss_def frame_simps on_ssd_def out_of_blocks_def
            split: option.splits)
      moreover have "cache_inv (count_miss s)" using Cons.prems by (rule inv_count_miss)
      ultimately show ?thesis using absent(1) None assms(2)
        by (intro exI [of _ "[]"] exI [of _ "count_miss s"])
          (simp add: Let_def bind_st_def [of "lazy_restore _ _"] ret_def lookup_frame_def count_miss_def upd_stats_def)
    next
      case (restored b t)
      show ?thesis
        by (rule hit [of t b]) (use restored e None assms(2) in
          \<open>auto simp: Let_def only_adds_def on_ssd_def bind_st_def [of "lazy_restore _ _"]\<close>)
    qed
  qed
qed

end
