(* ===== verification/CacheProperties.thy ===== *)
theory CacheProperties
  imports PrefixLookup
begin

section \<open>What the paged cache promises\<close>

text \<open>
  The properties of \<^verbatim>\<open>src/omlx/cache/paged_cache.py\<close>, stated over every reachable state of the
  manager and proved from the invariant; each is followed by an instance on a concrete pool.
\<close>

subsection \<open>A concrete pool\<close>

text \<open>Three blocks, the null block and two free ones, with room for a fourth.\<close>

definition small_pool :: paged_cache where
  "small_pool = (case init_manager 0 2 4 True ''m'' 3 of Inr s \<Rightarrow> s)"

lemma small_pool_facts:
  shows "init_manager 0 2 4 True ''m'' 3 = Inr small_pool" and "reachable small_pool"
    and "pool small_pool [Blk 1, Blk 2] {}" and "allocated_blocks small_pool = [(0, Blk 0)]"
    and "null_block small_pool = Blk 0" and "cached_block_hash_to_block small_pool = []"
    and "max_blocks small_pool = 4"
proof -
  obtain s where s: "init_manager 0 2 4 True ''m'' 3 = Inr s" "cache_inv s"
    "allocated_blocks s = [(0, Blk 0)]" "null_block s = Blk 0"
    "pool s (tl (new_refs 0 (min 3 4))) {}" "cached_block_hash_to_block s = []" "max_blocks s = 4"
    by (rule init_manager_ok [of 3 4 0 2 True "''m''"]) simp
  then have e: "small_pool = s" by (simp add: small_pool_def)
  show "init_manager 0 2 4 True ''m'' 3 = Inr small_pool" using s(1) e by simp
  then show "reachable small_pool" by (rule reachable_init)
  have "tl (new_refs 0 (min 3 4)) = [Blk 1, Blk 2]"
    by (simp add: new_refs_def upt_rec numeral_2_eq_2)
  then show "pool small_pool [Blk 1, Blk 2] {}" using s(5) e by simp
  show "allocated_blocks small_pool = [(0, Blk 0)]" "null_block small_pool = Blk 0"
    "cached_block_hash_to_block small_pool = []" "max_blocks small_pool = 4"
    using s e by simp_all
qed

lemma small_pool_free: "get_all_free_blocks (free_block_queue small_pool) = Some [Blk 1, Blk 2]"
  using small_pool_facts(3) by (intro fq_ok_walk) (rule pool_facts)

lemma small_pool_in_use: "in_use small_pool = {Blk 0}"
  by (simp add: in_use_def small_pool_facts)

lemma reachable_pool:
  assumes "reachable s"
  obtains fs where "pool s fs {}" and "stats_ok s" and "index_inv s"
  using reachable_inv [OF assms] by (rule cache_invE)

subsection \<open>Properties\<close>

text \<open>
  C1. In every state reached by calls that pass the manager its own blocks and that evict for good
  only blocks in use (\<open>call\<close> in PoolSafety lists the conditions of each call), the free queue is a
  well-formed list whose blocks, together with the blocks in use, are all the blocks of the pool,
  no block being both; the counters of the statistics agree with the queue and the table; the
  pool is within its limit; every index entry names a block that is in use and carries the entry's
  hash. Evicting a free block for good, which \<open>omlx/scheduler.py\<close> does, is left out, because
  it destroys the queue (\<open>evict_free_block_loses_queue\<close>).
\<close>

theorem reachable_pool_sound:
  assumes "reachable s"
  shows "\<exists>fs. get_all_free_blocks (free_block_queue s) = Some fs \<and> distinct fs \<and>
      set fs \<inter> in_use s = {} \<and> set fs \<union> in_use s = set (blocks s) \<and>
      st_free_blocks (stats s) = int (length fs) \<and>
      st_allocated_blocks (stats s) = int (length (allocated_blocks s)) \<and>
      int (length fs) + int (length (allocated_blocks s)) = current_allocated_count s \<and>
      current_allocated_count s \<le> max_blocks s \<and>
      (\<forall>h b. get_block (cached_block_hash_to_block s) h = Some b \<longrightarrow>
         b \<in> in_use s \<and> block_hash (blk s b) = Some h)"
proof -
  obtain fs where p: "pool s fs {}" "stats_ok s" "index_inv s" using assms by (rule reachable_pool)
  note f = pool_facts [OF p(1)]
  show ?thesis
    using fq_ok_walk [OF f(4)] fq.rep_distinct [OF f(4)] f(3,7,10) p(2) pool_queue_length [OF p(1)]
      pool_count [OF p(1)] indexed_in_use [OF cache_invI [OF p]]
    by (intro exI [of _ fs]) (simp add: stats_ok_def)
qed

theorem reachable_pool_sound_witness:
  "\<exists>fs. get_all_free_blocks (free_block_queue small_pool) = Some fs \<and> distinct fs \<and>
    set fs \<inter> in_use small_pool = {} \<and> current_allocated_count small_pool \<le> max_blocks small_pool"
  using reachable_pool_sound [OF small_pool_facts(2)] by blast

lemma allocate_block_front:
  assumes "reachable s" and "get_all_free_blocks (free_block_queue s) = Some (b # fs)"
  shows "in_use (snd (allocate_block now s)) = insert b (in_use s)"
proof -
  obtain gs where p: "pool s gs {}" "stats_ok s" "index_inv s" using assms(1) by (rule reachable_pool)
  then have "gs = b # fs" using assms(2) fq_ok_walk [OF pool_facts(4)] by simp
  with p show ?thesis
    using allocate_nonempty [of s b fs now] by (metis gave_out_def snd_conv)
qed

text \<open>
  C2. \<open>allocate_block\<close> never raises in a reachable state. It returns nothing, and changes
  nothing, exactly when no block is free and the pool is at its limit; otherwise it hands out
  the block at the front of the free queue (the first new one when the queue is empty), which
  was not in use, with a reference count of 1 and no index entry, and leaves the reference
  counts and the index entries of all other blocks in use alone.
\<close>

theorem allocate_block_sound:
  assumes "reachable s"
  shows "\<exists>r s'. allocate_block now s = (Inr r, s') \<and>
    (case r of
       None \<Rightarrow> s' = s \<and> num_free_blocks (free_block_queue s) = 0 \<and>
               current_allocated_count s = max_blocks s
     | Some b \<Rightarrow> b \<notin> in_use s \<and> in_use s' = insert b (in_use s) \<and> ref_count (blk s' b) = 1 \<and>
               unindexed b s' \<and> reachable s' \<and>
               (\<forall>r \<in> in_use s. ref_count (blk s' r) = ref_count (blk s r)) \<and>
               blocks_of (cached_block_hash_to_block s') = blocks_of (cached_block_hash_to_block s) \<and>
               (case get_all_free_blocks (free_block_queue s) of
                  Some (x # _) \<Rightarrow> b = x
                | _ \<Rightarrow> b = Blk (nat (current_allocated_count s))))"
proof -
  obtain fs where p: "pool s fs {}" "stats_ok s" "index_inv s" using assms by (rule reachable_pool)
  have w: "get_all_free_blocks (free_block_queue s) = Some fs"
    using pool_facts(4) [OF p(1)] by (rule fq_ok_walk)
  have reach: "reachable (snd (allocate_block now s))"
    using assms call_allocate by (rule reachable_call)
  have refs: "ref_count (blk s' r) = ref_count (blk s r)"
    if "gave_out b s s'" "r \<in> in_use s" for b s' r
    using that by (intro meta_eqD(1)) (simp add: gave_out_def)
  from p show ?thesis
  proof (cases rule: allocate_block_cases [where now = now])
    case full
    then show ?thesis using pool_queue_length [OF p(1)] by simp
  next
    case (fresh k s')
    then show ?thesis using w reach refs [OF fresh(8)] by (simp add: gave_out_def)
  next
    case (reused b fs' s')
    then show ?thesis using w reach refs [OF reused(6)] by (simp add: gave_out_def)
  qed
qed

theorem allocate_block_sound_witness:
  "\<exists>s'. allocate_block 1 small_pool = (Inr (Some (Blk 1)), s') \<and> in_use s' = {Blk 0, Blk 1}"
proof -
  obtain r s' where "allocate_block 1 small_pool = (Inr r, s')"
    and "case r of
       None \<Rightarrow> s' = small_pool \<and> num_free_blocks (free_block_queue small_pool) = 0 \<and>
               current_allocated_count small_pool = max_blocks small_pool
     | Some b \<Rightarrow> b \<notin> in_use small_pool \<and> in_use s' = insert b (in_use small_pool) \<and> ref_count (blk s' b) = 1 \<and>
               unindexed b s' \<and> reachable s' \<and>
               (\<forall>r \<in> in_use small_pool. ref_count (blk s' r) = ref_count (blk small_pool r)) \<and>
               blocks_of (cached_block_hash_to_block s') = blocks_of (cached_block_hash_to_block small_pool) \<and>
               (case get_all_free_blocks (free_block_queue small_pool) of
                  Some (x # _) \<Rightarrow> b = x
                | _ \<Rightarrow> b = Blk (nat (current_allocated_count small_pool)))"
    using allocate_block_sound [OF small_pool_facts(2), of 1] by auto
  then show ?thesis
    using pool_queue_length [OF small_pool_facts(3)]
    by (cases r) (auto simp: small_pool_free small_pool_in_use)
qed

text \<open>
  C3. \<open>get_new_blocks\<close> is all or nothing: it hands out exactly \<open>n\<close> distinct blocks, none of
  them in use before, when the free blocks and the room left to grow suffice; otherwise it
  raises \<^verbatim>\<open>ValueError\<close> and no block changes hands. Either way the manager stays well-formed.
\<close>

theorem get_new_blocks_all_or_nothing:
  assumes "reachable s" and "0 \<le> n"
  shows "\<exists>r s'. get_new_blocks now n s = (r, s') \<and> reachable s' \<and>
    (if n \<le> num_free_blocks (free_block_queue s) + (max_blocks s - current_allocated_count s)
     then \<exists>bs. r = Inr bs \<and> int (length bs) = n \<and> distinct bs \<and> set bs \<inter> in_use s = {} \<and>
            in_use s' = set bs \<union> in_use s \<and> (\<forall>b \<in> set bs. ref_count (blk s' b) = 1)
     else r = Inl ValueError \<and> in_use s' = in_use s)"
proof -
  have reach: "reachable (snd (get_new_blocks now n s))"
    using assms(1) call_get_new [OF assms(2)] by (rule reachable_call)
  show ?thesis
    by (rule get_new_blocks_inv [OF reachable_inv [OF assms(1)] assms(2), of now])
      (use reach in auto)
qed

theorem get_new_blocks_all_or_nothing_witness:
  "(\<exists>s' bs. get_new_blocks 1 3 small_pool = (Inr bs, s') \<and> length bs = 3) \<and>
   (\<exists>s'. get_new_blocks 1 4 small_pool = (Inl ValueError, s') \<and> in_use s' = {Blk 0})"
proof -
  have "current_allocated_count small_pool = 3"
    using pool_count [OF small_pool_facts(3)] by (simp add: small_pool_facts)
  moreover have "num_free_blocks (free_block_queue small_pool) = 2"
    using pool_queue_length [OF small_pool_facts(3)] by simp
  ultimately show ?thesis
    using get_new_blocks_all_or_nothing [OF small_pool_facts(2), of 3 1]
      get_new_blocks_all_or_nothing [OF small_pool_facts(2), of 4 1]
    by (auto simp: small_pool_facts small_pool_in_use)
qed

text \<open>
  C4. \<open>free_block\<close> never raises in a reachable state. Its result says whether the block was
  freed: an unknown block and the null block are left alone, a block with several references
  loses one, and the last reference takes the block out of the table and out of the index and
  puts it at the end of the free queue, so it is the last one to be reused.
\<close>

theorem free_block_sound:
  assumes "reachable s"
  shows "\<exists>r s'. free_block k s = (Inr r, s') \<and> reachable s' \<and>
    (case dict_get (allocated_blocks s) k of
       None \<Rightarrow> \<not> r \<and> s' = s
     | Some b \<Rightarrow>
         if b = null_block s then \<not> r \<and> s' = s
         else if ref_count (blk s b) > 1 then \<not> r \<and> s' = dec_ref b s
         else r \<and> in_use s' = in_use s - {b} \<and> unindexed b s' \<and>
              get_all_free_blocks (free_block_queue s') =
                map_option (\<lambda>fs. fs @ [b]) (get_all_free_blocks (free_block_queue s)))"
proof -
  have reach: "reachable (snd (free_block k s))"
    using assms call_free by (rule reachable_call)
  from reachable_inv [OF assms] show ?thesis
  proof (cases rule: free_block_cases [where k = k])
    case (last_ref b fs s')
    then show ?thesis
      using reach fq_ok_walk [OF pool_facts(4) [OF last_ref(5)]]
        fq_ok_walk [OF pool_facts(4) [OF last_ref(6)]] by auto
  qed (use reach in auto)
qed

theorem free_block_sound_witness:
  "\<exists>s'. free_block 0 small_pool = (Inr False, s') \<and> s' = small_pool"
  using free_block_sound [OF small_pool_facts(2), of 0] by (auto simp: small_pool_facts)

text \<open>
  Taking a cached block over: \<open>touch\<close> on a free block without references takes it out of
  the free queue wherever it stands, keeping the order of the others, and puts it in use
  with one reference.
\<close>

theorem touch_takes_block_out_of_queue:
  assumes "reachable s" and "get_all_free_blocks (free_block_queue s) = Some fs" and "b \<in> set fs"
    and "ref_count (blk s b) = 0"
  shows "reachable (touch now [b] s) \<and> ref_count (blk (touch now [b] s) b) = 1 \<and>
    in_use (touch now [b] s) = insert b (in_use s) \<and>
    get_all_free_blocks (free_block_queue (touch now [b] s)) = Some (remove1 b fs)"
proof -
  obtain gs where p: "pool s gs {}" "stats_ok s" "index_inv s" using assms(1) by (rule reachable_pool)
  then have "gs = fs" using assms(2) fq_ok_walk [OF pool_facts(4)] by simp
  with p have pf: "pool s fs {}" by simp
  have b: "b \<in> set (blocks s)" "b \<notin> in_use s" using pool_facts(7,10) [OF pf] assms(3) by auto
  have nn: "\<not> is_null (blk s b)" using pool_facts(11,12) [OF pf] b by auto
  have reach: "reachable (touch now [b] s)"
    using assms(1) by (rule reachable_call) (rule call_touch, use b in simp)
  obtain q where q: "on_queue (remove_block b) s = (Inr (), s\<lparr>free_block_queue := q\<rparr>)"
    "pool (s\<lparr>free_block_queue := q\<rparr>) (remove1 b fs) {b}"
    "\<And>r. meta (heap q r) = meta (heap (free_block_queue s) r)"
    by (rule pool_remove [OF pf assms(3)]) blast
  let ?s1 = "upd_stats (\<lambda>t. t\<lparr>st_free_blocks := st_free_blocks t - 1,
      st_allocated_blocks := st_allocated_blocks t + 1\<rparr>) (s\<lparr>free_block_queue := q\<rparr>)"
  let ?s2 = "?s1\<lparr>allocated_blocks := dict_set (block_id b) b (allocated_blocks ?s1)\<rparr>"
  have t: "touch now [b] s = inc_ref_touch now b ?s2"
    using assms(4) nn q(1) by (simp add: touch_def touch_one_def Let_def)
  have p1: "pool ?s1 (remove1 b fs) {b}" using q(2) by (simp add: frame_simps)
  have "pool ?s2 (remove1 b fs) {}" by (rule pool_enter [OF p1]) simp
  then have "pool (touch now [b] s) (remove1 b fs) {}"
    unfolding t inc_ref_touch_def using fq.rep_distinct [OF pool_facts(4) [OF pf]]
    by (intro pool_upd_blk) (auto simp: data_update_def touch_block_def)
  then have "get_all_free_blocks (free_block_queue (touch now [b] s)) = Some (remove1 b fs)"
    by (intro fq_ok_walk) (rule pool_facts)
  moreover have "in_use (touch now [b] s) = insert b (in_use s)"
    unfolding t inc_ref_touch_def using in_use_set [OF p1, of b] by (simp add: frame_simps)
  moreover have "ref_count (blk (touch now [b] s) b) = 1"
    unfolding t inc_ref_touch_def using assms(4) blk_new_queue(1) [of q s b, OF q(3)]
    by (simp add: frame_simps touch_block_def)
  ultimately show ?thesis using reach by blast
qed

theorem touch_takes_block_out_of_queue_witness:
  "ref_count (blk small_pool (Blk 2)) = 0 \<and>
   get_all_free_blocks (free_block_queue (touch 1 [Blk 2] small_pool)) = Some [Blk 1]"
proof -
  have "ref_count (blk small_pool (Blk 2)) = 0" by code_simp
  then show ?thesis
    using touch_takes_block_out_of_queue [OF small_pool_facts(2) small_pool_free, of "Blk 2" 1] by simp
qed

subsection \<open>Prefix lookup\<close>

text \<open>
  C5. In a reachable state, for keys of the blocks that resolve, \<open>get_computed_blocks\<close> never raises. With
  caching off it finds nothing and changes nothing. Otherwise it answers, in order, the blocks of
  the longest prefix of the full blocks of the sequence whose chained hashes are in the index or
  on the SSD, with the number of tokens they hold, one hit for each and one miss where the prefix
  ends early; an SSD block is registered in a free block, and the prefix also ends at one for
  which no free block is left. Nothing in use is given away and no index entry is lost. Without an SSD
  tier the blocks found are the indexed ones and nothing but the two counters changes.
\<close>

theorem get_computed_blocks_longest_prefix:
  fixes toks :: "int list"
  assumes "reachable s" and "0 < block_size s"
    and "\<And>e. resolve_block_extra_keys e (key_extra ks) (key_token_start ks) (key_ranges ks) = Inr (ek e)"
  defines "n \<equiv> int (length toks) div block_size s"
  shows "if \<not> enable_caching s then get_computed_blocks sha256 now toks ks s = (Inr ([], 0), s)
    else \<exists>bs s'. get_computed_blocks sha256 now toks ks s = (Inr (bs, block_size s * int (length bs)), s') \<and>
      found_prefix s (chain_hashes sha256 (model_name s) (block_size s) toks ek None [0..n - 1]) s' bs \<and>
      only_adds s s' bs \<and> reachable s' \<and>
      st_hits (stats s') = st_hits (stats s) + int (length bs) \<and>
      st_misses (stats s') = st_misses (stats s) + (if int (length bs) < n then 1 else 0) \<and>
      (ssd_has_block s = None \<longrightarrow> bs = cached_prefix sha256 s toks ek None [0..n - 1] \<and>
         s' = count_lookup (length bs) (int (length bs) < n) s)"
proof (cases "enable_caching s")
  case True
  have n: "0 \<le> n" using assms(2) by (simp add: n_def pos_imp_zdiv_nonneg_iff)
  then have lt: "k < length [0..n - 1] \<longleftrightarrow> int k < n" for k by auto
  have run: "get_computed_blocks sha256 now toks ks s = computed_loop sha256 now toks ks [0..n - 1] None [] 0 s"
    using True assms(2) by (simp add: get_computed_blocks_def n_def)
  obtain bs s' where l: "computed_loop sha256 now toks ks [0..n - 1] None [] 0 s =
      (Inr ([] @ bs, 0 + block_size s * int (length bs)), s')"
    "found_prefix s (chain_hashes sha256 (model_name s) (block_size s) toks ek None [0..n - 1]) s' bs" "only_adds s s' bs"
    "st_hits (stats s') = st_hits (stats s) + int (length bs)"
    "st_misses (stats s') = st_misses (stats s) + (if int (length bs) < n then 1 else 0)"
    using computed_loop_found [OF reachable_inv [OF assms(1)] assms(3), of sha256 now toks "[0..n - 1]" None "[]" 0]
    unfolding lt by blast
  have "reachable s'"
    using reachable_call [OF assms(1) call_get_computed, of sha256 now toks ks] run l(1) by simp
  moreover have "bs = cached_prefix sha256 s toks ek None [0..n - 1] \<and> s' = count_lookup (length bs) (int (length bs) < n) s"
    if "ssd_has_block s = None"
    using computed_loop_present [OF that assms(3), of sha256 now toks "[0..n - 1]" None "[]" 0] l(1)
    unfolding lt by auto
  ultimately show ?thesis using True run l by auto
qed (simp add: get_computed_blocks_def)

text \<open>The pool after one block of two tokens has been allocated and cached.\<close>

definition toy_sha256 :: "string \<Rightarrow> block_hash" where
  "toy_sha256 x = take 32 (rev x @ replicate 32 CHR ''0'')"

definition no_keys :: lookup_keys where
  "no_keys = \<lparr>key_extra = None, key_token_start = None, key_ranges = None\<rparr>"

definition warm_pool :: paged_cache where
  "warm_pool = snd (cache_full_blocks toy_sha256 [Blk 1] [7, 8] 0 1 None (snd (allocate_block 1 small_pool)))"

lemma warm_pool_reachable: "reachable warm_pool"
proof -
  obtain r t where a: "allocate_block 1 small_pool = (r, t)" by fastforce
  then have "reachable t" using reachable_call [OF small_pool_facts(2) call_allocate, of 1] by simp
  moreover have "set [Blk 1] \<subseteq> in_use t"
    using allocate_block_front [OF small_pool_facts(2) small_pool_free, of 1] a by (simp add: small_pool_in_use)
  ultimately show ?thesis unfolding warm_pool_def a snd_conv by (rule reachable_call [OF _ call_cache_full])
qed

theorem get_computed_blocks_longest_prefix_witness:
  "fst (get_computed_blocks toy_sha256 2 [7, 8, 9, 10] no_keys warm_pool) = Inr ([Blk 1], 2)"
proof -
  have s: "enable_caching warm_pool" "ssd_has_block warm_pool = None" "block_size warm_pool = 2"
    "cached_prefix toy_sha256 warm_pool [7, 8, 9, 10] (\<lambda>e. None) None [0, 1] = [Blk 1]"
    by code_simp+
  have u: "[0..1] = [0, 1::int]" by code_simp
  show ?thesis
    using s u get_computed_blocks_longest_prefix [OF warm_pool_reachable, where ks = no_keys and
        ek = "\<lambda>e. None" and toks = "[7, 8, 9, 10]" and ?sha256.0 = toy_sha256 and now = 2]
    by (auto simp: resolve_block_extra_keys_def no_keys_def)
qed

subsection \<open>Hashes identify prefixes\<close>

text \<open>What is hashed for the blocks of a sequence, from the second block on with the digest
  before it.\<close>

fun chain_inputs ::
    "(string \<Rightarrow> block_hash) \<Rightarrow> string \<Rightarrow> block_hash option \<Rightarrow> int list list \<Rightarrow> string list" where
  "chain_inputs sha256 m parent [] = []"
| "chain_inputs sha256 m parent (b # bs) =
     (let x = hash_input parent b None m in x # chain_inputs sha256 m (Some (sha256 x)) bs)"

lemma chain_inputs_snoc:
  "chain_inputs sha256 m parent (bs @ [b]) =
     chain_inputs sha256 m parent bs @
     [hash_input (if bs = [] then parent else Some (sha256 (last (chain_inputs sha256 m parent bs)))) b None m]"
proof (induction bs arbitrary: parent)
  case (Cons a bs)
  have "chain_inputs sha256 m p bs = [] \<longleftrightarrow> bs = []" for p by (cases bs) (auto simp: Let_def)
  then show ?case using Cons by (simp add: Let_def)
qed simp

lemma chain_inputs_nonempty: "bs \<noteq> [] \<Longrightarrow> chain_inputs sha256 m parent bs \<noteq> []"
  by (cases bs) (auto simp: Let_def)

text \<open>A first block and a later one are never hashed from the same text.\<close>

lemma show_int_no_open: "CHR ''('' \<notin> set (show_int i)"
proof -
  have "digit d \<noteq> CHR ''(''" if "d < 10" for d
    using of_char_digit [OF that] by auto
  then have "CHR ''('' \<notin> set (show_nat n)" for n
  proof (induction n rule: show_nat.induct)
    case (1 n)
    have "CHR ''('' \<noteq> digit (n mod 10)" "n < 10 \<Longrightarrow> CHR ''('' \<noteq> digit n"
      using \<open>\<And>d. d < 10 \<Longrightarrow> digit d \<noteq> CHR ''(''\<close> by (metis mod_less_divisor zero_less_numeral)+
    with 1 show ?case by (subst show_nat.simps) simp
  qed
  then show ?thesis by (simp add: show_int_def)
qed

lemma tokens_no_open: "CHR ''('' \<notin> set (tuple_body (map show_int ts))"
proof -
  have "CHR ''('' \<notin> set (join_comma (map show_int ts))"
    using set_join_comma [of "CHR ''(''" "map show_int ts"] show_int_no_open by auto
  then show ?thesis using show_int_no_open by (auto simp: tuple_body_def split: list.splits)
qed

lemma root_input_differs:
  assumes "length d = 32"
  shows "hash_input None ts None m \<noteq> hash_input (Some d) us None m"
proof
  have tup: "tuple_str xs = CHR ''('' # tuple_body xs @ '')''" for xs
    by (simp add: tuple_str_def tuple_body_def split: list.splits)
  assume "hash_input None ts None m = hash_input (Some d) us None m"
  then have eq: "''omlx-root'' @ CHR ''('' # tuple_body (map show_int ts) @ '')'' =
      d @ CHR ''('' # tuple_body (map show_int us) @ '')''"
    using assms unfolding tup [symmetric] by (cases d) (simp_all add: hash_input_def)
  let ?n = "length (''omlx-root'' @ CHR ''('' # [])"
  have "drop ?n (d @ CHR ''('' # tuple_body (map show_int us) @ '')'') = tuple_body (map show_int ts) @ '')''"
    unfolding eq [symmetric] by simp
  then have "drop ?n d @ CHR ''('' # tuple_body (map show_int us) @ '')'' = tuple_body (map show_int ts) @ '')''"
    using assms by simp
  then have "CHR ''('' \<in> set (tuple_body (map show_int ts) @ '')'')"
    by (metis in_set_conv_decomp)
  then show False using tokens_no_open by simp
qed

text \<open>
  C6. Two token sequences, cut into blocks and hashed in a chain for one model without extra keys,
  have the same final block hash only if they are the same blocks, however many each of them has,
  unless SHA-256 maps two different inputs of the two chains to the same digest: the text that is
  hashed determines whether there is a parent, its digest and the tokens.
\<close>

theorem equal_hash_equal_prefix:
  assumes "bs \<noteq> []" and "cs \<noteq> []"
    and "\<And>x. length (sha256 x) = 32"
    and "inj_on sha256 (set (chain_inputs sha256 m None bs) \<union> set (chain_inputs sha256 m None cs))"
    and "sha256 (last (chain_inputs sha256 m None bs)) = sha256 (last (chain_inputs sha256 m None cs))"
  shows "bs = cs"
  using assms(1,2,4,5)
proof (induction bs arbitrary: cs rule: rev_induct)
  case (snoc b bs)
  then obtain ds d where cs: "cs = ds @ [d]" by (cases cs rule: rev_cases) auto
  let ?I = "chain_inputs sha256 m None"
  let ?p = "\<lambda>bs. if bs = [] then None else Some (sha256 (last (?I bs)))"
  have "last (?I (xs @ [x])) \<in> set (?I (xs @ [x]))" for xs x
    using chain_inputs_nonempty [of "xs @ [x]"] by (intro last_in_set) simp
  then have "last (?I (bs @ [b])) = last (?I (ds @ [d]))"
    using snoc.prems(3,4) unfolding cs by (blast dest: inj_onD)
  then have eq: "hash_input (?p bs) b None m = hash_input (?p ds) d None m"
    by (simp add: chain_inputs_snoc)
  have digest: "length x = 32 \<and> x \<noteq> []" if "?p es = Some x" for es x
    using that assms(3) by (auto split: if_splits) (metis list.size(3) zero_neq_numeral)
  have same: "?p bs = None \<longleftrightarrow> ?p ds = None"
    using eq root_input_differs [OF assms(3)] by (auto split: if_splits dest: sym)
  have "?p bs = ?p ds \<and> b = d \<and> (case None of Some (k # ks) \<Rightarrow> tuple_str (k # ks) | _ \<Rightarrow> []) =
      (case None of Some (k # ks) \<Rightarrow> tuple_str (k # ks) | _ \<Rightarrow> [])"
    by (rule iffD1 [OF hash_input_eq_iff eq]) (fact digest digest same)+
  moreover have "bs = ds" if "?p bs = ?p ds"
  proof (cases "bs = []")
    case False
    with that cs snoc.prems(3) show ?thesis
      by (intro snoc.IH) (auto simp: chain_inputs_snoc split: if_splits elim: inj_on_subset)
  qed (use same in \<open>simp split: if_splits\<close>)
  ultimately show ?case using cs by simp
qed simp

theorem equal_hash_equal_prefix_witness:
  "toy_sha256 (last (chain_inputs toy_sha256 ''m'' None [[1], [2]])) \<noteq>
   toy_sha256 (last (chain_inputs toy_sha256 ''m'' None [[1], [3]]))"
proof
  assume eq: "toy_sha256 (last (chain_inputs toy_sha256 ''m'' None [[1], [2]])) =
    toy_sha256 (last (chain_inputs toy_sha256 ''m'' None [[1], [3]]))"
  have "inj_on toy_sha256 (set (chain_inputs toy_sha256 ''m'' None [[1], [2]]) \<union>
      set (chain_inputs toy_sha256 ''m'' None [[1], [3]]))" by code_simp
  moreover have "length (toy_sha256 x) = 32" for x by (simp add: toy_sha256_def)
  ultimately have "[[1], [2]] = [[1], [3 :: int]]"
    using equal_hash_equal_prefix [of "[[1], [2]]" "[[1], [3]]" toy_sha256 "''m''"] eq by simp
  then show False by simp
qed

subsection \<open>Eviction\<close>

text \<open>
  \<open>evict_lru_blocks\<close> in a reachable state moves the first \<open>min n free\<close> blocks of the free
  queue to its end and reports that number as evicted, but evicts nothing: no free block is
  ever indexed, so the index, the blocks in use and the eviction counter stay as they are.
\<close>

theorem evict_lru_blocks_only_rotates:
  assumes "reachable s" and "get_all_free_blocks (free_block_queue s) = Some fs" and "0 \<le> n"
  shows "\<exists>s'. evict_lru_blocks n s = (Inr (min n (int (length fs))), s') \<and>
    get_all_free_blocks (free_block_queue s') = Some (drop (nat n) fs @ take (nat n) fs) \<and>
    allocated_blocks s' = allocated_blocks s \<and> stats s' = stats s \<and>
    blocks_of (cached_block_hash_to_block s') = blocks_of (cached_block_hash_to_block s)"
proof -
  obtain gs where p: "pool s gs {}" "stats_ok s" "index_inv s" using assms(1) by (rule reachable_pool)
  then have gs: "gs = fs" using assms(2) fq_ok_walk [OF pool_facts(4)] by simp
  obtain s' where s': "evict_lru_blocks n s = (Inr (int (nat (min n (int (length fs))))), s')"
    "pool s' (drop (nat (min n (int (length fs)))) fs @ take (nat (min n (int (length fs)))) fs) {}"
    "allocated_blocks s' = allocated_blocks s" "stats s' = stats s"
    "blocks_of (cached_block_hash_to_block s') = blocks_of (cached_block_hash_to_block s)"
    using evict_lru_blocks_run [OF p, of n] unfolding gs by blast
  have "drop (nat (min n (int (length fs)))) fs @ take (nat (min n (int (length fs)))) fs =
      drop (nat n) fs @ take (nat n) fs"
    by (cases "n \<le> int (length fs)") simp_all
  with s' assms(3) fq_ok_walk [OF pool_facts(4) [OF s'(2)]] show ?thesis by simp
qed

theorem evict_lru_blocks_only_rotates_witness:
  "\<exists>s'. evict_lru_blocks 1 small_pool = (Inr 1, s') \<and>
    get_all_free_blocks (free_block_queue s') = Some [Blk 2, Blk 1]"
  using evict_lru_blocks_only_rotates [OF small_pool_facts(2) small_pool_free, of 1] by auto

text \<open>
  \<open>handle_memory_pressure\<close> never gains a block: in a reachable state it returns whether
  the free queue already held enough blocks, and the number of free blocks stays the same.
\<close>

theorem handle_memory_pressure_gains_nothing:
  assumes "reachable s"
  shows "\<exists>s'. handle_memory_pressure n s = (Inr (num_free_blocks (free_block_queue s) \<ge> n), s') \<and>
    num_free_blocks (free_block_queue s') = num_free_blocks (free_block_queue s) \<and>
    in_use s' = in_use s"
proof (cases "num_free_blocks (free_block_queue s) \<ge> n")
  case True
  then show ?thesis by (simp add: handle_memory_pressure_def)
next
  case False
  obtain fs where p: "pool s fs {}" "stats_ok s" "index_inv s" using assms by (rule reachable_pool)
  let ?m = "n - num_free_blocks (free_block_queue s)"
  obtain k s' gs where s': "evict_lru_blocks ?m s = (Inr k, s')" "pool s' gs {}" "length gs = length fs"
    "allocated_blocks s' = allocated_blocks s"
    using evict_lru_blocks_run [OF p, of ?m] by fastforce
  then have "num_free_blocks (free_block_queue s') = num_free_blocks (free_block_queue s)"
    using pool_queue_length [OF p(1)] pool_queue_length [OF s'(2)] by simp
  with False s' show ?thesis
    by (simp add: handle_memory_pressure_def bind_st_def gets_def in_use_def)
qed

theorem handle_memory_pressure_gains_nothing_witness:
  "\<exists>s'. handle_memory_pressure 3 small_pool = (Inr False, s')"
  using handle_memory_pressure_gains_nothing [OF small_pool_facts(2), of 3]
    pool_queue_length [OF small_pool_facts(3)] by auto

text \<open>
  \<open>evict_block_permanently\<close> on an allocated block without references takes it out of the
  index and of the table and appends it to the free queue; a block with references and the
  null block are refused unchanged.
\<close>

theorem evict_block_permanently_sound:
  assumes "reachable s" and "dict_get (allocated_blocks s) k = Some b"
  shows "\<exists>r s'. evict_block_permanently k s = (Inr r, s') \<and> reachable s' \<and>
    (if b = null_block s \<or> ref_count (blk s b) > 0 then \<not> r \<and> s' = s
     else r \<and> unindexed b s' \<and> in_use s' = in_use s - {b} \<and>
          get_all_free_blocks (free_block_queue s') =
            map_option (\<lambda>fs. fs @ [b]) (get_all_free_blocks (free_block_queue s)))"
proof -
  note inv = reachable_inv [OF assms(1)]
  have reach: "reachable (snd (evict_block_permanently k s))"
    using assms by (intro reachable_call [OF _ call_evict_permanently]) (simp_all add: evictable_id_def)
  show ?thesis
  proof (cases "b = null_block s \<or> ref_count (blk s b) > 0")
    case True
    with evict_block_permanently_refused [OF inv assms(2)] assms(1) show ?thesis by auto
  next
    case False
    then have "b \<noteq> null_block s" "ref_count (blk s b) \<le> 0" by auto
    then obtain fs s' where e: "evict_block_permanently k s = (Inr True, s')" "pool s fs {}"
      "pool s' (fs @ [b]) {}" "in_use s' = in_use s - {b}" "unindexed b s'"
      by (rule evict_block_permanently_allocated [OF inv assms(2)]) blast
    with False reach fq_ok_walk [OF pool_facts(4) [OF e(2)]] fq_ok_walk [OF pool_facts(4) [OF e(3)]]
    show ?thesis by auto
  qed
qed

theorem evict_block_permanently_sound_witness:
  "evict_block_permanently 0 small_pool = (Inr False, small_pool)"
  using evict_block_permanently_sound [OF small_pool_facts(2), of 0 "Blk 0"]
  by (auto simp: small_pool_facts)

subsection \<open>Evicting a block that is already free\<close>

lemma path_walk:
  "path h cur xs FakeTail \<Longrightarrow> FakeTail \<notin> set xs \<Longrightarrow> walk_free h cur = Some xs"
proof (induction xs arbitrary: cur)
  case Nil
  then show ?case by (simp add: walk_free.simps)
next
  case (Cons x xs)
  then show ?case by (subst walk_free.simps) auto
qed

lemma path_append: "path h cur (xs @ [y]) b \<longleftrightarrow> path h cur xs y \<and> next_free_block (h y) = Some b"
  by (induction xs arbitrary: cur) auto

lemma path_next_cong:
  "(\<And>r. r \<in> set xs \<Longrightarrow> next_free_block (h' r) = next_free_block (h r)) \<Longrightarrow>
    path h' cur xs b = path h cur xs b"
  by (induction xs arbitrary: cur) auto

lemma append_block_present:
  assumes ok: "fq_ok q (ys @ b # zs)" and zs: "zs \<noteq> []"
  shows "fst (append_block b q) = Inr ()"
    and "get_all_free_blocks (snd (append_block b q)) = Some (ys @ [b])"
    and "num_free_blocks (snd (append_block b q)) = num_free_blocks q + 1"
proof -
  have d: "dll (heap q) FakeHead (ys @ b # zs) FakeTail" "distinct (ys @ b # zs)"
      "FakeHead \<notin> set (ys @ b # zs)" "FakeTail \<notin> set (ys @ b # zs)"
    using ok by (simp_all add: fq_ok_def)
  let ?l = "last zs"
  have l: "prev_free_block (heap q FakeTail) = Some ?l" "?l \<in> set zs"
    using dll_last_prev [OF d(1)] zs by simp_all
  let ?h = "set_prev FakeTail (Some b) (set_next b (Some FakeTail)
      (set_prev b (Some ?l) (set_next ?l (Some b) (heap q))))"
  have a: "append_block b q = (Inr (), q\<lparr>heap := ?h, num_free_blocks := num_free_blocks q + 1\<rparr>)"
    by (simp add: append_block_def l Let_def)
  have nl: "?l \<noteq> FakeHead" "?l \<notin> set ys" "?l \<noteq> b" "b \<noteq> FakeHead" "b \<notin> set ys"
    using d l(2) by auto
  have "path (heap q) (next_free_block (heap q FakeHead)) ys b"
    using d(1) dll_path by (metis dll_append)
  then have "path ?h (next_free_block (?h FakeHead)) ys b"
    using nl by (subst path_next_cong [where h = "heap q"]) auto
  then have "path ?h (next_free_block (?h FakeHead)) (ys @ [b]) FakeTail" by (simp add: path_append)
  then show "fst (append_block b q) = Inr ()"
    "get_all_free_blocks (snd (append_block b q)) = Some (ys @ [b])"
    "num_free_blocks (snd (append_block b q)) = num_free_blocks q + 1"
    using d(4) unfolding a get_all_free_blocks_def by (simp_all add: path_walk)
qed

text \<open>
  \<open>evict_block_permanently\<close> does not check that the block is still allocated: on a block
  that is already in the free queue (as \<open>get_evictable_blocks\<close> returns them) it appends the
  block a second time, reports success, and every free block behind it is lost from the
  queue, while the number of free blocks goes up by one.
\<close>

theorem evict_free_block_loses_queue:
  assumes "reachable s" and "get_all_free_blocks (free_block_queue s) = Some (ys @ b # zs)" and "zs \<noteq> []"
  shows "\<exists>s'. evict_block_permanently (block_id b) s = (Inr True, s') \<and>
    get_all_free_blocks (free_block_queue s') = Some (ys @ [b]) \<and>
    num_free_blocks (free_block_queue s') = int (length (ys @ b # zs)) + 1"
proof -
  let ?fs = "ys @ b # zs"
  obtain gs where p: "pool s gs {}" "stats_ok s" "index_inv s" using assms(1) by (rule reachable_pool)
  then have "gs = ?fs" using assms(2) fq_ok_walk [OF pool_facts(4)] by simp
  with p have p: "pool s ?fs {}" "index_inv s" by simp_all
  note inv = reachable_inv [OF assms(1)]
  have b: "b \<in> set (blocks s)" "b \<notin> in_use s" using pool_facts(7,10) [OF p(1)] by auto
  from pool_facts(1,2) [OF p(1)] b(1) obtain i where i: "b = Blk i" "blocks s ! i = b" "i < length (blocks s)"
    by (auto simp: new_refs_def)
  then have look: "lookup_block (block_id b) s = Inr (Some b)" by (simp add: lookup_block_def py_nth_def)
  have nl: "\<not> is_null (blk s b)" using pool_facts(11,12) [OF p(1)] b by auto
  have r: "ref_count (blk s b) \<le> 0" using pool_facts(13) [OF p(1), of b] by simp
  obtain c d where u: "unindex b s = s\<lparr>cached_block_hash_to_block := c, dropped := d\<rparr>"
    using unindex_step [OF p(2), of b] by metis
  let ?s2 = "upd_blk b (\<lambda>b. (reset_hash b)\<lparr>token_count := 0\<rparr>) (unindex b s)"
  have "pool (unindex b s) ?fs {}" using p(1) by (simp add: u frame_simps)
  then have p2: "pool ?s2 ?fs {}"
    using r by (intro pool_upd_blk) (auto simp: reset_hash_def u frame_simps)
  have na: "dict_get (allocated_blocks ?s2) (block_id b) = None"
    using in_use_get [OF inv, of "block_id b"] b(2) by (cases "dict_get (allocated_blocks s) (block_id b)") (auto simp: u)
  note app = append_block_present [OF pool_facts(4) [OF p2] assms(3)]
  let ?q = "snd (append_block b (free_block_queue ?s2))"
  have "on_queue (append_block b) ?s2 = (Inr (), ?s2\<lparr>free_block_queue := ?q\<rparr>)"
    using app(1) by (intro prod_eqI) (simp_all add: on_queue_frame)
  then have "evict_block_permanently (block_id b) s = (Inr True,
      upd_stats (\<lambda>t. t\<lparr>st_free_blocks := st_free_blocks t + 1, st_evictions := st_evictions t + 1\<rparr>)
        (?s2\<lparr>free_block_queue := ?q\<rparr>))"
    using look r nl na by (simp add: evict_block_permanently_def Let_def ret_def)
  then show ?thesis
    using app(2,3) pool_queue_length [OF p2] by simp
qed

theorem evict_free_block_loses_queue_witness:
  "\<exists>s'. evict_block_permanently 1 small_pool = (Inr True, s') \<and>
    get_all_free_blocks (free_block_queue s') = Some [Blk 1] \<and> num_free_blocks (free_block_queue s') = 3"
  using evict_free_block_loses_queue [OF small_pool_facts(2), of "[]" "Blk 1" "[Blk 2]"]
  by (simp add: small_pool_free)

end
