(* ===== verification/WorkerResources.thy ===== *)
theory WorkerResources
  imports Prelude "HOL-Library.List_Lexorder" "HOL-Library.Char_ord" "HOL-Library.Product_Lexorder"
begin

section \<open>Memory admission for model workers\<close>

text \<open>
  \<^verbatim>\<open>src/ai2apps/worker_resources.py\<close>: the configuration check, the memory estimates derived
  from a request, and \<^verbatim>\<open>WorkerResourceManager\<close>, which reserves memory for the requests the
  scheduler admits. Sizes are integers (bytes), ratios and times are rationals, so
  \<^verbatim>\<open>int(total * ratio)\<close> is the exact integer part. The injected \<^verbatim>\<open>sampler\<close> and \<^verbatim>\<open>clock\<close> are
  functions of the number of readings taken so far, so two calls may see different values.
\<close>

subsection \<open>Configuration\<close>

definition MIB :: int where "MIB = 1024 ^ 2"
definition GIB :: int where "GIB = 1024 ^ 3"

record resource_config =
  soft_memory_ratio :: rat
  hard_memory_ratio :: rat
  safety_margin_ratio :: rat
  min_safety_margin_bytes :: int
  unknown_request_bytes :: int
  admission_wait_seconds :: rat
  idle_timeout_seconds :: rat
  pressure_idle_grace_seconds :: rat
  min_residency_seconds :: rat
  sweep_interval_seconds :: rat
  pause_background_on_battery :: bool
  low_battery_percent :: rat
  hot_temperature_celsius :: rat
  max_pinned_workers :: int

definition default_config :: resource_config where
  "default_config = \<lparr>soft_memory_ratio = 80 / 100, hard_memory_ratio = 92 / 100,
     safety_margin_ratio = 15 / 100, min_safety_margin_bytes = 2 * GIB,
     unknown_request_bytes = 512 * MIB, admission_wait_seconds = 30, idle_timeout_seconds = 300,
     pressure_idle_grace_seconds = 30, min_residency_seconds = 60, sweep_interval_seconds = 30,
     pause_background_on_battery = True, low_battery_percent = 20, hot_temperature_celsius = 80,
     max_pinned_workers = 2\<rparr>"

text \<open>\<^verbatim>\<open>__post_init__\<close>\<close>

definition check_config :: "resource_config \<Rightarrow> unit res" where
  "check_config c =
     (if \<not> (0 < soft_memory_ratio c \<and> soft_memory_ratio c < hard_memory_ratio c \<and> hard_memory_ratio c \<le> 1)
      then Inl ValueError
      else if \<not> (0 \<le> safety_margin_ratio c \<and> safety_margin_ratio c < 1) then Inl ValueError
      else if min_safety_margin_bytes c < 0 \<or> unknown_request_bytes c < 1 then Inl ValueError
      else if admission_wait_seconds c \<le> 0 then Inl ValueError
      else if idle_timeout_seconds c < 0 \<or> pressure_idle_grace_seconds c < 0 \<or>
        min_residency_seconds c < 0 \<or> sweep_interval_seconds c \<le> 0 then Inl ValueError
      else if \<not> (0 \<le> low_battery_percent c \<and> low_battery_percent c \<le> 100) then Inl ValueError
      else if hot_temperature_celsius c \<le> 0 then Inl ValueError
      else if max_pinned_workers c < 1 then Inl ValueError
      else Inr ())"

subsection \<open>Samples of the host\<close>

record system_memory =
  total_bytes :: int
  available_bytes :: int
  used_bytes :: int
  pressure_level :: string

record host_conditions =
  on_battery :: "bool option"
  battery_percent :: "rat option"
  temperature_celsius :: "rat option"

text \<open>From the numbers \<^verbatim>\<open>psutil\<close> reports.\<close>

definition sample_system_memory :: "int \<Rightarrow> int \<Rightarrow> system_memory" where
  "sample_system_memory total_mem available =
     (let used = max 0 (total_mem - available);
          ratio = (if total_mem \<noteq> 0 then of_int used / of_int total_mem else 1 :: rat);
          pressure = (if ratio \<ge> 92 / 100 then ''hard'' else if ratio \<ge> 80 / 100 then ''soft'' else ''ok'')
      in \<lparr>total_bytes = total_mem, available_bytes = available, used_bytes = used,
          pressure_level = pressure\<rparr>)"

definition sample_host_conditions :: "(bool \<times> rat) option \<Rightarrow> rat option list list option \<Rightarrow> host_conditions" where
  "sample_host_conditions battery sensors =
     (let readings = (case sensors of
            None \<Rightarrow> []
          | Some groups \<Rightarrow> map the (filter (\<lambda>x. x \<noteq> None) (concat groups)))
      in \<lparr>on_battery = map_option (\<lambda>(plugged, _). \<not> plugged) battery,
          battery_percent = map_option snd battery,
          temperature_celsius = (if readings = [] then None else Some (foldr max (tl readings) (hd readings)))\<rparr>)"

subsection \<open>Values of a request payload\<close>

text \<open>A JSON-like value; only integers and strings are looked into.\<close>

datatype pyval = PNone | PBool bool | PInt int | PFloat rat | PStr string | PList "pyval list"
  | PDict "(string \<times> pyval) list"

definition get_or :: "(string, pyval) dict \<Rightarrow> string \<Rightarrow> pyval \<Rightarrow> pyval" where
  "get_or payload k d = (case dict_get payload k of None \<Rightarrow> d | Some v \<Rightarrow> v)"

fun positive_int :: "pyval \<Rightarrow> int option" where
  "positive_int (PInt i) = (if i > 0 then Some i else None)"
| "positive_int _ = None"

definition or_int :: "int option \<Rightarrow> int \<Rightarrow> int" where
  "or_int v d = (case v of None \<Rightarrow> d | Some i \<Rightarrow> i)"

text \<open>
  \<^verbatim>\<open>int(s)\<close> on a string of one-byte characters: surrounding white space, a sign, decimal
  digits with single underscores between them. \<open>None\<close> is \<^verbatim>\<open>ValueError\<close>.
\<close>

definition is_space :: "char \<Rightarrow> bool" where
  "is_space c \<longleftrightarrow> (let n = of_char c :: nat in n = 32 \<or> (9 \<le> n \<and> n \<le> 13) \<or> (28 \<le> n \<and> n \<le> 31))"

definition strip :: "string \<Rightarrow> string" where
  "strip s = rev (dropWhile is_space (rev (dropWhile is_space s)))"

definition digit_value :: "char \<Rightarrow> int option" where
  "digit_value c = (let n = of_char c :: nat in if 48 \<le> n \<and> n \<le> 57 then Some (int n - 48) else None)"

text \<open>The second argument says whether the last character was a digit.\<close>

fun read_digits :: "int \<Rightarrow> bool \<Rightarrow> string \<Rightarrow> int option" where
  "read_digits acc after_digit [] = (if after_digit then Some acc else None)"
| "read_digits acc after_digit (c # cs) =
     (case digit_value c of
        Some d \<Rightarrow> read_digits (10 * acc + d) True cs
      | None \<Rightarrow> if c = CHR ''_'' \<and> after_digit then read_digits acc False cs else None)"

definition py_int :: "string \<Rightarrow> int option" where
  "py_int s =
     (case strip s of
        [] \<Rightarrow> None
      | c # cs \<Rightarrow>
          if c = CHR ''-'' then map_option uminus (read_digits 0 False cs)
          else if c = CHR ''+'' then read_digits 0 False cs
          else read_digits 0 False (c # cs))"

definition lower_char :: "char \<Rightarrow> char" where
  "lower_char c = (let n = of_char c :: nat in if 65 \<le> n \<and> n \<le> 90 then char_of (n + 32) else c)"

text \<open>\<^verbatim>\<open>value.lower().split("x", 1)\<close> of a string that holds an \<^verbatim>\<open>x\<close>.\<close>

definition split_x :: "string \<Rightarrow> string \<times> string" where
  "split_x s = (takeWhile (\<lambda>c. c \<noteq> CHR ''x'') s, tl (dropWhile (\<lambda>c. c \<noteq> CHR ''x'') s))"

fun geometry_bytes :: "pyval \<Rightarrow> int \<Rightarrow> int" where
  "geometry_bytes (PStr v) bytes_per_pixel =
     (let v = map lower_char v in
      if CHR ''x'' \<notin> set v then 0
      else case (py_int (fst (split_x v)), py_int (snd (split_x v))) of
        (Some width, Some height) \<Rightarrow>
          if \<not> (1 \<le> width \<and> width \<le> 16384) \<or> \<not> (1 \<le> height \<and> height \<le> 16384) then 0
          else width * height * bytes_per_pixel
      | _ \<Rightarrow> 0)"
| "geometry_bytes _ bytes_per_pixel = 0"

subsection \<open>Estimates\<close>

definition round_up :: "int \<Rightarrow> int \<Rightarrow> int" where
  "round_up n k = (n + (k - 1)) div k * k"

definition first_window :: "int \<Rightarrow> int" where
  "first_window pixels =
     (case filter (\<lambda>n. pixels * n \<le> 41 * 768 ^ 2) [41, 33, 25, 17, 9] of [] \<Rightarrow> 9 | n # _ \<Rightarrow> n)"

definition video_upscaling_transient_bytes :: "(string, pyval) dict \<Rightarrow> int" where
  "video_upscaling_transient_bytes payload =
     (case (positive_int (get_or payload ''_video_input_width'' PNone),
            positive_int (get_or payload ''_video_input_height'' PNone)) of
        (Some width, Some height) \<Rightarrow>
          (let pixels = round_up width 32 * round_up height 32;
               window = first_window pixels;
               frames = or_int (positive_int (get_or payload ''_video_input_frames'' PNone)) 1500;
               temporal = 1 + (frames - 1 + 7) div 8 * 8
           in max (12 * GIB) (2 * GIB + pixels * max (min window temporal * 1000) (temporal * 300)))
      | _ \<Rightarrow> 24 * GIB)"

text \<open>\<open>str_len v\<close> stands for \<^verbatim>\<open>len(str(v))\<close>.\<close>

definition estimate_request_transient_bytes ::
    "(pyval \<Rightarrow> nat) \<Rightarrow> string \<Rightarrow> (string, pyval) dict \<Rightarrow> int \<Rightarrow> int" where
  "estimate_request_transient_bytes str_len operation payload file_bytes =
     (let safe_file_bytes = max 0 file_bytes in
      if operation \<in> {''chat_completions'', ''responses''} then
        (let max_tokens = or_int (positive_int (get_or payload ''max_tokens''
               (get_or payload ''max_output_tokens'' PNone))) 2048;
             serialized_chars = int (str_len (get_or payload ''messages'' (get_or payload ''input'' (PStr ''''))));
             input_tokens = max 1 (serialized_chars div 4);
             token_budget = min 131072 (input_tokens + max_tokens)
         in max (512 * MIB) (token_budget * 256 * 1024 + safe_file_bytes * 4))
      else if operation \<in> {''image_generation'', ''image_edit''} then
        max (1536 * MIB) (geometry_bytes (get_or payload ''size'' PNone) 32 + safe_file_bytes * 6)
      else if operation = ''video_generation'' then
        (let geometry = geometry_bytes (get_or payload ''resolution'' (get_or payload ''size'' PNone)) 64;
             frames = min 2048 (or_int (positive_int (get_or payload ''frames'' PNone)) 81)
         in max (4 * GIB) (geometry * min frames 32 + safe_file_bytes * 6))
      else if operation = ''image_upscaling'' then
        (let width = or_int (positive_int (get_or payload ''_image_input_width'' PNone)) 0;
             height = or_int (positive_int (get_or payload ''_image_input_height'' PNone)) 0;
             pixels = round_up width 32 * round_up height 32
         in max (8 * GIB) (max (2 * GIB + pixels * 1000) (safe_file_bytes * 4)))
      else if operation = ''video_upscaling'' then
        max (video_upscaling_transient_bytes payload) (safe_file_bytes * 4)
      else if operation = ''video_segmentation'' then
        (let geometry = geometry_bytes (get_or payload ''resolution'' (get_or payload ''size'' PNone)) 32
         in max (3 * GIB) (geometry * 16 + safe_file_bytes * 4))
      else if operation = ''audio_generate'' then max (4 * GIB) (safe_file_bytes * 6)
      else if operation \<in> {''audio_transcription'', ''audio_speech'', ''audio_process''} then
        max (512 * MIB) (safe_file_bytes * 6)
      else if operation = ''audio_voice_training'' then max (6 * GIB) (safe_file_bytes * 12)
      else if operation = ''embeddings'' then
        max (256 * MIB) (int (str_len (get_or payload ''input'' (PStr ''''))) * 1024)
      else max (512 * MIB) (safe_file_bytes * 4))"

subsection \<open>The manager\<close>

record reservation =
  rv_ticket_id :: string
  rv_service_key :: string
  rv_resident_bytes :: int
  rv_transient_bytes :: int
  rv_created_at :: rat

definition rv_total :: "reservation \<Rightarrow> int" where
  "rv_total r = rv_resident_bytes r + rv_transient_bytes r"

record rejection =
  rj_service_key :: string
  rj_transient :: int
  rj_resident :: int
  rj_projected :: int
  rj_soft_ceiling :: int
  rj_available :: int
  rj_safety_margin :: int
  rj_pressure :: string

record resource_manager =
  config :: resource_config
  sampler :: "nat \<Rightarrow> system_memory"
  samples :: nat
  rm_clock :: "nat \<Rightarrow> rat"
  rm_ticks :: nat
  reservations :: "(string, reservation) dict"
  admitted :: int
  rejected :: int
  peak_reserved_bytes :: int
  last_rejection :: "rejection option"
  last_used :: "(string, rat) dict"
  pinned :: "string set"
  evicting :: "string set"
  last_conditions :: host_conditions

definition init_resources ::
    "resource_config \<Rightarrow> (nat \<Rightarrow> system_memory) \<Rightarrow> (nat \<Rightarrow> rat) \<Rightarrow> resource_manager" where
  "init_resources c smp clk =
     \<lparr>config = c, sampler = smp, samples = 0, rm_clock = clk, rm_ticks = 0, reservations = [],
      admitted = 0, rejected = 0, peak_reserved_bytes = 0, last_rejection = None, last_used = [],
      pinned = {}, evicting = {},
      last_conditions = \<lparr>on_battery = None, battery_percent = None, temperature_celsius = None\<rparr>\<rparr>"

text \<open>One call of the sampler, one of the clock.\<close>

definition read_memory :: "resource_manager \<Rightarrow> system_memory \<times> resource_manager" where
  "read_memory m = (sampler m (samples m), m\<lparr>samples := Suc (samples m)\<rparr>)"

definition read_clock :: "resource_manager \<Rightarrow> rat \<times> resource_manager" where
  "read_clock m = (rm_clock m (rm_ticks m), m\<lparr>rm_ticks := Suc (rm_ticks m)\<rparr>)"

definition reserved_bytes :: "resource_manager \<Rightarrow> int" where
  "reserved_bytes m = sum_list (map rv_total (dict_values (reservations m)))"

text \<open>\<^verbatim>\<open>int(x)\<close> of a number: truncation towards zero.\<close>

definition truncate_rat :: "rat \<Rightarrow> int" where
  "truncate_rat x = (if x \<ge> 0 then \<lfloor>x\<rfloor> else \<lceil>x\<rceil>)"

definition safety_margin :: "resource_config \<Rightarrow> system_memory \<Rightarrow> int" where
  "safety_margin c mem =
     max (min_safety_margin_bytes c) (truncate_rat (of_int (total_bytes mem) * safety_margin_ratio c))"

definition soft_ceiling :: "resource_config \<Rightarrow> system_memory \<Rightarrow> int" where
  "soft_ceiling c mem = truncate_rat (of_int (total_bytes mem) * soft_memory_ratio c)"

definition hard_ceiling :: "resource_config \<Rightarrow> system_memory \<Rightarrow> int" where
  "hard_ceiling c mem = truncate_rat (of_int (total_bytes mem) * hard_memory_ratio c)"

definition positive_or :: "int option \<Rightarrow> int \<Rightarrow> int" where
  "positive_or v d = (case v of Some i \<Rightarrow> if i > 0 then i else d | None \<Rightarrow> d)"

definition setdefault :: "'k \<Rightarrow> 'v \<Rightarrow> ('k, 'v) dict \<Rightarrow> ('k, 'v) dict" where
  "setdefault k v d = (if dict_get d k = None then dict_set k v d else d)"

text \<open>Record the reservation of an admitted request.\<close>

definition book :: "reservation \<Rightarrow> resource_manager \<Rightarrow> resource_manager" where
  "book r m =
     (let m = m\<lparr>reservations := dict_set (rv_ticket_id r) r (reservations m),
                last_used := setdefault (rv_service_key r) (rv_created_at r) (last_used m),
                admitted := admitted m + 1\<rparr>
      in m\<lparr>peak_reserved_bytes := max (peak_reserved_bytes m) (reserved_bytes m)\<rparr>)"

definition try_reserve ::
    "string \<Rightarrow> string \<Rightarrow> int option \<Rightarrow> int option \<Rightarrow> resource_manager \<Rightarrow>
     reservation option \<times> resource_manager" where
  "try_reserve tid skey est_transient est_resident m =
     (case dict_get (reservations m) tid of
        Some existing \<Rightarrow> (Some existing, m)
      | None \<Rightarrow>
          if skey \<in> evicting m then (None, m\<lparr>rejected := rejected m + 1\<rparr>)
          else
            (let estimate = positive_or est_transient (unknown_request_bytes (config m));
                 resident_estimate = positive_or est_resident 0;
                 total_estimate = estimate + resident_estimate;
                 (mem, m) = read_memory m;
                 margin = safety_margin (config m) mem;
                 reserved = reserved_bytes m;
                 projected = used_bytes mem + reserved + total_estimate;
                 fits = (projected \<le> soft_ceiling (config m) mem \<and>
                         projected \<le> hard_ceiling (config m) mem \<and>
                         available_bytes mem \<ge> reserved + total_estimate + margin)
             in if \<not> fits then
                  (None, m\<lparr>rejected := rejected m + 1,
                     last_rejection := Some \<lparr>rj_service_key = skey, rj_transient = estimate,
                       rj_resident = resident_estimate, rj_projected = projected,
                       rj_soft_ceiling = soft_ceiling (config m) mem,
                       rj_available = available_bytes mem, rj_safety_margin = margin,
                       rj_pressure = pressure_level mem\<rparr>\<rparr>)
                else
                  (let (now, m) = read_clock m;
                       r = \<lparr>rv_ticket_id = tid, rv_service_key = skey,
                            rv_resident_bytes = resident_estimate, rv_transient_bytes = estimate,
                            rv_created_at = now\<rparr>
                   in (Some r, book r m))))"

definition release :: "string \<Rightarrow> resource_manager \<Rightarrow> bool \<times> resource_manager" where
  "release tid m =
     (case dict_get (reservations m) tid of
        None \<Rightarrow> (False, m)
      | Some r \<Rightarrow>
          (let m = m\<lparr>reservations := dict_del tid (reservations m)\<rparr>;
               (now, m) = read_clock m
           in (True, m\<lparr>last_used := dict_set (rv_service_key r) now (last_used m)\<rparr>)))"

definition mark_started :: "string \<Rightarrow> resource_manager \<Rightarrow> resource_manager" where
  "mark_started skey m =
     (let (now, m) = read_clock m in m\<lparr>last_used := setdefault skey now (last_used m)\<rparr>)"

subsection \<open>Pinning and eviction\<close>

text \<open>\<^verbatim>\<open>WorkerEvictionBusyError\<close> and \<^verbatim>\<open>WorkerPinnedLimitError\<close>, both kinds of \<^verbatim>\<open>RuntimeError\<close>.\<close>

datatype worker_error = EvictionBusy | PinnedLimit

definition assert_can_pin :: "string \<Rightarrow> bool \<Rightarrow> resource_manager \<Rightarrow> worker_error option" where
  "assert_can_pin skey pin m =
     (if pin \<and> skey \<in> evicting m then Some EvictionBusy
      else if pin \<and> skey \<notin> pinned m \<and> int (card (pinned m)) \<ge> max_pinned_workers (config m)
      then Some PinnedLimit
      else None)"

definition set_pinned ::
    "string \<Rightarrow> bool \<Rightarrow> resource_manager \<Rightarrow> worker_error option \<times> resource_manager" where
  "set_pinned skey pin m =
     (case assert_can_pin skey pin m of
        Some e \<Rightarrow> (Some e, m)
      | None \<Rightarrow>
          (None, if pin then m\<lparr>pinned := insert skey (pinned m)\<rparr>
                 else m\<lparr>pinned := pinned m - {skey}\<rparr>))"

definition restore_pinned :: "string \<Rightarrow> resource_manager \<Rightarrow> resource_manager" where
  "restore_pinned skey m = m\<lparr>pinned := insert skey (pinned m)\<rparr>"

definition is_pinned :: "string \<Rightarrow> resource_manager \<Rightarrow> bool" where
  "is_pinned skey m \<longleftrightarrow> skey \<in> pinned m"

definition active_for_worker :: "string \<Rightarrow> resource_manager \<Rightarrow> int" where
  "active_for_worker skey m =
     int (length (filter (\<lambda>r. rv_service_key r = skey) (dict_values (reservations m))))"

text \<open>
  \<open>evict_idle\<close> up to the point where it yields to the package manager, and from the point
  where the package manager is done; what other tasks do in between happens between the two.
\<close>

definition evict_begin :: "string \<Rightarrow> resource_manager \<Rightarrow> worker_error option \<times> resource_manager" where
  "evict_begin skey m =
     (if active_for_worker skey m \<noteq> 0 \<or> skey \<in> pinned m \<or> skey \<in> evicting m
      then (Some EvictionBusy, m)
      else (None, m\<lparr>evicting := insert skey (evicting m)\<rparr>))"

definition evict_end :: "string \<Rightarrow> resource_manager \<Rightarrow> resource_manager" where
  "evict_end skey m = m\<lparr>evicting := evicting m - {skey}\<rparr>"

subsection \<open>The sweep\<close>

text \<open>What the package manager says of an installed worker.\<close>

record worker_package =
  pk_active :: bool
  pk_model_worker :: bool
  pk_service_key :: string
  pk_ready :: bool
  pk_started_age :: "rat option"
  pk_resident_memory :: "int option"
  pk_generation :: int

datatype pressure = PressureOk | PressureSoft | PressureHard

definition sweep_level :: "resource_config \<Rightarrow> system_memory \<Rightarrow> pressure" where
  "sweep_level c mem =
     (let used_ratio = (if total_bytes mem \<noteq> 0
            then of_int (used_bytes mem) / of_int (total_bytes mem) else 1 :: rat)
      in if used_ratio \<ge> hard_memory_ratio c \<or> pressure_level mem = ''hard'' then PressureHard
         else if used_ratio \<ge> soft_memory_ratio c \<or> pressure_level mem = ''soft'' then PressureSoft
         else PressureOk)"

text \<open>The background gates the sweep sets in the scheduler, in order.\<close>

definition sweep_gates :: "resource_config \<Rightarrow> bool \<Rightarrow> host_conditions \<Rightarrow> (string \<times> bool) list" where
  "sweep_gates c under_pressure conditions =
     [(''memory_pressure'', under_pressure),
      (''battery'', pause_background_on_battery c \<and> on_battery conditions = Some True),
      (''low_battery'', case battery_percent conditions of
          None \<Rightarrow> False | Some p \<Rightarrow> p \<le> low_battery_percent c),
      (''thermal'', case temperature_celsius conditions of
          None \<Rightarrow> False | Some t \<Rightarrow> t \<ge> hot_temperature_celsius c)]"

type_synonym candidate = "rat \<times> int \<times> string \<times> int"

definition last_use :: "rat \<Rightarrow> resource_manager \<Rightarrow> worker_package \<Rightarrow> rat" where
  "last_use now m p =
     (case dict_get (last_used m) (pk_service_key p) of
        Some t \<Rightarrow> t
      | None \<Rightarrow> now - (case pk_started_age p of Some a \<Rightarrow> a | None \<Rightarrow> 0))"

definition sweep_eligible :: "rat \<Rightarrow> rat \<Rightarrow> resource_manager \<Rightarrow> worker_package \<Rightarrow> bool" where
  "sweep_eligible now idle_threshold m p \<longleftrightarrow>
     pk_active p \<and> pk_model_worker p \<and> pk_service_key p \<notin> pinned m \<and>
     pk_service_key p \<notin> evicting m \<and> active_for_worker (pk_service_key p) m = 0 \<and>
     pk_ready p \<and>
     (case pk_started_age p of None \<Rightarrow> False | Some a \<Rightarrow> a \<ge> min_residency_seconds (config m)) \<and>
     max 0 (now - last_use now m p) \<ge> idle_threshold"

definition sweep_candidates ::
    "rat \<Rightarrow> bool \<Rightarrow> worker_package list \<Rightarrow> resource_manager \<Rightarrow> candidate list" where
  "sweep_candidates now under_pressure installed m =
     (let idle_threshold = (if under_pressure then pressure_idle_grace_seconds (config m)
                            else idle_timeout_seconds (config m));
          cs = map (\<lambda>p. (last_use now m p,
                        - (case pk_resident_memory p of None \<Rightarrow> 0 | Some b \<Rightarrow> b),
                        pk_service_key p, pk_generation p))
                 (filter (sweep_eligible now idle_threshold m) installed)
      in if under_pressure then take 1 (sort cs) else sort cs)"

subsection \<open>Reporting\<close>

record resource_report =
  rp_total_memory :: int
  rp_available_memory :: int
  rp_used_memory :: int
  rp_pressure :: string
  rp_conditions :: host_conditions
  rp_soft_ceiling :: int
  rp_hard_ceiling :: int
  rp_safety_margin :: int
  rp_reserved_total :: int
  rp_reserved_transient :: int
  rp_reserved_resident :: int
  rp_peak_reserved :: int
  rp_active_reservations :: int
  rp_reserved_by_worker :: "(string, int) dict"
  rp_admitted :: int
  rp_rejected :: int
  rp_last_rejection :: "rejection option"
  rp_pinned :: "string list"
  rp_max_pinned :: int
  rp_evicting :: "string list"

definition add_reserved :: "reservation \<Rightarrow> (string, int) dict \<Rightarrow> (string, int) dict" where
  "add_reserved r d =
     dict_set (rv_service_key r)
       ((case dict_get d (rv_service_key r) of None \<Rightarrow> 0 | Some n \<Rightarrow> n) + rv_total r) d"

text \<open>\<open>snapshot\<close> without the ages, which take one clock reading each.\<close>

definition resource_snapshot :: "resource_manager \<Rightarrow> resource_report \<times> resource_manager" where
  "resource_snapshot m =
     (let (mem, m) = read_memory m;
          rs = dict_values (reservations m)
      in (\<lparr>rp_total_memory = total_bytes mem, rp_available_memory = available_bytes mem,
           rp_used_memory = used_bytes mem, rp_pressure = pressure_level mem,
           rp_conditions = last_conditions m, rp_soft_ceiling = soft_ceiling (config m) mem,
           rp_hard_ceiling = hard_ceiling (config m) mem,
           rp_safety_margin = safety_margin (config m) mem,
           rp_reserved_total = reserved_bytes m,
           rp_reserved_transient = sum_list (map rv_transient_bytes rs),
           rp_reserved_resident = sum_list (map rv_resident_bytes rs),
           rp_peak_reserved = peak_reserved_bytes m, rp_active_reservations = int (length rs),
           rp_reserved_by_worker = fold add_reserved rs [],
           rp_admitted = admitted m, rp_rejected = rejected m,
           rp_last_rejection = last_rejection m, rp_pinned = sorted_list_of_set (pinned m),
           rp_max_pinned = max_pinned_workers (config m),
           rp_evicting = sorted_list_of_set (evicting m)\<rparr>, m))"

subsection \<open>The invariant of the manager\<close>

definition rm_ok :: "resource_manager \<Rightarrow> bool" where
  "rm_ok m \<longleftrightarrow>
     dict_ok (reservations m) \<and> check_config (config m) = Inr () \<and>
     (\<forall>t r. dict_get (reservations m) t = Some r \<longrightarrow>
        rv_ticket_id r = t \<and> rv_transient_bytes r > 0 \<and> rv_resident_bytes r \<ge> 0 \<and>
        rv_service_key r \<notin> evicting m) \<and>
     reserved_bytes m \<le> peak_reserved_bytes m \<and>
     finite (pinned m) \<and> finite (evicting m) \<and> pinned m \<inter> evicting m = {}"

definition held :: "resource_manager \<Rightarrow> string set" where
  "held m = dom (map_of (reservations m))"

lemma read_memory_simps [simp]:
  "fst (read_memory m) = sampler m (samples m)" "reservations (snd (read_memory m)) = reservations m"
  "snd (read_memory m) = m\<lparr>samples := Suc (samples m)\<rparr>"
  by (simp_all add: read_memory_def)

lemma read_clock_simps [simp]:
  "fst (read_clock m) = rm_clock m (rm_ticks m)" "snd (read_clock m) = m\<lparr>rm_ticks := Suc (rm_ticks m)\<rparr>"
  by (simp_all add: read_clock_def)

lemma reserved_bytes_cong: "reservations m = reservations m' \<Longrightarrow> reserved_bytes m = reserved_bytes m'"
  by (simp add: reserved_bytes_def)

lemma sum_list_dict_del:
  assumes "dict_ok d" and "dict_get d k = Some v"
  shows "sum_list (map f (dict_values d)) = f v + sum_list (map (f :: _ \<Rightarrow> int) (dict_values (dict_del k d)))"
  using assms
proof (induction d)
  case (Cons p d)
  show ?case
  proof (cases "fst p = k")
    case True
    with Cons.prems have "dict_get d k = None" by (auto simp: dict_get_None_iff)
    with True Cons.prems show ?thesis by (cases p) simp
  next
    case False
    with Cons show ?thesis by (cases p) simp
  qed
qed simp

lemma reserved_bytes_book:
  "dict_get (reservations m) (rv_ticket_id r) = None \<Longrightarrow> reserved_bytes (book r m) = reserved_bytes m + rv_total r"
  by (simp add: book_def reserved_bytes_def dict_set_absent Let_def)

lemma reserved_bytes_release:
  assumes "rm_ok m" and "dict_get (reservations m) t = Some r"
  shows "reserved_bytes (snd (release t m)) = reserved_bytes m - rv_total r"
proof -
  have "dict_ok (reservations m)" using assms(1) by (simp add: rm_ok_def)
  from sum_list_dict_del [OF this assms(2), of rv_total] assms(2) show ?thesis
    by (simp add: release_def Let_def case_prod_unfold reserved_bytes_def)
qed

text \<open>What \<open>try_reserve\<close> can do for a new ticket.\<close>

lemma try_reserve_cases:
  fixes m :: resource_manager
  assumes "try_reserve t k tr res m = (out, m')"
  defines "mem \<equiv> sampler m (samples m)"
    and "need \<equiv> positive_or tr (unknown_request_bytes (config m)) + positive_or res 0"
  obtains (again) r where "dict_get (reservations m) t = Some r" "out = Some r" "m' = m"
  | (busy) "dict_get (reservations m) t = None" "k \<in> evicting m" "out = None"
      "m' = m\<lparr>rejected := rejected m + 1\<rparr>"
  | (full) rj where "dict_get (reservations m) t = None" "k \<notin> evicting m" "out = None"
      "m' = m\<lparr>samples := Suc (samples m), rejected := rejected m + 1, last_rejection := Some rj\<rparr>"
      "\<not> (used_bytes mem + reserved_bytes m + need \<le> soft_ceiling (config m) mem \<and>
          used_bytes mem + reserved_bytes m + need \<le> hard_ceiling (config m) mem \<and>
          available_bytes mem \<ge> reserved_bytes m + need + safety_margin (config m) mem)"
  | (granted) r where "dict_get (reservations m) t = None" "k \<notin> evicting m" "out = Some r"
      "m' = book r (m\<lparr>samples := Suc (samples m), rm_ticks := Suc (rm_ticks m)\<rparr>)"
      "rv_ticket_id r = t" "rv_service_key r = k" "rv_total r = need"
      "rv_transient_bytes r = positive_or tr (unknown_request_bytes (config m))"
      "rv_resident_bytes r = positive_or res 0"
      "used_bytes mem + reserved_bytes m + need \<le> soft_ceiling (config m) mem"
      "used_bytes mem + reserved_bytes m + need \<le> hard_ceiling (config m) mem"
      "available_bytes mem \<ge> reserved_bytes m + need + safety_margin (config m) mem"
proof (cases "dict_get (reservations m) t")
  case (Some r)
  with assms(1) show thesis by (intro again [of r]) (auto simp: try_reserve_def)
next
  case None
  have res: "reserved_bytes (m\<lparr>samples := n\<rparr>) = reserved_bytes m" for n
    by (simp add: reserved_bytes_def)
  show thesis
  proof (cases "k \<in> evicting m")
    case True
    with None assms(1) show thesis by (intro busy) (auto simp: try_reserve_def)
  next
    case False
    let ?fits = "used_bytes mem + reserved_bytes m + need \<le> soft_ceiling (config m) mem \<and>
          used_bytes mem + reserved_bytes m + need \<le> hard_ceiling (config m) mem \<and>
          available_bytes mem \<ge> reserved_bytes m + need + safety_margin (config m) mem"
    show thesis
    proof (cases ?fits)
      case True
      with None False assms(1) show thesis
        by (intro granted) (auto simp: try_reserve_def read_memory_def read_clock_def Let_def res
            mem_def need_def rv_total_def)
    next
      case nf: False
      with None False assms(1) show thesis
        by (intro full) (auto simp: try_reserve_def read_memory_def Let_def res mem_def need_def)
    qed
  qed
qed

lemma check_config_facts:
  assumes "check_config c = Inr ()"
  shows "0 < soft_memory_ratio c" and "soft_memory_ratio c < hard_memory_ratio c"
    and "hard_memory_ratio c \<le> 1" and "0 \<le> safety_margin_ratio c" and "unknown_request_bytes c \<ge> 1"
    and "min_safety_margin_bytes c \<ge> 0" and "max_pinned_workers c \<ge> 1"
    and "admission_wait_seconds c > 0" and "min_residency_seconds c \<ge> 0"
  using assms by (auto simp: check_config_def split: if_splits)

lemma positive_or_pos: "0 < d \<Longrightarrow> 0 < positive_or v d"
  by (simp add: positive_or_def split: option.split)

lemma positive_or_nonneg: "0 \<le> positive_or v 0"
  by (auto simp: positive_or_def split: option.split)

lemma book_sel [simp]:
  "reservations (book r m) = dict_set (rv_ticket_id r) r (reservations m)" "config (book r m) = config m"
  "evicting (book r m) = evicting m" "pinned (book r m) = pinned m" "admitted (book r m) = admitted m + 1"
  "peak_reserved_bytes (book r m) = max (peak_reserved_bytes m) (reserved_bytes (book r m))"
  by (simp_all add: book_def Let_def reserved_bytes_def)

lemma try_reserve_ok:
  assumes ok: "rm_ok m"
  shows "rm_ok (snd (try_reserve t k tr res m))"
proof -
  obtain out m' where e: "try_reserve t k tr res m = (out, m')" by force
  then show ?thesis
  proof (cases rule: try_reserve_cases)
    case (granted r)
    have "0 < rv_transient_bytes r" "0 \<le> rv_resident_bytes r"
      using granted check_config_facts(5) [of "config m"] ok
      by (simp_all add: rm_ok_def positive_or_pos positive_or_nonneg)
    then show ?thesis
      using ok granted unfolding e by (auto simp: rm_ok_def)
  qed (use ok e in \<open>auto simp: rm_ok_def reserved_bytes_def\<close>)
qed

lemma release_ok:
  assumes ok: "rm_ok m"
  shows "rm_ok (snd (release t m))"
proof (cases "dict_get (reservations m) t")
  case None
  with ok show ?thesis by (simp add: release_def)
next
  case (Some r)
  then have "0 \<le> rv_total r" using ok by (force simp: rm_ok_def rv_total_def)
  then have "reserved_bytes (snd (release t m)) \<le> peak_reserved_bytes m"
    using reserved_bytes_release [OF ok Some] ok by (simp add: rm_ok_def)
  moreover have "snd (release t m) = m\<lparr>reservations := dict_del t (reservations m),
      rm_ticks := Suc (rm_ticks m), last_used := last_used (snd (release t m))\<rparr>"
    using Some by (simp add: release_def Let_def case_prod_unfold)
  ultimately show ?thesis
    using ok by (cases "snd (release t m)") (auto simp: rm_ok_def)
qed

lemma set_pinned_ok: "rm_ok m \<Longrightarrow> rm_ok (snd (set_pinned k p m))"
  by (auto simp: set_pinned_def assert_can_pin_def rm_ok_def reserved_bytes_def split: if_splits)

lemma mark_started_ok: "rm_ok m \<Longrightarrow> rm_ok (mark_started k m)"
  by (simp add: mark_started_def Let_def case_prod_unfold rm_ok_def reserved_bytes_def)

lemma active_for_worker_0: "active_for_worker k m = 0 \<longleftrightarrow> (\<forall>r \<in> set (dict_values (reservations m)). rv_service_key r \<noteq> k)"
  by (auto simp: active_for_worker_def filter_empty_conv)

lemma evict_begin_ok:
  assumes ok: "rm_ok m"
  shows "rm_ok (snd (evict_begin k m))"
proof (cases "fst (evict_begin k m)")
  case None
  then have z: "active_for_worker k m = 0" "k \<notin> pinned m" "k \<notin> evicting m"
    by (auto simp: evict_begin_def split: if_splits)
  have "rv_service_key r \<noteq> k" if "dict_get (reservations m) t = Some r" for t r
    using z(1) map_of_SomeD [OF that] by (force simp: active_for_worker_0)
  then show ?thesis
    using ok z by (auto simp: evict_begin_def rm_ok_def reserved_bytes_def)
next
  case (Some e)
  then show ?thesis using ok by (auto simp: evict_begin_def split: if_splits)
qed

lemma evict_end_ok: "rm_ok m \<Longrightarrow> rm_ok (evict_end k m)"
  by (auto simp: evict_end_def rm_ok_def reserved_bytes_def)

lemma init_resources_ok: "check_config c = Inr () \<Longrightarrow> rm_ok (init_resources c smp clk)"
  by (simp add: init_resources_def rm_ok_def reserved_bytes_def)

subsection \<open>The interface the scheduler relies on\<close>

text \<open>
  An admission controller: \<open>grant q s\<close> says whether request \<open>q\<close> is admitted, \<open>drop\<close> gives an
  admission back, \<open>holds s\<close> are the requests admitted and not given back.
\<close>

locale admission =
  fixes grant :: "'q \<Rightarrow> 's \<Rightarrow> bool \<times> 's" and drop :: "string \<Rightarrow> 's \<Rightarrow> 's"
    and qid :: "'q \<Rightarrow> string" and holds :: "'s \<Rightarrow> string set" and ok :: "'s \<Rightarrow> bool"
  assumes grant_holds: "fst (grant q s) \<Longrightarrow> holds (snd (grant q s)) = insert (qid q) (holds s)"
    and refuse_holds: "\<not> fst (grant q s) \<Longrightarrow> holds (snd (grant q s)) = holds s"
    and drop_holds: "holds (drop i s) = holds s - {i}"
    and grant_ok: "ok s \<Longrightarrow> ok (snd (grant q s))"
    and drop_ok: "ok s \<Longrightarrow> ok (drop i s)"

text \<open>The first of several candidates that is admitted: later ones are not even asked.\<close>

fun first_granted :: "('c \<Rightarrow> 's \<Rightarrow> bool \<times> 's) \<Rightarrow> 'c list \<Rightarrow> 's \<Rightarrow> 'c option \<times> 's" where
  "first_granted f [] s = (None, s)"
| "first_granted f (c # cs) s =
     (case f c s of (True, s) \<Rightarrow> (Some c, s) | (False, s) \<Rightarrow> first_granted f cs s)"

context admission
begin

lemma first_granted_ok:
  "ok s \<Longrightarrow> ok (snd (first_granted (\<lambda>c. grant (req c)) cs s))"
proof (induction cs arbitrary: s)
  case (Cons c cs)
  obtain g s' where e: "grant (req c) s = (g, s')" by force
  with Cons.prems grant_ok [of s "req c"] have "ok s'" by simp
  with e Cons.IH [of s'] show ?case by (cases g) simp_all
qed simp

lemma first_granted_holds:
  "(case fst (first_granted (\<lambda>c. grant (req c)) cs s) of
      None \<Rightarrow> holds (snd (first_granted (\<lambda>c. grant (req c)) cs s)) = holds s
    | Some c \<Rightarrow> c \<in> set cs \<and>
        holds (snd (first_granted (\<lambda>c. grant (req c)) cs s)) = insert (qid (req c)) (holds s))"
proof (induction cs arbitrary: s)
  case (Cons c cs)
  obtain g s' where e: "grant (req c) s = (g, s')" by force
  show ?case
  proof (cases g)
    case True
    with e grant_holds [of "req c" s] show ?thesis by simp
  next
    case False
    with e refuse_holds [of "req c" s] Cons.IH [of s'] show ?thesis by (auto split: option.splits)
  qed
qed simp

text \<open>Admitting a request that was not admitted before and giving it back changes nothing.\<close>

lemma grant_drop: "qid q \<notin> holds s \<Longrightarrow> holds (drop (qid q) (snd (grant q s))) = holds s"
  by (cases "fst (grant q s)") (simp_all add: drop_holds grant_holds refuse_holds)

end

text \<open>A request as the scheduler puts it to the resource manager.\<close>

type_synonym reserve_request = "string \<times> string \<times> int option \<times> int option"

definition grant_request :: "reserve_request \<Rightarrow> resource_manager \<Rightarrow> bool \<times> resource_manager" where
  "grant_request q m =
     (case q of (t, k, tr, res) \<Rightarrow>
        (case try_reserve t k tr res m of (r, m) \<Rightarrow> (r \<noteq> None, m)))"

interpretation rm: admission grant_request "\<lambda>t m. snd (release t m)" fst held rm_ok
proof unfold_locales
  fix q :: reserve_request and m :: resource_manager and i
  obtain t k tr res where q: "q = (t, k, tr, res)" by (cases q)
  obtain out m' where e: "try_reserve t k tr res m = (out, m')" by force
  have g: "grant_request q m = (out \<noteq> None, m')" by (simp add: grant_request_def q e)
  have fq: "fst q = t" by (simp add: q)
  show "fst (grant_request q m) \<Longrightarrow> held (snd (grant_request q m)) = insert (fst q) (held m)"
    using e by (cases rule: try_reserve_cases) (auto simp: g held_def fq)
  show "\<not> fst (grant_request q m) \<Longrightarrow> held (snd (grant_request q m)) = held m"
    using e by (cases rule: try_reserve_cases) (auto simp: g held_def fq)
  show "rm_ok m \<Longrightarrow> rm_ok (snd (grant_request q m))"
    using try_reserve_ok [of m t k tr res] by (simp add: g e)
  show "held (snd (release i m)) = held m - {i}"
    by (cases "dict_get (reservations m) i")
      (auto simp: held_def release_def Let_def case_prod_unfold split: if_splits)
  show "rm_ok m \<Longrightarrow> rm_ok (snd (release i m))" by (rule release_ok)
qed

end
