(* ===== verification/WorkerScheduler.thy ===== *)
theory WorkerScheduler
  imports WorkerResources
begin

section \<open>The scheduler of model worker jobs\<close>

text \<open>
  \<^verbatim>\<open>src/ai2apps/worker_scheduler.py\<close>: tickets wait in \<open>queued\<close>, in arrival order, run in
  \<open>active\<close>, and are kept in \<open>finished\<close> once they have left (the objects their leases hold).
  Each method body that runs under the scheduler's lock is one atomic operation. A future is
  registered in \<open>waiters\<close> until it is popped, then its outcome is in \<open>resolved\<close>. The clock is
  a function of the number of readings taken.
\<close>

subsection \<open>Tickets\<close>

datatype workload = LocalInteractive | LocalForeground | RemoteCommitted | LocalBackground | Maintenance

fun parse_workload :: "string \<Rightarrow> workload res" where
  "parse_workload v =
     (if v = ''local_interactive'' then Inr LocalInteractive
      else if v = ''local_foreground'' then Inr LocalForeground
      else if v = ''remote_committed'' then Inr RemoteCommitted
      else if v = ''local_background'' then Inr LocalBackground
      else if v = ''maintenance'' then Inr Maintenance
      else Inl ValueError)"

fun class_rank :: "workload \<Rightarrow> int" where
  "class_rank LocalInteractive = 0"
| "class_rank LocalForeground = 1"
| "class_rank RemoteCommitted = 2"
| "class_rank LocalBackground = 3"
| "class_rank Maintenance = 4"

datatype ticket_status = TQueued | TRunning | TSucceeded | TFailed | TCancelled | TExpired

record ticket =
  tk_id :: string
  tk_request_id :: string
  tk_service_key :: string
  tk_class :: workload
  tk_created_at :: rat
  tk_sequence :: int
  tk_deadline :: "rat option"
  tk_duration_ms :: "int option"
  tk_resident_bytes :: "int option"
  tk_transient_bytes :: "int option"
  tk_actor_id :: "string option"
  tk_app_id :: "string option"
  tk_session_id :: "string option"
  tk_status :: ticket_status
  tk_started_at :: "rat option"
  tk_completed_at :: "rat option"

text \<open>The deadline as a sort key: \<open>Never\<close> is \<^verbatim>\<open>float("inf")\<close>.\<close>

datatype deadline = At rat | Never

instantiation deadline :: linorder
begin

fun less_eq_deadline :: "deadline \<Rightarrow> deadline \<Rightarrow> bool" where
  "less_eq_deadline (At a) (At b) = (a \<le> b)"
| "less_eq_deadline _ Never = True"
| "less_eq_deadline Never (At b) = False"

definition less_deadline :: "deadline \<Rightarrow> deadline \<Rightarrow> bool" where
  "less_deadline a b \<longleftrightarrow> a \<le> b \<and> \<not> b \<le> a"

instance
proof
  fix a b c :: deadline
  show "a < b \<longleftrightarrow> a \<le> b \<and> \<not> b \<le> a" by (simp add: less_deadline_def)
  show "a \<le> a" by (cases a) simp_all
  show "a \<le> b \<Longrightarrow> b \<le> c \<Longrightarrow> a \<le> c" by (cases a; cases b; cases c) auto
  show "a \<le> b \<Longrightarrow> b \<le> a \<Longrightarrow> a = b" by (cases a; cases b) auto
  show "a \<le> b \<or> b \<le> a" by (cases a; cases b) auto
qed

end

definition deadline_key :: "ticket \<Rightarrow> deadline" where
  "deadline_key t = (case tk_deadline t of None \<Rightarrow> Never | Some d \<Rightarrow> At d)"

subsection \<open>The scheduler\<close>

datatype future = Pending | Granted | TimedOut | FutureCancelled

record scheduler =
  max_heavy_compute_slots :: int
  default_worker_slots :: int
  max_queue_depth :: int
  aging_interval_seconds :: rat
  max_active_per_actor :: int
  max_queued_per_actor :: int
  max_queued_per_app :: int
  sch_clock :: "nat \<Rightarrow> rat"
  sch_ticks :: nat
  resources :: "resource_manager option"
  queued :: "(string, ticket) dict"
  active :: "(string, ticket) dict"
  waiters :: "(string, future) dict"
  resolved :: "(string, future) dict"
  finished :: "ticket list"
  worker_slots :: "(string, int) dict"
  last_sequence :: int
  closed :: bool
  n_completed :: int
  n_failed :: int
  n_cancelled :: int
  n_expired :: int
  actor_dispatches :: "(string, int) dict"
  background_gates :: "string set"

definition init_scheduler ::
    "int \<Rightarrow> int \<Rightarrow> int \<Rightarrow> rat \<Rightarrow> int \<Rightarrow> int \<Rightarrow> int \<Rightarrow> (nat \<Rightarrow> rat) \<Rightarrow> resource_manager option \<Rightarrow> scheduler res" where
  "init_scheduler heavy slots depth aging active_actor queued_actor queued_app clk rm =
     (if heavy < 1 \<or> slots < 1 then Inl ValueError
      else if depth < 1 \<or> aging \<le> 0 then Inl ValueError
      else if min active_actor (min queued_actor queued_app) < 1 then Inl ValueError
      else Inr \<lparr>max_heavy_compute_slots = heavy, default_worker_slots = slots, max_queue_depth = depth,
        aging_interval_seconds = aging, max_active_per_actor = active_actor,
        max_queued_per_actor = queued_actor, max_queued_per_app = queued_app, sch_clock = clk,
        sch_ticks = 0, resources = rm, queued = [], active = [], waiters = [], resolved = [],
        finished = [], worker_slots = [], last_sequence = 0, closed = False, n_completed = 0,
        n_failed = 0, n_cancelled = 0, n_expired = 0, actor_dispatches = [], background_gates = {}\<rparr>)"

definition set_worker_slots :: "string \<Rightarrow> int \<Rightarrow> (scheduler, unit) method_st" where
  "set_worker_slots skey slots s =
     (if slots < 1 then (Inl ValueError, s)
      else (Inr (), s\<lparr>worker_slots := dict_set skey slots (worker_slots s)\<rparr>))"

definition tick :: "(scheduler, rat) method_st" where
  "tick s = (Inr (sch_clock s (sch_ticks s)), s\<lparr>sch_ticks := Suc (sch_ticks s)\<rparr>)"

subsection \<open>Priorities\<close>

definition effective_rank :: "scheduler \<Rightarrow> ticket \<Rightarrow> rat \<Rightarrow> int" where
  "effective_rank s t now =
     (let base = class_rank (tk_class t) in
      if base = 0 then 0
      else
        (let aged = truncate_rat (max 0 (now - tk_created_at t) / aging_interval_seconds s)
         in max 1 (base - aged)))"

type_synonym priority_key = "int \<times> deadline \<times> int \<times> rat \<times> int \<times> string"

definition priority :: "scheduler \<Rightarrow> rat \<Rightarrow> ticket \<Rightarrow> priority_key" where
  "priority s now t =
     (effective_rank s t now, deadline_key t,
      (case tk_actor_id t of
         None \<Rightarrow> 0
       | Some a \<Rightarrow> (case dict_get (actor_dispatches s) a of None \<Rightarrow> 0 | Some n \<Rightarrow> n)),
      tk_created_at t, tk_sequence t, tk_id t)"

definition worker_running :: "string \<Rightarrow> scheduler \<Rightarrow> int" where
  "worker_running skey s = int (length (filter (\<lambda>t. tk_service_key t = skey) (dict_values (active s))))"

definition actor_running :: "string \<Rightarrow> scheduler \<Rightarrow> int" where
  "actor_running a s = int (length (filter (\<lambda>t. tk_actor_id t = Some a) (dict_values (active s))))"

definition worker_limit :: "string \<Rightarrow> scheduler \<Rightarrow> int" where
  "worker_limit skey s =
     (case dict_get (worker_slots s) skey of None \<Rightarrow> default_worker_slots s | Some n \<Rightarrow> n)"

definition runnable :: "scheduler \<Rightarrow> ticket \<Rightarrow> bool" where
  "runnable s t =
     (if tk_class t \<in> {LocalBackground, Maintenance} \<and>
         (background_gates s \<noteq> {} \<or>
          list_ex (\<lambda>q. tk_id q \<noteq> tk_id t \<and> tk_class q \<in> {LocalInteractive, LocalForeground})
            (dict_values (queued s)))
      then False
      else if (case tk_actor_id t of None \<Rightarrow> False | Some a \<Rightarrow> actor_running a s \<ge> max_active_per_actor s)
      then False
      else worker_running (tk_service_key t) s < worker_limit (tk_service_key t) s)"

subsection \<open>Expiry and dispatch\<close>

text \<open>Pop the waiter of a ticket and settle its future unless it is done already.\<close>

definition settle :: "string \<Rightarrow> future \<Rightarrow> scheduler \<Rightarrow> scheduler" where
  "settle tid outcome s =
     (case dict_get (waiters s) tid of
        None \<Rightarrow> s
      | Some f \<Rightarrow> s\<lparr>waiters := dict_del tid (waiters s),
                    resolved := dict_set tid (if f = Pending then outcome else f) (resolved s)\<rparr>)"

definition retire :: "ticket_status \<Rightarrow> rat \<Rightarrow> ticket \<Rightarrow> scheduler \<Rightarrow> scheduler" where
  "retire st done_at t s = s\<lparr>finished := finished s @ [t\<lparr>tk_status := st, tk_completed_at := Some done_at\<rparr>]\<rparr>"

definition expire_one :: "rat \<Rightarrow> string \<times> ticket \<Rightarrow> scheduler \<Rightarrow> scheduler" where
  "expire_one now = (\<lambda>(tid, t) s.
     (case tk_deadline t of
        None \<Rightarrow> s
      | Some d \<Rightarrow>
          if d > now then s
          else
            (let s = s\<lparr>queued := dict_del tid (queued s)\<rparr>;
                 s = retire TExpired now t s;
                 s = s\<lparr>n_expired := n_expired s + 1\<rparr>
             in settle tid TimedOut s)))"

definition expire_locked :: "rat \<Rightarrow> scheduler \<Rightarrow> scheduler" where
  "expire_locked now s = fold (expire_one now) (queued s) s"

definition ticket_request :: "ticket \<Rightarrow> reserve_request" where
  "ticket_request t = (tk_id t, tk_service_key t, tk_transient_bytes t, tk_resident_bytes t)"

text \<open>The first candidate the resource manager admits.\<close>

definition pick_candidate :: "ticket list \<Rightarrow> scheduler \<Rightarrow> ticket option \<times> scheduler" where
  "pick_candidate cs s =
     (case resources s of
        None \<Rightarrow> (case cs of [] \<Rightarrow> None | t # _ \<Rightarrow> Some t, s)
      | Some m \<Rightarrow>
          (case first_granted (\<lambda>t. grant_request (ticket_request t)) cs m of
             (r, m) \<Rightarrow> (r, s\<lparr>resources := Some m\<rparr>)))"

definition start_ticket :: "rat \<Rightarrow> ticket \<Rightarrow> scheduler \<Rightarrow> scheduler" where
  "start_ticket now t s =
     (let s = s\<lparr>queued := dict_del (tk_id t) (queued s)\<rparr>;
          t = t\<lparr>tk_status := TRunning, tk_started_at := Some now\<rparr>;
          s = s\<lparr>active := dict_set (tk_id t) t (active s)\<rparr>;
          s = (case tk_actor_id t of
                 None \<Rightarrow> s
               | Some a \<Rightarrow> s\<lparr>actor_dispatches := dict_set a
                   ((case dict_get (actor_dispatches s) a of None \<Rightarrow> 0 | Some n \<Rightarrow> n) + 1)
                   (actor_dispatches s)\<rparr>)
      in settle (tk_id t) Granted s)"

text \<open>One round of the dispatch loop; the result says whether a ticket was started.\<close>

definition dispatch_one :: "rat \<Rightarrow> (scheduler, bool) method_st" where
  "dispatch_one now s =
     (let candidates = sort_key (priority s now) (filter (runnable s) (dict_values (queued s)))
      in case pick_candidate candidates s of
        (None, s) \<Rightarrow> (Inr False, s)
      | (Some t, s) \<Rightarrow>
          if dict_get (queued s) (tk_id t) = None then (Inl KeyError, s)
          else (Inr True, start_ticket now t s))"

lemma pick_candidate_frame: "pick_candidate cs s = (r, s') \<Longrightarrow> \<exists>m. s' = s\<lparr>resources := m\<rparr>"
  by (auto simp: pick_candidate_def split: option.splits prod.splits intro: exI [of _ "resources s"])

lemma dict_del_length_less: "dict_get d k \<noteq> None \<Longrightarrow> length (dict_del k d) < length d"
proof (induction d)
  case (Cons p d)
  have "length (dict_del k d) \<le> length d" by (rule length_delete_le)
  with Cons show ?case by (cases "fst p = k") (auto simp: le_imp_less_Suc)
qed simp

lemma settle_frame [simp]:
  "queued (settle tid f s) = queued s" "active (settle tid f s) = active s"
  "resources (settle tid f s) = resources s" "finished (settle tid f s) = finished s"
  by (simp_all add: settle_def split: option.split)

lemma dispatch_one_shrinks:
  assumes "dispatch_one now s = (Inr True, s')"
  shows "length (queued s') < length (queued s)"
proof -
  obtain t s1 where t: "pick_candidate (sort_key (priority s now) (filter (runnable s) (dict_values (queued s)))) s = (Some t, s1)"
      "dict_get (queued s1) (tk_id t) \<noteq> None" "s' = start_ticket now t s1"
    using assms by (auto simp: dispatch_one_def Let_def split: prod.splits option.splits if_splits)
  then obtain m where "s1 = s\<lparr>resources := m\<rparr>" using pick_candidate_frame by blast
  with t show ?thesis
    by (simp add: start_ticket_def Let_def dict_del_length_less split: option.split)
qed

function dispatch_loop :: "rat \<Rightarrow> (scheduler, unit) method_st" where
  "dispatch_loop now s =
     (if \<not> int (length (active s)) < max_heavy_compute_slots s then (Inr (), s)
      else case dispatch_one now s of
        (Inl e, s) \<Rightarrow> (Inl e, s)
      | (Inr False, s) \<Rightarrow> (Inr (), s)
      | (Inr True, s) \<Rightarrow> dispatch_loop now s)"
  by pat_completeness auto
termination
  by (relation "measure (\<lambda>(now, s). length (queued s))") (simp_all add: dispatch_one_shrinks)

declare dispatch_loop.simps [simp del]

definition dispatch_locked :: "(scheduler, unit) method_st" where
  "dispatch_locked =
     bind_st tick (\<lambda>now.
     bind_st (modify (expire_locked now)) (\<lambda>_.
     dispatch_loop now))"

subsection \<open>Acquiring and giving back\<close>

record job =
  jb_service_key :: string
  jb_class :: string
  jb_ticket_id :: string  \<comment> \<open>the ticket's fresh UUID\<close>
  jb_request_id :: string  \<comment> \<open>given, or a fresh UUID\<close>
  jb_timeout :: "rat option"
  jb_duration_ms :: "int option"
  jb_resident_bytes :: "int option"
  jb_transient_bytes :: "int option"
  jb_actor_id :: "string option"
  jb_app_id :: "string option"
  jb_session_id :: "string option"

definition effective_timeout :: "job \<Rightarrow> scheduler \<Rightarrow> rat option" where
  "effective_timeout j s =
     (case jb_timeout j of
        Some x \<Rightarrow> Some x
      | None \<Rightarrow> map_option (\<lambda>m. admission_wait_seconds (config m)) (resources s))"

definition count_queued :: "(ticket \<Rightarrow> bool) \<Rightarrow> scheduler \<Rightarrow> int" where
  "count_queued P s = int (length (filter P (dict_values (queued s))))"

definition enqueue :: "ticket \<Rightarrow> scheduler \<Rightarrow> scheduler" where
  "enqueue t s =
     s\<lparr>queued := dict_set (tk_id t) t (queued s), waiters := dict_set (tk_id t) Pending (waiters s)\<rparr>"

definition new_ticket :: "job \<Rightarrow> workload \<Rightarrow> rat \<Rightarrow> rat option \<Rightarrow> int \<Rightarrow> ticket" where
  "new_ticket j cls now timeout seq =
     \<lparr>tk_id = jb_ticket_id j, tk_request_id = jb_request_id j, tk_service_key = jb_service_key j,
      tk_class = cls, tk_created_at = now, tk_sequence = seq,
      tk_deadline = map_option (\<lambda>x. now + x) timeout, tk_duration_ms = jb_duration_ms j,
      tk_resident_bytes = jb_resident_bytes j, tk_transient_bytes = jb_transient_bytes j,
      tk_actor_id = jb_actor_id j, tk_app_id = jb_app_id j, tk_session_id = jb_session_id j,
      tk_status = TQueued, tk_started_at = None, tk_completed_at = None\<rparr>"

text \<open>\<open>acquire\<close> up to the point where it waits for its future: the ticket's id.\<close>

definition acquire :: "job \<Rightarrow> (scheduler, string) method_st" where
  "acquire j s =
     (case parse_workload (jb_class j) of
        Inl e \<Rightarrow> (Inl e, s)
      | Inr cls \<Rightarrow>
          (let timeout = effective_timeout j s in
           if (case timeout of None \<Rightarrow> False | Some x \<Rightarrow> x \<le> 0) then (Inl TimeoutError, s)
           else bind_st tick (\<lambda>now s.
             if closed s then (Inl RuntimeError, s)
             else if int (length (queued s)) \<ge> max_queue_depth s then (Inl RuntimeError, s)
             else if jb_actor_id j \<noteq> None \<and>
               count_queued (\<lambda>t. tk_actor_id t = jb_actor_id j) s \<ge> max_queued_per_actor s
             then (Inl RuntimeError, s)
             else if jb_app_id j \<noteq> None \<and>
               count_queued (\<lambda>t. tk_app_id t = jb_app_id j) s \<ge> max_queued_per_app s
             then (Inl RuntimeError, s)
             else
               (let s = s\<lparr>last_sequence := last_sequence s + 1\<rparr>;
                    t = new_ticket j cls now timeout (last_sequence s)
                in bind_st dispatch_locked (\<lambda>_. ret (tk_id t)) (enqueue t s))) s))"

text \<open>A queued ticket leaves the queue for another reason than being started.\<close>

definition drop_queued ::
    "ticket_status \<Rightarrow> (scheduler \<Rightarrow> scheduler) \<Rightarrow> string \<Rightarrow> (scheduler, bool) method_st" where
  "drop_queued status bump tid s =
     (case dict_get (queued s) tid of
        None \<Rightarrow> (Inr False, s)
      | Some t \<Rightarrow>
          bind_st (modify (\<lambda>s. s\<lparr>queued := dict_del tid (queued s)\<rparr>)) (\<lambda>_.
          bind_st tick (\<lambda>now.
          bind_st (modify (\<lambda>s. settle tid FutureCancelled (bump (retire status now t s)))) (\<lambda>_.
          ret True))) s)"

definition bump_expired :: "scheduler \<Rightarrow> scheduler" where
  "bump_expired s = s\<lparr>n_expired := n_expired s + 1\<rparr>"

definition bump_cancelled :: "scheduler \<Rightarrow> scheduler" where
  "bump_cancelled s = s\<lparr>n_cancelled := n_cancelled s + 1\<rparr>"

definition expire_ticket :: "string \<Rightarrow> (scheduler, bool) method_st" where
  "expire_ticket tid =
     bind_st (drop_queued TExpired bump_expired tid) (\<lambda>found.
     if found then bind_st dispatch_locked (\<lambda>_. ret True) else ret False)"

definition cancel :: "string \<Rightarrow> (scheduler, bool) method_st" where
  "cancel tid =
     bind_st (drop_queued TCancelled bump_cancelled tid) (\<lambda>found.
     if found then bind_st dispatch_locked (\<lambda>_. ret True) else ret False)"

text \<open>\<^verbatim>\<open>_release\<close>\<close>

definition released_status :: "bool \<Rightarrow> bool \<Rightarrow> ticket_status" where
  "released_status failed cancelled =
     (if cancelled then TCancelled else if failed then TFailed else TSucceeded)"

definition bump_released :: "bool \<Rightarrow> bool \<Rightarrow> scheduler \<Rightarrow> scheduler" where
  "bump_released failed cancelled s =
     (if cancelled then s\<lparr>n_cancelled := n_cancelled s + 1\<rparr>
      else if failed then s\<lparr>n_failed := n_failed s + 1\<rparr>
      else s\<lparr>n_completed := n_completed s + 1\<rparr>)"

definition release_ticket :: "string \<Rightarrow> bool \<Rightarrow> bool \<Rightarrow> (scheduler, unit) method_st" where
  "release_ticket tid failed cancelled s =
     (case dict_get (active s) tid of
        None \<Rightarrow> (Inr (), s)
      | Some t \<Rightarrow>
          bind_st (modify (\<lambda>s. s\<lparr>active := dict_del tid (active s)\<rparr>)) (\<lambda>_.
          bind_st (modify (\<lambda>s. s\<lparr>resources := map_option (\<lambda>m. snd (release tid m)) (resources s)\<rparr>)) (\<lambda>_.
          bind_st tick (\<lambda>now.
          bind_st (modify (retire (released_status failed cancelled) now t)) (\<lambda>_.
          bind_st (modify (bump_released failed cancelled)) (\<lambda>_.
          dispatch_locked))))) s)"

text \<open>\<open>acquire\<close> after its wait ended in a time-out, or in any other exception.\<close>

definition acquire_timed_out :: "string \<Rightarrow> (scheduler, unit) method_st" where
  "acquire_timed_out tid = bind_st (expire_ticket tid) (\<lambda>_. raise_st TimeoutError)"

definition acquire_interrupted :: "string \<Rightarrow> (scheduler, unit) method_st" where
  "acquire_interrupted tid =
     bind_st (cancel tid) (\<lambda>found. if found then ret () else release_ticket tid True False)"

text \<open>The event loop cancels the future a task waits for.\<close>

definition abandon_wait :: "string \<Rightarrow> scheduler \<Rightarrow> scheduler" where
  "abandon_wait tid s =
     (if dict_get (waiters s) tid = Some Pending
      then s\<lparr>waiters := dict_set tid FutureCancelled (waiters s)\<rparr> else s)"

text \<open>\<^verbatim>\<open>SchedulerLease\<close>: the ticket's id and whether it has been released.\<close>

record lease =
  ls_ticket_id :: string
  ls_released :: bool

definition lease_release :: "bool \<Rightarrow> bool \<Rightarrow> lease \<Rightarrow> scheduler \<Rightarrow> unit res \<times> lease \<times> scheduler" where
  "lease_release failed cancelled l s =
     (if ls_released l then (Inr (), l, s)
      else (case release_ticket (ls_ticket_id l) failed cancelled s of
              (r, s) \<Rightarrow> (r, l\<lparr>ls_released := True\<rparr>, s)))"

subsection \<open>Requests, gates, shutdown\<close>

definition matches_request ::
    "string \<Rightarrow> string \<Rightarrow> string \<Rightarrow> string option \<Rightarrow> string option \<Rightarrow> ticket \<Rightarrow> bool" where
  "matches_request skey rid actor app session t \<longleftrightarrow>
     tk_service_key t = skey \<and> tk_request_id t = rid \<and> tk_actor_id t = Some actor \<and>
     tk_app_id t = app \<and> tk_session_id t = session"

definition owns_active_request ::
    "string \<Rightarrow> string \<Rightarrow> string \<Rightarrow> string option \<Rightarrow> string option \<Rightarrow> scheduler \<Rightarrow> bool" where
  "owns_active_request skey rid actor app session s =
     (if actor = [] \<or> rid = [] then False
      else list_ex (matches_request skey rid actor app session) (dict_values (active s)))"

fun cancel_all :: "ticket list \<Rightarrow> (scheduler, unit) method_st" where
  "cancel_all [] = ret ()"
| "cancel_all (t # ts) =
     (\<lambda>s. if dict_get (queued s) (tk_id t) = None then (Inl KeyError, s)
          else bind_st (modify (\<lambda>s. s\<lparr>queued := dict_del (tk_id t) (queued s)\<rparr>)) (\<lambda>_.
               bind_st tick (\<lambda>now.
               bind_st (modify (\<lambda>s. settle (tk_id t) FutureCancelled
                          (bump_cancelled (retire TCancelled now t s)))) (\<lambda>_.
               cancel_all ts))) s)"

definition cancel_queued_request ::
    "string \<Rightarrow> string \<Rightarrow> string \<Rightarrow> string option \<Rightarrow> string option \<Rightarrow> (scheduler, bool) method_st" where
  "cancel_queued_request skey rid actor app session s =
     (if actor = [] \<or> rid = [] then (Inr False, s)
      else if list_ex (matches_request skey rid actor app session) (dict_values (active s))
      then (Inr False, s)
      else
        (let found = filter (matches_request skey rid actor app session) (dict_values (queued s))
         in bind_st (cancel_all found) (\<lambda>_.
            bind_st (if found \<noteq> [] then dispatch_locked else ret ()) (\<lambda>_.
            ret (found \<noteq> []))) s))"

definition set_background_gate :: "string \<Rightarrow> bool \<Rightarrow> (scheduler, unit) method_st" where
  "set_background_gate reason paused s =
     (if reason = [] then (Inl ValueError, s)
      else dispatch_locked (s\<lparr>background_gates :=
             (if paused then insert reason (background_gates s)
              else background_gates s - {reason})\<rparr>))"

definition notify_resources_changed :: "(scheduler, unit) method_st" where
  "notify_resources_changed = dispatch_locked"

definition shutdown :: "(scheduler, unit) method_st" where
  "shutdown =
     bind_st (modify (\<lambda>s. s\<lparr>closed := True\<rparr>)) (\<lambda>_.
     bind_st tick (\<lambda>now.
     bind_st (modify (\<lambda>s. fold (\<lambda>t. retire TCancelled now t) (dict_values (queued s)) s)) (\<lambda>_.
     bind_st (modify (\<lambda>s. s\<lparr>n_cancelled := n_cancelled s + int (length (queued s)), queued := []\<rparr>)) (\<lambda>_.
     modify (\<lambda>s. s\<lparr>resolved := fold (\<lambda>(tid, f). dict_set tid (if f = Pending then FutureCancelled else f))
                      (waiters s) (resolved s), waiters := []\<rparr>)))))"

subsection \<open>Reporting\<close>

definition all_workloads :: "workload list" where
  "all_workloads = [LocalInteractive, LocalForeground, RemoteCommitted, LocalBackground, Maintenance]"

definition count_class :: "ticket list \<Rightarrow> (workload \<times> int) list" where
  "count_class ts = map (\<lambda>c. (c, int (length (filter (\<lambda>t. tk_class t = c) ts)))) all_workloads"

record worker_report =
  wr_queued :: int
  wr_running :: int
  wr_queued_by_class :: "(workload \<times> int) list"
  wr_running_by_class :: "(workload \<times> int) list"

record ticket_report =
  tr_ticket :: ticket
  tr_waiting_seconds :: rat

record scheduler_report =
  sr_queued :: int
  sr_running :: int
  sr_available_slots :: int
  sr_queued_by_class :: "(workload \<times> int) list"
  sr_running_by_class :: "(workload \<times> int) list"
  sr_counts :: "int \<times> int \<times> int \<times> int"
  sr_workers :: "(string \<times> worker_report) list"
  sr_tickets :: "ticket_report list"
  sr_background_paused :: bool
  sr_pause_reasons :: "string list"

definition report_worker :: "ticket list \<Rightarrow> ticket list \<Rightarrow> string \<Rightarrow> string \<times> worker_report" where
  "report_worker qs rs skey =
     (let q = filter (\<lambda>t. tk_service_key t = skey) qs;
          r = filter (\<lambda>t. tk_service_key t = skey) rs
      in (skey, \<lparr>wr_queued = int (length q), wr_running = int (length r),
                 wr_queued_by_class = count_class q, wr_running_by_class = count_class r\<rparr>))"

definition scheduler_snapshot :: "(scheduler, scheduler_report) method_st" where
  "scheduler_snapshot =
     bind_st tick (\<lambda>now.
     bind_st (modify (expire_locked now)) (\<lambda>_.
     gets (\<lambda>s.
       (let qs = dict_values (queued s); rs = dict_values (active s);
            keys = sorted_list_of_set (set (map tk_service_key (qs @ rs)))
        in \<lparr>sr_queued = int (length qs), sr_running = int (length rs),
            sr_available_slots = max 0 (max_heavy_compute_slots s - int (length rs)),
            sr_queued_by_class = count_class qs, sr_running_by_class = count_class rs,
            sr_counts = (n_completed s, n_failed s, n_cancelled s, n_expired s),
            sr_workers = map (report_worker qs rs) keys,
            sr_tickets = map (\<lambda>t. \<lparr>tr_ticket = t, tr_waiting_seconds = max 0 (now - tk_created_at t)\<rparr>)
              (sort_key (priority s now) qs),
            sr_background_paused = background_gates s \<noteq> {},
            sr_pause_reasons = sorted_list_of_set (background_gates s)\<rparr>))))"

subsection \<open>The sweep of the resource manager\<close>

text \<open>
  \<open>evict_idle\<close> and \<open>sweep_once\<close> of the resource manager, which call back into the scheduler;
  here the manager is the scheduler's own. \<open>evict\<close> says whether the package manager's eviction
  succeeds; it raises \<^verbatim>\<open>RuntimeError\<close> otherwise.
\<close>

definition on_resources :: "(resource_manager \<Rightarrow> 'a \<times> resource_manager) \<Rightarrow> 'a \<Rightarrow> (scheduler, 'a) method_st" where
  "on_resources op d s =
     (case resources s of
        None \<Rightarrow> (Inr d, s)
      | Some m \<Rightarrow> (case op m of (x, m) \<Rightarrow> (Inr x, s\<lparr>resources := Some m\<rparr>)))"

definition evict_idle :: "(string \<Rightarrow> int \<Rightarrow> bool) \<Rightarrow> string \<Rightarrow> int \<Rightarrow> (scheduler, unit) method_st" where
  "evict_idle evict skey generation =
     bind_st (on_resources (evict_begin skey) None) (\<lambda>err.
     if err \<noteq> None then raise_st RuntimeError
     else
       bind_st (on_resources (\<lambda>m. ((), evict_end skey m)) ()) (\<lambda>_.
       bind_st notify_resources_changed (\<lambda>_.
       if evict skey generation then ret () else raise_st RuntimeError)))"

fun sweep_loop :: "(string \<Rightarrow> int \<Rightarrow> bool) \<Rightarrow> candidate list \<Rightarrow> string list \<Rightarrow> (scheduler, string list) method_st" where
  "sweep_loop evict [] evicted = ret evicted"
| "sweep_loop evict ((_, _, skey, generation) # cs) evicted =
     (\<lambda>s. case resources s of
        None \<Rightarrow> (Inr evicted, s)
      | Some m \<Rightarrow>
          if active_for_worker skey m \<noteq> 0 \<or> skey \<in> pinned m \<or> skey \<in> evicting m
          then sweep_loop evict cs evicted s
          else bind_st (evict_idle evict skey generation) (\<lambda>_.
               sweep_loop evict cs (evicted @ [skey])) s)"

definition sweep_once ::
    "(string \<Rightarrow> int \<Rightarrow> bool) \<Rightarrow> host_conditions \<Rightarrow> worker_package list \<Rightarrow> (scheduler, string list) method_st" where
  "sweep_once evict conditions installed s =
     (case resources s of
        None \<Rightarrow> (Inr [], s)
      | Some m \<Rightarrow>
          (let (mem, m) = read_memory m;
               level = sweep_level (config m) mem;
               under_pressure = (level \<noteq> PressureOk);
               m = m\<lparr>last_conditions := conditions\<rparr>
           in bind_st (for_each (sweep_gates (config m) under_pressure conditions)
                         (\<lambda>(reason, paused). set_background_gate reason paused)) (\<lambda>_.
              if idle_timeout_seconds (config m) = 0 \<and> \<not> under_pressure then ret []
              else
                bind_st (on_resources read_clock 0) (\<lambda>now.
                bind_st (on_resources (\<lambda>m. (sweep_candidates now under_pressure installed m, m)) [])
                  (\<lambda>cs. sweep_loop evict cs []))) (s\<lparr>resources := Some m\<rparr>)))"

end
