(* ===== verification/SchedulerInvariant.thy ===== *)
theory SchedulerInvariant
  imports WorkerScheduler
begin

section \<open>The invariant of the scheduler\<close>

text \<open>
  \<open>sched_ok\<close> says: a ticket is either queued or active, filed under its own id, with a waiter
  exactly while it is queued; the slot, actor, worker and queue limits hold; the resource
  manager, if there is one, holds a reservation for exactly the active tickets; and every
  ticket ever accepted is accounted for once. Every operation keeps it.
\<close>

definition tickets_ok :: "(string, ticket) dict \<Rightarrow> (string, ticket) dict \<Rightarrow> bool" where
  "tickets_ok q a \<longleftrightarrow>
     dict_ok q \<and> dict_ok a \<and> dom (map_of q) \<inter> dom (map_of a) = {} \<and>
     (\<forall>k t. dict_get q k = Some t \<longrightarrow> tk_id t = k \<and> tk_status t = TQueued) \<and>
     (\<forall>k t. dict_get a k = Some t \<longrightarrow> tk_id t = k \<and> tk_status t = TRunning)"

definition limits_ok :: "scheduler \<Rightarrow> bool" where
  "limits_ok s \<longleftrightarrow>
     int (length (active s)) \<le> max_heavy_compute_slots s \<and>
     (\<forall>a. actor_running a s \<le> max_active_per_actor s) \<and>
     (\<forall>k. worker_running k s \<le> worker_limit k s) \<and>
     int (length (queued s)) \<le> max_queue_depth s \<and>
     (\<forall>a. count_queued (\<lambda>t. tk_actor_id t = Some a) s \<le> max_queued_per_actor s) \<and>
     (\<forall>p. count_queued (\<lambda>t. tk_app_id t = Some p) s \<le> max_queued_per_app s)"

definition config_ok :: "scheduler \<Rightarrow> bool" where
  "config_ok s \<longleftrightarrow>
     1 \<le> max_heavy_compute_slots s \<and> 1 \<le> default_worker_slots s \<and> 1 \<le> max_queue_depth s \<and>
     0 < aging_interval_seconds s \<and> 1 \<le> max_active_per_actor s \<and> 1 \<le> max_queued_per_actor s \<and>
     1 \<le> max_queued_per_app s \<and> (\<forall>k n. dict_get (worker_slots s) k = Some n \<longrightarrow> 1 \<le> n)"

definition resources_ok :: "resource_manager option \<Rightarrow> string set \<Rightarrow> bool" where
  "resources_ok rm running \<longleftrightarrow> (case rm of None \<Rightarrow> True | Some m \<Rightarrow> rm_ok m \<and> held m = running)"

definition waiters_ok :: "scheduler \<Rightarrow> bool" where
  "waiters_ok s \<longleftrightarrow> dict_ok (waiters s) \<and> dom (map_of (waiters s)) = dom (map_of (queued s))"

definition n_finished :: "scheduler \<Rightarrow> int" where
  "n_finished s = n_completed s + n_failed s + n_cancelled s + n_expired s"

definition accounted :: "scheduler \<Rightarrow> bool" where
  "accounted s \<longleftrightarrow>
     last_sequence s = n_finished s + int (length (queued s)) + int (length (active s)) \<and>
     n_finished s = int (length (finished s))"

definition sched_ok :: "scheduler \<Rightarrow> bool" where
  "sched_ok s \<longleftrightarrow>
     tickets_ok (queued s) (active s) \<and> limits_ok s \<and> config_ok s \<and>
     resources_ok (resources s) (dom (map_of (active s))) \<and> waiters_ok s \<and> accounted s"

named_theorems sched_frames \<open>fields a step leaves alone\<close>

subsection \<open>Counting entries\<close>

lemma filter_set_absent:
  "dict_get d k = None \<Longrightarrow>
    length (filter P (dict_values (dict_set k v d))) = length (filter P (dict_values d)) + (if P v then 1 else 0)"
  by (simp add: dict_set_absent)

lemma filter_del_le: "length (filter P (dict_values (dict_del k d))) \<le> length (filter P (dict_values d))"
  by (induction d) (auto intro: le_SucI)

subsection \<open>A ticket leaves the queue\<close>

lemma settle_sel [simp]:
  "max_heavy_compute_slots (settle k f s) = max_heavy_compute_slots s"
  "default_worker_slots (settle k f s) = default_worker_slots s"
  "max_queue_depth (settle k f s) = max_queue_depth s"
  "aging_interval_seconds (settle k f s) = aging_interval_seconds s"
  "max_active_per_actor (settle k f s) = max_active_per_actor s"
  "max_queued_per_actor (settle k f s) = max_queued_per_actor s"
  "max_queued_per_app (settle k f s) = max_queued_per_app s"
  "worker_slots (settle k f s) = worker_slots s" "last_sequence (settle k f s) = last_sequence s"
  "n_finished (settle k f s) = n_finished s" "n_completed (settle k f s) = n_completed s"
  "n_failed (settle k f s) = n_failed s" "n_cancelled (settle k f s) = n_cancelled s"
  "n_expired (settle k f s) = n_expired s" "background_gates (settle k f s) = background_gates s"
  "closed (settle k f s) = closed s" "actor_dispatches (settle k f s) = actor_dispatches s"
  "map_of (waiters (settle k f s)) = (map_of (waiters s))(k := None)"
  "dict_ok (waiters s) \<Longrightarrow> dict_ok (waiters (settle k f s))"
  by (auto simp: settle_def n_finished_def split: option.split)

lemma worker_limit_cong:
  "worker_slots s' = worker_slots s \<Longrightarrow> default_worker_slots s' = default_worker_slots s \<Longrightarrow>
    worker_limit k s' = worker_limit k s"
  by (simp add: worker_limit_def split: option.split)

lemma limits_cong:
  assumes "active s' = active s" and "queued s' = queued s"
    and "max_heavy_compute_slots s' = max_heavy_compute_slots s"
    and "max_active_per_actor s' = max_active_per_actor s" and "worker_slots s' = worker_slots s"
    and "default_worker_slots s' = default_worker_slots s" and "max_queue_depth s' = max_queue_depth s"
    and "max_queued_per_actor s' = max_queued_per_actor s" and "max_queued_per_app s' = max_queued_per_app s"
  shows "limits_ok s' = limits_ok s"
proof -
  have "worker_limit k s' = worker_limit k s" for k using assms(5,6) by (rule worker_limit_cong)
  with assms show ?thesis
    by (simp add: limits_ok_def actor_running_def worker_running_def count_queued_def)
qed

text \<open>The limits only get easier to meet when tickets leave.\<close>

lemma limits_fewer_queued:
  assumes "limits_ok s"
  shows "limits_ok (s\<lparr>queued := dict_del k (queued s)\<rparr>)"
proof -
  have le: "count_queued P (s\<lparr>queued := dict_del k (queued s)\<rparr>) \<le> count_queued P s" for P
    using filter_del_le [of P k "queued s"] by (simp add: count_queued_def)
  moreover have "length (dict_del k (queued s)) \<le> length (queued s)" by (rule length_delete_le)
  moreover have "worker_limit w (s\<lparr>queued := dict_del k (queued s)\<rparr>) = worker_limit w s" for w
    by (rule worker_limit_cong) simp_all
  ultimately show ?thesis
    using assms order_trans [OF le]
    by (simp add: limits_ok_def actor_running_def worker_running_def)
qed

lemma limits_fewer_active:
  assumes "limits_ok s"
  shows "limits_ok (s\<lparr>active := dict_del k (active s)\<rparr>)"
proof -
  let ?s = "s\<lparr>active := dict_del k (active s)\<rparr>"
  have w: "worker_running w ?s \<le> worker_running w s" and a: "actor_running x ?s \<le> actor_running x s" for w x
    using filter_del_le [of _ k "active s"] by (simp_all add: worker_running_def actor_running_def)
  moreover have "length (dict_del k (active s)) \<le> length (active s)" by (rule length_delete_le)
  moreover have "worker_limit w ?s = worker_limit w s" for w by (rule worker_limit_cong) simp_all
  ultimately show ?thesis
    using assms order_trans [OF w] order_trans [OF a]
    by (simp add: limits_ok_def count_queued_def)
qed

definition one_more :: "(scheduler \<Rightarrow> scheduler) \<Rightarrow> bool" where
  "one_more bump \<longleftrightarrow>
     (\<forall>s. \<exists>c f x e. bump s = s\<lparr>n_completed := c, n_failed := f, n_cancelled := x, n_expired := e\<rparr> \<and>
        c + f + x + e = n_finished s + 1)"

lemma one_more_bumps [simp]: "one_more bump_expired" "one_more bump_cancelled"
  "one_more (bump_released f c)"
proof -
  have e: "s = s\<lparr>n_completed := n_completed s, n_failed := n_failed s, n_cancelled := n_cancelled s,
      n_expired := n_expired s\<rparr>" for s :: scheduler by simp
  show "one_more bump_expired" unfolding one_more_def
  proof
    fix s show "\<exists>c f x e. bump_expired s = s\<lparr>n_completed := c, n_failed := f, n_cancelled := x, n_expired := e\<rparr> \<and>
        c + f + x + e = n_finished s + 1"
      by (rule exI [of _ "n_completed s"], rule exI [of _ "n_failed s"], rule exI [of _ "n_cancelled s"],
          rule exI [of _ "n_expired s + 1"]) (simp add: bump_expired_def n_finished_def)
  qed
  show "one_more bump_cancelled" unfolding one_more_def
  proof
    fix s show "\<exists>c f x e. bump_cancelled s = s\<lparr>n_completed := c, n_failed := f, n_cancelled := x, n_expired := e\<rparr> \<and>
        c + f + x + e = n_finished s + 1"
      by (rule exI [of _ "n_completed s"], rule exI [of _ "n_failed s"], rule exI [of _ "n_cancelled s + 1"],
          rule exI [of _ "n_expired s"]) (simp add: bump_cancelled_def n_finished_def)
  qed
  show "one_more (bump_released f c)" unfolding one_more_def
  proof
    fix s
    show "\<exists>c' f' x e. bump_released f c s =
        s\<lparr>n_completed := c', n_failed := f', n_cancelled := x, n_expired := e\<rparr> \<and>
        c' + f' + x + e = n_finished s + 1"
      by (rule exI [of _ "n_completed s + (if c \<or> f then 0 else 1)"],
          rule exI [of _ "n_failed s + (if \<not> c \<and> f then 1 else 0)"],
          rule exI [of _ "n_cancelled s + (if c then 1 else 0)"],
          rule exI [of _ "n_expired s"]) (simp add: bump_released_def n_finished_def)
  qed
qed

lemma sched_ok_ticks [simp]: "sched_ok (s\<lparr>sch_ticks := n\<rparr>) = sched_ok s"
proof -
  have "limits_ok (s\<lparr>sch_ticks := n\<rparr>) = limits_ok s" by (rule limits_cong) simp_all
  then show ?thesis
    by (simp add: sched_ok_def config_ok_def waiters_ok_def accounted_def n_finished_def)
qed

lemma tickets_ok_del_queued: "tickets_ok q a \<Longrightarrow> tickets_ok (dict_del k q) a"
  by (auto simp: tickets_ok_def)

lemma tickets_ok_del_active: "tickets_ok q a \<Longrightarrow> tickets_ok q (dict_del k a)"
  by (auto simp: tickets_ok_def)

lemma length_dict_del:
  "dict_ok d \<Longrightarrow> dict_get d k \<noteq> None \<Longrightarrow> length d = Suc (length (dict_del k d))"
proof (induction d)
  case (Cons p d)
  show ?case
  proof (cases "fst p = k")
    case True
    then have "dict_get d k = None" using Cons.prems by (auto simp: dict_get_None_iff)
    with True show ?thesis by (cases p) simp
  next
    case False
    with Cons show ?thesis by (cases p) auto
  qed
qed simp

lemma one_moreE:
  assumes "one_more bump"
  obtains c f x e where "bump s = s\<lparr>n_completed := c, n_failed := f, n_cancelled := x, n_expired := e\<rparr>"
    "c + f + x + e = n_finished s + 1"
  using assms unfolding one_more_def by blast

text \<open>A queued ticket leaves for good: it is filed among the finished ones and counted once.\<close>

lemma leave_queue_ok:
  assumes ok: "sched_ok s" and t: "dict_get (queued s) k \<noteq> None" and bump: "one_more bump"
  shows "sched_ok (settle k f (bump (retire st now t (s\<lparr>queued := dict_del k (queued s)\<rparr>))))"
proof -
  let ?s = "retire st now t (s\<lparr>queued := dict_del k (queued s)\<rparr>)"
  obtain c fl x e where b: "bump ?s = ?s\<lparr>n_completed := c, n_failed := fl, n_cancelled := x, n_expired := e\<rparr>"
      "c + fl + x + e = n_finished ?s + 1"
    by (rule one_moreE [OF bump])
  note b1 = b(1) [unfolded retire_def, simplified]
  let ?r = "settle k f (bump ?s)"
  have "limits_ok (s\<lparr>queued := dict_del k (queued s)\<rparr>)"
    using ok by (intro limits_fewer_queued) (simp add: sched_ok_def)
  moreover have "limits_ok ?r = limits_ok (s\<lparr>queued := dict_del k (queued s)\<rparr>)"
    by (rule limits_cong) (simp_all add: b1 retire_def)
  moreover have "length (queued s) = Suc (length (dict_del k (queued s)))"
    using ok t by (intro length_dict_del) (auto simp: sched_ok_def tickets_ok_def)
  then have "accounted ?r"
    using ok b(2) by (simp add: sched_ok_def accounted_def b1 retire_def n_finished_def)
  moreover have "waiters_ok ?r"
    using ok by (auto simp: sched_ok_def waiters_ok_def b1 retire_def)
  moreover have "tickets_ok (queued ?r) (active ?r)"
    using ok by (simp add: sched_ok_def b1 retire_def tickets_ok_del_queued)
  ultimately show ?thesis
    using ok by (simp add: sched_ok_def b1 retire_def config_ok_def)
qed

subsection \<open>Expiry\<close>

definition overdue :: "rat \<Rightarrow> ticket \<Rightarrow> bool" where
  "overdue now t \<longleftrightarrow> (case tk_deadline t of None \<Rightarrow> False | Some d \<Rightarrow> d \<le> now)"

lemma expire_one_ok:
  assumes ok: "sched_ok s" and t: "dict_get (queued s) k = Some t"
  shows "sched_ok (expire_one now (k, t) s)"
  using leave_queue_ok [OF ok _ one_more_bumps(1), of k] ok t
  by (simp add: expire_one_def bump_expired_def Let_def split: option.split)

lemma expire_one_queued:
  "queued (expire_one now (k, t) s) =
     (if overdue now t then dict_del k (queued s) else queued s)"
  by (auto simp: expire_one_def Let_def retire_def overdue_def split: option.split)

lemma expire_fold_ok:
  "sched_ok s \<Longrightarrow> dict_ok q \<Longrightarrow> (\<And>k t. (k, t) \<in> set q \<Longrightarrow> dict_get (queued s) k = Some t) \<Longrightarrow>
    sched_ok (fold (expire_one now) q s)"
proof (induction q arbitrary: s)
  case (Cons p q)
  obtain k t where p: "p = (k, t)" by (cases p)
  have "sched_ok (expire_one now p s)"
    using Cons.prems(1,3) by (simp add: p expire_one_ok)
  moreover have "dict_get (queued (expire_one now p s)) k' = Some t'" if "(k', t') \<in> set q" for k' t'
  proof -
    have "k' \<noteq> k" using Cons.prems(2) that by (force simp: p)
    then show ?thesis using Cons.prems(3) that by (simp add: p expire_one_queued)
  qed
  ultimately show ?case using Cons.IH Cons.prems(2) by (simp add: p)
qed simp

lemma expire_locked_ok: "sched_ok s \<Longrightarrow> sched_ok (expire_locked now s)"
  unfolding expire_locked_def
  by (rule expire_fold_ok) (auto simp: sched_ok_def tickets_ok_def)

text \<open>Expiry removes exactly the tickets whose deadline has passed.\<close>

lemma expire_fold_queued:
  "queued (fold (expire_one now) q s) =
     filter (\<lambda>p. fst p \<notin> fst ` set (filter (\<lambda>x. overdue now (snd x)) q)) (queued s)"
proof (induction q arbitrary: s)
  case (Cons p q)
  obtain k t where p: "p = (k, t)" by (cases p)
  show ?case
    by (cases "overdue now t")
      (auto simp: Cons p expire_one_queued AList.delete_eq case_prod_unfold simp del: set_filter
        intro!: filter_cong)
qed simp

lemma expire_locked_queued:
  assumes "dict_ok (queued s)"
  shows "queued (expire_locked now s) = filter (\<lambda>p. \<not> overdue now (snd p)) (queued s)"
  unfolding expire_locked_def expire_fold_queued
proof (rule filter_cong)
  fix p assume "p \<in> set (queued s)"
  then show "(fst p \<notin> fst ` set (filter (\<lambda>x. overdue now (snd x)) (queued s))) = (\<not> overdue now (snd p))"
    using assms by (auto simp: eq_key_imp_eq_value prod_eq_iff) (metis eq_key_imp_eq_value prod.collapse)
qed simp

subsection \<open>A ticket is started\<close>

lemma sched_okD:
  assumes "sched_ok s"
  shows "tickets_ok (queued s) (active s)" "limits_ok s" "config_ok s"
    "resources_ok (resources s) (dom (map_of (active s)))" "waiters_ok s" "accounted s"
    "dict_ok (queued s)" "dict_ok (active s)"
  using assms by (simp_all add: sched_ok_def tickets_ok_def)

lemma queued_ticket:
  assumes "tickets_ok q a" and "t \<in> set (dict_values q)"
  shows "dict_get q (tk_id t) = Some t" "dict_get a (tk_id t) = None"
proof -
  obtain k where "(k, t) \<in> set q" using assms(2) by auto
  then have k: "dict_get q k = Some t" using assms(1) by (simp add: tickets_ok_def)
  then have "tk_id t = k" using assms(1) by (simp add: tickets_ok_def)
  with k show q: "dict_get q (tk_id t) = Some t" by simp
  have "dom (map_of q) \<inter> dom (map_of a) = {}" using assms(1) by (simp add: tickets_ok_def)
  moreover have "tk_id t \<in> dom (map_of q)" using q by (rule domI)
  ultimately show "dict_get a (tk_id t) = None" by blast
qed

definition started :: "rat \<Rightarrow> ticket \<Rightarrow> ticket" where
  "started now t = t\<lparr>tk_status := TRunning, tk_started_at := Some now\<rparr>"

lemma started_sel [simp]:
  "tk_id (started now t) = tk_id t" "tk_service_key (started now t) = tk_service_key t"
  "tk_actor_id (started now t) = tk_actor_id t" "tk_status (started now t) = TRunning"
  by (simp_all add: started_def)

lemma start_ticket_eq:
  "\<exists>n. start_ticket now t s = settle (tk_id t) Granted (s\<lparr>queued := dict_del (tk_id t) (queued s),
     active := dict_set (tk_id t) (started now t) (active s), actor_dispatches := n\<rparr>)"
  by (auto simp: start_ticket_def Let_def started_def split: option.split
      intro: exI [of _ "actor_dispatches s"])

lemma start_ticket_sel [simp]:
  "queued (start_ticket now t s) = dict_del (tk_id t) (queued s)"
  "active (start_ticket now t s) = dict_set (tk_id t) (started now t) (active s)"
  "resources (start_ticket now t s) = resources s" "finished (start_ticket now t s) = finished s"
  "max_heavy_compute_slots (start_ticket now t s) = max_heavy_compute_slots s"
  "default_worker_slots (start_ticket now t s) = default_worker_slots s"
  "max_queue_depth (start_ticket now t s) = max_queue_depth s"
  "aging_interval_seconds (start_ticket now t s) = aging_interval_seconds s"
  "max_active_per_actor (start_ticket now t s) = max_active_per_actor s"
  "max_queued_per_actor (start_ticket now t s) = max_queued_per_actor s"
  "max_queued_per_app (start_ticket now t s) = max_queued_per_app s"
  "worker_slots (start_ticket now t s) = worker_slots s"
  "last_sequence (start_ticket now t s) = last_sequence s"
  "n_finished (start_ticket now t s) = n_finished s" "n_completed (start_ticket now t s) = n_completed s"
  "n_failed (start_ticket now t s) = n_failed s" "n_cancelled (start_ticket now t s) = n_cancelled s"
  "n_expired (start_ticket now t s) = n_expired s"
  "background_gates (start_ticket now t s) = background_gates s"
  "closed (start_ticket now t s) = closed s"
  "map_of (waiters (start_ticket now t s)) = (map_of (waiters s))(tk_id t := None)"
  "dict_ok (waiters s) \<Longrightarrow> dict_ok (waiters (start_ticket now t s))"
proof -
  from start_ticket_eq [of now t s] obtain n where
    "start_ticket now t s = settle (tk_id t) Granted (s\<lparr>queued := dict_del (tk_id t) (queued s),
       active := dict_set (tk_id t) (started now t) (active s), actor_dispatches := n\<rparr>)" ..
  note e = this
  show "queued (start_ticket now t s) = dict_del (tk_id t) (queued s)"
  "active (start_ticket now t s) = dict_set (tk_id t) (started now t) (active s)"
  "resources (start_ticket now t s) = resources s" "finished (start_ticket now t s) = finished s"
  "max_heavy_compute_slots (start_ticket now t s) = max_heavy_compute_slots s"
  "default_worker_slots (start_ticket now t s) = default_worker_slots s"
  "max_queue_depth (start_ticket now t s) = max_queue_depth s"
  "aging_interval_seconds (start_ticket now t s) = aging_interval_seconds s"
  "max_active_per_actor (start_ticket now t s) = max_active_per_actor s"
  "max_queued_per_actor (start_ticket now t s) = max_queued_per_actor s"
  "max_queued_per_app (start_ticket now t s) = max_queued_per_app s"
  "worker_slots (start_ticket now t s) = worker_slots s"
  "last_sequence (start_ticket now t s) = last_sequence s"
  "n_finished (start_ticket now t s) = n_finished s" "n_completed (start_ticket now t s) = n_completed s"
  "n_failed (start_ticket now t s) = n_failed s" "n_cancelled (start_ticket now t s) = n_cancelled s"
  "n_expired (start_ticket now t s) = n_expired s"
  "background_gates (start_ticket now t s) = background_gates s"
  "closed (start_ticket now t s) = closed s"
  "map_of (waiters (start_ticket now t s)) = (map_of (waiters s))(tk_id t := None)"
  "dict_ok (waiters s) \<Longrightarrow> dict_ok (waiters (start_ticket now t s))"
    by (simp_all add: e n_finished_def)
qed

lemma tickets_ok_start:
  "tickets_ok q a \<Longrightarrow> tickets_ok (dict_del (tk_id t) q) (dict_set (tk_id t) (started now t) a)"
  by (auto simp: tickets_ok_def)

lemma start_limits_ok:
  assumes ok: "sched_ok s" and t: "t \<in> set (dict_values (queued s))" and run: "runnable s t"
    and slot: "int (length (active s)) < max_heavy_compute_slots s"
  shows "limits_ok (start_ticket now t (s\<lparr>resources := rm\<rparr>))"
proof -
  let ?s = "start_ticket now t (s\<lparr>resources := rm\<rparr>)"
  note lim = sched_okD(2) [OF ok, unfolded limits_ok_def]
  have new: "dict_get (active s) (tk_id t) = None" by (rule queued_ticket [OF sched_okD(1) [OF ok] t])
  have wl: "worker_limit w ?s = worker_limit w s" for w by (rule worker_limit_cong) simp_all
  have w: "worker_running w ?s = worker_running w s + (if tk_service_key t = w then 1 else 0)" for w
    unfolding worker_running_def by (simp add: dict_set_absent [OF new])
  have a: "actor_running x ?s = actor_running x s + (if tk_actor_id t = Some x then 1 else 0)" for x
    unfolding actor_running_def by (simp add: dict_set_absent [OF new])
  have q: "count_queued P ?s \<le> count_queued P s" for P
    using filter_del_le [of P "tk_id t" "queued s"] by (simp add: count_queued_def)
  have "worker_running w ?s \<le> worker_limit w ?s" for w
    using lim run by (auto simp: w wl runnable_def split: if_splits)
  moreover have "actor_running x ?s \<le> max_active_per_actor ?s" for x
    using lim run by (auto simp: a runnable_def split: if_splits)
  moreover have "int (length (active ?s)) \<le> max_heavy_compute_slots ?s"
    using slot by (simp add: dict_set_absent [OF new])
  moreover have "int (length (queued ?s)) \<le> max_queue_depth ?s"
    using lim length_delete_le [of "tk_id t" "queued s"] by simp
  ultimately show ?thesis using lim order_trans [OF q] by (simp add: limits_ok_def)
qed

lemma start_ticket_ok:
  assumes ok: "sched_ok s" and t: "t \<in> set (dict_values (queued s))" and run: "runnable s t"
    and slot: "int (length (active s)) < max_heavy_compute_slots s"
    and rm: "resources_ok rm (insert (tk_id t) (dom (map_of (active s))))"
  shows "sched_ok (start_ticket now t (s\<lparr>resources := rm\<rparr>))"
proof -
  let ?s = "start_ticket now t (s\<lparr>resources := rm\<rparr>)"
  note q = queued_ticket [OF sched_okD(1) [OF ok] t]
  have "length (queued s) = Suc (length (dict_del (tk_id t) (queued s)))"
    by (rule length_dict_del) (use q sched_okD(7) [OF ok] in auto)
  then have "accounted ?s"
    using sched_okD(6) [OF ok] q(2) by (simp add: accounted_def dict_set_absent n_finished_def)
  moreover have "waiters_ok ?s" using sched_okD(5) [OF ok] by (auto simp: waiters_ok_def)
  moreover have "config_ok ?s" using sched_okD(3) [OF ok] by (simp add: config_ok_def)
  ultimately show ?thesis
    using start_limits_ok [OF ok t run slot, of now rm] rm sched_okD(1) [OF ok]
    by (simp add: sched_ok_def tickets_ok_start)
qed

text \<open>What the resource manager holds after the candidates were put to it.\<close>

lemma pick_candidate_cases:
  assumes "pick_candidate cs s = (r, s')" and "resources_ok (resources s) D"
  obtains (none) rm where "r = None" "s' = s\<lparr>resources := rm\<rparr>" "resources_ok rm D"
      "resources s = None \<longrightarrow> cs = []" "rm = None \<longleftrightarrow> resources s = None"
  | (some) t rm where "r = Some t" "t \<in> set cs" "s' = s\<lparr>resources := rm\<rparr>"
      "resources_ok rm (insert (tk_id t) D)" "rm = None \<longleftrightarrow> resources s = None"
proof (cases "resources s")
  case None
  have e: "s\<lparr>resources := None\<rparr> = s" using None by (cases s) simp
  show thesis
  proof (cases cs)
    case Nil
    with None e assms show thesis
      by (intro none [of None]) (auto simp: pick_candidate_def resources_ok_def)
  next
    case (Cons c cs')
    with None e assms show thesis
      by (intro some [of c None]) (auto simp: pick_candidate_def resources_ok_def)
  qed
next
  case (Some m)
  obtain c m' where f: "first_granted (\<lambda>t. grant_request (ticket_request t)) cs m = (c, m')" by force
  have m: "rm_ok m" "held m = D" using assms(2) Some by (simp_all add: resources_ok_def)
  have s': "s' = s\<lparr>resources := Some m'\<rparr>" "r = c"
    using assms(1) Some f by (auto simp: pick_candidate_def)
  have m': "rm_ok m'" using rm.first_granted_ok [OF m(1), of ticket_request cs] by (simp add: f)
  note h = rm.first_granted_holds [of ticket_request cs m, unfolded f, simplified]
  show thesis
  proof (cases c)
    case None
    with h have "held m' = D" using m(2) by simp
    with None Some s' m' show thesis
      by (intro none [of "Some m'"]) (simp_all add: resources_ok_def)
  next
    case c: (Some t)
    with h have "t \<in> set cs" "held m' = insert (tk_id t) D" using m(2) by (simp_all add: ticket_request_def)
    with c Some s' m' show thesis
      by (intro some [of t "Some m'"]) (simp_all add: resources_ok_def)
  qed
qed

subsection \<open>Dispatch\<close>

lemma dispatch_one_cases:
  assumes ok: "sched_ok s"
  obtains (idle) rm where "dispatch_one now s = (Inr False, s\<lparr>resources := rm\<rparr>)"
      "resources_ok rm (dom (map_of (active s)))"
      "resources s = None \<longrightarrow> filter (runnable s) (dict_values (queued s)) = []"
      "rm = None \<longleftrightarrow> resources s = None"
  | (go) t rm where "dispatch_one now s = (Inr True, start_ticket now t (s\<lparr>resources := rm\<rparr>))"
      "t \<in> set (dict_values (queued s))" "runnable s t"
      "resources_ok rm (insert (tk_id t) (dom (map_of (active s))))"
      "rm = None \<longleftrightarrow> resources s = None"
proof -
  let ?cs = "sort_key (priority s now) (filter (runnable s) (dict_values (queued s)))"
  obtain r s' where p: "pick_candidate ?cs s = (r, s')" by force
  from p sched_okD(4) [OF ok] show thesis
  proof (cases rule: pick_candidate_cases)
    case (none rm)
    moreover have "?cs = [] \<longleftrightarrow> filter (runnable s) (dict_values (queued s)) = []"
      by (metis length_0_conv length_sort)
    ultimately show thesis using p by (intro idle [of rm]) (auto simp: dispatch_one_def Let_def)
  next
    case (some t rm)
    then have t: "t \<in> set (dict_values (queued s))" "runnable s t" by auto
    with some p queued_ticket(1) [OF sched_okD(1) [OF ok] t(1)] show thesis
      by (intro go [of t rm]) (auto simp: dispatch_one_def Let_def)
  qed
qed

lemma runnable_cong:
  assumes "queued s' = queued s" and "active s' = active s" and "background_gates s' = background_gates s"
    and "max_active_per_actor s' = max_active_per_actor s" and "worker_slots s' = worker_slots s"
    and "default_worker_slots s' = default_worker_slots s"
  shows "runnable s' t = runnable s t"
proof -
  have "worker_limit k s' = worker_limit k s" for k using assms by (intro worker_limit_cong)
  with assms show ?thesis
    by (simp add: runnable_def worker_running_def actor_running_def cong: option.case_cong)
qed

lemma sched_ok_resources:
  assumes "sched_ok s" and "resources_ok rm (dom (map_of (active s)))"
  shows "sched_ok (s\<lparr>resources := rm\<rparr>)"
proof -
  have "limits_ok (s\<lparr>resources := rm\<rparr>) = limits_ok s" by (rule limits_cong) simp_all
  with assms show ?thesis
    by (simp add: sched_ok_def config_ok_def waiters_ok_def accounted_def n_finished_def)
qed

text \<open>
  What a run of the loop leaves: the tickets it started are in \<open>active\<close>, the rest is still queued,
  and it stops when the slots are used up or, without a resource manager, when nothing is runnable.
\<close>

definition dispatched :: "rat \<Rightarrow> scheduler \<Rightarrow> scheduler \<Rightarrow> bool" where
  "dispatched now s s' \<longleftrightarrow>
     set (queued s') \<subseteq> set (queued s) \<and>
     (\<forall>k. dict_get (active s') k =
        (case dict_get (active s) k of Some t \<Rightarrow> Some t
         | None \<Rightarrow> if dict_get (queued s') k = None then map_option (started now) (dict_get (queued s) k) else None)) \<and>
     finished s' = finished s \<and> closed s' = closed s \<and> background_gates s' = background_gates s \<and>
     (resources s' = None \<longleftrightarrow> resources s = None) \<and> last_sequence s' = last_sequence s"

lemma dispatched_refl:
  assumes "sched_ok s" and "resources s = None \<longleftrightarrow> rm = None"
  shows "dispatched now s (s\<lparr>resources := rm\<rparr>)"
  using sched_okD(1) [OF assms(1)] assms(2)
  by (auto simp: dispatched_def tickets_ok_def split: option.split)

lemma dispatched_start:
  assumes ok: "sched_ok s" and t: "t \<in> set (dict_values (queued s))" and rm: "rm = None \<longleftrightarrow> resources s = None"
    and rest: "dispatched now (start_ticket now t (s\<lparr>resources := rm\<rparr>)) s'"
  shows "dispatched now s s'"
proof -
  let ?s = "start_ticket now t (s\<lparr>resources := rm\<rparr>)"
  note q = queued_ticket [OF sched_okD(1) [OF ok] t]
  have sub: "set (queued s') \<subseteq> set (dict_del (tk_id t) (queued s))" using rest by (simp add: dispatched_def)
  then have gone: "dict_get (queued s') (tk_id t) = None"
    by (auto simp: dict_get_None_iff AList.delete_eq)
  have "dict_get (active s') k = (case dict_get (active s) k of Some t \<Rightarrow> Some t
         | None \<Rightarrow> if dict_get (queued s') k = None then map_option (started now) (dict_get (queued s) k) else None)" for k
    using rest q gone by (auto simp: dispatched_def split: option.splits)
  moreover have "set (queued s') \<subseteq> set (queued s)" using sub by (auto simp: AList.delete_eq)
  ultimately show ?thesis using rest rm by (simp add: dispatched_def)
qed

lemma dispatch_loop_spec:
  assumes "sched_ok s"
  shows "\<exists>s'. dispatch_loop now s = (Inr (), s') \<and> sched_ok s' \<and> dispatched now s s' \<and>
    (int (length (active s')) < max_heavy_compute_slots s' \<and> resources s' = None \<longrightarrow>
       filter (runnable s') (dict_values (queued s')) = [])"
  using assms
proof (induction now s rule: dispatch_loop.induct)
  case (1 now s)
  note [simp] = dispatch_loop.simps [of now s]
  have same: "dispatched now s s" using dispatched_refl [OF "1.prems", of "resources s" now] by simp
  show ?case
  proof (cases "int (length (active s)) < max_heavy_compute_slots s")
    case False
    with "1.prems" same show ?thesis by simp
  next
    case slot: True
    show ?thesis
    proof (rule dispatch_one_cases [OF "1.prems", of now])
      fix rm
      assume d: "dispatch_one now s = (Inr False, s\<lparr>resources := rm\<rparr>)" "resources_ok rm (dom (map_of (active s)))"
        "resources s = None \<longrightarrow> filter (runnable s) (dict_values (queued s)) = []" "rm = None \<longleftrightarrow> resources s = None"
      have "runnable (s\<lparr>resources := rm\<rparr>) = runnable s" by (rule ext, rule runnable_cong) simp_all
      with d slot sched_ok_resources [OF "1.prems" d(2)] dispatched_refl [OF "1.prems", of rm now]
      show ?thesis by simp
    next
      fix t rm
      assume d: "dispatch_one now s = (Inr True, start_ticket now t (s\<lparr>resources := rm\<rparr>))"
        "t \<in> set (dict_values (queued s))" "runnable s t"
        "resources_ok rm (insert (tk_id t) (dom (map_of (active s))))" "rm = None \<longleftrightarrow> resources s = None"
      have "sched_ok (start_ticket now t (s\<lparr>resources := rm\<rparr>))"
        by (rule start_ticket_ok [OF "1.prems" d(2,3) slot d(4)])
      then obtain s' where s': "dispatch_loop now (start_ticket now t (s\<lparr>resources := rm\<rparr>)) = (Inr (), s')"
          "sched_ok s'" "dispatched now (start_ticket now t (s\<lparr>resources := rm\<rparr>)) s'"
          "int (length (active s')) < max_heavy_compute_slots s' \<and> resources s' = None \<longrightarrow>
             filter (runnable s') (dict_values (queued s')) = []"
        using "1.IH" [OF _ d(1) [symmetric]] slot by auto
      with d slot dispatched_start [OF "1.prems" d(2,5) s'(3)] show ?thesis by simp
    qed
  qed
qed

lemma dispatch_locked_spec:
  assumes "sched_ok s"
  shows "\<exists>s'. dispatch_locked s = (Inr (), s') \<and> sched_ok s' \<and>
    dispatched (sch_clock s (sch_ticks s))
      (expire_locked (sch_clock s (sch_ticks s)) (s\<lparr>sch_ticks := Suc (sch_ticks s)\<rparr>)) s' \<and>
    (int (length (active s')) < max_heavy_compute_slots s' \<and> resources s' = None \<longrightarrow>
       filter (runnable s') (dict_values (queued s')) = [])"
proof -
  let ?now = "sch_clock s (sch_ticks s)" and ?s = "s\<lparr>sch_ticks := Suc (sch_ticks s)\<rparr>"
  have "sched_ok (expire_locked ?now ?s)" using assms by (simp add: expire_locked_ok)
  from dispatch_loop_spec [OF this, of ?now] show ?thesis
    by (auto simp: dispatch_locked_def tick_def)
qed

subsection \<open>Tickets come and go\<close>

lemma swap_ticks:
  "s\<lparr>queued := q, sch_ticks := n\<rparr> = s\<lparr>sch_ticks := n, queued := q\<rparr>"
  "s\<lparr>active := a, resources := r, sch_ticks := n\<rparr> = s\<lparr>sch_ticks := n, active := a, resources := r\<rparr>"
  by simp_all

text \<open>An active ticket is given back.\<close>

lemma leave_active_ok:
  assumes ok: "sched_ok s" and t: "dict_get (active s) k = Some t" and bump: "one_more bump"
  shows "sched_ok (bump (retire st now t (s\<lparr>active := dict_del k (active s),
    resources := map_option (\<lambda>m. snd (release k m)) (resources s)\<rparr>)))"
proof -
  let ?rm = "map_option (\<lambda>m. snd (release k m)) (resources s)"
  let ?s = "retire st now t (s\<lparr>active := dict_del k (active s), resources := ?rm\<rparr>)"
  obtain c fl x e where b: "bump ?s = ?s\<lparr>n_completed := c, n_failed := fl, n_cancelled := x, n_expired := e\<rparr>"
      "c + fl + x + e = n_finished ?s + 1"
    by (rule one_moreE [OF bump])
  note b1 = b(1) [unfolded retire_def, simplified]
  let ?r = "bump ?s"
  have "limits_ok (s\<lparr>active := dict_del k (active s)\<rparr>)"
    using sched_okD(2) [OF ok] by (rule limits_fewer_active)
  moreover have "limits_ok ?r = limits_ok (s\<lparr>active := dict_del k (active s)\<rparr>)"
    by (rule limits_cong) (simp_all add: b1 retire_def)
  moreover have "length (active s) = Suc (length (dict_del k (active s)))"
    using sched_okD(8) [OF ok] t by (intro length_dict_del) auto
  then have "accounted ?r"
    using sched_okD(6) [OF ok] b(2) by (simp add: accounted_def b1 retire_def n_finished_def)
  moreover have "resources_ok ?rm (dom (map_of (active s)) - {k})"
    using sched_okD(4) [OF ok]
    by (auto simp: resources_ok_def rm.drop_ok rm.drop_holds split: option.splits)
  then have "resources_ok (resources ?r) (dom (map_of (active ?r)))" by (simp add: b1 retire_def)
  moreover have "tickets_ok (queued ?r) (active ?r)"
    using sched_okD(1) [OF ok] by (simp add: b1 retire_def tickets_ok_del_active)
  ultimately show ?thesis
    using sched_okD(3,5) [OF ok] by (simp add: sched_ok_def b1 retire_def config_ok_def waiters_ok_def)
qed

lemma abandon_wait_ok: "sched_ok s \<Longrightarrow> sched_ok (abandon_wait tid s)"
proof -
  assume ok: "sched_ok s"
  have "limits_ok (abandon_wait tid s) = limits_ok s" by (rule limits_cong) (simp_all add: abandon_wait_def)
  moreover have "waiters_ok (abandon_wait tid s)"
    using sched_okD(5) [OF ok] by (auto simp: abandon_wait_def waiters_ok_def)
  ultimately show ?thesis
    using ok by (simp add: sched_ok_def config_ok_def accounted_def n_finished_def abandon_wait_def)
qed

text \<open>A new ticket is queued.\<close>

lemma enqueue_ok:
  assumes ok: "sched_ok s" and st: "tk_status t = TQueued"
    and new: "dict_get (queued s) (tk_id t) = None" "dict_get (active s) (tk_id t) = None"
    and room: "int (length (queued s)) < max_queue_depth s"
    and actor: "tk_actor_id t \<noteq> None \<Longrightarrow> count_queued (\<lambda>q. tk_actor_id q = tk_actor_id t) s < max_queued_per_actor s"
    and app: "tk_app_id t \<noteq> None \<Longrightarrow> count_queued (\<lambda>q. tk_app_id q = tk_app_id t) s < max_queued_per_app s"
  shows "sched_ok (enqueue t (s\<lparr>last_sequence := last_sequence s + 1\<rparr>))"
proof -
  let ?s = "enqueue t (s\<lparr>last_sequence := last_sequence s + 1\<rparr>)"
  have q: "queued ?s = queued s @ [(tk_id t, t)]" by (simp add: enqueue_def dict_set_absent [OF new(1)])
  have wl: "worker_limit w ?s = worker_limit w s" for w by (rule worker_limit_cong) (simp_all add: enqueue_def)
  have cq: "count_queued P ?s = count_queued P s + (if P t then 1 else 0)" for P
    by (simp add: count_queued_def q)
  have "limits_ok ?s"
    using sched_okD(2) [OF ok] room actor app unfolding limits_ok_def cq wl
    by (auto simp: q) (auto simp: enqueue_def worker_running_def actor_running_def)
  moreover have "tickets_ok (queued ?s) (active ?s)"
    using sched_okD(1) [OF ok] new st by (auto simp: enqueue_def tickets_ok_def)
  moreover have "waiters_ok ?s" using sched_okD(5) [OF ok] by (auto simp: enqueue_def waiters_ok_def)
  moreover have "accounted ?s"
    using sched_okD(6) [OF ok] new(1) by (simp add: accounted_def n_finished_def enqueue_def dict_set_absent)
  ultimately show ?thesis
    using sched_okD(3,4) [OF ok] by (simp add: sched_ok_def enqueue_def config_ok_def)
qed

end
