(* ===== verification/SchedulerSafety.thy ===== *)
theory SchedulerSafety
  imports SchedulerInvariant
begin

section \<open>Every operation of the scheduler keeps its invariants\<close>

text \<open>
  \<open>step_invariant I\<close>: \<open>I\<close> implies the scheduler's invariant and is kept by the primitive steps,
  a ticket joining or leaving the queue, a ticket given back, a dispatch, and changes of gates,
  futures and reservations. Every operation is built of these steps, so it keeps \<open>I\<close> as well.
\<close>

locale step_invariant =
  fixes I :: "scheduler \<Rightarrow> bool"
  assumes I_ok: "I s \<Longrightarrow> sched_ok s"
    and I_ticks: "I s \<Longrightarrow> I (s\<lparr>sch_ticks := n\<rparr>)"
    and I_gates: "I s \<Longrightarrow> I (s\<lparr>background_gates := g\<rparr>)"
    and I_resources: "I s \<Longrightarrow> resources_ok rm (dom (map_of (active s))) \<Longrightarrow> I (s\<lparr>resources := rm\<rparr>)"
    and I_abandon: "I s \<Longrightarrow> I (abandon_wait tid s)"
    and I_enqueue: "I s \<Longrightarrow> \<not> closed s \<Longrightarrow> sched_ok (enqueue t (s\<lparr>last_sequence := last_sequence s + 1\<rparr>)) \<Longrightarrow>
      I (enqueue t (s\<lparr>last_sequence := last_sequence s + 1\<rparr>))"
    and I_leave_queue: "I s \<Longrightarrow> dict_get (queued s) k \<noteq> None \<Longrightarrow>
      bump \<in> {bump_expired, bump_cancelled} \<Longrightarrow>
      I (settle k f (bump (retire st now t (s\<lparr>queued := dict_del k (queued s)\<rparr>))))"
    and I_leave_active: "I s \<Longrightarrow> dict_get (active s) k = Some t \<Longrightarrow>
      I (bump_released failed cancelled (retire st now t (s\<lparr>active := dict_del k (active s),
        resources := map_option (\<lambda>m. snd (release k m)) (resources s)\<rparr>)))"
    and I_dispatch: "I s \<Longrightarrow> dispatched now s s' \<Longrightarrow> sched_ok s' \<Longrightarrow> I s'"
    and I_shutdown: "I s \<Longrightarrow> I (snd (shutdown s))"

context step_invariant
begin

lemma expire_one: "I s \<Longrightarrow> dict_get (queued s) k = Some t \<Longrightarrow> I (expire_one now (k, t) s)"
  using I_leave_queue [of s k bump_expired TimedOut TExpired now t]
  by (simp add: expire_one_def bump_expired_def Let_def split: option.split)

lemma expire: "I s \<Longrightarrow> I (expire_locked now s)"
  unfolding expire_locked_def
proof -
  have "I s \<Longrightarrow> dict_ok q \<Longrightarrow> (\<And>k t. (k, t) \<in> set q \<Longrightarrow> dict_get (queued s) k = Some t) \<Longrightarrow>
    I (fold (WorkerScheduler.expire_one now) q s)" for q
  proof (induction q arbitrary: s)
    case (Cons p q)
    obtain k t where p: "p = (k, t)" by (cases p)
    have "I (WorkerScheduler.expire_one now p s)" using Cons.prems(1,3) by (simp add: p expire_one)
    moreover have "dict_get (queued (WorkerScheduler.expire_one now p s)) k' = Some t'" if "(k', t') \<in> set q" for k' t'
    proof -
      have "k' \<noteq> k" using Cons.prems(2) that by (force simp: p)
      then show ?thesis using Cons.prems(3) that by (simp add: p expire_one_queued)
    qed
    ultimately show ?case using Cons.IH Cons.prems(2) by (simp add: p)
  qed simp
  then show "I s \<Longrightarrow> I (fold (WorkerScheduler.expire_one now) (queued s) s)"
    using sched_okD(7) [OF I_ok] by simp
qed

lemma keeps_tick [keeps_rules]: "keeps tick I"
  by (simp add: keeps_def tick_def I_ticks)

lemma keeps_expire [keeps_rules]: "keeps (modify (expire_locked now)) I"
  by (rule keeps_modify) (rule expire)

lemma keeps_dispatch [keeps_rules]: "keeps dispatch_locked I"
proof (rule keepsI)
  fix s assume "I s"
  let ?e = "expire_locked (sch_clock s (sch_ticks s)) (s\<lparr>sch_ticks := Suc (sch_ticks s)\<rparr>)"
  have "I ?e" using \<open>I s\<close> by (intro expire I_ticks)
  then show "I (snd (dispatch_locked s))"
    using dispatch_locked_spec [OF I_ok [OF \<open>I s\<close>]] I_dispatch by fastforce
qed

lemma drop_queued:
  assumes bump: "bump \<in> {bump_expired, bump_cancelled}"
  shows "keeps (drop_queued st bump tid) I"
proof (rule keepsI)
  fix s assume ok: "I s"
  show "I (snd (WorkerScheduler.drop_queued st bump tid s))"
  proof (cases "dict_get (queued s) tid")
    case None
    with ok show ?thesis by (simp add: drop_queued_def)
  next
    case (Some t)
    let ?s = "s\<lparr>sch_ticks := Suc (sch_ticks s)\<rparr>"
    from I_leave_queue [of ?s tid bump FutureCancelled st "sch_clock s (sch_ticks s)" t] Some bump
      I_ticks [OF ok, of "Suc (sch_ticks s)"]
    show ?thesis by (simp add: drop_queued_def tick_def bind_st_def modify_def ret_def swap_ticks)
  qed
qed

lemma keeps_expire_ticket [keeps_rules]: "keeps (expire_ticket tid) I"
  unfolding expire_ticket_def by (intro keeps_rules drop_queued) simp_all

lemma keeps_cancel [keeps_rules]: "keeps (cancel tid) I"
  unfolding cancel_def by (intro keeps_rules drop_queued) simp_all

lemma keeps_release [keeps_rules]: "keeps (release_ticket tid f c) I"
proof (rule keepsI)
  fix s assume ok: "I s"
  show "I (snd (release_ticket tid f c s))"
  proof (cases "dict_get (active s) tid")
    case None
    with ok show ?thesis by (simp add: release_ticket_def)
  next
    case (Some t)
    let ?e = "bump_released f c (retire (released_status f c) (sch_clock s (sch_ticks s)) t
      (s\<lparr>sch_ticks := Suc (sch_ticks s), active := dict_del tid (active s),
         resources := map_option (\<lambda>m. snd (release tid m)) (resources s)\<rparr>))"
    have "I ?e"
      using I_leave_active [of "s\<lparr>sch_ticks := Suc (sch_ticks s)\<rparr>" tid t f c] I_ticks [OF ok] Some by simp
    then have "I (snd (dispatch_locked ?e))" by (rule keepsD [OF keeps_dispatch])
    moreover have "release_ticket tid f c s = dispatch_locked ?e"
      by (simp add: release_ticket_def Some tick_def bind_st_def modify_def swap_ticks)
    ultimately show ?thesis by simp
  qed
qed

lemma keeps_acquire_timed_out [keeps_rules]: "keeps (acquire_timed_out tid) I"
  unfolding acquire_timed_out_def by (intro keeps_rules)

lemma keeps_acquire_interrupted [keeps_rules]: "keeps (acquire_interrupted tid) I"
  unfolding acquire_interrupted_def by (intro keeps_rules)

lemma lease_release: "I s \<Longrightarrow> I (snd (snd (lease_release f c l s)))"
  using keepsD [OF keeps_release, of s "ls_ticket_id l" f c]
  by (simp add: lease_release_def case_prod_unfold)

lemma keeps_cancel_all [keeps_rules]: "keeps (cancel_all ts) I"
proof (induction ts)
  case (Cons t ts)
  show ?case
  proof (rule keepsI)
    fix s assume ok: "I s"
    show "I (snd (cancel_all (t # ts) s))"
    proof (cases "dict_get (queued s) (tk_id t)")
      case (Some t')
      then have "I (settle (tk_id t) FutureCancelled (bump_cancelled (retire TCancelled (sch_clock s (sch_ticks s)) t
          (s\<lparr>sch_ticks := Suc (sch_ticks s), queued := dict_del (tk_id t) (queued s)\<rparr>))))"
        using I_leave_queue [of "s\<lparr>sch_ticks := Suc (sch_ticks s)\<rparr>" "tk_id t" bump_cancelled] I_ticks [OF ok]
        by simp
      from keepsD [OF Cons.IH this] Some show ?thesis
        by (simp add: tick_def bind_st_def modify_def swap_ticks)
    qed (use ok in simp)
  qed
qed (simp add: keeps_ret)

lemma keeps_cancel_queued_request [keeps_rules]: "keeps (cancel_queued_request k rid a p ss) I"
  by (rule keepsI)
    (auto simp: cancel_queued_request_def Let_def ret_def intro!: keeps_bind_at [where I = I] keeps_rules)

lemma keeps_gate [keeps_rules]: "keeps (set_background_gate r b) I"
  by (rule keepsI) (auto simp: set_background_gate_def intro!: keepsD [OF keeps_dispatch] I_gates)

lemma keeps_notify [keeps_rules]: "keeps notify_resources_changed I"
  by (simp add: notify_resources_changed_def keeps_dispatch)

lemma keeps_shutdown [keeps_rules]: "keeps shutdown I"
  by (rule keepsI) (rule I_shutdown)

lemma keeps_snapshot [keeps_rules]: "keeps scheduler_snapshot I"
  unfolding scheduler_snapshot_def by (intro keeps_rules)

text \<open>A job whose ticket has a fresh id.\<close>

lemma acquire:
  assumes ok: "I s" and fresh: "dict_get (queued s) (jb_ticket_id j) = None" "dict_get (active s) (jb_ticket_id j) = None"
  shows "I (snd (WorkerScheduler.acquire j s))"
proof -
  let ?s = "s\<lparr>sch_ticks := Suc (sch_ticks s)\<rparr>"
  have ok': "I ?s" by (rule I_ticks [OF ok])
  have go: "I (snd (bind_st dispatch_locked r (enqueue t (?s\<lparr>last_sequence := last_sequence ?s + 1\<rparr>))))"
    if "t = new_ticket j cls now timeout seq" "\<not> closed ?s" "int (length (queued ?s)) < max_queue_depth ?s"
      "jb_actor_id j \<noteq> None \<Longrightarrow> count_queued (\<lambda>q. tk_actor_id q = jb_actor_id j) ?s < max_queued_per_actor ?s"
      "jb_app_id j \<noteq> None \<Longrightarrow> count_queued (\<lambda>q. tk_app_id q = jb_app_id j) ?s < max_queued_per_app ?s"
      "r = (\<lambda>_. ret i)"
    for t cls now timeout seq r and i :: string
  proof -
    have "sched_ok (enqueue t (?s\<lparr>last_sequence := last_sequence ?s + 1\<rparr>))"
      by (rule enqueue_ok [OF I_ok [OF ok']]) (use that fresh in \<open>auto simp: new_ticket_def\<close>)
    then have "I (enqueue t (?s\<lparr>last_sequence := last_sequence ?s + 1\<rparr>))" by (rule I_enqueue [OF ok' that(2)])
    then show ?thesis unfolding that(6) by (rule keeps_bind_at) (intro keeps_rules)+
  qed
  show ?thesis
  proof (cases "parse_workload (jb_class j)")
    case (Inl e)
    with ok show ?thesis by (simp add: acquire_def)
  next
    case (Inr c)
    with ok ok' show ?thesis
      by (auto simp: acquire_def Let_def tick_def bind_st_def [of "\<lambda>s. (Inr _, _ s)"] simp del: parse_workload.simps
          intro!: go [OF refl _ _ _ _ refl, simplified])
  qed
qed

text \<open>Calls of the resource manager that reserve and release nothing.\<close>

lemma on_resources:
  assumes "\<And>m. rm_ok m \<Longrightarrow> rm_ok (snd (op m)) \<and> held (snd (op m)) = held m"
  shows "keeps (on_resources op d) I"
proof (rule keepsI)
  fix s assume ok: "I s"
  show "I (snd (WorkerScheduler.on_resources op d s))"
  proof (cases "resources s")
    case None
    with ok show ?thesis by (simp add: on_resources_def)
  next
    case (Some m)
    have "resources_ok (Some (snd (op m))) (dom (map_of (active s)))"
      using sched_okD(4) [OF I_ok [OF ok]] assms [of m] Some by (simp add: resources_ok_def)
    from I_resources [OF ok this] Some show ?thesis by (simp add: on_resources_def case_prod_unfold)
  qed
qed

lemma keeps_evict_begin [keeps_rules]: "keeps (WorkerScheduler.on_resources (evict_begin k) d) I"
proof (rule on_resources)
  have "held (snd (evict_begin k m)) = held m" for m by (simp add: evict_begin_def held_def)
  then show "rm_ok m \<Longrightarrow> rm_ok (snd (evict_begin k m)) \<and> held (snd (evict_begin k m)) = held m" for m
    by (simp add: evict_begin_ok)
qed

lemma keeps_evict_end [keeps_rules]: "keeps (WorkerScheduler.on_resources (\<lambda>m. (x, evict_end k m)) d) I"
  by (rule on_resources) (auto simp: evict_end_ok, auto simp: evict_end_def held_def)

lemma keeps_read_clock [keeps_rules]: "keeps (WorkerScheduler.on_resources read_clock d) I"
  by (rule on_resources) (simp add: rm_ok_def held_def reserved_bytes_def)

lemma keeps_read_memory [keeps_rules]: "keeps (WorkerScheduler.on_resources read_memory d) I"
  by (rule on_resources) (simp add: rm_ok_def held_def reserved_bytes_def)

lemma keeps_pure [keeps_rules]: "keeps (WorkerScheduler.on_resources (\<lambda>m. (f m, m)) d) I"
  by (rule on_resources) simp

lemma keeps_set_pinned [keeps_rules]: "keeps (WorkerScheduler.on_resources (set_pinned k p) d) I"
  by (rule on_resources)
    (auto simp: set_pinned_ok, auto simp: set_pinned_def held_def split: option.splits if_splits)

lemma keeps_mark_started [keeps_rules]: "keeps (WorkerScheduler.on_resources (\<lambda>m. (x, mark_started k m)) d) I"
  by (rule on_resources) (auto simp: mark_started_ok, auto simp: mark_started_def held_def Let_def case_prod_unfold)

lemma keeps_evict_idle [keeps_rules]: "keeps (evict_idle ev k g) I"
  unfolding evict_idle_def by (intro keeps_rules)

lemma keeps_sweep_loop [keeps_rules]: "keeps (sweep_loop ev cs evicted) I"
proof (induction cs arbitrary: evicted)
  case (Cons c cs)
  obtain a b k g where c: "c = (a, b, k, g)" by (cases c)
  show ?case
  proof (rule keepsI)
    fix s assume ok: "I s"
    have "I (snd (bind_st (evict_idle ev k g) (\<lambda>_. sweep_loop ev cs (evicted @ [k])) s))"
      by (rule keeps_bind_at [where I = I, OF ok]) (rule keeps_evict_idle, rule Cons.IH)
    with ok keepsD [OF Cons.IH ok] show "I (snd (sweep_loop ev (c # cs) evicted s))"
      by (simp add: c split: option.split)
  qed
qed (simp add: keeps_ret)

lemma keeps_sweep_once [keeps_rules]: "keeps (sweep_once ev conditions installed) I"
proof (rule keepsI)
  fix s assume ok: "I s"
  show "I (snd (sweep_once ev conditions installed s))"
  proof (cases "resources s")
    case None
    with ok show ?thesis by (simp add: sweep_once_def)
  next
    case (Some m)
    let ?m = "m\<lparr>samples := Suc (samples m), last_conditions := conditions\<rparr>"
    have "resources_ok (Some ?m) (dom (map_of (active s)))"
      using sched_okD(4) [OF I_ok [OF ok]] Some
      by (simp add: resources_ok_def rm_ok_def held_def reserved_bytes_def)
    from I_resources [OF ok this] Some show ?thesis
      by (auto simp: sweep_once_def Let_def case_prod_unfold intro!: keeps_bind_at [where I = I] keeps_rules)
  qed
qed

end

subsection \<open>The interpretations\<close>

lemma fold_retire:
  "fold (retire st now) ts s =
     s\<lparr>finished := finished s @ map (\<lambda>t. t\<lparr>tk_status := st, tk_completed_at := Some now\<rparr>) ts\<rparr>"
  by (induction ts arbitrary: s) (simp_all add: retire_def)

lemma shutdown_state:
  "\<exists>ts r. shutdown s = (Inr (), s\<lparr>closed := True, sch_ticks := Suc (sch_ticks s), finished := finished s @ ts,
     n_cancelled := n_cancelled s + int (length (queued s)), queued := [], resolved := r, waiters := []\<rparr>) \<and>
     length ts = length (queued s)"
  by (simp add: shutdown_def tick_def bind_st_def modify_def fold_retire) (rule exI conjI refl | simp)+

lemma shutdown_ok:
  assumes ok: "sched_ok s"
  shows "sched_ok (snd (shutdown s))"
proof -
  obtain ts r where s: "snd (shutdown s) = s\<lparr>closed := True, sch_ticks := Suc (sch_ticks s),
      finished := finished s @ ts, n_cancelled := n_cancelled s + int (length (queued s)), queued := [],
      resolved := r, waiters := []\<rparr>" (is "_ = ?s") and n: "length ts = length (queued s)"
    using shutdown_state [of s] by auto
  have "limits_ok ?s"
  proof -
    have "worker_limit w ?s = worker_limit w s" for w by (rule worker_limit_cong) simp_all
    then show ?thesis
      using sched_okD(2,3) [OF ok]
      by (simp add: limits_ok_def config_ok_def count_queued_def worker_running_def actor_running_def)
  qed
  moreover have "tickets_ok (queued ?s) (active ?s)"
    using sched_okD(1) [OF ok] by (simp add: tickets_ok_def)
  moreover have "accounted ?s" using sched_okD(6) [OF ok] n by (simp add: accounted_def n_finished_def)
  ultimately show ?thesis
    using sched_okD(3,4) [OF ok] by (simp add: s sched_ok_def config_ok_def waiters_ok_def)
qed

lemma sched_ok_gates: "sched_ok s \<Longrightarrow> sched_ok (s\<lparr>background_gates := g\<rparr>)"
proof -
  assume ok: "sched_ok s"
  have "limits_ok (s\<lparr>background_gates := g\<rparr>) = limits_ok s" by (rule limits_cong) simp_all
  with ok show ?thesis
    by (simp add: sched_ok_def config_ok_def waiters_ok_def accounted_def n_finished_def)
qed

lemma bumps: "bump \<in> {bump_expired, bump_cancelled} \<Longrightarrow> one_more bump"
  by auto

interpretation sched: step_invariant sched_ok
  by unfold_locales
    (auto intro: sched_ok_gates sched_ok_resources abandon_wait_ok leave_queue_ok bumps leave_active_ok
      shutdown_ok)

text \<open>What is finished stays finished, with the outcome it has.\<close>

definition recorded :: "ticket list \<Rightarrow> scheduler \<Rightarrow> bool" where
  "recorded past s \<longleftrightarrow> sched_ok s \<and> (\<exists>ts. finished s = past @ ts)"

lemma step_sel [simp]:
  "finished (bump_expired s) = finished s" "queued (bump_expired s) = queued s"
  "active (bump_expired s) = active s" "closed (bump_expired s) = closed s"
  "finished (bump_cancelled s) = finished s" "queued (bump_cancelled s) = queued s"
  "active (bump_cancelled s) = active s" "closed (bump_cancelled s) = closed s"
  "finished (bump_released f c s) = finished s" "queued (bump_released f c s) = queued s"
  "active (bump_released f c s) = active s" "closed (bump_released f c s) = closed s"
  "finished (retire st now t s) = finished s @ [t\<lparr>tk_status := st, tk_completed_at := Some now\<rparr>]"
  "queued (retire st now t s) = queued s" "active (retire st now t s) = active s"
  "closed (retire st now t s) = closed s"
  "finished (abandon_wait k s) = finished s" "queued (abandon_wait k s) = queued s"
  "active (abandon_wait k s) = active s" "closed (abandon_wait k s) = closed s"
  "finished (enqueue t s) = finished s" "closed (enqueue t s) = closed s"
  by (simp_all add: bump_expired_def bump_cancelled_def bump_released_def retire_def abandon_wait_def enqueue_def)

interpretation past: step_invariant "recorded past" for past
proof unfold_locales
  fix s assume "recorded past s"
  then show "recorded past (snd (shutdown s))"
    using shutdown_ok shutdown_state [of s] by (auto simp: recorded_def)
qed (auto simp: recorded_def sched_ok_gates sched_ok_resources abandon_wait_ok leave_queue_ok
    leave_active_ok dispatched_def)

text \<open>After a shutdown nothing is queued any more, and what runs was running then.\<close>

definition drained :: "(string, ticket) dict \<Rightarrow> scheduler \<Rightarrow> bool" where
  "drained running s \<longleftrightarrow>
     sched_ok s \<and> closed s \<and> queued s = [] \<and>
     (\<forall>k t. dict_get (active s) k = Some t \<longrightarrow> dict_get running k = Some t)"

interpretation drain: step_invariant "drained running" for running
proof unfold_locales
  fix s assume "drained running s"
  then show "drained running (snd (shutdown s))"
    using shutdown_ok shutdown_state [of s] by (auto simp: drained_def)
next
  fix s s' now assume "drained running s" "dispatched now s s'" "sched_ok s'"
  then show "drained running s'"
    by (auto simp: drained_def dispatched_def split: option.splits)
qed (auto simp: drained_def sched_ok_gates sched_ok_resources abandon_wait_ok leave_active_ok split: if_splits)

subsection \<open>Reachable schedulers\<close>

text \<open>
  One call of the scheduler or of its resource manager, by any task. \<open>uuid4\<close> gives ids not in use.
  \<open>set_worker_slots\<close> lowers no limit below what is running; nothing in the host calls it.
\<close>

inductive sched_call :: "scheduler \<Rightarrow> scheduler \<Rightarrow> bool" where
  call_slots: "worker_running k s \<le> n \<Longrightarrow> sched_call s (snd (set_worker_slots k n s))"
| call_acquire: "dict_get (queued s) (jb_ticket_id j) = None \<Longrightarrow> dict_get (active s) (jb_ticket_id j) = None \<Longrightarrow>
    sched_call s (snd (acquire j s))"
| call_abandon: "sched_call s (abandon_wait tid s)"
| call_timed_out: "sched_call s (snd (acquire_timed_out tid s))"
| call_interrupted: "sched_call s (snd (acquire_interrupted tid s))"
| call_cancel: "sched_call s (snd (cancel tid s))"
| call_cancel_request: "sched_call s (snd (cancel_queued_request k rid a p ss s))"
| call_release: "sched_call s (snd (snd (lease_release f c l s)))"
| call_snapshot: "sched_call s (snd (scheduler_snapshot s))"
| call_gate: "sched_call s (snd (set_background_gate r b s))"
| call_notify: "sched_call s (snd (notify_resources_changed s))"
| call_shutdown: "sched_call s (snd (shutdown s))"
| call_pin: "sched_call s (snd (on_resources (set_pinned k pin) None s))"
| call_mark: "sched_call s (snd (on_resources (\<lambda>m. ((), mark_started k m)) () s))"
| call_evict_begin: "sched_call s (snd (on_resources (evict_begin k) None s))"
| call_evict_end: "sched_call s (snd (on_resources (\<lambda>m. ((), evict_end k m)) () s))"
| call_sweep: "sched_call s (snd (sweep_once evict conditions installed s))"

text \<open>A scheduler is created idle, with an idle resource manager or none.\<close>

inductive sched_reachable :: "scheduler \<Rightarrow> bool" where
  sched_start: "init_scheduler heavy slots depth aging aa qa qp clk rm = Inr s \<Longrightarrow>
    (case rm of None \<Rightarrow> True | Some m \<Rightarrow> \<exists>c smp ck. check_config c = Inr () \<and> m = init_resources c smp ck) \<Longrightarrow>
    sched_reachable s"
| sched_step: "sched_reachable s \<Longrightarrow> sched_call s s' \<Longrightarrow> sched_reachable s'"

inductive sched_calls :: "scheduler \<Rightarrow> scheduler \<Rightarrow> bool" where
  calls_refl: "sched_calls s s"
| calls_step: "sched_calls s s' \<Longrightarrow> sched_call s' s'' \<Longrightarrow> sched_calls s s''"

lemma set_worker_slots_sel [simp]:
  "finished (snd (set_worker_slots k n s)) = finished s" "queued (snd (set_worker_slots k n s)) = queued s"
  "active (snd (set_worker_slots k n s)) = active s" "closed (snd (set_worker_slots k n s)) = closed s"
  by (simp_all add: set_worker_slots_def)

text \<open>An invariant of the primitive steps that does not look at the slot table holds after any call.\<close>

lemma set_worker_slots_ok:
  assumes ok: "sched_ok s" and n: "worker_running k s \<le> n"
  shows "sched_ok (snd (set_worker_slots k n s))"
proof (cases "n < 1")
  case True
  with ok show ?thesis by (simp add: set_worker_slots_def)
next
  case False
  let ?s = "s\<lparr>worker_slots := dict_set k n (worker_slots s)\<rparr>"
  have "worker_limit w ?s = (if w = k then n else worker_limit w s)" for w
    by (simp add: worker_limit_def split: option.split)
  then have "limits_ok ?s"
    using sched_okD(2) [OF ok] n
    by (simp add: limits_ok_def worker_running_def actor_running_def count_queued_def)
  with False ok show ?thesis
    by (simp add: set_worker_slots_def sched_ok_def config_ok_def waiters_ok_def accounted_def n_finished_def)
qed

context step_invariant
begin

lemma call:
  assumes "sched_call s s'" and "I s" and slots: "\<And>k n. I s \<Longrightarrow> worker_running k s \<le> n \<Longrightarrow> I (snd (set_worker_slots k n s))"
  shows "I s'"
  using assms(1,2)
proof (cases rule: sched_call.cases)
  case (call_acquire j)
  with assms(2) show ?thesis using acquire by simp
qed (use assms(2) slots in \<open>auto intro!: I_abandon lease_release keepsD [where I = I] keeps_rules\<close>)

end

lemma call_ok: "sched_call s s' \<Longrightarrow> sched_ok s \<Longrightarrow> sched_ok s'"
  by (rule sched.call) (auto intro: set_worker_slots_ok)

lemma init_ok:
  assumes "init_scheduler heavy slots depth aging aa qa qp clk rm = Inr s"
    and "case rm of None \<Rightarrow> True | Some m \<Rightarrow> \<exists>c smp ck. check_config c = Inr () \<and> m = init_resources c smp ck"
  shows "sched_ok s"
proof -
  have "resources_ok rm {}"
    using assms(2) init_resources_ok
    by (auto simp: resources_ok_def held_def init_resources_def split: option.splits)
  with assms(1) show ?thesis
    by (auto simp: init_scheduler_def sched_ok_def tickets_ok_def limits_ok_def config_ok_def waiters_ok_def
        accounted_def n_finished_def count_queued_def worker_running_def actor_running_def worker_limit_def
        split: if_splits)
qed

lemma reachable_ok: "sched_reachable s \<Longrightarrow> sched_ok s"
  by (induction rule: sched_reachable.induct) (auto intro: init_ok call_ok)

lemma calls_ok: "sched_calls s s' \<Longrightarrow> sched_ok s \<Longrightarrow> sched_ok s'"
  by (induction rule: sched_calls.induct) (auto intro: call_ok)

lemma calls_recorded: "sched_calls s s' \<Longrightarrow> sched_ok s \<Longrightarrow> recorded (finished s) s'"
proof (induction rule: sched_calls.induct)
  case (calls_step s s' s'')
  then have "recorded (finished s) s'" by simp
  with calls_step(2) show ?case
    by (rule past.call) (auto simp: recorded_def set_worker_slots_ok)
qed (simp add: recorded_def)

lemma calls_drained: "sched_calls s s' \<Longrightarrow> drained running s \<Longrightarrow> drained running s'"
proof (induction rule: sched_calls.induct)
  case (calls_step s s' s'')
  then have "drained running s'" by simp
  with calls_step(2) show ?case
    by (rule drain.call) (auto simp: drained_def set_worker_slots_ok)
qed simp

end
