(* ===== verification/ResourceProperties.thy ===== *)
theory ResourceProperties
  imports WorkerResources BlockIndex
begin

section \<open>What the resource manager promises\<close>

text \<open>
  The properties of \<^verbatim>\<open>src/ai2apps/worker_resources.py\<close>: admission stays within the memory
  watermarks, refusals change nothing but the counters, pinned and evicting workers never
  overlap, the sweep only offers idle workers, and the bounds of the memory estimates.
\<close>

subsection \<open>Reachable managers\<close>

text \<open>
  The calls made while the host is running (\<open>rm_sample\<close> is the start of a sweep, which samples the
  memory and the conditions of the host, and evicts with the other calls), and the states they lead to. The start-up of the host
  first pins the workers \<open>ks\<close> of the stored preferences with \<open>restore_pinned\<close>, which does not check the
  limit (\<^verbatim>\<open>src/ai2apps/platform_runtime.py\<close>, around line 797).
\<close>

inductive rm_call :: "resource_manager \<Rightarrow> resource_manager \<Rightarrow> bool" where
  rm_reserve: "rm_call m (snd (try_reserve t k tr res m))"
| rm_release: "rm_call m (snd (release t m))"
| rm_mark: "rm_call m (mark_started k m)"
| rm_pin: "rm_call m (snd (set_pinned k p m))"
| rm_evict_begin: "rm_call m (snd (evict_begin k m))"
| rm_evict_end: "rm_call m (evict_end k m)"
| rm_sample: "rm_call m ((snd (read_memory m))\<lparr>last_conditions := conditions\<rparr>)"
| rm_report: "rm_call m (snd (resource_snapshot m))"

inductive rm_reachable :: "string list \<Rightarrow> resource_manager \<Rightarrow> bool" for ks where
  rm_start: "check_config c = Inr () \<Longrightarrow> rm_reachable ks (fold restore_pinned ks (init_resources c smp clk))"
| rm_step: "rm_reachable ks m \<Longrightarrow> rm_call m m' \<Longrightarrow> rm_reachable ks m'"

definition pins_ok :: "string list \<Rightarrow> resource_manager \<Rightarrow> bool" where
  "pins_ok ks m \<longleftrightarrow> int (card (pinned m)) \<le> max (max_pinned_workers (config m)) (int (card (set ks)))"

lemma restored:
  "fold restore_pinned ks m = m\<lparr>pinned := set ks \<union> pinned m\<rparr>"
  by (induction ks arbitrary: m) (simp_all add: restore_pinned_def)

lemma restored_ok: "rm_ok m \<Longrightarrow> evicting m = {} \<Longrightarrow> rm_ok (fold restore_pinned ks m)"
  by (auto simp: restored rm_ok_def reserved_bytes_def)

lemma try_reserve_frame:
  "pinned (snd (try_reserve t k tr res m)) = pinned m" "config (snd (try_reserve t k tr res m)) = config m"
  "evicting (snd (try_reserve t k tr res m)) = evicting m"
proof -
  obtain out m' where e: "try_reserve t k tr res m = (out, m')" by force
  from e have "pinned m' = pinned m \<and> config m' = config m \<and> evicting m' = evicting m"
    by (cases rule: try_reserve_cases) simp_all
  with e show "pinned (snd (try_reserve t k tr res m)) = pinned m"
    "config (snd (try_reserve t k tr res m)) = config m"
    "evicting (snd (try_reserve t k tr res m)) = evicting m" by simp_all
qed

lemma release_frame:
  "pinned (snd (release t m)) = pinned m" "config (snd (release t m)) = config m"
  by (simp_all add: release_def Let_def case_prod_unfold split: option.split)

lemma card_insert_le_Suc: "card (insert x A) \<le> Suc (card A)"
  by (cases "finite A") (simp_all add: card_insert_if)

lemma set_pinned_pins: "rm_ok m \<Longrightarrow> pins_ok ks m \<Longrightarrow> pins_ok ks (snd (set_pinned k p m))"
proof -
  assume ok: "rm_ok m" and pins: "pins_ok ks m"
  have fin: "finite (pinned m)" using ok by (simp add: rm_ok_def)
  show "pins_ok ks (snd (set_pinned k p m))"
  proof (cases "p \<and> k \<notin> pinned m")
    case True
    with pins fin show ?thesis
      by (auto simp: set_pinned_def assert_can_pin_def pins_ok_def)
  next
    case False
    have "card (pinned m - {k}) \<le> card (pinned m)" using fin by (intro card_mono) auto
    with False pins show ?thesis
      by (auto simp: set_pinned_def assert_can_pin_def pins_ok_def insert_absorb)
  qed
qed

lemma rm_call_ok:
  assumes "rm_call m m'" and "rm_ok m" and "pins_ok ks m"
  shows "rm_ok m' \<and> pins_ok ks m'"
  using assms
proof (induction rule: rm_call.induct)
  case (rm_report m)
  then show ?case
    by (simp add: resource_snapshot_def Let_def case_prod_unfold rm_ok_def pins_ok_def reserved_bytes_def)
next
  case (rm_sample m conditions)
  then show ?case by (simp add: read_memory_def rm_ok_def pins_ok_def reserved_bytes_def)
next
  case (rm_evict_begin m k)
  then show ?case using evict_begin_ok [of m k] by (auto simp: evict_begin_def pins_ok_def)
next
  case (rm_pin m k p)
  then show ?case by (simp add: set_pinned_ok set_pinned_pins)
next
  case (rm_mark m k)
  then have "pins_ok ks (mark_started k m)"
    by (simp add: pins_ok_def mark_started_def Let_def case_prod_unfold)
  with rm_mark show ?case by (simp add: mark_started_ok)
next
  case (rm_evict_end m k)
  then have "pins_ok ks (evict_end k m)" by (simp add: pins_ok_def evict_end_def)
  with rm_evict_end show ?case by (simp add: evict_end_ok)
qed (simp_all add: try_reserve_ok release_ok pins_ok_def try_reserve_frame release_frame)

lemma rm_reachable_ok: "rm_reachable ks m \<Longrightarrow> rm_ok m \<and> pins_ok ks m"
proof (induction rule: rm_reachable.induct)
  case (rm_start c smp clk)
  then show ?case
    using restored_ok [OF init_resources_ok [OF rm_start]] by (simp add: pins_ok_def restored init_resources_def)
next
  case (rm_step m m')
  then show ?case using rm_call_ok by blast
qed

subsection \<open>Properties\<close>

text \<open>
  C15. In every state the resource manager reaches, from a start-up that restored the pins of the
  workers \<open>ks\<close>, reservations are positive and filed under their own ticket, the bytes reserved
  never exceed the recorded peak, no worker being evicted has a reservation or is pinned, and at
  most \<open>max_pinned_workers\<close> workers are pinned, or as many as were restored if these were more.
\<close>

theorem resource_manager_invariant:
  assumes "rm_reachable ks m"
  shows "(\<forall>t r. dict_get (reservations m) t = Some r \<longrightarrow>
           rv_ticket_id r = t \<and> 0 < rv_total r \<and> rv_service_key r \<notin> evicting m) \<and>
         0 \<le> reserved_bytes m \<and> reserved_bytes m \<le> peak_reserved_bytes m \<and>
         pinned m \<inter> evicting m = {} \<and>
         int (card (pinned m)) \<le> max (max_pinned_workers (config m)) (int (card (set ks)))"
proof -
  have ok: "rm_ok m" "pins_ok ks m" using rm_reachable_ok [OF assms] by simp_all
  have pos: "0 < rv_total r" if "dict_get (reservations m) t = Some r" for t r
  proof -
    have "0 < rv_transient_bytes r" "0 \<le> rv_resident_bytes r" using that ok(1) by (auto simp: rm_ok_def)
    then show ?thesis by (simp add: rv_total_def)
  qed
  have "0 \<le> rv_total r" if "r \<in> set (dict_values (reservations m))" for r
  proof -
    from that obtain t where "(t, r) \<in> set (reservations m)" by auto
    then have "dict_get (reservations m) t = Some r" using ok(1) by (simp add: rm_ok_def)
    then show ?thesis using pos by (simp add: less_imp_le)
  qed
  then have "0 \<le> reserved_bytes m" unfolding reserved_bytes_def by (intro sum_list_nonneg) auto
  with ok pos show ?thesis by (auto simp: rm_ok_def pins_ok_def)
qed

definition sample_memory :: "nat \<Rightarrow> system_memory" where
  "sample_memory n = \<lparr>total_bytes = 32 * GIB, available_bytes = 24 * GIB, used_bytes = 8 * GIB,
     pressure_level = ''ok''\<rparr>"

definition sample_manager :: resource_manager where
  "sample_manager = init_resources default_config sample_memory of_nat"

lemma default_config_valid: "check_config default_config = Inr ()"
  by (simp add: check_config_def default_config_def GIB_def MIB_def)

lemma sample_manager_reachable: "rm_reachable [] sample_manager"
  using rm_start [OF default_config_valid, of "[]" sample_memory of_nat] by (simp add: sample_manager_def)

text \<open>Three workers restored under a limit of two: a fourth is refused, the three stay.\<close>

definition restored_manager :: resource_manager where
  "restored_manager = fold restore_pinned [''a'', ''b'', ''c''] sample_manager"

lemma restored_manager_reachable: "rm_reachable [''a'', ''b'', ''c''] restored_manager"
  unfolding restored_manager_def sample_manager_def by (rule rm_start) (rule default_config_valid)

theorem resource_manager_invariant_witness:
  "(let m = snd (try_reserve ''t'' ''w'' (Some GIB) None sample_manager)
    in 0 \<le> reserved_bytes m \<and> reserved_bytes m \<le> peak_reserved_bytes m) \<and>
   int (card (pinned (snd (set_pinned ''d'' True restored_manager)))) \<le> 3"
proof -
  have "config (snd (set_pinned ''d'' True restored_manager)) = default_config"
    by (simp add: set_pinned_def restored_manager_def restore_pinned_def sample_manager_def init_resources_def
        split: option.split)
  moreover have "card (set [''a'', ''b'', ''c'']) = 3" by simp
  ultimately have "int (card (pinned (snd (set_pinned ''d'' True restored_manager)))) \<le> 3"
    using resource_manager_invariant [OF rm_step [OF restored_manager_reachable rm_pin], of "''d''" True]
    by (simp add: default_config_def)
  then show ?thesis
    using resource_manager_invariant [OF rm_step [OF sample_manager_reachable rm_reserve], of "''t''" "''w''"]
    by (simp add: Let_def)
qed

text \<open>
  C16. A new ticket is admitted only within the limits: with the memory sample \<open>mem\<close> taken for
  it, what is used plus everything reserved, the new request included, stays under both
  watermarks, and the memory available covers all reservations plus the safety margin. The
  new reservation is booked for at least one byte.
\<close>

theorem admission_within_limits:
  assumes "rm_reachable ks m" and "dict_get (reservations m) t = None"
    and "try_reserve t k tr res m = (Some r, m')"
  defines "mem \<equiv> sampler m (samples m)"
  shows "used_bytes mem + reserved_bytes m' \<le> soft_ceiling (config m) mem \<and>
    used_bytes mem + reserved_bytes m' \<le> hard_ceiling (config m) mem \<and>
    reserved_bytes m' + safety_margin (config m) mem \<le> available_bytes mem \<and>
    reserved_bytes m' = reserved_bytes m + rv_total r \<and> 0 < rv_total r \<and>
    dict_get (reservations m') t = Some r \<and> k \<notin> evicting m"
  using assms(3)
proof (cases rule: try_reserve_cases)
  case (granted s)
  then have rs: "s = r" by simp
  have "rm_ok m" using rm_reachable_ok [OF assms(1)] by simp
  then have "1 \<le> unknown_request_bytes (config m)"
    by (auto simp: rm_ok_def intro: check_config_facts)
  then have "0 < rv_total r"
    using granted(8,9) positive_or_pos [of "unknown_request_bytes (config m)" tr] positive_or_nonneg [of res]
    by (simp add: rs rv_total_def)
  moreover have "reserved_bytes m' = reserved_bytes m + rv_total r"
    unfolding granted(4) rs using granted(1,5) rs
    by (subst reserved_bytes_book) (simp_all add: reserved_bytes_def)
  ultimately show ?thesis using granted(2,4,5,7,10-12) rs by (simp add: mem_def)
qed (use assms(2) in auto)

theorem admission_within_limits_witness:
  "(\<exists>r m'. try_reserve ''t'' ''w'' (Some GIB) None sample_manager = (Some r, m') \<and>
      reserved_bytes m' + safety_margin default_config (sample_memory 0) \<le> 24 * GIB)"
proof -
  have "fst (try_reserve ''t'' ''w'' (Some GIB) None sample_manager) \<noteq> None" by code_simp
  then obtain r m' where r: "try_reserve ''t'' ''w'' (Some GIB) None sample_manager = (Some r, m')"
    by (metis option.exhaust prod.collapse)
  have "dict_get (reservations sample_manager) ''t'' = None"
    by (simp add: sample_manager_def init_resources_def)
  from admission_within_limits [OF sample_manager_reachable this r] r show ?thesis
    by (auto simp: sample_manager_def init_resources_def sample_memory_def)
qed

text \<open>
  A refusal changes no reservation: a known ticket gets its own reservation again and
  nothing changes; a refused ticket leaves the reservations, the pins and the peak as they
  were and counts one rejection.
\<close>

theorem refusal_changes_nothing:
  "(case dict_get (reservations m) t of
      Some r \<Rightarrow> try_reserve t k tr res m = (Some r, m)
    | None \<Rightarrow>
        (case try_reserve t k tr res m of
           (None, m') \<Rightarrow> reservations m' = reservations m \<and> rejected m' = rejected m + 1 \<and>
             admitted m' = admitted m \<and> peak_reserved_bytes m' = peak_reserved_bytes m \<and>
             last_used m' = last_used m \<and> pinned m' = pinned m \<and> evicting m' = evicting m
         | (Some r, m') \<Rightarrow> admitted m' = admitted m + 1 \<and> rejected m' = rejected m))"
proof (cases "dict_get (reservations m) t")
  case None
  obtain out m' where e: "try_reserve t k tr res m = (out, m')" by force
  then show ?thesis
    by (cases rule: try_reserve_cases) (auto simp: None e book_def Let_def)
qed (simp add: try_reserve_def)

text \<open>
  Reserving for a new ticket and releasing it restores the reservations and the number of
  bytes reserved, whether or not the request was admitted; releasing it again does nothing.
\<close>

theorem reserve_release_roundtrip:
  fixes k :: string and tr res :: "int option"
  assumes "rm_reachable ks m" and "dict_get (reservations m) t = None"
  defines "m' \<equiv> snd (release t (snd (try_reserve t k tr res m)))"
  shows "reservations m' = reservations m \<and> reserved_bytes m' = reserved_bytes m \<and>
    release t m' = (False, m')"
proof -
  obtain out m1 where e: "try_reserve t k tr res m = (out, m1)" by force
  have "reservations m' = reservations m"
    using e
  proof (cases rule: try_reserve_cases)
    case (granted r)
    then have "dict_get (reservations m1) t = Some r" by simp
    moreover have "reservations m1 = reservations m @ [(t, r)]"
      using granted assms(2) by (simp add: dict_set_absent)
    moreover have "dict_del t (reservations m @ [(t, r)]) = reservations m"
      using assms(2) dict_del_absent [OF assms(2)] by (simp add: AList.delete_eq)
    ultimately show ?thesis
      by (simp add: m'_def e release_def Let_def case_prod_unfold)
  qed (use assms(2) in \<open>simp_all add: m'_def e release_def\<close>)
  then show ?thesis using assms(2) by (simp add: reserved_bytes_def release_def)
qed

theorem reserve_release_roundtrip_witness:
  "reserved_bytes (snd (release ''t'' (snd (try_reserve ''t'' ''w'' (Some GIB) None sample_manager)))) = 0"
  using reserve_release_roundtrip [OF sample_manager_reachable, of "''t''" "''w''" "Some GIB" None]
  by (simp add: sample_manager_def init_resources_def reserved_bytes_def)

lemma sort_take_1:
  assumes "c \<in> set (take 1 (sort xs))"
  shows "length (take 1 (sort xs)) = 1" and "x \<in> set xs \<Longrightarrow> c \<le> x"
proof -
  obtain d ds where ds: "sort xs = d # ds" using assms by (cases "sort xs") auto
  then show "length (take 1 (sort xs)) = 1" by simp
  have "sorted (sort xs)" "set (sort xs) = set xs" by simp_all
  then have "sorted (d # ds)" "set (d # ds) = set xs" unfolding ds .
  then show "x \<in> set xs \<Longrightarrow> c \<le> x" using assms ds by auto
qed

text \<open>
  C17. The sweep offers for eviction only installed, active model workers that are ready, not
  pinned, not being evicted, without a reservation, past the minimum residency and idle for
  at least the threshold; under pressure it offers at most one, the least recently used.
\<close>

theorem sweep_offers_idle_workers_only:
  assumes "c \<in> set (sweep_candidates now under_pressure installed m)"
  shows "\<exists>p \<in> set installed.
      c = (last_use now m p, - (case pk_resident_memory p of None \<Rightarrow> 0 | Some b \<Rightarrow> b),
           pk_service_key p, pk_generation p) \<and>
      pk_active p \<and> pk_model_worker p \<and> pk_ready p \<and> pk_service_key p \<notin> pinned m \<and>
      pk_service_key p \<notin> evicting m \<and> active_for_worker (pk_service_key p) m = 0 \<and>
      (\<exists>a. pk_started_age p = Some a \<and> a \<ge> min_residency_seconds (config m)) \<and>
      max 0 (now - last_use now m p) \<ge> (if under_pressure then pressure_idle_grace_seconds (config m)
                                        else idle_timeout_seconds (config m)) \<and>
      (under_pressure \<longrightarrow> length (sweep_candidates now under_pressure installed m) = 1 \<and>
         (\<forall>q \<in> set installed. sweep_eligible now (pressure_idle_grace_seconds (config m)) m q \<longrightarrow>
            last_use now m p \<le> last_use now m q))"
proof -
  let ?th = "if under_pressure then pressure_idle_grace_seconds (config m) else idle_timeout_seconds (config m)"
  let ?f = "\<lambda>p. (last_use now m p, - (case pk_resident_memory p of None \<Rightarrow> 0 | Some b \<Rightarrow> b),
      pk_service_key p, pk_generation p)"
  let ?cs = "map ?f (filter (sweep_eligible now ?th m) installed)"
  have sw: "sweep_candidates now under_pressure installed m = (if under_pressure then take 1 (sort ?cs) else sort ?cs)"
    by (simp add: sweep_candidates_def Let_def)
  then have "c \<in> set ?cs" using assms by (auto split: if_splits dest: in_set_takeD)
  then obtain p where p: "p \<in> set installed" "sweep_eligible now ?th m p" "c = ?f p" by auto
  have low: "length (sweep_candidates now under_pressure installed m) = 1 \<and>
      (\<forall>q \<in> set installed. sweep_eligible now (pressure_idle_grace_seconds (config m)) m q \<longrightarrow>
         last_use now m p \<le> last_use now m q)" if under_pressure
  proof -
    have m: "c \<in> set (take 1 (sort ?cs))" using assms [unfolded sw] that by simp
    have "c \<le> x" if "x \<in> set ?cs" for x using sort_take_1(2) [OF m that] .
    then have "last_use now m p \<le> last_use now m q"
      if "q \<in> set installed" "sweep_eligible now (pressure_idle_grace_seconds (config m)) m q" for q
      using that p(3) \<open>under_pressure\<close> by (force simp: less_eq_prod_def)
    then show ?thesis using sort_take_1(1) [OF m] \<open>under_pressure\<close> unfolding sw by simp
  qed
  show ?thesis
    using p low by (intro bexI [of _ p]) (auto simp: sweep_eligible_def split: option.splits)
qed

definition sample_worker :: "string \<Rightarrow> rat \<Rightarrow> worker_package" where
  "sample_worker k age = \<lparr>pk_active = True, pk_model_worker = True, pk_service_key = k,
     pk_ready = True, pk_started_age = Some age, pk_resident_memory = Some GIB, pk_generation = 1\<rparr>"

theorem sweep_offers_idle_workers_only_witness:
  "sweep_candidates 1000 True [sample_worker ''a'' 400, sample_worker ''b'' 900] sample_manager =
     [(100, - GIB, ''b'', 1)] \<and> active_for_worker ''b'' sample_manager = 0"
proof -
  have s: "sweep_candidates 1000 True [sample_worker ''a'' 400, sample_worker ''b'' 900] sample_manager =
     [(100, - GIB, ''b'', 1)]" by code_simp
  then have "(100, - GIB, ''b'', 1) \<in>
      set (sweep_candidates 1000 True [sample_worker ''a'' 400, sample_worker ''b'' 900] sample_manager)"
    by simp
  from sweep_offers_idle_workers_only [OF this] s show ?thesis by auto
qed

lemma geometry_bytes_bounds:
  assumes "0 \<le> bpp"
  shows "0 \<le> geometry_bytes v bpp" and "geometry_bytes v bpp \<le> 16384 * 16384 * bpp"
proof -
  have "0 \<le> geometry_bytes v bpp \<and> geometry_bytes v bpp \<le> 16384 * 16384 * bpp"
  proof (cases v)
    case (PStr s)
    have "w * h * bpp \<le> 16384 * 16384 * bpp" if "w \<le> 16384" "h \<le> 16384" "1 \<le> w" "1 \<le> h" for w h :: int
      using that assms by (intro mult_right_mono mult_mono) auto
    with PStr assms show ?thesis by (auto simp: Let_def split: option.split)
  qed (use assms in simp_all)
  then show "0 \<le> geometry_bytes v bpp" and "geometry_bytes v bpp \<le> 16384 * 16384 * bpp" by simp_all
qed

lemma video_upscaling_min: "12 * GIB \<le> video_upscaling_transient_bytes payload"
proof -
  have "0 \<le> GIB" by (simp add: GIB_def)
  then show ?thesis
    by (auto simp: video_upscaling_transient_bytes_def Let_def split: option.split)
qed

lemma if_geI: "(b \<Longrightarrow> c \<le> x) \<Longrightarrow> (\<not> b \<Longrightarrow> c \<le> y) \<Longrightarrow> (c :: int) \<le> (if b then x else y)"
  by simp

lemma if_monoI:
  "(b \<Longrightarrow> x \<le> x') \<Longrightarrow> (\<not> b \<Longrightarrow> y \<le> y') \<Longrightarrow> (if b then x else y :: int) \<le> (if b then x' else y')"
  by simp

lemma max_geI: "(c :: int) \<le> a \<Longrightarrow> c \<le> max a b"
  by simp

text \<open>
  Every estimate asks for at least 256 MiB, whatever the operation and the payload, and
  never less for a larger upload; for a chat request without an upload it is at most 32 GiB.
\<close>

theorem estimate_bounds:
  "256 * MIB \<le> estimate_request_transient_bytes str_len operation payload n \<and>
   estimate_request_transient_bytes str_len operation payload n \<le>
     estimate_request_transient_bytes str_len operation payload (n + int k) \<and>
   estimate_request_transient_bytes str_len ''chat_completions'' payload 0 \<le> 32 * GIB"
proof (intro conjI)
  have m: "256 * MIB \<le> 512 * MIB" "256 * MIB \<le> 1536 * MIB" "512 * MIB \<le> 1536 * MIB"
    "256 * MIB \<le> 3 * GIB" "256 * MIB \<le> 4 * GIB" "256 * MIB \<le> 6 * GIB" "256 * MIB \<le> 8 * GIB"
    "256 * MIB \<le> 12 * GIB"
    by (simp_all add: MIB_def GIB_def)
  have v: "256 * MIB \<le> video_upscaling_transient_bytes payload"
    using m video_upscaling_min [of payload] by linarith
  have z: "256 * MIB \<le> 256 * MIB" by simp
  show "256 * MIB \<le> estimate_request_transient_bytes str_len operation payload n"
    unfolding estimate_request_transient_bytes_def Let_def
    by (intro if_geI max_geI m v z)
  have s: "max 0 n * c \<le> max 0 (n + int k) * c" if "0 \<le> c" for c
    using that by (intro mult_right_mono) auto
  show "estimate_request_transient_bytes str_len operation payload n \<le>
     estimate_request_transient_bytes str_len operation payload (n + int k)"
    unfolding estimate_request_transient_bytes_def Let_def
    by (intro if_monoI max.mono add_left_mono order.refl s; simp)
  show "estimate_request_transient_bytes str_len ''chat_completions'' payload 0 \<le> 32 * GIB"
    by (simp add: estimate_request_transient_bytes_def Let_def MIB_def GIB_def)
qed

subsection \<open>Reading a picture size\<close>

lemma digit_value_digit: "d < 10 \<Longrightarrow> digit_value (digit d) = Some (int d)"
  by (simp add: digit_value_def of_char_digit Let_def)

lemma read_digits_show_nat:
  "read_digits acc b (show_nat n @ cs) = read_digits (acc * 10 ^ length (show_nat n) + int n) True cs"
proof (induction n arbitrary: acc b cs rule: show_nat.induct)
  case (1 n)
  show ?case
  proof (cases "n < 10")
    case True
    then show ?thesis by (subst (1 2) show_nat.simps) (simp add: digit_value_digit algebra_simps)
  next
    case False
    let ?L = "length (show_nat (n div 10))"
    have s: "show_nat n = show_nat (n div 10) @ [digit (n mod 10)]"
      using False by (subst show_nat.simps) simp
    have "10 * (acc * 10 ^ length (show_nat (n div 10)) + int (n div 10)) + int (n mod 10) =
        acc * 10 ^ Suc (length (show_nat (n div 10))) + int n"
    proof -
      have "int n = 10 * int (n div 10) + int (n mod 10)"
        by (metis mult_div_mod_eq of_nat_add of_nat_mult of_nat_numeral)
      then show ?thesis by (simp add: algebra_simps)
    qed
    moreover have "read_digits acc b (show_nat n @ cs) =
        read_digits (10 * (acc * 10 ^ ?L + int (n div 10)) + int (n mod 10)) True cs"
      using 1 False unfolding s by (simp add: digit_value_digit)
    moreover have "length (show_nat n) = Suc ?L" unfolding s by simp
    ultimately show ?thesis by metis
  qed
qed

lemma show_nat_digit: "c \<in> set (show_nat n) \<Longrightarrow> \<exists>d < 10. c = digit d"
proof (induction n rule: show_nat.induct)
  case (1 n)
  have "\<exists>d < 10. digit (n mod 10) = digit d" by (rule exI [of _ "n mod 10"]) simp
  with 1 show ?case by (subst (asm) (2) show_nat.simps) (auto split: if_splits)
qed

lemma show_nat_chars:
  assumes "c \<in> set (show_nat n)"
  shows "\<not> is_space c" and "lower_char c = c" and "c \<noteq> CHR ''x''" and "c \<noteq> CHR ''-''" and "c \<noteq> CHR ''+''"
proof -
  obtain d where d: "d < 10" "c = digit d" using show_nat_digit [OF assms] by blast
  then have n: "of_char c = (48 + d :: nat)" by (simp add: of_char_digit)
  then show "\<not> is_space c" "lower_char c = c" using d(1) by (simp_all add: is_space_def lower_char_def Let_def)
  show "c \<noteq> CHR ''x''" "c \<noteq> CHR ''-''" "c \<noteq> CHR ''+''" using n d(1) by auto
qed

lemma strip_no_space: "(\<And>c. c \<in> set s \<Longrightarrow> \<not> is_space c) \<Longrightarrow> strip s = s"
  by (simp add: strip_def dropWhile_eq_self_iff)
    (metis dropWhile_eq_self_iff hd_in_set rev_rev_ident set_rev)

lemma py_int_show_nat: "py_int (show_nat n) = Some (int n)"
proof -
  have "strip (show_nat n) = show_nat n" using show_nat_chars(1) by (rule strip_no_space)
  moreover have "read_digits 0 False (show_nat n) = Some (int n)"
    using read_digits_show_nat [of 0 False n "[]"] by simp
  moreover obtain c cs where c: "show_nat n = c # cs" using show_nat_nonempty [of n] by (cases "show_nat n") auto
  ultimately show ?thesis
    using show_nat_chars(4,5) [of c n] by (simp add: py_int_def)
qed

text \<open>
  A size written as \<^verbatim>\<open>WxH\<close> (in either case) with both sides between 1 and 16384 is read
  as \<open>W * H\<close> pixels; a larger side counts as no geometry at all.
\<close>

theorem geometry_bytes_reads_size:
  assumes "1 \<le> w" and "1 \<le> h" and "x \<in> {CHR ''x'', CHR ''X''}"
  shows "geometry_bytes (PStr (show_nat w @ x # show_nat h)) bpp =
    (if w \<le> 16384 \<and> h \<le> 16384 then int w * int h * bpp else 0)"
proof -
  let ?v = "show_nat w @ CHR ''x'' # show_nat h"
  have "map lower_char (show_nat n) = show_nat n" for n
    using show_nat_chars(2) by (induction "show_nat n" arbitrary: n) (simp_all add: map_idI)
  moreover have lower: "lower_char CHR ''X'' = CHR ''x''" "lower_char CHR ''x'' = CHR ''x''" by code_simp+
  ultimately have v: "map lower_char (show_nat w @ x # show_nat h) = ?v"
    using assms(3) by auto
  have "CHR ''x'' \<notin> set (show_nat w)" using show_nat_chars(3) by blast
  then have "split_x ?v = (show_nat w, show_nat h)"
    by (auto simp: split_x_def takeWhile_append dropWhile_append)
  then show ?thesis
    using assms(1,2) unfolding geometry_bytes.simps Let_def v by (simp add: py_int_show_nat)
qed

theorem geometry_bytes_reads_size_witness:
  "geometry_bytes (PStr (show_nat 640 @ CHR ''X'' # show_nat 480)) 32 = 9830400"
  using geometry_bytes_reads_size [of 640 480 "CHR ''X''" 32] by simp

end
