(* ===== verification/SchedulerProperties.thy ===== *)
theory SchedulerProperties
  imports SchedulerSafety ResourceProperties
begin

section \<open>What the scheduler promises\<close>

text \<open>
  The properties of \<^verbatim>\<open>src/ai2apps/worker_scheduler.py\<close>: limits and accounting in every reachable
  state, which ticket a dispatch starts and when it stops, aging, background gating, admission
  to the queue, exactly-once release, cancellation and shutdown.
\<close>

definition sample_scheduler :: scheduler where
  "sample_scheduler = \<lparr>max_heavy_compute_slots = 1, default_worker_slots = 1, max_queue_depth = 4,
     aging_interval_seconds = 30, max_active_per_actor = 1, max_queued_per_actor = 2,
     max_queued_per_app = 2, sch_clock = of_nat, sch_ticks = 0, resources = Some sample_manager,
     queued = [], active = [], waiters = [], resolved = [], finished = [], worker_slots = [],
     last_sequence = 0, closed = False, n_completed = 0, n_failed = 0, n_cancelled = 0,
     n_expired = 0, actor_dispatches = [], background_gates = {}\<rparr>"

definition plain_scheduler :: scheduler where
  "plain_scheduler = sample_scheduler\<lparr>resources := None\<rparr>"

definition sample_job :: "string \<Rightarrow> string \<Rightarrow> string \<Rightarrow> job" where
  "sample_job i cls a = \<lparr>jb_service_key = ''llm'', jb_class = cls, jb_ticket_id = i, jb_request_id = i,
     jb_timeout = Some 60, jb_duration_ms = None, jb_resident_bytes = None, jb_transient_bytes = None,
     jb_actor_id = Some a, jb_app_id = None, jb_session_id = None\<rparr>"

lemma sample_scheduler_reachable: "sched_reachable sample_scheduler"
  by (rule sched_start [of 1 1 4 30 1 2 2 of_nat "Some sample_manager"])
    (use default_config_valid in \<open>auto simp: init_scheduler_def sample_scheduler_def sample_manager_def\<close>)

lemma plain_scheduler_reachable: "sched_reachable plain_scheduler"
  by (rule sched_start [of 1 1 4 30 1 2 2 of_nat None])
    (simp_all add: init_scheduler_def plain_scheduler_def sample_scheduler_def)

text \<open>Two jobs of two actors were accepted: the first one runs, the second one waits.\<close>

definition busy_scheduler :: scheduler where
  "busy_scheduler = snd (acquire (sample_job ''b'' ''local_background'' ''u2'')
     (snd (acquire (sample_job ''a'' ''local_interactive'' ''u1'') plain_scheduler)))"

lemma busy_scheduler_state:
  "map fst (queued busy_scheduler) = [''b'']" "map fst (active busy_scheduler) = [''a'']"
  "resources busy_scheduler = None" "closed busy_scheduler = False"
  by code_simp+

lemma first_acquired:
  "queued (snd (acquire (sample_job ''a'' ''local_interactive'' ''u1'') plain_scheduler)) = []"
  "map fst (active (snd (acquire (sample_job ''a'' ''local_interactive'' ''u1'') plain_scheduler))) = [''a'']"
  by code_simp+

lemma busy_scheduler_reachable: "sched_reachable busy_scheduler"
proof -
  have i: "jb_ticket_id (sample_job i c a) = i" for i c a by (simp add: sample_job_def)
  have p: "queued plain_scheduler = []" "active plain_scheduler = []"
    by (simp_all add: plain_scheduler_def sample_scheduler_def)
  let ?s = "snd (acquire (sample_job ''a'' ''local_interactive'' ''u1'') plain_scheduler)"
  have "sched_reachable ?s"
    by (rule sched_step [OF plain_scheduler_reachable call_acquire]) (simp_all add: p)
  then show ?thesis
    unfolding busy_scheduler_def
  proof (rule sched_step [OF _ call_acquire])
    show "dict_get (active ?s) (jb_ticket_id (sample_job ''b'' ''local_background'' ''u2'')) = None"
      unfolding dict_get_None_iff i set_map [symmetric] first_acquired(2) by simp
  qed (simp add: first_acquired(1))
qed

subsection \<open>The effect of a dispatch\<close>

lemma expire_locked_frame:
  "active (expire_locked now s) = active s \<and> resources (expire_locked now s) = resources s \<and>
   last_sequence (expire_locked now s) = last_sequence s"
  unfolding expire_locked_def
  by (rule fold_keeps) (auto simp: expire_one_def Let_def retire_def split: option.split)

text \<open>Where every ticket is after a dispatch that reads the time \<open>now\<close>.\<close>

definition dispatch_effect :: "rat \<Rightarrow> scheduler \<Rightarrow> scheduler \<Rightarrow> bool" where
  "dispatch_effect now s s' \<longleftrightarrow>
     (\<forall>k t. dict_get (queued s') k = Some t \<longrightarrow> dict_get (queued s) k = Some t \<and> \<not> overdue now t) \<and>
     (\<forall>k t. dict_get (active s) k = Some t \<longrightarrow> dict_get (active s') k = Some t) \<and>
     (\<forall>k t. dict_get (active s') k = Some t \<longrightarrow> dict_get (active s) k = Some t \<or>
        (\<exists>c. dict_get (queued s) k = Some c \<and> t = started now c)) \<and>
     (\<forall>k t. dict_get (queued s) k = Some t \<and> \<not> overdue now t \<longrightarrow>
        dict_get (queued s') k = Some t \<or> dict_get (active s') k = Some (started now t)) \<and>
     (resources s' = None \<longleftrightarrow> resources s = None) \<and> last_sequence s' = last_sequence s"

lemma dispatch_runs:
  assumes ok: "sched_ok s"
  obtains s' where "dispatch_locked s = (Inr (), s')" "sched_ok s'"
    "dispatch_effect (sch_clock s (sch_ticks s)) s s'"
    "\<not> int (length (active s')) < max_heavy_compute_slots s' \<or> resources s' \<noteq> None \<or>
       filter (runnable s') (dict_values (queued s')) = []"
proof -
  let ?now = "sch_clock s (sch_ticks s)" and ?s = "s\<lparr>sch_ticks := Suc (sch_ticks s)\<rparr>"
  let ?x = "expire_locked ?now ?s"
  obtain s' where s': "dispatch_locked s = (Inr (), s')" "sched_ok s'" "dispatched ?now ?x s'"
      "int (length (active s')) < max_heavy_compute_slots s' \<and> resources s' = None \<longrightarrow>
         filter (runnable s') (dict_values (queued s')) = []"
    using dispatch_locked_spec [OF ok] by blast
  note f = expire_locked_frame [of ?now ?s]
  have dq: "dict_ok (queued s)" and dq': "dict_ok (queued s')" using sched_okD(7) ok s'(2) by blast+
  have x: "queued ?x = filter (\<lambda>p. \<not> overdue ?now (snd p)) (queued s)"
    using expire_locked_queued [of ?s ?now] dq by simp
  have dx: "dict_ok (queued ?x)" unfolding x using dq by (rule distinct_map_filter)
  have qx: "dict_get (queued ?x) k = Some t \<longleftrightarrow> dict_get (queued s) k = Some t \<and> \<not> overdue ?now t" for k t
    using dq dx by (auto simp: x)
  have act: "dict_get (active s') k = (case dict_get (active s) k of Some t \<Rightarrow> Some t
      | None \<Rightarrow> if dict_get (queued s') k = None then map_option (started ?now) (dict_get (queued ?x) k) else None)" for k
    using s'(3) f by (simp add: dispatched_def)
  have q: "dict_get (queued s') k = Some t \<Longrightarrow> dict_get (queued ?x) k = Some t" for k t
  proof -
    assume "dict_get (queued s') k = Some t"
    then have "(k, t) \<in> set (queued ?x)" using s'(3) map_of_SomeD by (fastforce simp: dispatched_def)
    then show "dict_get (queued ?x) k = Some t" using dx by simp
  qed
  have disj: "dict_get (queued s) k = Some t \<Longrightarrow> dict_get (active s) k = None" for k t
    using queued_ticket(2) [OF sched_okD(1) [OF ok]] sched_okD(1) [OF ok] map_of_SomeD [of "queued s" k t]
    by (force simp: tickets_ok_def)
  have stay: "dict_get (queued s') k = Some t \<or> dict_get (active s') k = Some (started ?now t)"
    if "dict_get (queued s) k = Some t" "\<not> overdue ?now t" for k t
  proof (cases "dict_get (queued s') k")
    case None
    with act [of k] disj [OF that(1)] qx [of k t] that show ?thesis by simp
  next
    case (Some c)
    with q [OF Some] qx [of k t] that show ?thesis by simp
  qed
  have "dispatch_effect ?now s s'"
    unfolding dispatch_effect_def
  proof (intro conjI allI impI)
    fix k t assume t: "dict_get (active s') k = Some t"
    show "dict_get (active s) k = Some t \<or> (\<exists>c. dict_get (queued s) k = Some c \<and> t = started ?now c)"
    proof (cases "dict_get (active s) k")
      case None
      then obtain c where "dict_get (queued ?x) k = Some c" "t = started ?now c"
        using t act [of k] by (auto split: if_splits)
      then show ?thesis using qx by blast
    qed (use t act [of k] in simp)
  next
    fix k t assume "dict_get (queued s) k = Some t \<and> \<not> overdue ?now t"
    then show "dict_get (queued s') k = Some t \<or> dict_get (active s') k = Some (started ?now t)"
      using stay by blast
  qed (use q qx act s'(3) f in \<open>simp_all add: dispatched_def\<close>)
  with s' show thesis using that by blast
qed

lemma dispatch_effectD:
  assumes "dispatch_effect now s s'"
  shows "dict_get (queued s') k = Some t \<Longrightarrow> dict_get (queued s) k = Some t \<and> \<not> overdue now t"
    and "dict_get (active s) k = Some t \<Longrightarrow> dict_get (active s') k = Some t"
    and "dict_get (active s') k = Some t \<Longrightarrow> dict_get (active s) k = Some t \<or>
        (\<exists>c. dict_get (queued s) k = Some c \<and> t = started now c)"
    and "dict_get (queued s) k = Some t \<Longrightarrow> \<not> overdue now t \<Longrightarrow>
        dict_get (queued s') k = Some t \<or> dict_get (active s') k = Some (started now t)"
    and "resources s' = None \<longleftrightarrow> resources s = None" and "last_sequence s' = last_sequence s"
  using assms unfolding dispatch_effect_def by blast+

lemma dispatch_effect_gone:
  assumes "dispatch_effect now s s'" and "dict_get (queued s) k = None" and "dict_get (active s) k = None"
  shows "dict_get (queued s') k = None" and "dict_get (active s') k = None"
proof -
  show "dict_get (queued s') k = None"
    using dispatch_effectD(1) [OF assms(1), of k] assms(2) by (cases "dict_get (queued s') k") simp_all
  show "dict_get (active s') k = None"
    using dispatch_effectD(3) [OF assms(1), of k] assms(2,3) by (cases "dict_get (active s') k") simp_all
qed

subsection \<open>Properties\<close>

text \<open>
  C7. In every reachable state the heavy slots, the slots of each worker, the running and queued
  tickets of each actor, the queued tickets of each app and the depth of the queue are within
  their limits; no ticket is both queued and running; a future waits for exactly each queued
  ticket; the resource manager has a reservation for exactly each running ticket; and every
  ticket ever accepted is queued, running or counted once as finished.
\<close>

theorem scheduler_invariant:
  assumes "sched_reachable s"
  shows "int (length (active s)) \<le> max_heavy_compute_slots s \<and>
    (\<forall>k. worker_running k s \<le> worker_limit k s) \<and>
    (\<forall>a. actor_running a s \<le> max_active_per_actor s) \<and>
    (\<forall>a. count_queued (\<lambda>t. tk_actor_id t = Some a) s \<le> max_queued_per_actor s) \<and>
    (\<forall>p. count_queued (\<lambda>t. tk_app_id t = Some p) s \<le> max_queued_per_app s) \<and>
    int (length (queued s)) \<le> max_queue_depth s \<and>
    dom (map_of (queued s)) \<inter> dom (map_of (active s)) = {} \<and>
    dom (map_of (waiters s)) = dom (map_of (queued s)) \<and>
    (case resources s of None \<Rightarrow> True | Some m \<Rightarrow> held m = dom (map_of (active s))) \<and>
    last_sequence s = int (length (queued s)) + int (length (active s)) +
      (n_completed s + n_failed s + n_cancelled s + n_expired s)"
proof -
  note ok = reachable_ok [OF assms]
  have "case resources s of None \<Rightarrow> True | Some m \<Rightarrow> held m = dom (map_of (active s))"
    using sched_okD(4) [OF ok] by (simp add: resources_ok_def split: option.splits)
  moreover have "dom (map_of (queued s)) \<inter> dom (map_of (active s)) = {}"
    using sched_okD(1) [OF ok] unfolding tickets_ok_def by blast
  ultimately show ?thesis
    using sched_okD(2,5,6) [OF ok] by (simp add: limits_ok_def waiters_ok_def accounted_def n_finished_def)
qed

theorem scheduler_invariant_witness:
  "(let s = snd (acquire (sample_job ''a'' ''local_interactive'' ''u1'') sample_scheduler)
    in worker_running ''llm'' s \<le> worker_limit ''llm'' s \<and> int (length (active s)) \<le> max_heavy_compute_slots s)"
proof -
  have "sched_reachable (snd (acquire (sample_job ''a'' ''local_interactive'' ''u1'') sample_scheduler))"
    by (rule sched_step [OF sample_scheduler_reachable call_acquire]) (simp_all add: sample_scheduler_def)
  from scheduler_invariant [OF this] show ?thesis by (simp add: Let_def)
qed

text \<open>
  C8. A dispatch always returns. Afterwards no ticket is queued whose deadline had passed when it
  began, what was running still runs, and, without a resource manager, either all heavy slots
  are used or no queued ticket may run.
\<close>

theorem dispatch_work_conserving:
  assumes "sched_reachable s"
  shows "\<exists>s'. dispatch_locked s = (Inr (), s') \<and>
    (\<forall>k t. dict_get (queued s') k = Some t \<longrightarrow>
       dict_get (queued s) k = Some t \<and> \<not> overdue (sch_clock s (sch_ticks s)) t) \<and>
    (\<forall>k t. dict_get (active s) k = Some t \<longrightarrow> dict_get (active s') k = Some t) \<and>
    (resources s = None \<longrightarrow> int (length (active s')) \<ge> max_heavy_compute_slots s' \<or>
       (\<forall>k t. dict_get (queued s') k = Some t \<longrightarrow> \<not> runnable s' t))"
proof (rule dispatch_runs [OF reachable_ok [OF assms]])
  fix s'
  assume s': "dispatch_locked s = (Inr (), s')" "dispatch_effect (sch_clock s (sch_ticks s)) s s'"
    "\<not> int (length (active s')) < max_heavy_compute_slots s' \<or> resources s' \<noteq> None \<or>
       filter (runnable s') (dict_values (queued s')) = []"
  have "int (length (active s')) \<ge> max_heavy_compute_slots s' \<or>
      (\<forall>k t. dict_get (queued s') k = Some t \<longrightarrow> \<not> runnable s' t)" if "resources s = None"
  proof (cases "int (length (active s')) < max_heavy_compute_slots s'")
    case True
    then have none: "filter (runnable s') (dict_values (queued s')) = []"
      using s'(3) dispatch_effectD(5) [OF s'(2)] that by simp
    have "\<not> runnable s' t" if "dict_get (queued s') k = Some t" for k t
      using none map_of_SomeD [OF that] by (force simp: filter_empty_conv)
    then show ?thesis by blast
  qed simp
  with s'(1) dispatch_effectD(1,2) [OF s'(2)] show ?thesis
    by (intro exI [of _ s'] conjI allI impI) blast+
qed

theorem dispatch_work_conserving_witness:
  "\<exists>s'. dispatch_locked busy_scheduler = (Inr (), s') \<and> (\<exists>t. dict_get (active s') ''a'' = Some t)"
proof -
  have "''a'' \<in> dom (map_of (active busy_scheduler))"
    using busy_scheduler_state(2) by (metis dom_map_of_conv_image_fst list.set_intros(1) set_map)
  with dispatch_work_conserving [OF busy_scheduler_reachable] show ?thesis by (auto simp: dom_def)
qed

text \<open>
  C9. In the middle of an operation, when the invariant holds, and without a resource manager, a round of the dispatch loop starts a ticket that may run, and
  no other ticket that may run comes before it: by effective rank, then deadline, then how often
  its actor was served, then arrival. The ticket leaves the queue and is running afterwards.
\<close>

theorem dispatch_starts_most_urgent:
  assumes ok: "sched_ok s" and "resources s = None" and "dispatch_one now s = (Inr True, s')"
  shows "\<exists>t. dict_get (queued s) (tk_id t) = Some t \<and> runnable s t \<and>
    (\<forall>k q. dict_get (queued s) k = Some q \<and> runnable s q \<longrightarrow> priority s now t \<le> priority s now q) \<and>
    queued s' = dict_del (tk_id t) (queued s) \<and>
    dict_get (active s') (tk_id t) = Some (t\<lparr>tk_status := TRunning, tk_started_at := Some now\<rparr>)"
proof -
  let ?cs = "sort_key (priority s now) (filter (runnable s) (dict_values (queued s)))"
  obtain t ts where cs: "?cs = t # ts"
    using assms(2,3) by (cases ?cs) (simp_all add: dispatch_one_def pick_candidate_def)
  have "set ?cs = set (filter (runnable s) (dict_values (queued s)))" by simp
  then have all: "set (t # ts) = set (filter (runnable s) (dict_values (queued s)))" unfolding cs .
  then have t: "t \<in> set (dict_values (queued s))" "runnable s t" by auto
  note q = queued_ticket(1) [OF sched_okD(1) [OF ok] t(1)]
  have s': "s' = start_ticket now t s"
    using assms(2,3) cs q by (simp add: dispatch_one_def pick_candidate_def)
  have sorted: "sorted (map (priority s now) (t # ts))" unfolding cs [symmetric] by simp
  have "priority s now t \<le> priority s now c" if "dict_get (queued s) k = Some c" "runnable s c" for k c
  proof -
    have "c \<in> set (t # ts)" unfolding all using that map_of_SomeD [OF that(1)] by force
    then show ?thesis using sorted by auto
  qed
  then have "\<forall>k c. dict_get (queued s) k = Some c \<and> runnable s c \<longrightarrow> priority s now t \<le> priority s now c"
    by blast
  with q t(2) s' show ?thesis by (intro exI [of _ t]) (simp add: started_def)
qed

text \<open>Two tickets that are about to be dispatched.\<close>

definition sample_ticket :: "string \<Rightarrow> workload \<Rightarrow> ticket" where
  "sample_ticket i cls = new_ticket (sample_job i [] i) cls 0 None 1"

definition two_queued :: scheduler where
  "two_queued = enqueue (sample_ticket ''b'' LocalInteractive)
     (enqueue (sample_ticket ''a'' RemoteCommitted) (plain_scheduler\<lparr>last_sequence := 2\<rparr>))"

lemma two_queued_state:
  "queued two_queued = [(''a'', sample_ticket ''a'' RemoteCommitted), (''b'', sample_ticket ''b'' LocalInteractive)]"
  "active two_queued = []" "resources two_queued = None"
  by (simp_all add: two_queued_def enqueue_def plain_scheduler_def sample_scheduler_def sample_ticket_def
      new_ticket_def sample_job_def)

lemma two_queued_ok: "sched_ok two_queued"
  by (simp add: sched_ok_def two_queued_state tickets_ok_def limits_ok_def config_ok_def resources_ok_def
      waiters_ok_def accounted_def n_finished_def)
    (auto simp: two_queued_def enqueue_def plain_scheduler_def sample_scheduler_def sample_ticket_def
      new_ticket_def sample_job_def count_queued_def worker_running_def actor_running_def worker_limit_def)

lemma two_queued_dispatch:
  "fst (dispatch_one 5 two_queued) = Inr True" "map fst (queued (snd (dispatch_one 5 two_queued))) = [''a'']"
  by code_simp+

theorem dispatch_starts_most_urgent_witness:
  "\<exists>t. dict_get (queued two_queued) (tk_id t) = Some t \<and> tk_id t = ''b'' \<and>
     priority two_queued 5 t \<le> priority two_queued 5 (sample_ticket ''a'' RemoteCommitted)"
proof -
  obtain s' where s': "dispatch_one 5 two_queued = (Inr True, s')"
    using two_queued_dispatch(1) by (metis prod.collapse)
  obtain t where t: "dict_get (queued two_queued) (tk_id t) = Some t" 
      "\<forall>k q. dict_get (queued two_queued) k = Some q \<and> runnable two_queued q \<longrightarrow>
        priority two_queued 5 t \<le> priority two_queued 5 q"
      "queued s' = dict_del (tk_id t) (queued two_queued)"
    using dispatch_starts_most_urgent [OF two_queued_ok two_queued_state(3) s'] by blast
  have "map fst (queued s') = [''a'']" using two_queued_dispatch(2) s' by simp
  then have b: "tk_id t = ''b''" using t(1,3) by (auto simp: two_queued_state split: if_splits)
  have "runnable two_queued (sample_ticket ''a'' RemoteCommitted)" by code_simp
  then have "priority two_queued 5 t \<le> priority two_queued 5 (sample_ticket ''a'' RemoteCommitted)"
    using t(2) [rule_format, of "''a''" "sample_ticket ''a'' RemoteCommitted"] by (simp add: two_queued_state)
  with t(1) b show ?thesis by blast
qed

text \<open>
  Only interactive work has effective rank 0, so nothing ever outranks it; any other ticket
  starts at the rank of its class, never falls behind as it waits, and reaches rank 1 after
  (rank - 1) aging intervals.
\<close>

theorem effective_rank_ages:
  assumes "sched_reachable s" and "now \<le> now'"
  shows "(effective_rank s t now = 0 \<longleftrightarrow> tk_class t = LocalInteractive) \<and>
    0 \<le> effective_rank s t now \<and> effective_rank s t now \<le> class_rank (tk_class t) \<and>
    effective_rank s t now' \<le> effective_rank s t now \<and>
    (now - tk_created_at t \<ge> of_int (class_rank (tk_class t) - 1) * aging_interval_seconds s \<longrightarrow>
       effective_rank s t now \<le> 1)"
proof -
  let ?a = "aging_interval_seconds s" and ?age = "\<lambda>now. max 0 (now - tk_created_at t) / aging_interval_seconds s"
  have a: "0 < ?a" using sched_okD(3) [OF reachable_ok [OF assms(1)]] by (simp add: config_ok_def)
  have pos: "0 \<le> ?age n" for n using a by simp
  then have f: "truncate_rat (?age n) = \<lfloor>?age n\<rfloor>" "0 \<le> \<lfloor>?age n\<rfloor>" for n by (simp_all add: truncate_rat_def)
  have mono: "\<lfloor>?age now\<rfloor> \<le> \<lfloor>?age now'\<rfloor>"
    using assms(2) a by (intro floor_mono divide_right_mono max.mono) auto
  have reach: "class_rank (tk_class t) - 1 \<le> \<lfloor>?age now\<rfloor>"
    if "of_int (class_rank (tk_class t) - 1) * ?a \<le> now - tk_created_at t"
  proof -
    have "of_int (class_rank (tk_class t) - 1) * ?a \<le> max 0 (now - tk_created_at t)" using that by simp
    then show ?thesis using a by (simp only: le_floor_iff pos_le_divide_eq)
  qed
  show ?thesis
  proof (cases "tk_class t = LocalInteractive")
    case True
    then show ?thesis by (simp add: effective_rank_def)
  next
    case False
    then have r: "1 \<le> class_rank (tk_class t)" by (cases "tk_class t") simp_all
    then have e: "effective_rank s t n = max 1 (class_rank (tk_class t) - \<lfloor>?age n\<rfloor>)" for n
      by (simp add: effective_rank_def f Let_def)
    show ?thesis unfolding e using False r f(2) [of now] mono reach by auto
  qed
qed

theorem effective_rank_ages_witness:
  "effective_rank plain_scheduler (sample_ticket ''a'' RemoteCommitted) 30 \<le> 1 \<and>
   effective_rank plain_scheduler (sample_ticket ''a'' RemoteCommitted) 0 = 2"
proof
  have "aging_interval_seconds plain_scheduler = 30" "tk_created_at (sample_ticket ''a'' RemoteCommitted) = 0"
    "tk_class (sample_ticket ''a'' RemoteCommitted) = RemoteCommitted"
    by (simp_all add: plain_scheduler_def sample_scheduler_def sample_ticket_def new_ticket_def)
  with effective_rank_ages [OF plain_scheduler_reachable order_refl, of "sample_ticket ''a'' RemoteCommitted" 30]
  show "effective_rank plain_scheduler (sample_ticket ''a'' RemoteCommitted) 30 \<le> 1" by simp
  show "effective_rank plain_scheduler (sample_ticket ''a'' RemoteCommitted) 0 = 2" by code_simp
qed

text \<open>
  C10. A round of the dispatch loop, with or without a resource manager, starts a background or
  maintenance ticket only while no background gate is set and no interactive or foreground
  ticket is waiting; and it starts no ticket of an actor or of a worker that is at its limit.
\<close>

theorem background_work_waits:
  assumes ok: "sched_ok s" and "dispatch_one now s = (Inr True, s')"
  shows "\<exists>t. dict_get (queued s) (tk_id t) = Some t \<and>
    map_of (active s') = (map_of (active s))(tk_id t \<mapsto> started now t) \<and>
    (tk_class t \<in> {LocalBackground, Maintenance} \<longrightarrow> background_gates s = {} \<and>
       (\<forall>k q. dict_get (queued s) k = Some q \<longrightarrow> tk_class q \<notin> {LocalInteractive, LocalForeground})) \<and>
    (\<forall>a. tk_actor_id t = Some a \<longrightarrow> actor_running a s < max_active_per_actor s) \<and>
    worker_running (tk_service_key t) s < worker_limit (tk_service_key t) s \<and>
    (resources s = None \<longleftrightarrow> resources s' = None)"
  using ok
proof (cases rule: dispatch_one_cases [where now = now])
  case (go t rm)
  note q = queued_ticket(1) [OF sched_okD(1) [OF ok] go(2)]
  have "tk_class c \<notin> {LocalInteractive, LocalForeground}"
    if bg: "tk_class t \<in> {LocalBackground, Maintenance}" and c: "dict_get (queued s) k = Some c" for k c
  proof (cases "tk_id c = tk_id t")
    case True
    have "tk_id c = k" using sched_okD(1) [OF ok] c unfolding tickets_ok_def by blast
    then have "c = t" using q c True by simp
    then show ?thesis using bg by auto
  next
    case False
    have "c \<in> set (dict_values (queued s))" using map_of_SomeD [OF c] by force
    then show ?thesis using go(3) bg False by (auto simp: runnable_def list_ex_iff split: if_splits)
  qed
  moreover have "background_gates s = {}" if "tk_class t \<in> {LocalBackground, Maintenance}"
    using go(3) that by (auto simp: runnable_def split: if_splits)
  moreover have "actor_running a s < max_active_per_actor s" if "tk_actor_id t = Some a" for a
    using go(3) that by (simp add: runnable_def split: if_splits)
  moreover have "worker_running (tk_service_key t) s < worker_limit (tk_service_key t) s"
    using go(3) by (simp add: runnable_def split: if_splits)
  ultimately show ?thesis
    using assms(2) q go(1,5) by (intro exI [of _ t] conjI) auto
qed (use assms(2) in simp)

theorem background_work_waits_witness:
  "fst (dispatch_one 5 two_queued) = Inr True \<and>
   (\<exists>t. dict_get (queued two_queued) (tk_id t) = Some t \<and> tk_class t \<notin> {LocalBackground, Maintenance})"
proof -
  obtain s' where s': "dispatch_one 5 two_queued = (Inr True, s')"
    using two_queued_dispatch(1) by (metis prod.collapse)
  from background_work_waits [OF two_queued_ok s'] obtain t where
    t: "dict_get (queued two_queued) (tk_id t) = Some t"
      "tk_class t \<in> {LocalBackground, Maintenance} \<longrightarrow>
       (\<forall>k q. dict_get (queued two_queued) k = Some q \<longrightarrow> tk_class q \<notin> {LocalInteractive, LocalForeground})" by blast
  have "dict_get (queued two_queued) ''b'' = Some (sample_ticket ''b'' LocalInteractive)"
    by (simp add: two_queued_state)
  moreover have "tk_class (sample_ticket ''b'' LocalInteractive) = LocalInteractive"
    by (simp add: sample_ticket_def new_ticket_def)
  ultimately have "tk_class t \<notin> {LocalBackground, Maintenance}" using t(2) by fastforce
  with s' t(1) show ?thesis by auto
qed

text \<open>
  C11. \<open>acquire\<close> refuses an unknown workload class, a timeout that is not positive, a closed
  scheduler, a full queue and an actor or app with too many queued tickets, and then queues
  nothing; otherwise it returns the id of the new ticket, which then waits in the queue or runs
  unless its deadline has already passed, and counts it.
\<close>

theorem acquire_queues_or_refuses:
  assumes "sched_reachable s" and "dict_get (queued s) (jb_ticket_id j) = None"
    and "dict_get (active s) (jb_ticket_id j) = None"
  shows "(case parse_workload (jb_class j) of
      Inl e \<Rightarrow> acquire j s = (Inl ValueError, s)
    | Inr cls \<Rightarrow>
        if (case effective_timeout j s of None \<Rightarrow> False | Some x \<Rightarrow> x \<le> 0) then acquire j s = (Inl TimeoutError, s)
        else if closed s \<or> int (length (queued s)) \<ge> max_queue_depth s \<or>
          jb_actor_id j \<noteq> None \<and> count_queued (\<lambda>t. tk_actor_id t = jb_actor_id j) s \<ge> max_queued_per_actor s \<or>
          jb_app_id j \<noteq> None \<and> count_queued (\<lambda>t. tk_app_id t = jb_app_id j) s \<ge> max_queued_per_app s
        then acquire j s = (Inl RuntimeError, s\<lparr>sch_ticks := Suc (sch_ticks s)\<rparr>)
        else (\<exists>t s'. acquire j s = (Inr (jb_ticket_id j), s') \<and> last_sequence s' = last_sequence s + 1 \<and>
          t = new_ticket j cls (sch_clock s (sch_ticks s)) (effective_timeout j s) (last_sequence s + 1) \<and>
          (overdue (sch_clock s (Suc (sch_ticks s))) t \<or> dict_get (queued s') (jb_ticket_id j) = Some t \<or>
           dict_get (active s') (jb_ticket_id j) = Some (started (sch_clock s (Suc (sch_ticks s))) t))))"
proof (cases "parse_workload (jb_class j)")
  case (Inl e)
  then have "e = ValueError" by (auto split: if_splits)
  with Inl show ?thesis by (simp add: acquire_def)
next
  case (Inr cls)
  let ?s = "s\<lparr>sch_ticks := Suc (sch_ticks s)\<rparr>"
  let ?to = "effective_timeout j s"
  let ?late = "case ?to of None \<Rightarrow> False | Some x \<Rightarrow> x \<le> 0"
  let ?full = "closed s \<or> int (length (queued s)) \<ge> max_queue_depth s \<or>
    jb_actor_id j \<noteq> None \<and> count_queued (\<lambda>t. tk_actor_id t = jb_actor_id j) s \<ge> max_queued_per_actor s \<or>
    jb_app_id j \<noteq> None \<and> count_queued (\<lambda>t. tk_app_id t = jb_app_id j) s \<ge> max_queued_per_app s"
  let ?t = "new_ticket j cls (sch_clock s (sch_ticks s)) ?to (last_sequence s + 1)"
  let ?e = "enqueue ?t (?s\<lparr>last_sequence := last_sequence ?s + 1\<rparr>)"
  have cq: "count_queued P ?s = count_queued P s" for P by (simp add: count_queued_def)
  show ?thesis
  proof (cases "?late \<or> ?full")
    case True
    with Inr show ?thesis
      by (auto simp: acquire_def Let_def tick_def bind_st_def cq simp del: parse_workload.simps)
  next
    case False
    have i: "tk_id ?t = jb_ticket_id j" "tk_status ?t = TQueued" by (simp_all add: new_ticket_def)
    have a: "acquire j s = bind_st dispatch_locked (\<lambda>_. ret (tk_id ?t)) ?e"
      using False Inr
      by (auto simp: acquire_def Let_def tick_def cq bind_st_def [of "\<lambda>s. (Inr _, _ s)"]
          simp del: parse_workload.simps)
    have "sched_ok ?s" using reachable_ok [OF assms(1)] by simp
    then have "sched_ok ?e"
      by (rule enqueue_ok) (use False assms(2,3) in \<open>auto simp: new_ticket_def cq\<close>)
    then show ?thesis
    proof (rule dispatch_runs)
      fix s'
      assume d: "dispatch_locked ?e = (Inr (), s')" "dispatch_effect (sch_clock ?e (sch_ticks ?e)) ?e s'"
      have e: "sch_clock ?e (sch_ticks ?e) = sch_clock s (Suc (sch_ticks s))"
        "dict_get (queued ?e) (jb_ticket_id j) = Some ?t" "last_sequence ?e = last_sequence s + 1"
        using i by (simp_all add: enqueue_def)
      show ?thesis
        using a d(1) dispatch_effectD(4) [OF d(2) e(2)] dispatch_effectD(6) [OF d(2)] e(1,3) i False Inr
        by (auto simp: ret_def)
    qed
  qed
qed

theorem acquire_queues_or_refuses_witness:
  "acquire (sample_job ''a'' ''no_such_class'' ''u1'') plain_scheduler = (Inl ValueError, plain_scheduler) \<and>
   fst (acquire (sample_job ''a'' ''local_background'' ''u1'') plain_scheduler) = Inr ''a''"
proof
  have f: "dict_get (queued plain_scheduler) k = None" "dict_get (active plain_scheduler) k = None" for k
    by (simp_all add: plain_scheduler_def sample_scheduler_def)
  have "parse_workload (jb_class (sample_job ''a'' ''no_such_class'' ''u1'')) = Inl ValueError"
    by (simp add: sample_job_def)
  with acquire_queues_or_refuses [OF plain_scheduler_reachable f, of "sample_job ''a'' ''no_such_class'' ''u1''"]
  show "acquire (sample_job ''a'' ''no_such_class'' ''u1'') plain_scheduler = (Inl ValueError, plain_scheduler)"
    by simp
  have "parse_workload (jb_class (sample_job ''a'' ''local_background'' ''u1'')) = Inr LocalBackground"
    "effective_timeout (sample_job ''a'' ''local_background'' ''u1'') plain_scheduler = Some 60"
    "jb_ticket_id (sample_job ''a'' ''local_background'' ''u1'') = ''a''"
    "jb_app_id (sample_job ''a'' ''local_background'' ''u1'') = None"
    "\<not> closed plain_scheduler" "queued plain_scheduler = []" "max_queue_depth plain_scheduler = 4"
    "max_queued_per_actor plain_scheduler = 2"
    by (simp_all add: sample_job_def effective_timeout_def plain_scheduler_def sample_scheduler_def)
  with acquire_queues_or_refuses [OF plain_scheduler_reachable f, of "sample_job ''a'' ''local_background'' ''u1''"]
  show "fst (acquire (sample_job ''a'' ''local_background'' ''u1'') plain_scheduler) = Inr ''a''"
    by (auto simp: count_queued_def simp del: parse_workload.simps)
qed

text \<open>
  C12. Releasing the lease of a running ticket ends it exactly once: the ticket is not running
  any more, it is recorded as finished with the outcome, its reservation is given back, and a
  second release, whatever it says, changes nothing.
\<close>

theorem lease_release_once:
  assumes "sched_reachable s" and "dict_get (active s) tid = Some t" and "ls_ticket_id l = tid"
    and "\<not> ls_released l"
  shows "\<exists>s' done_at ts. lease_release failed cancelled l s = (Inr (), l\<lparr>ls_released := True\<rparr>, s') \<and>
    dict_get (active s') tid = None \<and> dict_get (queued s') tid = None \<and>
    finished s' = finished s @
      [t\<lparr>tk_status := released_status failed cancelled, tk_completed_at := Some done_at\<rparr>] @ ts \<and>
    (case resources s' of None \<Rightarrow> True | Some m \<Rightarrow> tid \<notin> held m) \<and>
    lease_release f c (l\<lparr>ls_released := True\<rparr>) s' = (Inr (), l\<lparr>ls_released := True\<rparr>, s')"
proof -
  note ok = reachable_ok [OF assms(1)]
  let ?at = "sch_clock s (sch_ticks s)"
  let ?e = "bump_released failed cancelled (retire (released_status failed cancelled) ?at t
      (s\<lparr>sch_ticks := Suc (sch_ticks s), active := dict_del tid (active s),
         resources := map_option (\<lambda>m. snd (release tid m)) (resources s)\<rparr>))"
  have r: "release_ticket tid failed cancelled s = dispatch_locked ?e"
    by (simp add: release_ticket_def assms(2) tick_def bind_st_def modify_def swap_ticks)
  have oke: "sched_ok ?e"
    using leave_active_ok [of "s\<lparr>sch_ticks := Suc (sch_ticks s)\<rparr>" tid t "bump_released failed cancelled"] ok assms(2)
    by simp
  then obtain s' where d: "dispatch_locked ?e = (Inr (), s')" "sched_ok s'"
      "dispatch_effect (sch_clock ?e (sch_ticks ?e)) ?e s'" by (rule dispatch_runs)
  have q: "dict_get (queued s) tid = None"
    using sched_okD(1) [OF ok] assms(2) by (auto simp: tickets_ok_def disjoint_iff)
  then have qs: "dict_get (queued s') tid = None" and as: "dict_get (active s') tid = None"
    using dispatch_effect_gone [OF d(3), of tid] by simp_all
  have "case resources s' of None \<Rightarrow> True | Some m \<Rightarrow> tid \<notin> held m"
    using sched_okD(4) [OF d(2)] as by (auto simp: resources_ok_def split: option.splits)
  moreover have "recorded (finished ?e) s'"
    using past.keeps_dispatch [of "finished ?e"] d(1) oke by (force simp: keeps_def recorded_def)
  then obtain ts where "finished s' = finished ?e @ ts" by (auto simp: recorded_def)
  ultimately show ?thesis
    using r d(1) as qs assms(3,4) by (simp add: lease_release_def) blast
qed

theorem lease_release_once_witness:
  "\<exists>s' done_at ts. lease_release False True \<lparr>ls_ticket_id = ''a'', ls_released = False\<rparr> busy_scheduler =
     (Inr (), \<lparr>ls_ticket_id = ''a'', ls_released = True\<rparr>, s') \<and> dict_get (active s') ''a'' = None \<and>
     length (finished s') \<ge> 1"
proof -
  have "''a'' \<in> dom (map_of (active busy_scheduler))"
    using busy_scheduler_state(2) by (metis dom_map_of_conv_image_fst list.set_intros(1) set_map)
  then obtain t where "dict_get (active busy_scheduler) ''a'' = Some t" by auto
  from lease_release_once [OF busy_scheduler_reachable this, of "\<lparr>ls_ticket_id = ''a'', ls_released = False\<rparr>"
      False True False False] show ?thesis by fastforce
qed

lemma cancel_all_runs:
  assumes "sched_ok s" and "distinct (map tk_id ts)"
    and "\<And>t. t \<in> set ts \<Longrightarrow> dict_get (queued s) (tk_id t) = Some t"
  shows "\<exists>s'. cancel_all ts s = (Inr (), s') \<and> sched_ok s' \<and> active s' = active s \<and>
    queued s' = filter (\<lambda>p. fst p \<notin> tk_id ` set ts) (queued s)"
  using assms
proof (induction ts arbitrary: s)
  case (Cons t ts)
  let ?s = "settle (tk_id t) FutureCancelled (bump_cancelled (retire TCancelled (sch_clock s (sch_ticks s)) t
    (s\<lparr>sch_ticks := Suc (sch_ticks s), queued := dict_del (tk_id t) (queued s)\<rparr>)))"
  have q: "dict_get (queued s) (tk_id t) = Some t" using Cons.prems(3) by simp
  have "sched_ok ?s"
    using leave_queue_ok [of "s\<lparr>sch_ticks := Suc (sch_ticks s)\<rparr>" "tk_id t" bump_cancelled] Cons.prems(1) q by simp
  moreover have "dict_get (queued ?s) (tk_id c) = Some c" if "c \<in> set ts" for c
    using Cons.prems(2,3) that by (auto simp: image_iff)
  moreover have "cancel_all (t # ts) s = cancel_all ts ?s"
    using q by (simp add: tick_def bind_st_def modify_def swap_ticks)
  ultimately obtain s' where "cancel_all (t # ts) s = (Inr (), s')" "sched_ok s'" "active s' = active s"
      "queued s' = filter (\<lambda>p. fst p \<notin> tk_id ` set ts) (dict_del (tk_id t) (queued s))"
    using Cons.IH [of ?s] Cons.prems(2) by auto
  then show ?case by (auto simp: AList.delete_eq case_prod_unfold intro!: filter_cong)
qed (simp add: ret_def)

text \<open>The body of \<open>cancel_queued_request\<close> once no running ticket matches.\<close>

lemma cancel_found:
  fixes k rid actor app session
  defines "M \<equiv> matches_request k rid actor app session"
  assumes ok: "sched_ok s"
  obtains s' where "cancel_all (filter M (dict_values (queued s))) s = (Inr (), s')" "sched_ok s'"
    "active s' = active s" "\<And>i t. dict_get (queued s') i = Some t \<Longrightarrow> \<not> M t"
proof -
  let ?found = "filter M (dict_values (queued s))"
  have ids: "map tk_id (dict_values (queued s)) = map fst (queued s)"
    using sched_okD(1) [OF ok] by (auto simp: tickets_ok_def)
  have "distinct (map tk_id ?found)"
    using sched_okD(7) [OF ok] unfolding ids [symmetric] by (rule distinct_map_filter)
  moreover have "dict_get (queued s) (tk_id t) = Some t" if "t \<in> set ?found" for t
    using that by (intro queued_ticket(1) [OF sched_okD(1) [OF ok]]) auto
  ultimately obtain s' where s': "cancel_all ?found s = (Inr (), s')" "sched_ok s'"
      "active s' = active s" "queued s' = filter (\<lambda>p. fst p \<notin> tk_id ` set ?found) (queued s)"
    using cancel_all_runs [OF ok] by blast
  have "\<not> M t" if "dict_get (queued s') i = Some t" for i t
  proof
    assume "M t"
    have m: "(i, t) \<in> set (queued s)" "i \<notin> tk_id ` set ?found" using map_of_SomeD [OF that] s'(4) by auto
    then have "tk_id t = i" using sched_okD(1) [OF ok] by (simp add: tickets_ok_def)
    with m \<open>M t\<close> show False by force
  qed
  with s' show thesis using that by blast
qed

text \<open>
  C13. \<open>cancel_queued_request\<close> never touches running work: while a matching ticket is running it
  reports that nothing was cancelled and changes nothing; otherwise it cancels every queued
  ticket that matches, says whether there was one, and leaves every running ticket running.
\<close>

theorem cancel_queued_request_spares_running:
  assumes "sched_reachable s" and "actor \<noteq> []" and "rid \<noteq> []"
  shows "if list_ex (matches_request k rid actor app session) (dict_values (active s))
    then cancel_queued_request k rid actor app session s = (Inr False, s)
    else \<exists>s'. cancel_queued_request k rid actor app session s =
          (Inr (list_ex (matches_request k rid actor app session) (dict_values (queued s))), s') \<and>
      (\<forall>t \<in> set (dict_values (queued s')) \<union> set (dict_values (active s')).
         \<not> matches_request k rid actor app session t) \<and>
      (\<forall>i t. dict_get (active s) i = Some t \<longrightarrow> dict_get (active s') i = Some t)"
proof (cases "list_ex (matches_request k rid actor app session) (dict_values (active s))")
  case True
  with assms(2,3) show ?thesis by (simp add: cancel_queued_request_def)
next
  case idle: False
  let ?M = "matches_request k rid actor app session"
  let ?found = "filter ?M (dict_values (queued s))"
  note ok = reachable_ok [OF assms(1)]
  have ex: "list_ex ?M (dict_values (queued s)) \<longleftrightarrow> ?found \<noteq> []"
    by (simp add: list_ex_iff filter_empty_conv)
  have act: "\<not> ?M t" if "dict_get (active s) i = Some t" for i t
    using idle map_of_SomeD [OF that] by (force simp: list_ex_iff)
  obtain s1 where s1: "cancel_all ?found s = (Inr (), s1)" "sched_ok s1" "active s1 = active s"
      "\<And>i t. dict_get (queued s1) i = Some t \<Longrightarrow> \<not> ?M t"
    by (rule cancel_found [OF ok, of k rid actor app session]) blast
  obtain s' now where s': "cancel_queued_request k rid actor app session s = (Inr (?found \<noteq> []), s')"
      "sched_ok s'" "s' = s1 \<or> dispatch_effect now s1 s'"
  proof (cases "?found = []")
    case True
    then have "s1 = s" using s1(1) by (simp add: ret_def)
    with True idle assms(2,3) s1(2) that [of s] show thesis by (simp add: cancel_queued_request_def ret_def)
  next
    case False
    obtain s' where d: "dispatch_locked s1 = (Inr (), s')" "sched_ok s'"
        "dispatch_effect (sch_clock s1 (sch_ticks s1)) s1 s'" using s1(2) by (rule dispatch_runs)
    with False idle assms(2,3) s1(1) that [of s' "sch_clock s1 (sch_ticks s1)"] show thesis
      by (simp add: cancel_queued_request_def Let_def bind_st_def ret_def)
  qed
  have m: "?M (started now c) = ?M c" for c by (simp add: matches_request_def started_def)
  have "\<not> ?M t" if "dict_get (queued s') i = Some t" for i t
    using s'(3) dispatch_effectD(1) [OF _ that] s1(4) that by blast
  moreover have "\<not> ?M t" if "dict_get (active s') i = Some t" for i t
    using s'(3)
  proof
    assume "dispatch_effect now s1 s'"
    from dispatch_effectD(3) [OF this that] show ?thesis
      using act s1(3,4) m by auto
  qed (use that act s1(3) in auto)
  ultimately have "\<not> ?M t" if "t \<in> set (dict_values (queued s')) \<union> set (dict_values (active s'))" for t
    using that sched_okD(7,8) [OF s'(2)] by auto
  moreover have "dict_get (active s') i = Some t" if "dict_get (active s) i = Some t" for i t
    using s'(3) dispatch_effectD(2) [of now s1 s' i t] that s1(3) by auto
  ultimately show ?thesis using idle s'(1) ex by auto
qed

theorem cancel_queued_request_spares_running_witness:
  "\<exists>s'. cancel_queued_request ''llm'' ''b'' ''u2'' None None busy_scheduler = (Inr True, s') \<and>
     dict_get (active s') ''a'' = dict_get (active busy_scheduler) ''a''"
proof -
  have m: "\<not> list_ex (matches_request ''llm'' ''b'' ''u2'' None None) (dict_values (active busy_scheduler))"
    "list_ex (matches_request ''llm'' ''b'' ''u2'' None None) (dict_values (queued busy_scheduler))"
    by code_simp+
  have "''a'' \<in> dom (map_of (active busy_scheduler))"
    using busy_scheduler_state(2) by (metis dom_map_of_conv_image_fst list.set_intros(1) set_map)
  then obtain t where "dict_get (active busy_scheduler) ''a'' = Some t" by auto
  with m cancel_queued_request_spares_running [OF busy_scheduler_reachable, of "''u2''" "''b''" "''llm''" None None]
  show ?thesis by auto
qed

text \<open>
  What is finished stays finished: whatever is called later, the tickets recorded as finished
  keep their place and their outcome.
\<close>

theorem finished_is_final:
  assumes "sched_reachable s" and "sched_calls s s'"
  shows "take (length (finished s)) (finished s') = finished s"
  using calls_recorded [OF assms(2) reachable_ok [OF assms(1)]] by (auto simp: recorded_def)

theorem finished_is_final_witness:
  "take (length (finished busy_scheduler)) (finished (snd (shutdown busy_scheduler))) = finished busy_scheduler"
  by (rule finished_is_final [OF busy_scheduler_reachable calls_step [OF calls_refl call_shutdown]])

text \<open>
  C14. After a shutdown the queue is empty and all futures are settled, and whatever is called
  later, nothing is queued or started any more: every running ticket was running before the
  shutdown, and every \<open>acquire\<close> that gets so far is refused.
\<close>

theorem shutdown_is_final:
  assumes "sched_reachable s" and "sched_calls (snd (shutdown s)) s'"
  shows "fst (shutdown s) = Inr () \<and> waiters s' = [] \<and> queued s' = [] \<and>
    (\<forall>k t. dict_get (active s') k = Some t \<longrightarrow> dict_get (active s) k = Some t) \<and>
    (\<exists>e. fst (acquire j s') = Inl e)"
proof -
  have "drained (active s) (snd (shutdown s))"
    using shutdown_ok [OF reachable_ok [OF assms(1)]] shutdown_state [of s] by (auto simp: drained_def)
  then have d: "drained (active s) s'" by (rule calls_drained [OF assms(2)])
  then have "waiters s' = []"
    using sched_okD(5) [of s'] by (auto simp: drained_def waiters_ok_def)
  moreover have "\<exists>e. fst (acquire j s') = Inl e"
    using d by (cases "parse_workload (jb_class j)")
      (auto simp: drained_def acquire_def Let_def tick_def bind_st_def simp del: parse_workload.simps)
  moreover have "fst (shutdown s) = Inr ()" using shutdown_state [of s] by auto
  ultimately show ?thesis using d by (simp add: drained_def)
qed

theorem shutdown_is_final_witness:
  "queued (snd (notify_resources_changed (snd (shutdown busy_scheduler)))) = []"
  using shutdown_is_final [OF busy_scheduler_reachable calls_step [OF calls_refl call_notify]] by simp

end
