(* ===== verification/JsonText.thy ===== *)
theory JsonText
  imports BlockIndex "HOL-Library.List_Lexorder"
begin

section \<open>JSON values and their text\<close>

text \<open>
  Python strings as lists of code points, and what the program uses of the \<^verbatim>\<open>json\<close> module:
  \<^verbatim>\<open>json.dumps(value, ensure_ascii=False, sort_keys=True, separators=(",", ":"))\<close> and
  \<^verbatim>\<open>json.loads\<close>. A number that is not an integer is kept as its spelling. The parser has fuel,
  of which \<open>loads\<close> gives enough for any input (\<open>parse_enough\<close>); the recursion limit of the
  interpreter is not modelled.
\<close>

type_synonym pystr = "nat list"

definition u :: "string \<Rightarrow> pystr" where
  "u = map of_char"

datatype json = JNull | JBool bool | JInt int | JFloat pystr | JStr pystr
  | JArr "json list" | JObj "(pystr \<times> json) list"

subsection \<open>Printing\<close>

definition hex_digit :: "nat \<Rightarrow> nat" where
  "hex_digit d = (if d < 10 then 48 + d else 87 + d)"

text \<open>Escapes of \<^verbatim>\<open>ESCAPE\<close>: control characters, the backslash and the quotation mark.\<close>

definition escape :: "nat \<Rightarrow> pystr" where
  "escape c =
     (if c = 34 then [92, 34] else if c = 92 then [92, 92]
      else if c = 10 then [92, 110] else if c = 13 then [92, 114] else if c = 9 then [92, 116]
      else if c = 8 then [92, 98] else if c = 12 then [92, 102]
      else if c < 32 then [92, 117, 48, 48, hex_digit (c div 16), hex_digit (c mod 16)]
      else [c])"

definition quote :: "pystr \<Rightarrow> pystr" where
  "quote t = 34 # concat (map escape t) @ [34]"

fun join :: "nat \<Rightarrow> pystr list \<Rightarrow> pystr" where
  "join c [] = []"
| "join c [t] = t"
| "join c (t # ts) = t @ c # join c ts"

fun render :: "json \<Rightarrow> pystr" where
  "render JNull = u ''null''"
| "render (JBool b) = (if b then u ''true'' else u ''false'')"
| "render (JInt i) = u (show_int i)"
| "render (JFloat t) = t"
| "render (JStr t) = quote t"
| "render (JArr vs) = 91 # join 44 (map render vs) @ [93]"
| "render (JObj kvs) = 123 # join 44 (map (\<lambda>(k, v). quote k @ 58 # render v) kvs) @ [125]"

text \<open>\<^verbatim>\<open>sort_keys\<close>, at every level\<close>

fun sorted_json :: "json \<Rightarrow> json" where
  "sorted_json (JArr vs) = JArr (map sorted_json vs)"
| "sorted_json (JObj kvs) = JObj (sort_key fst (map (\<lambda>(k, v). (k, sorted_json v)) kvs))"
| "sorted_json v = v"

definition canonical :: "json \<Rightarrow> pystr" where
  "canonical v = render (sorted_json v)"

subsection \<open>Parsing\<close>

definition skip_ws :: "pystr \<Rightarrow> pystr" where
  "skip_ws = dropWhile (\<lambda>c. c \<in> {32, 9, 10, 13})"

definition is_digit :: "nat \<Rightarrow> bool" where
  "is_digit c \<longleftrightarrow> 48 \<le> c \<and> c \<le> 57"

definition hex_value :: "nat \<Rightarrow> nat option" where
  "hex_value c =
     (if is_digit c then Some (c - 48)
      else if 97 \<le> c \<and> c \<le> 102 then Some (c - 87)
      else if 65 \<le> c \<and> c \<le> 70 then Some (c - 55) else None)"

definition hex4 :: "pystr \<Rightarrow> nat option" where
  "hex4 cs =
     (case map hex_value (take 4 cs) of
        [Some a, Some b, Some c, Some d] \<Rightarrow> Some (4096 * a + 256 * b + 16 * c + d)
      | _ \<Rightarrow> None)"

definition simple_escape :: "nat \<Rightarrow> nat option" where
  "simple_escape e =
     map_of [(34, 34), (92, 92), (47, 47), (98, 8), (102, 12), (110, 10), (114, 13), (116, 9)] e"

text \<open>The low half of a surrogate pair, if one follows.\<close>

definition low_surrogate :: "pystr \<Rightarrow> nat option" where
  "low_surrogate cs =
     (if take 2 cs = [92, 117] then
        (case hex4 (drop 2 cs) of
           Some n \<Rightarrow> if 56320 \<le> n \<and> n \<le> 57343 then Some n else None | None \<Rightarrow> None)
      else None)"

text \<open>A string after its opening quotation mark, and the text after the closing one.\<close>

function parse_str :: "pystr \<Rightarrow> (pystr \<times> pystr) option" where
  "parse_str s =
     (case s of
        [] \<Rightarrow> None
      | c # cs \<Rightarrow>
          if c = 34 then Some ([], cs)
          else if c = 92 then
            (case cs of
               [] \<Rightarrow> None
             | e # ds \<Rightarrow>
                 if e = 117 then
                   (case hex4 ds of
                      None \<Rightarrow> None
                    | Some n \<Rightarrow>
                        (case (if 55296 \<le> n \<and> n \<le> 56319 then low_surrogate (drop 4 ds) else None) of
                           Some m \<Rightarrow>
                             map_option (\<lambda>(t, r). ((65536 + (n - 55296) * 1024 + (m - 56320)) # t, r))
                               (parse_str (drop 10 ds))
                         | None \<Rightarrow> map_option (\<lambda>(t, r). (n # t, r)) (parse_str (drop 4 ds))))
                 else
                   (case simple_escape e of
                      None \<Rightarrow> None
                    | Some n \<Rightarrow> map_option (\<lambda>(t, r). (n # t, r)) (parse_str ds)))
          else if c < 32 then None
          else map_option (\<lambda>(t, r). (c # t, r)) (parse_str cs))"
  by pat_completeness auto
termination by (relation "measure length") auto

declare parse_str.simps [simp del]

definition read_int :: "pystr \<Rightarrow> int" where
  "read_int ds = fold (\<lambda>c n. 10 * n + (int c - 48)) ds 0"

text \<open>\<^verbatim>\<open>(-?(?:0|[1-9][0-9]*))(\.[0-9]+)?([eE][-+]?[0-9]+)?\<close>\<close>

definition int_part :: "pystr \<Rightarrow> pystr" where
  "int_part s = (if take 1 s = [48] then [48] else takeWhile is_digit s)"

definition frac_part :: "pystr \<Rightarrow> pystr" where
  "frac_part s =
     (case s of
        c # cs \<Rightarrow> if c = 46 \<and> takeWhile is_digit cs \<noteq> [] then 46 # takeWhile is_digit cs else []
      | [] \<Rightarrow> [])"

definition exp_part :: "pystr \<Rightarrow> pystr" where
  "exp_part s =
     (case s of
        c # cs \<Rightarrow>
          if c \<in> {69, 101} then
            (let sign = (case cs of d # _ \<Rightarrow> if d \<in> {43, 45} then [d] else [] | [] \<Rightarrow> []);
                 ds = takeWhile is_digit (drop (length sign) cs)
             in if ds = [] then [] else c # sign @ ds)
          else []
      | [] \<Rightarrow> [])"

definition parse_number :: "pystr \<Rightarrow> (json \<times> pystr) option" where
  "parse_number s =
     (let sign = (case s of c # _ \<Rightarrow> if c = 45 then [45] else [] | [] \<Rightarrow> []);
          s1 = drop (length sign) s;
          ip = int_part s1;
          s2 = drop (length ip) s1;
          fp = frac_part s2;
          s3 = drop (length fp) s2;
          ep = exp_part s3
      in if ip = [] then None
         else if fp = [] \<and> ep = []
         then Some (JInt (if sign = [] then read_int ip else - read_int ip), s2)
         else Some (JFloat (sign @ ip @ fp @ ep), drop (length ep) s3))"

definition literal :: "string \<Rightarrow> json \<Rightarrow> pystr \<Rightarrow> (json \<times> pystr) option" where
  "literal w v s = (if take (length w) s = u w then Some (v, drop (length w) s) else None)"

definition first_some :: "'a option \<Rightarrow> 'a option \<Rightarrow> 'a option" where
  "first_some a b = (case a of None \<Rightarrow> b | Some _ \<Rightarrow> a)"

definition parse_scalar :: "pystr \<Rightarrow> (json \<times> pystr) option" where
  "parse_scalar s =
     first_some (literal ''null'' JNull s)
      (first_some (literal ''true'' (JBool True) s)
      (first_some (literal ''false'' (JBool False) s)
      (first_some (parse_number s)
      (first_some (literal ''NaN'' (JFloat (u ''NaN'')) s)
      (first_some (literal ''Infinity'' (JFloat (u ''Infinity'')) s)
                  (literal ''-Infinity'' (JFloat (u ''-Infinity'')) s))))))"

text \<open>An object built from its members in order: a later member replaces an earlier one.\<close>

definition obj :: "(pystr \<times> json) list \<Rightarrow> json" where
  "obj kvs = JObj (fold (\<lambda>(k, v). dict_set k v) kvs [])"

text \<open>A member's key and the text after its colon.\<close>

definition parse_key :: "pystr \<Rightarrow> (pystr \<times> pystr) option" where
  "parse_key s =
     (case s of
        [] \<Rightarrow> None
      | q # cs \<Rightarrow>
          if q \<noteq> 34 then None
          else (case parse_str cs of
             None \<Rightarrow> None
           | Some (k, r) \<Rightarrow>
               (case skip_ws r of
                  [] \<Rightarrow> None
                | d # ds \<Rightarrow> if d = 58 then Some (k, skip_ws ds) else None)))"

fun parse_value :: "nat \<Rightarrow> pystr \<Rightarrow> (json \<times> pystr) option"
and parse_items :: "nat \<Rightarrow> pystr \<Rightarrow> (json list \<times> pystr) option"
and parse_members :: "nat \<Rightarrow> pystr \<Rightarrow> ((pystr \<times> json) list \<times> pystr) option" where
  "parse_value 0 s = None"
| "parse_value (Suc n) s =
     (case s of
        [] \<Rightarrow> None
      | c # cs \<Rightarrow>
          if c = 34 then map_option (\<lambda>(t, r). (JStr t, r)) (parse_str cs)
          else if c = 91 then
            (case skip_ws cs of
               [] \<Rightarrow> None
             | d # ds \<Rightarrow>
                 if d = 93 then Some (JArr [], ds)
                 else map_option (\<lambda>(vs, r). (JArr vs, r)) (parse_items n (d # ds)))
          else if c = 123 then
            (case skip_ws cs of
               [] \<Rightarrow> None
             | d # ds \<Rightarrow>
                 if d = 125 then Some (JObj [], ds)
                 else map_option (\<lambda>(kvs, r). (obj kvs, r)) (parse_members n (d # ds)))
          else parse_scalar s)"
| "parse_items 0 s = None"
| "parse_items (Suc n) s =
     (case parse_value n s of
        None \<Rightarrow> None
      | Some (v, r) \<Rightarrow>
          (case skip_ws r of
             [] \<Rightarrow> None
           | d # ds \<Rightarrow>
               if d = 93 then Some ([v], ds)
               else if d = 44 then map_option (\<lambda>(vs, r). (v # vs, r)) (parse_items n (skip_ws ds))
               else None))"
| "parse_members 0 s = None"
| "parse_members (Suc n) s =
     (case parse_key s of
        None \<Rightarrow> None
      | Some (k, r) \<Rightarrow>
          (case parse_value n r of
             None \<Rightarrow> None
           | Some (v, r) \<Rightarrow>
               (case skip_ws r of
                  [] \<Rightarrow> None
                | d # ds \<Rightarrow>
                    if d = 125 then Some ([(k, v)], ds)
                    else if d = 44
                    then map_option (\<lambda>(kvs, r). ((k, v) # kvs, r)) (parse_members n (skip_ws ds))
                    else None)))"

definition loads :: "pystr \<Rightarrow> json res" where
  "loads s =
     (case parse_value (2 * length s + 1) (skip_ws s) of
        Some (v, r) \<Rightarrow> if skip_ws r = [] then Inr v else Inl ValueError
      | None \<Rightarrow> Inl ValueError)"

subsection \<open>Enough fuel\<close>

lemma skip_ws_le: "length (skip_ws s) \<le> length s"
  by (simp add: skip_ws_def length_dropWhile_le)

lemma parse_str_shrinks: "parse_str s = Some (t, r) \<Longrightarrow> length r < length s"
proof (induction s arbitrary: t r rule: parse_str.induct)
  case (1 s)
  show ?case
  proof (cases s)
    case Nil
    with "1.prems" show ?thesis by (subst (asm) parse_str.simps) simp
  next
    case (Cons c cs)
    note ih = "1.IH" [OF Cons]
    from "1.prems" have p: "parse_str (c # cs) = Some (t, r)" by (simp add: Cons)
    show ?thesis
      using p [unfolded parse_str.simps [of "c # cs"]] ih
      by (fastforce simp: Cons split: if_splits list.splits option.splits)
  qed
qed

lemma parse_key_shrinks:
  assumes "parse_key s = Some (k, r)"
  shows "length r < length s"
proof -
  obtain cs r0 ds where s: "s = 34 # cs" "parse_str cs = Some (k, r0)" "skip_ws r0 = 58 # ds" "r = skip_ws ds"
    using assms by (auto simp: parse_key_def split: list.splits option.splits if_splits)
  then show ?thesis using parse_str_shrinks [OF s(2)] skip_ws_le [of r0] skip_ws_le [of ds] by simp
qed

lemma literal_shrinks: "literal w v s = Some (x, r) \<Longrightarrow> w \<noteq> [] \<Longrightarrow> length r < length s"
  by (cases s) (auto simp: literal_def u_def split: if_splits)

lemma parse_number_shrinks:
  assumes "parse_number s = Some (x, r)"
  shows "length r < length s"
proof -
  define sign where "sign = (case s of c # _ \<Rightarrow> if c = 45 then [45 :: nat] else [] | [] \<Rightarrow> [])"
  define s1 where "s1 = drop (length sign) s"
  have ip: "int_part s1 \<noteq> []" and r: "length r \<le> length s1 - length (int_part s1)"
    using assms by (auto simp: parse_number_def Let_def sign_def [symmetric] s1_def [symmetric] split: if_splits)
  from ip have "0 < length s1" by (auto simp: int_part_def)
  moreover have "length s1 \<le> length s" "0 < length (int_part s1)" using ip by (simp_all add: s1_def)
  ultimately show ?thesis using r by arith
qed

lemma parse_scalar_shrinks: "parse_scalar s = Some (x, r) \<Longrightarrow> length r < length s"
  by (auto simp: parse_scalar_def first_some_def split: option.splits
      dest: literal_shrinks parse_number_shrinks)

lemma parse_shrinks:
  "parse_value n s = Some (v, r) \<Longrightarrow> length r < length s"
  "parse_items n s = Some (vs, r) \<Longrightarrow> length r < length s"
  "parse_members n s = Some (kvs, r) \<Longrightarrow> length r < length s"
proof (induction n s and n s and n s arbitrary: v r and vs r and kvs r
    rule: parse_value_parse_items_parse_members.induct)
  case (2 n s)
  then show ?case
    using skip_ws_le [of "tl s"]
    by (fastforce split: list.splits if_splits dest: parse_str_shrinks parse_scalar_shrinks)
next
  case (4 n s)
  from "4.prems" obtain v r1 d ds where v: "parse_value n s = Some (v, r1)" "skip_ws r1 = d # ds"
    and rest: "d = 93 \<and> r = ds \<or> d \<noteq> 93 \<and> d = 44 \<and> (\<exists>ws. parse_items n (skip_ws ds) = Some (ws, r))"
    by (auto split: option.splits list.splits if_splits)
  have "length r1 < length s" using "4.IH"(1) v(1) by blast
  moreover have "length r \<le> length ds"
    using rest "4.IH"(2) [OF v(1) refl v(2)] skip_ws_le [of ds] by fastforce
  ultimately show ?case using skip_ws_le [of r1] v(2) by simp
next
  case (6 n s)
  from "6.prems" obtain k r0 v r1 d ds where
    k: "parse_key s = Some (k, r0)" and v: "parse_value n r0 = Some (v, r1)" "skip_ws r1 = d # ds"
    and rest: "d = 125 \<and> r = ds \<or> d \<noteq> 125 \<and> d = 44 \<and> (\<exists>ws. parse_members n (skip_ws ds) = Some (ws, r))"
    by (auto split: option.splits list.splits if_splits)
  have "length r1 < length r0" using "6.IH"(1) k v(1) by blast
  moreover have "length r \<le> length ds"
    using rest "6.IH"(2) [OF k refl v(1) refl v(2)] skip_ws_le [of ds] by fastforce
  moreover have "length r0 < length s" using k by (rule parse_key_shrinks)
  ultimately show ?case using skip_ws_le [of r1] v(2) by simp
qed simp_all

text \<open>Twice the length of the text is enough fuel: more of it changes nothing.\<close>

lemma parse_enough:
  "2 * length s \<le> n \<Longrightarrow> parse_value (Suc n) s = parse_value n s"
  "2 * length s + 1 \<le> n \<Longrightarrow> parse_items (Suc n) s = parse_items n s"
  "2 * length s + 1 \<le> n \<Longrightarrow> parse_members (Suc n) s = parse_members n s"
proof (induction n s and n s and n s rule: parse_value_parse_items_parse_members.induct)
  case (1 s)
  then show ?case by simp
next
  case (2 n s)
  show ?case
  proof (cases s)
    case (Cons c cs)
    have "2 * length (d # ds) + 1 \<le> n" if "skip_ws cs = d # ds" for d ds
      using "2.prems" skip_ws_le [of cs] that Cons by simp
    with "2.IH" Cons show ?thesis
      by (subst (1 2) parse_value.simps)
        (auto simp del: parse_items.simps parse_members.simps split: list.split)
  qed simp
next
  case (4 n s)
  have v: "parse_value (Suc n) s = parse_value n s" using "4.IH"(1) "4.prems" by simp
  have "parse_items (Suc n) (skip_ws ds) = parse_items n (skip_ws ds)"
    if "parse_value n s = Some (v, r)" "skip_ws r = d # ds" "d \<noteq> 93" "d = 44" for v r d ds
  proof (rule "4.IH"(2) [OF that(1) refl that(2-4)])
    have "length r < length s" using that(1) by (rule parse_shrinks)
    then show "2 * length (skip_ws ds) + 1 \<le> n"
      using "4.prems" skip_ws_le [of r] skip_ws_le [of ds] that(2) by simp
  qed
  then show ?case
    by (subst (1 2) parse_items.simps) (auto simp: v simp del: parse_value.simps parse_items.simps split: option.split list.split)
next
  case (6 n s)
  have v: "parse_value (Suc n) r = parse_value n r" if "parse_key s = Some (k, r)" for k r
    using "6.IH"(1) [OF that refl] "6.prems" parse_key_shrinks [OF that] by simp
  have m: "parse_members (Suc n) (skip_ws ds) = parse_members n (skip_ws ds)"
    if "parse_key s = Some (k, r0)" "parse_value n r0 = Some (v, r)" "skip_ws r = d # ds" "d \<noteq> 125" "d = 44"
    for k r0 v r d ds
  proof (rule "6.IH"(2) [OF that(1) refl that(2) refl that(3-5)])
    have "length r < length r0" using that(2) by (rule parse_shrinks)
    then show "2 * length (skip_ws ds) + 1 \<le> n"
      using "6.prems" parse_key_shrinks [OF that(1)] skip_ws_le [of r] skip_ws_le [of ds] that(3) by simp
  qed
  show ?case
    by (subst (1 2) parse_members.simps) (auto simp: v m simp del: parse_value.simps parse_members.simps split: option.split list.split)
qed simp_all

subsection \<open>Reading back what was printed\<close>

lemma escape_read: "parse_str (escape c @ s) = map_option (\<lambda>(t, r). (c # t, r)) (parse_str s)"
proof -
  have h: "hex4 (48 # 48 # hex_digit (c div 16) # hex_digit (c mod 16) # s) = Some c" if "c < 32"
  proof -
    have "c div 16 < 2" using that by auto
    moreover have "c mod 16 < 16" by simp
    moreover have "hex_value (hex_digit d) = Some d" if "d < 16" for d
      using that by (auto simp: hex_value_def hex_digit_def is_digit_def)
    moreover have "hex_value 48 = Some 0" by (simp add: hex_value_def is_digit_def)
    ultimately show ?thesis by (simp add: hex4_def)
  qed
  show ?thesis
    by (subst parse_str.simps) (auto simp: escape_def simple_escape_def h)
qed

lemma quote_read: "parse_str (concat (map escape t) @ 34 # r) = Some (t, r)"
proof (induction t)
  case Nil
  show ?case by (subst parse_str.simps) simp
qed (simp add: escape_read)

text \<open>What may follow a value inside an array or object.\<close>

definition delim :: "pystr \<Rightarrow> bool" where
  "delim s \<longleftrightarrow> s = [] \<or> hd s \<in> {44, 93, 125}"

lemma takeWhile_digits: "delim r \<Longrightarrow> takeWhile is_digit (s @ r) = takeWhile is_digit s"
proof -
  assume "delim r"
  then have "takeWhile is_digit r = []" by (cases r) (auto simp: delim_def is_digit_def)
  then show ?thesis by (simp add: takeWhile_append) (metis takeWhile_eq_all_conv)
qed

lemma number_parts_append:
  assumes "delim r"
  shows "int_part (s @ r) = int_part s" "frac_part (s @ r) = frac_part s" "exp_part (s @ r) = exp_part s"
proof -
  have r: "r = [] \<or> (\<exists>c cs. r = c # cs \<and> c \<in> {44, 93, 125})" using assms by (cases r) (auto simp: delim_def)
  note tw = takeWhile_digits [OF assms]
  have "take 1 (s @ r) = [48] \<longleftrightarrow> take 1 s = [48]" using r by (cases s) auto
  then show "int_part (s @ r) = int_part s" by (simp add: int_part_def tw)
  show "frac_part (s @ r) = frac_part s"
    using r by (cases s) (auto simp: frac_part_def tw)
  show "exp_part (s @ r) = exp_part s"
  proof (cases s)
    case Nil
    with r show ?thesis by (auto simp: exp_part_def)
  next
    case (Cons c cs)
    show ?thesis
    proof (cases cs)
      case Nil
      with r Cons show ?thesis by (auto simp: exp_part_def is_digit_def Let_def)
    next
      case (Cons d ds)
      with \<open>s = c # cs\<close> tw [of ds] tw [of "d # ds"] show ?thesis by (simp add: exp_part_def Let_def)
    qed
  qed
qed

lemma number_parts_prefix:
  "length (int_part s) \<le> length s" "length (frac_part s) \<le> length s" "length (exp_part s) \<le> length s"
proof -
  show "length (int_part s) \<le> length s" by (cases s) (auto simp: int_part_def length_takeWhile_le)
  show "length (frac_part s) \<le> length s" by (auto simp: frac_part_def length_takeWhile_le split: list.split)
  have "length (takeWhile is_digit (drop k cs)) \<le> length cs - k" for k cs
    using length_takeWhile_le [of is_digit "drop k cs"] by simp
  then show "length (exp_part s) \<le> length s"
    by (auto simp: exp_part_def Let_def Suc_le_eq less_Suc_eq_le length_takeWhile_le split: list.split)
qed

lemma parse_number_append:
  assumes d: "delim r"
  shows "parse_number (s @ r) = map_option (\<lambda>(v, t). (v, t @ r)) (parse_number s)"
proof -
  define sign where "sign = (case s of c # _ \<Rightarrow> if c = 45 then [45 :: nat] else [] | [] \<Rightarrow> [])"
  have sr: "(case s @ r of c # _ \<Rightarrow> if c = 45 then [45 :: nat] else [] | [] \<Rightarrow> []) = sign"
    using d by (cases s; cases r) (auto simp: sign_def delim_def)
  define s1 where "s1 = drop (length sign) s"
  define s2 where "s2 = drop (length (int_part s1)) s1"
  define s3 where "s3 = drop (length (frac_part s2)) s2"
  note parts = number_parts_append [OF d]
  have d1: "drop (length sign) (s @ r) = s1 @ r" by (cases s) (auto simp: sign_def s1_def)
  have d2: "drop (length (int_part s1)) (s1 @ r) = s2 @ r"
    using number_parts_prefix(1) [of s1] by (simp add: s2_def)
  have d3: "drop (length (frac_part s2)) (s2 @ r) = s3 @ r"
    using number_parts_prefix(2) [of s2] by (simp add: s3_def)
  have d4: "drop (length (exp_part s3)) (s3 @ r) = drop (length (exp_part s3)) s3 @ r"
    using number_parts_prefix(3) [of s3] by simp
  define n where "n = (if sign = [] then read_int (int_part s1) else - read_int (int_part s1))"
  have "parse_number s =
      (if int_part s1 = [] then None
       else if frac_part s2 = [] \<and> exp_part s3 = [] then Some (JInt n, s2)
       else Some (JFloat (sign @ int_part s1 @ frac_part s2 @ exp_part s3), drop (length (exp_part s3)) s3))"
    unfolding parse_number_def Let_def sign_def [symmetric] s1_def [symmetric] s2_def [symmetric]
      s3_def [symmetric] n_def [symmetric] by (rule refl)
  moreover have "parse_number (s @ r) =
      (if int_part s1 = [] then None
       else if frac_part s2 = [] \<and> exp_part s3 = [] then Some (JInt n, s2 @ r)
       else Some (JFloat (sign @ int_part s1 @ frac_part s2 @ exp_part s3), drop (length (exp_part s3)) s3 @ r))"
    unfolding parse_number_def Let_def sr d1 parts d2 d3 d4 n_def by (rule refl)
  ultimately show ?thesis by simp
qed

lemma literal_append:
  assumes "delim r" and "set (u w) \<inter> {44, 93, 125} = {}"
  shows "literal w v (s @ r) = map_option (\<lambda>(x, t). (x, t @ r)) (literal w v s)"
proof (cases "length w \<le> length s")
  case False
  have "take (length w) (s @ r) \<noteq> u w"
  proof (cases r)
    case Nil
    have "length (take (length w) s) \<noteq> length (u w)" using False by (simp add: u_def)
    with Nil show ?thesis by (metis append_Nil2)
  next
    case (Cons c cs)
    with False have mem: "c \<in> set (take (length w) (s @ r))" by (cases "length w - length s") auto
    have "c \<notin> set (u w)" using assms Cons by (auto simp: delim_def)
    show ?thesis
    proof
      assume e: "take (length w) (s @ r) = u w"
      show False using mem \<open>c \<notin> set (u w)\<close> unfolding e by simp
    qed
  qed
  moreover have "length (take (length w) s) \<noteq> length (u w)" using False by (simp add: u_def)
  then have "take (length w) s \<noteq> u w" by metis
  ultimately show ?thesis by (simp add: literal_def)
qed (simp add: literal_def)

lemma parse_scalar_append:
  assumes "delim r"
  shows "parse_scalar (s @ r) = map_option (\<lambda>(v, t). (v, t @ r)) (parse_scalar s)"
proof -
  have w: "set (u w) \<inter> {44, 93, 125} = {}"
    if "w \<in> {''null'', ''true'', ''false'', ''NaN'', ''Infinity'', ''-Infinity''}" for w
    using that by (auto simp: u_def)
  have fs: "first_some (map_option f a) (map_option f b) = map_option f (first_some a b)" for f :: "json \<times> pystr \<Rightarrow> json \<times> pystr" and a b
    by (cases a) (simp_all add: first_some_def)
  show ?thesis
    unfolding parse_scalar_def by (simp add: literal_append [OF assms w] parse_number_append [OF assms] fs)
qed

lemma u_digits: "set (u (show_nat n)) \<subseteq> {48..57}"
proof (induction n rule: show_nat.induct)
  case (1 n)
  have d: "of_char (digit k) = (48 + k :: nat)" if "k < 10" for k using that by (simp add: of_char_digit)
  show ?case
    using 1 by (subst show_nat.simps) (auto simp: u_def d)
qed

lemma read_int_u: "read_int (u (show_nat n)) = int n"
proof (induction n rule: show_nat.induct)
  case (1 n)
  have d: "of_char (digit k) = (48 + k :: nat)" if "k < 10" for k using that by (simp add: of_char_digit)
  show ?case
  proof (cases "n < 10")
    case True
    then show ?thesis by (subst show_nat.simps) (simp add: read_int_def u_def d)
  next
    case False
    have "int n = 10 * int (n div 10) + int (n mod 10)"
      by (metis mult_div_mod_eq of_nat_add of_nat_mult of_nat_numeral)
    with False 1 show ?thesis by (subst show_nat.simps) (simp add: read_int_def u_def d)
  qed
qed

lemma show_nat_zero: "take 1 (u (show_nat n)) = [48] \<longleftrightarrow> n = 0"
proof (induction n rule: show_nat.induct)
  case (1 n)
  have d: "of_char (digit k) = (48 + k :: nat)" if "k < 10" for k using that by (simp add: of_char_digit)
  show ?case
  proof (cases "n < 10")
    case True
    then show ?thesis by (subst show_nat.simps) (simp add: u_def d)
  next
    case False
    obtain c cs where c: "show_nat (n div 10) = c # cs" using show_nat_nonempty by (cases "show_nat (n div 10)") auto
    have "n div 10 \<noteq> 0" using False by auto
    with 1 False c show ?thesis by (subst show_nat.simps) (simp add: u_def)
  qed
qed

lemma int_part_u: "int_part (u (show_nat n)) = u (show_nat n)"
proof (cases "n = 0")
  case True
  then show ?thesis by (simp add: show_nat.simps int_part_def u_def digit_def)
next
  case False
  have "takeWhile is_digit (u (show_nat n)) = u (show_nat n)"
    using u_digits [of n] by (auto simp: takeWhile_eq_all_conv is_digit_def)
  with False show ?thesis by (simp only: int_part_def show_nat_zero) simp
qed

lemma number_read: "parse_number (u (show_int i)) = Some (JInt i, [])"
proof -
  have ne: "u (show_nat n) \<noteq> []" for n by (simp add: u_def show_nat_nonempty)
  have hd: "(case u (show_nat n) of c # _ \<Rightarrow> if c = 45 then [45 :: nat] else [] | [] \<Rightarrow> []) = []" for n
    using u_digits [of n] by (cases "u (show_nat n)") auto
  have e: "frac_part [] = []" "exp_part [] = []" by (simp_all add: frac_part_def exp_part_def)
  show ?thesis
  proof (cases "i < 0")
    case True
    then have "u (show_int i) = 45 # u (show_nat (nat (- i)))" by (simp add: show_int_def u_def)
    with True show ?thesis by (simp add: parse_number_def Let_def int_part_u ne e read_int_u)
  next
    case False
    then have "u (show_int i) = u (show_nat (nat i))" by (simp add: show_int_def)
    with False show ?thesis by (simp add: parse_number_def Let_def hd int_part_u ne e read_int_u)
  qed
qed

lemma int_hd: "u (show_int i) \<noteq> []" "hd (u (show_int i)) \<in> {45} \<union> {48..57}"
proof -
  have "u (show_int i) \<noteq> [] \<and> hd (u (show_int i)) \<in> {45} \<union> {48..57}"
  proof (cases "i < 0")
    case False
    then show ?thesis
      using show_nat_nonempty [of "nat i"] u_digits [of "nat i"]
      by (cases "u (show_nat (nat i))") (auto simp: show_int_def u_def)
  qed (simp add: show_int_def u_def)
  then show "u (show_int i) \<noteq> []" "hd (u (show_int i)) \<in> {45} \<union> {48..57}" by simp_all
qed

lemma int_read: "parse_scalar (u (show_int i)) = Some (JInt i, [])"
proof -
  obtain c cs where c: "u (show_int i) = c # cs" "c \<in> {45} \<union> {48..57}"
    using int_hd [of i] by (cases "u (show_int i)") auto
  have "literal w v (c # cs) = None" if "w \<in> {''null'', ''true'', ''false''}" for w v
    using that c(2) by (auto simp: literal_def u_def)
  then have "literal ''null'' JNull (u (show_int i)) = None" "literal ''true'' (JBool True) (u (show_int i)) = None"
    "literal ''false'' (JBool False) (u (show_int i)) = None" unfolding c(1) by blast+
  then show ?thesis by (simp add: parse_scalar_def first_some_def number_read)
qed

lemma literal_read:
  "parse_scalar (u ''null'') = Some (JNull, [])" "parse_scalar (u ''true'') = Some (JBool True, [])"
  "parse_scalar (u ''false'') = Some (JBool False, [])"
  by code_simp+

text \<open>
  Values the \<^verbatim>\<open>json\<close> module can have produced or can print: dictionaries have distinct keys, the
  spelling of a number that is not an integer is one the parser reads back.
\<close>

definition float_ok :: "pystr \<Rightarrow> bool" where
  "float_ok t \<longleftrightarrow> t \<noteq> [] \<and> hd t \<notin> {34, 91, 123} \<and> parse_scalar t = Some (JFloat t, [])"

fun json_ok :: "json \<Rightarrow> bool" where
  "json_ok (JFloat t) = float_ok t"
| "json_ok (JArr vs) = list_all json_ok vs"
| "json_ok (JObj kvs) = (distinct (map fst kvs) \<and> list_all (\<lambda>(k, v). json_ok v) kvs)"
| "json_ok _ = True"

lemma obj_distinct: "distinct (map fst kvs) \<Longrightarrow> obj kvs = JObj kvs"
proof -
  have "distinct (map fst (d @ kvs)) \<Longrightarrow> fold (\<lambda>(k, v). dict_set k v) kvs d = d @ kvs" for d
  proof (induction kvs arbitrary: d)
    case (Cons p kvs)
    obtain k v where p: "p = (k, v)" by (cases p)
    have "dict_set k v d = d @ [(k, v)]"
      using Cons.prems by (intro dict_set_absent) (auto simp: p dict_get_None_iff)
    with Cons.IH [of "d @ [(k, v)]"] Cons.prems show ?case by (simp add: p)
  qed simp
  from this [of "[]"] show "distinct (map fst kvs) \<Longrightarrow> obj kvs = JObj kvs" by (simp add: obj_def)
qed

lemma join_Cons: "ts \<noteq> [] \<Longrightarrow> join c (t # ts) = t @ c # join c ts"
  by (cases ts) simp_all

lemma skip_ws_delim: "delim s \<Longrightarrow> skip_ws s = s"
  by (cases s) (auto simp: skip_ws_def delim_def)

lemma skip_ws_other: "c \<notin> {32, 9, 10, 13} \<Longrightarrow> skip_ws (c # s) = c # s"
  by (simp add: skip_ws_def)

lemma render_hd:
  assumes "json_ok v"
  shows "render v \<noteq> []" and "hd (render v) \<notin> {32, 9, 10, 13, 93, 125}"
proof -
  have ws: "parse_scalar (c # cs) = None" if c: "c \<in> {32, 9, 10, 13, 93, 125}" for c cs
  proof -
    have "literal w x (c # cs) = None"
      if "w \<in> {''null'', ''true'', ''false'', ''NaN'', ''Infinity'', ''-Infinity''}" for w x
    proof -
      have "hd (u w) \<noteq> c" "u w \<noteq> []" "w \<noteq> []" using that c by (auto simp: u_def)
      then show ?thesis by (cases w) (auto simp: literal_def u_def)
    qed
    moreover have "parse_number (c # cs) = None"
      using c by (auto simp: parse_number_def int_part_def is_digit_def Let_def)
    ultimately show ?thesis by (simp add: parse_scalar_def first_some_def)
  qed
  have "render v \<noteq> [] \<and> hd (render v) \<notin> {32, 9, 10, 13, 93, 125}"
  proof (cases v)
    case (JInt i)
    have "u (show_int i) \<noteq> []" by (simp add: u_def show_int_def show_nat_nonempty)
    moreover have "hd (u (show_int i)) \<notin> {32, 9, 10, 13, 93, 125}"
      using ws int_read [of i] calculation by (metis list.collapse option.distinct(1))
    ultimately show ?thesis by (simp add: JInt)
  next
    case (JFloat t)
    with assms ws show ?thesis by (auto simp: float_ok_def neq_Nil_conv)
  qed (auto simp: u_def quote_def)
  then show "render v \<noteq> []" and "hd (render v) \<notin> {32, 9, 10, 13, 93, 125}" by simp_all
qed

lemma scalar_read:
  assumes "parse_scalar t = Some (v, [])" and "t \<noteq> []" and "hd t \<notin> {34, 91, 123}" and "delim r"
  shows "parse_value (Suc n) (t @ r) = Some (v, r)"
proof -
  have "parse_scalar (t @ r) = Some (v, r)" using assms(1) by (simp add: parse_scalar_append [OF assms(4)])
  with assms(2,3) show ?thesis by (cases t) simp_all
qed

lemma value_read:
  "json_ok v \<Longrightarrow> 2 * length (render v) \<le> n \<Longrightarrow> delim r \<Longrightarrow> parse_value n (render v @ r) = Some (v, r)"
proof (induction v arbitrary: n r)
  case (JArr vs)
  have items: "vs \<noteq> [] \<Longrightarrow> (\<And>v. v \<in> set vs \<Longrightarrow> json_ok v) \<Longrightarrow>
      (\<And>v m q. v \<in> set vs \<Longrightarrow> 2 * length (render v) \<le> m \<Longrightarrow> delim q \<Longrightarrow>
         parse_value m (render v @ q) = Some (v, q)) \<Longrightarrow>
      2 * length (join 44 (map render vs)) + 1 \<le> m \<Longrightarrow>
      parse_items m (join 44 (map render vs) @ 93 # r) = Some (vs, r)" for m vs
  proof (induction vs arbitrary: m)
    case (Cons v vs)
    obtain k where k: "m = Suc k" using Cons.prems(4) by (cases m) auto
    have rd: "parse_value k (render v @ q) = Some (v, q)" if "delim q" for q
      using Cons.prems(3) [of v k q] that Cons.prems(4) k by (cases "vs = []") (auto simp: join_Cons)
    show ?case
    proof (cases "vs = []")
      case True
      then show ?thesis by (simp add: k rd delim_def skip_ws_other)
    next
      case False
      let ?rest = "join 44 (map render vs) @ 93 # r"
      obtain w ws where w: "vs = w # ws" using False by (cases vs) auto
      have "hd (render w) \<notin> {32, 9, 10, 13}" "render w \<noteq> []" using render_hd [of w] Cons.prems(2) w by auto
      then have "skip_ws ?rest = ?rest"
        by (cases "render w"; cases ws) (auto simp: w skip_ws_def)
      moreover have "parse_items k ?rest = Some (vs, r)"
        using False Cons.prems k by (intro Cons.IH) (auto simp: join_Cons)
      ultimately show ?thesis using False
        by (simp add: k join_Cons rd delim_def skip_ws_other)
    qed
  qed simp
  obtain k where k: "n = Suc k" using JArr.prems(2) by (cases n) auto
  show ?case
  proof (cases "vs = []")
    case True
    then show ?thesis by (simp add: k skip_ws_other)
  next
    case False
    then obtain w ws where w: "vs = w # ws" by (cases vs) auto
    have ok: "json_ok v" if "v \<in> set vs" for v using JArr.prems(1) that by (simp add: list_all_iff)
    have "parse_items k (join 44 (map render vs) @ 93 # r) = Some (vs, r)"
      using False ok JArr.IH ok JArr.prems(2) k by (intro items) auto
    moreover obtain c cs where c: "join 44 (map render vs) = c # cs" "c \<notin> {32, 9, 10, 13, 93, 125}"
      using render_hd [OF ok [of w]] by (cases "render w"; cases ws) (auto simp: w)
    ultimately show ?thesis by (simp add: k c skip_ws_other)
  qed
next
  case (JObj kvs)
  let ?m = "\<lambda>(k, v). quote k @ 58 # render v"
  have key: "parse_key (quote k @ 58 # render v @ q) = Some (k, render v @ q)" if "json_ok v" for k v q
  proof -
    have "skip_ws (render v @ q) = render v @ q"
      using render_hd [OF that] by (cases "render v") (auto simp: skip_ws_def)
    then show ?thesis by (simp add: parse_key_def quote_def quote_read skip_ws_other)
  qed
  have members: "kvs \<noteq> [] \<Longrightarrow> (\<And>k v. (k, v) \<in> set kvs \<Longrightarrow> json_ok v) \<Longrightarrow>
      (\<And>k v m q. (k, v) \<in> set kvs \<Longrightarrow> 2 * length (render v) \<le> m \<Longrightarrow> delim q \<Longrightarrow>
         parse_value m (render v @ q) = Some (v, q)) \<Longrightarrow>
      2 * length (join 44 (map ?m kvs)) + 1 \<le> m \<Longrightarrow>
      parse_members m (join 44 (map ?m kvs) @ 125 # r) = Some (kvs, r)" for m kvs
  proof (induction kvs arbitrary: m)
    case (Cons p kvs)
    obtain k v where p: "p = (k, v)" by (cases p)
    obtain j where j: "m = Suc j" using Cons.prems(4) by (cases m) auto
    have ok: "json_ok v" using Cons.prems(2) [of k v] by (simp add: p)
    have rd: "parse_value j (render v @ q) = Some (v, q)" if "delim q" for q
      using Cons.prems(3) [of k v j q] that Cons.prems(4) j by (cases "kvs = []") (auto simp: join_Cons p)
    show ?case
    proof (cases "kvs = []")
      case True
      then show ?thesis by (simp add: p j key [OF ok] rd delim_def skip_ws_other)
    next
      case False
      let ?rest = "join 44 (map ?m kvs) @ 125 # r"
      obtain k' v' ws where w: "kvs = (k', v') # ws" using False by (cases kvs) auto
      have "skip_ws ?rest = ?rest" by (cases ws) (auto simp: w quote_def skip_ws_other)
      moreover have "parse_members j ?rest = Some (kvs, r)"
      proof (rule Cons.IH)
        fix k v m q assume "(k, v) \<in> set kvs" "2 * length (render v) \<le> m" "delim q"
        then show "parse_value m (render v @ q) = Some (v, q)" by (intro Cons.prems(3)) auto
      qed (use False Cons.prems(2,4) j in \<open>auto simp: join_Cons p\<close>)
      ultimately show ?thesis using False
        by (simp add: p j join_Cons key [OF ok] rd delim_def skip_ws_other)
    qed
  qed simp
  obtain j where j: "n = Suc j" using JObj.prems(2) by (cases n) auto
  show ?case
  proof (cases "kvs = []")
    case True
    then show ?thesis by (simp add: j skip_ws_other)
  next
    case False
    then obtain k v ws where w: "kvs = (k, v) # ws" by (cases kvs) auto
    have ok: "json_ok v" if "(k, v) \<in> set kvs" for k v using JObj.prems(1) that by (auto simp: list_all_iff)
    have "parse_members j (join 44 (map ?m kvs) @ 125 # r) = Some (kvs, r)"
    proof (rule members)
      fix k v m q
      assume "(k, v) \<in> set kvs" "2 * length (render v) \<le> m" "delim q"
      then show "parse_value m (render v @ q) = Some (v, q)"
        using JObj.IH [of "(k, v)" v] ok by (auto simp: snds.simps)
    qed (use False ok JObj.prems(2) j in auto)
    moreover obtain cs where "join 44 (map ?m kvs) = 34 # cs" by (cases ws) (auto simp: w quote_def)
    moreover have "obj kvs = JObj kvs" using JObj.prems(1) by (simp add: obj_distinct)
    ultimately show ?thesis by (simp add: j skip_ws_other)
  qed
next
  case (JStr t)
  then obtain k where "n = Suc k" by (cases n) (auto simp: quote_def)
  then show ?case by (simp add: quote_def quote_read)
next
  case (JInt i)
  obtain k where "n = Suc k" using JInt.prems(2) int_hd(1) [of i] by (cases n) auto
  moreover have "hd (u (show_int i)) \<notin> {34, 91, 123}" using int_hd(2) [of i] by auto
  ultimately show ?case using scalar_read [OF int_read int_hd(1)] JInt.prems(3) by simp
next
  case (JFloat t)
  then obtain k where "n = Suc k" by (cases n) (auto simp: float_ok_def)
  with JFloat show ?case by (simp add: float_ok_def scalar_read del: parse_value.simps)
next
  case JNull
  then obtain k where k: "n = Suc k" by (cases n) (auto simp: u_def)
  have "u ''null'' \<noteq> []" "hd (u ''null'') \<notin> {34, 91, 123}" by (simp_all add: u_def)
  from scalar_read [OF literal_read(1) this JNull(3), of k] show ?case by (simp add: k del: parse_value.simps)
next
  case (JBool b)
  then obtain k where k: "n = Suc k" by (cases n) (auto simp: u_def split: if_splits)
  have ne: "u ''true'' \<noteq> []" "hd (u ''true'') \<notin> {34, 91, 123}" "u ''false'' \<noteq> []" "hd (u ''false'') \<notin> {34, 91, 123}"
    by (simp_all add: u_def)
  from scalar_read [OF literal_read(2) ne(1,2) JBool(3), of k]
    scalar_read [OF literal_read(3) ne(3,4) JBool(3), of k]
  show ?case by (cases b) (simp_all add: k del: parse_value.simps)
qed

lemma distinct_sort_fst: "distinct (map fst kvs) \<Longrightarrow> distinct (map fst (sort_key fst kvs))"
  by (simp add: distinct_map)

lemma sorted_json_ok: "json_ok v \<Longrightarrow> json_ok (sorted_json v)"
proof (induction v rule: sorted_json.induct)
  case (2 kvs)
  have "map fst (map (\<lambda>(k, v). (k, sorted_json v)) kvs) = map fst kvs" by auto
  then have "distinct (map fst (sort_key fst (map (\<lambda>(k, v). (k, sorted_json v)) kvs)))"
    using 2(2) by (intro distinct_sort_fst) (simp del: map_map)
  with 2 show ?case by (fastforce simp: list_all_iff)
qed (auto simp: list_all_iff)

lemma loads_render: "json_ok v \<Longrightarrow> loads (render v) = Inr v"
proof -
  assume ok: "json_ok v"
  have "skip_ws (render v) = render v"
    using render_hd [OF ok] by (cases "render v") (auto simp: skip_ws_def)
  moreover have "parse_value (2 * length (render v) + 1) (render v @ []) = Some (v, [])"
    by (rule value_read [OF ok]) (simp_all add: delim_def)
  ultimately show ?thesis by (simp add: loads_def skip_ws_def del: parse_value.simps)
qed

lemma loads_canonical: "json_ok v \<Longrightarrow> loads (canonical v) = Inr (sorted_json v)"
  unfolding canonical_def by (intro loads_render sorted_json_ok)

subsection \<open>Bytes and characters\<close>

text \<open>\<^verbatim>\<open>str.encode()\<close>, only its length; a surrogate cannot be encoded.\<close>

definition utf8_width :: "nat \<Rightarrow> int" where
  "utf8_width c = (if c < 128 then 1 else if c < 2048 then 2 else if c < 65536 then 3 else 4)"

definition encoded_length :: "pystr \<Rightarrow> int res" where
  "encoded_length t =
     (if list_ex (\<lambda>c. 55296 \<le> c \<and> c \<le> 57343) t then Inl ValueError
      else Inr (sum_list (map utf8_width t)))"

text \<open>\<^verbatim>\<open>str.isspace()\<close> of a character\<close>

definition is_white :: "nat \<Rightarrow> bool" where
  "is_white c \<longleftrightarrow> 9 \<le> c \<and> c \<le> 13 \<or> 28 \<le> c \<and> c \<le> 32 \<or> 8192 \<le> c \<and> c \<le> 8202 \<or>
     c \<in> {133, 160, 5760, 8232, 8233, 8239, 8287, 12288}"

definition strip_white :: "pystr \<Rightarrow> pystr" where
  "strip_white t = rev (dropWhile is_white (rev (dropWhile is_white t)))"

subsection \<open>Reading a parsed value\<close>

text \<open>\<^verbatim>\<open>value.get(key)\<close>, where \<^verbatim>\<open>None\<close> stands for a missing key as well\<close>

fun json_get :: "string \<Rightarrow> json \<Rightarrow> json res" where
  "json_get k (JObj kvs) = Inr (case map_of kvs (u k) of None \<Rightarrow> JNull | Some v \<Rightarrow> v)"
| "json_get k _ = Inl AttributeError"

fun truthy :: "json \<Rightarrow> bool" where
  "truthy JNull = False"
| "truthy (JBool b) = b"
| "truthy (JInt i) = (i \<noteq> 0)"
| "truthy (JFloat t) = (\<exists>c \<in> set (takeWhile (\<lambda>c. c \<notin> {69, 101}) t). c \<notin> {45, 46, 48})"
| "truthy (JStr t) = (t \<noteq> [])"
| "truthy (JArr vs) = (vs \<noteq> [])"
| "truthy (JObj kvs) = (kvs \<noteq> [])"

lemma map_of_sorted:
  "distinct (map fst kvs) \<Longrightarrow>
    map_of (sort_key fst (map (\<lambda>(k, v). (k, f v)) kvs)) k = map_option f (map_of kvs k)"
proof -
  assume d: "distinct (map fst kvs)"
  let ?kvs = "map (\<lambda>(k, v). (k, f v)) kvs"
  have "map fst ?kvs = map fst kvs" by auto
  then have "map_of (sort_key fst ?kvs) = map_of ?kvs"
    using d distinct_sort_fst [of ?kvs] by (subst map_of_inject_set) (simp_all del: map_map)
  then show ?thesis by (simp add: map_of_map)
qed

lemma json_get_sorted:
  "json_ok v \<Longrightarrow> json_get k (sorted_json v) =
    (case v of JObj kvs \<Rightarrow> Inr (sorted_json (case map_of kvs (u k) of None \<Rightarrow> JNull | Some x \<Rightarrow> x))
     | _ \<Rightarrow> Inl AttributeError)"
  by (cases v) (auto simp: map_of_sorted split: option.split)

end
