(* ===== verification/ContextEngine.thy ===== *)
theory ContextEngine
  imports JsonText
begin

section \<open>The context compaction engine\<close>

text \<open>
  \<^verbatim>\<open>src/ai2apps/context_engine/core.py\<close>: messages are immutable nodes of a surface, a meter
  prices them, a policy says when the surface is too large, \<open>prepare\<close> selects a span to
  summarise, \<open>replacement\<close> puts the summary in its place if nothing relevant has changed, and
  \<open>compact\<close> is the bounded transaction around the two. The SHA-256 of the journal is the
  parameter \<open>sha\<close>; meters, stores and the summariser are the host's, and parameters here.
\<close>

subsection \<open>Nodes, surfaces, routes, policies\<close>

record node =
  nd_id :: pystr
  nd_json :: pystr
  nd_pinned :: bool

definition message :: "pystr \<Rightarrow> json \<Rightarrow> bool \<Rightarrow> node" where
  "message i m pin = \<lparr>nd_id = i, nd_json = canonical m, nd_pinned = pin\<rparr>"

definition body :: "node \<Rightarrow> json res" where
  "body n = loads (nd_json n)"

definition body_get :: "string \<Rightarrow> node \<Rightarrow> json res" where
  "body_get k n = bind_res (body n) (json_get k)"

record surface =
  sf_session :: pystr
  sf_nodes :: "node list"

definition mk_surface :: "pystr \<Rightarrow> node list \<Rightarrow> surface res" where
  "mk_surface sid ns =
     (if distinct (map nd_id ns) then Inr \<lparr>sf_session = sid, sf_nodes = ns\<rparr> else Inl ValueError)"

record route =
  rt_provider :: string
  rt_model :: string
  rt_capacity :: int
  rt_output :: int
  rt_unit :: string

definition mk_route :: "string \<Rightarrow> string \<Rightarrow> int \<Rightarrow> int \<Rightarrow> string \<Rightarrow> route res" where
  "mk_route provider model capacity output units =
     (if capacity \<le> 0 then Inl ValueError
      else if \<not> (0 \<le> output \<and> output < capacity) then Inl ValueError
      else if units \<notin> {''tokens'', ''utf8_bytes''} then Inl ValueError
      else if provider = [] \<or> model = [] then Inl ValueError
      else Inr \<lparr>rt_provider = provider, rt_model = model, rt_capacity = capacity,
                rt_output = output, rt_unit = units\<rparr>)"

record policy =
  threshold_ratio :: rat
  headroom :: int
  retain_ratio :: "rat option"
  retain_units :: "int option"
  summary_output :: int
  compaction_retries :: int
  overflow_retries :: int

definition default_policy :: policy where
  "default_policy = \<lparr>threshold_ratio = 8 / 10, headroom = 65536, retain_ratio = Some (16 / 100),
     retain_units = None, summary_output = 65536, compaction_retries = 1, overflow_retries = 1\<rparr>"

definition check_policy :: "policy \<Rightarrow> unit res" where
  "check_policy p =
     (if \<not> (0 < threshold_ratio p \<and> threshold_ratio p < 1) then Inl ValueError
      else if retain_units p = None \<and>
        (case retain_ratio p of None \<Rightarrow> True | Some r \<Rightarrow> \<not> (0 \<le> r \<and> r < threshold_ratio p))
      then Inl ValueError
      else if headroom p < 0 \<or> compaction_retries p < 0 \<or> overflow_retries p < 0 then Inl ValueError
      else if summary_output p \<le> 0 then Inl ValueError
      else if (case retain_units p of None \<Rightarrow> False | Some n \<Rightarrow> n < 0) then Inl ValueError
      else Inr ())"

definition budgets :: "policy \<Rightarrow> route \<Rightarrow> (int \<times> int) res" where
  "budgets p r =
     (let available = rt_capacity r - rt_output r;
          threshold = \<lfloor>min (of_int (rt_capacity r) * threshold_ratio p) (of_int (available - headroom p))\<rfloor>
      in bind_res
           (case retain_units p of
              Some n \<Rightarrow> Inr n
            | None \<Rightarrow> (case retain_ratio p of
                None \<Rightarrow> Inl TypeError | Some ratio \<Rightarrow> Inr \<lfloor>of_int available * ratio\<rfloor>))
           (\<lambda>retention.
              if threshold \<le> 0 \<or> retention \<ge> threshold then Inl ValueError
              else Inr (threshold, retention)))"

subsection \<open>Measuring\<close>

record meter =
  mt_unit :: string
  mt_node :: "node \<Rightarrow> route \<Rightarrow> int res"
  mt_envelope :: "surface \<Rightarrow> route \<Rightarrow> int res"

definition utf8_meter :: meter where
  "utf8_meter = \<lparr>mt_unit = ''utf8_bytes'', mt_node = (\<lambda>n r. encoded_length (nd_json n)),
     mt_envelope = (\<lambda>s r. Inr 0)\<rparr>"

definition costs :: "surface \<Rightarrow> route \<Rightarrow> meter \<Rightarrow> (int list \<times> int) res" where
  "costs s r m =
     (if mt_unit m \<noteq> rt_unit r then Inl ValueError
      else bind_res (map_res (\<lambda>n. mt_node m n r) (sf_nodes s)) (\<lambda>vs.
           bind_res (mt_envelope m s r) (\<lambda>e.
           if list_ex (\<lambda>v. v < 0) (vs @ [e]) then Inl ValueError
           else Inr (vs, sum_list vs + e))))"

subsection \<open>Tool call pairing\<close>

text \<open>What \<^verbatim>\<open>for call in calls\<close> goes through; every other truthy value fails at its first step.\<close>

fun calls_of :: "json \<Rightarrow> json list res" where
  "calls_of (JArr cs) = Inr cs"
| "calls_of (JStr t) = (if t = [] then Inr [] else Inl AttributeError)"
| "calls_of (JObj kvs) = (if kvs = [] then Inr [] else Inl AttributeError)"
| "calls_of v = (if truthy v then Inl TypeError else Inr [])"

fun add_calls :: "json list \<Rightarrow> pystr list \<Rightarrow> pystr list res" where
  "add_calls [] pending = Inr pending"
| "add_calls (c # cs) pending =
     bind_res (json_get ''id'' c) (\<lambda>i.
       case i of
         JStr t \<Rightarrow> if t = [] \<or> t \<in> set pending then Inl ValueError else add_calls cs (t # pending)
       | _ \<Rightarrow> Inl ValueError)"

fun take_result :: "json \<Rightarrow> pystr list \<Rightarrow> pystr list res" where
  "take_result (JStr t) pending =
     (if t \<in> set pending then Inr (removeAll t pending) else Inl ValueError)"
| "take_result (JArr _) pending = Inl TypeError"
| "take_result (JObj _) pending = Inl TypeError"
| "take_result _ pending = Inl ValueError"

definition has_role :: "string \<Rightarrow> node \<Rightarrow> bool res" where
  "has_role w n = bind_res (body_get ''role'' n) (\<lambda>r. Inr (r = JStr (u w)))"

definition balance_node :: "node \<Rightarrow> pystr list \<Rightarrow> pystr list res" where
  "balance_node n pending =
     bind_res (body_get ''tool_calls'' n) (\<lambda>calls.
     bind_res (has_role ''assistant'' n) (\<lambda>assistant.
     if truthy calls \<and> \<not> assistant then Inl ValueError
     else bind_res (calls_of calls) (\<lambda>cs.
          bind_res (add_calls cs pending) (\<lambda>pending.
          bind_res (has_role ''tool'' n) (\<lambda>tool.
          if tool then bind_res (body_get ''tool_call_id'' n) (\<lambda>i. take_result i pending)
          else Inr pending)))))"

fun cuts_from :: "pystr list \<Rightarrow> node list \<Rightarrow> bool list res" where
  "cuts_from pending [] = Inr []"
| "cuts_from pending (n # ns) =
     bind_res (balance_node n pending) (\<lambda>pending.
     bind_res (cuts_from pending ns) (\<lambda>cuts. Inr ((pending = []) # cuts)))"

definition balanced_cuts :: "surface \<Rightarrow> bool list res" where
  "balanced_cuts s = bind_res (cuts_from [] (sf_nodes s)) (\<lambda>cuts. Inr (True # cuts))"

subsection \<open>Selecting a span\<close>

record prepared =
  pr_session :: pystr
  pr_source :: "node list"
  pr_before :: "pystr list"
  pr_after :: "pystr list"
  pr_route :: route
  pr_cost :: int
  pr_sha :: pystr

definition slice :: "nat \<Rightarrow> nat \<Rightarrow> 'a list \<Rightarrow> 'a list" where
  "slice i j xs = drop i (take j xs)"

definition span :: "(pystr \<Rightarrow> pystr) \<Rightarrow> surface \<Rightarrow> route \<Rightarrow> int list \<Rightarrow> nat \<Rightarrow> nat \<Rightarrow> prepared res" where
  "span sha s r values i j =
     (let source = slice i j (sf_nodes s);
          journal = canonical (JArr (map (\<lambda>n. JStr (nd_json n)) source))
      in bind_res (encoded_length journal) (\<lambda>_.
         Inr \<lparr>pr_session = sf_session s, pr_source = source,
              pr_before = map nd_id (take i (sf_nodes s)), pr_after = map nd_id (drop j (sf_nodes s)),
              pr_route = r, pr_cost = sum_list (slice i j values), pr_sha = sha journal\<rparr>))"

text \<open>The system messages and pinned nodes at the head.\<close>

fun skip_head :: "node list \<Rightarrow> nat res" where
  "skip_head [] = Inr 0"
| "skip_head (n # ns) =
     (if nd_pinned n then bind_res (skip_head ns) (\<lambda>k. Inr (Suc k))
      else bind_res (has_role ''system'' n) (\<lambda>system.
           if system then bind_res (skip_head ns) (\<lambda>k. Inr (Suc k)) else Inr 0))"

text \<open>From the newest node back until the retained cost is reached.\<close>

fun keep_loop :: "int list \<Rightarrow> int \<Rightarrow> int \<Rightarrow> nat \<Rightarrow> nat" where
  "keep_loop [] acc retention keep = keep"
| "keep_loop (v # vs) acc retention keep =
     (if acc + v \<ge> retention then keep - 1 else keep_loop vs (acc + v) retention (keep - 1))"

definition first_pinned :: "node list \<Rightarrow> nat \<Rightarrow> nat \<Rightarrow> nat" where
  "first_pinned ns start keep =
     (case filter (\<lambda>i. nd_pinned (ns ! i)) [start..<keep] of [] \<Rightarrow> keep | i # _ \<Rightarrow> i)"

fun back_off :: "bool list \<Rightarrow> nat \<Rightarrow> nat \<Rightarrow> nat" where
  "back_off cuts start 0 = 0"
| "back_off cuts start (Suc k) =
     (if start < Suc k \<and> \<not> cuts ! Suc k then back_off cuts start k else Suc k)"

definition prepare ::
    "(pystr \<Rightarrow> pystr) \<Rightarrow> surface \<Rightarrow> route \<Rightarrow> meter \<Rightarrow> policy \<Rightarrow> string \<Rightarrow> prepared option res" where
  "prepare sha s r m p trigger =
     (if trigger \<notin> {''pressure'', ''context-overflow'', ''manual''} then Inl ValueError
      else bind_res (costs s r m) (\<lambda>(values, total_cost).
        bind_res (if trigger = ''pressure'' then budgets p r else Inr (0, 0)) (\<lambda>(threshold, retention).
        if trigger = ''pressure'' \<and> total_cost < threshold then Inr None
        else bind_res (balanced_cuts s) (\<lambda>cuts.
          bind_res (skip_head (sf_nodes s)) (\<lambda>start.
          if start = length (sf_nodes s) \<or> \<not> cuts ! start then Inr None
          else
            (let keep = keep_loop (rev values) 0 retention (length (sf_nodes s));
                 keep = min keep (first_pinned (sf_nodes s) start keep);
                 keep = back_off cuts start keep
             in if keep \<le> start then Inr None
                else bind_res (span sha s r values start keep) (\<lambda>x. Inr (Some x))))))))"

definition prepare_range ::
    "(pystr \<Rightarrow> pystr) \<Rightarrow> surface \<Rightarrow> route \<Rightarrow> meter \<Rightarrow> int \<Rightarrow> int \<Rightarrow> prepared res" where
  "prepare_range sha s r m i j =
     (if \<not> (0 \<le> i \<and> i < j \<and> j \<le> int (length (sf_nodes s))) then Inl ValueError
      else bind_res (costs s r m) (\<lambda>(values, _).
        bind_res (balanced_cuts s) (\<lambda>cuts.
        if \<not> cuts ! nat i \<or> \<not> cuts ! nat j then Inl ValueError
        else bind_res (map_res (\<lambda>n. if nd_pinned n then Inr True else has_role ''system'' n)
               (slice (nat i) (nat j) (sf_nodes s))) (\<lambda>protected.
          if True \<in> set protected then Inl ValueError
          else span sha s r values (nat i) (nat j)))))"

end
