(* ===== verification/ContextTransaction.thy ===== *)
theory ContextTransaction
  imports ContextEngine
begin

section \<open>Replacing a span: the compaction transaction\<close>

text \<open>
  The second half of \<^verbatim>\<open>src/ai2apps/context_engine/core.py\<close>: \<open>replacement\<close> (compare the
  prepared span with the current surface, then swap in the summary), the \<^verbatim>\<open>Store\<close> protocol as a
  record of operations on the host's state, \<open>compact\<close>, \<open>with_overflow_recovery\<close> and the policy
  table. The summariser may change the host's state while it runs. The journal store at the end
  is the adapter of \<^verbatim>\<open>src/tests/context_engine_isolated/test_engine.py\<close>.
\<close>

subsection \<open>Compare and swap\<close>

fun index_of :: "pystr \<Rightarrow> pystr list \<Rightarrow> nat option" where
  "index_of x [] = None"
| "index_of x (y # ys) = (if x = y then Some 0 else map_option Suc (index_of x ys))"

text \<open>\<^verbatim>\<open>role not in {"assistant", "user"}\<close>, which hashes the role\<close>

fun checkpoint_role :: "json \<Rightarrow> bool res" where
  "checkpoint_role (JStr t) = Inr (t = u ''assistant'' \<or> t = u ''user'')"
| "checkpoint_role (JArr _) = Inl TypeError"
| "checkpoint_role (JObj _) = Inl TypeError"
| "checkpoint_role _ = Inr False"

definition is_text :: "json \<Rightarrow> bool" where
  "is_text v = (case v of JStr t \<Rightarrow> strip_white t \<noteq> [] | _ \<Rightarrow> False)"

text \<open>The three checks of a summary, in their order.\<close>

definition check_summary :: "prepared \<Rightarrow> node \<Rightarrow> meter \<Rightarrow> unit res" where
  "check_summary p n m =
     (if nd_pinned n then Inl SummaryError
      else bind_res (body_get ''tool_calls'' n) (\<lambda>calls.
        if truthy calls then Inl SummaryError
        else bind_res (bind_res (body_get ''role'' n) checkpoint_role) (\<lambda>plain.
          if \<not> plain then Inl SummaryError
          else bind_res (body_get ''content'' n) (\<lambda>content.
            if \<not> is_text content then Inl SummaryError
            else bind_res (mt_node m n (pr_route p)) (\<lambda>c.
              if c \<ge> pr_cost p then Inl SummaryError else Inr ())))))"

definition replacement :: "prepared \<Rightarrow> surface \<Rightarrow> node \<Rightarrow> meter \<Rightarrow> surface res" where
  "replacement p s n m =
     (if sf_session s \<noteq> pr_session p then Inl ChangedError
      else if pr_source p = [] then Inl IndexError
      else (let ids = map nd_id (sf_nodes s) in
        (case index_of (nd_id (hd (pr_source p))) ids of
           None \<Rightarrow> Inl ChangedError
         | Some start \<Rightarrow>
             (let stop = start + length (pr_source p) in
              if slice start stop (sf_nodes s) \<noteq> pr_source p then Inl ChangedError
              else if take start ids \<noteq> pr_before p then Inl ChangedError
              else if slice stop (stop + length (pr_after p)) ids \<noteq> pr_after p then Inl ChangedError
              else bind_res (balanced_cuts s) (\<lambda>cuts.
                if \<not> cuts ! start \<or> \<not> cuts ! stop then Inl ChangedError
                else bind_res (check_summary p n m) (\<lambda>_.
                  mk_surface (sf_session s)
                    (take start (sf_nodes s) @ [n] @ drop stop (sf_nodes s))))))))"

subsection \<open>The store of the host\<close>

record 's store_ops =
  st_snapshot :: "'s \<Rightarrow> surface"
  st_route :: "'s \<Rightarrow> route"
  st_begin :: "prepared \<Rightarrow> ('s, pystr) method_st"
  st_commit :: "pystr \<Rightarrow> prepared \<Rightarrow> node \<Rightarrow> meter \<Rightarrow> ('s, surface) method_st"
  st_fail :: "pystr \<Rightarrow> string \<Rightarrow> ('s, unit) method_st"

definition lift_res :: "'a res \<Rightarrow> ('s, 'a) method_st" where
  "lift_res r s = (r, s)"

text \<open>The body of the \<^verbatim>\<open>try\<close>: summarise, look at the store again, commit.\<close>

definition attempt ::
    "'s store_ops \<Rightarrow> meter \<Rightarrow> (prepared \<Rightarrow> int \<Rightarrow> ('s, node) method_st) \<Rightarrow> policy \<Rightarrow>
     route \<Rightarrow> pystr \<Rightarrow> prepared \<Rightarrow> ('s, surface) method_st" where
  "attempt st m summarize p r token x =
     bind_st (summarize x (summary_output p)) (\<lambda>n.
     bind_st (gets (st_route st)) (\<lambda>r'.
     if r' \<noteq> r then raise_st ChangedError
     else bind_st (gets (st_snapshot st)) (\<lambda>now.
       bind_st (lift_res (replacement x now n m)) (\<lambda>_. st_commit st token x n m))))"

text \<open>The two handlers: the transaction is failed and the exception goes on.\<close>

definition guarded ::
    "'s store_ops \<Rightarrow> pystr \<Rightarrow> ('s, 'a) method_st \<Rightarrow> ('s, 'a) method_st" where
  "guarded st token act s =
     (case act s of
        (Inr x, s') \<Rightarrow> (Inr x, s')
      | (Inl e, s') \<Rightarrow>
          bind_st (st_fail st token (if e = CancelledError then ''cancelled'' else ''failed''))
            (\<lambda>_. raise_st e) s')"

definition below_threshold :: "surface \<Rightarrow> route \<Rightarrow> meter \<Rightarrow> policy \<Rightarrow> bool res" where
  "below_threshold s r m p =
     bind_res (costs s r m) (\<lambda>(_, c). bind_res (budgets p r) (\<lambda>(t, _). Inr (c < t)))"

text \<open>The \<^verbatim>\<open>for\<close> loop over the \<open>k\<close> rounds that are left.\<close>

primrec compact_loop ::
    "nat \<Rightarrow> (pystr \<Rightarrow> pystr) \<Rightarrow> 's store_ops \<Rightarrow> meter \<Rightarrow> (prepared \<Rightarrow> int \<Rightarrow> ('s, node) method_st) \<Rightarrow>
     policy \<Rightarrow> string \<Rightarrow> surface list \<Rightarrow> ('s, surface list) method_st" where
  "compact_loop 0 sha st m summarize p trigger results = raise_st SummaryError"
| "compact_loop (Suc k) sha st m summarize p trigger results =
     bind_st (gets (st_snapshot st)) (\<lambda>now.
     bind_st (gets (st_route st)) (\<lambda>r.
     bind_st (lift_res (prepare sha now r m p trigger)) (\<lambda>selected.
       (case selected of
          None \<Rightarrow> ret results
        | Some x \<Rightarrow>
            bind_st (st_begin st x) (\<lambda>token.
            bind_st (guarded st token (attempt st m summarize p r token x)) (\<lambda>projected.
            bind_st (lift_res (if trigger \<noteq> ''pressure'' then Inr True
                               else below_threshold projected r m p)) (\<lambda>done.
              if done then ret (results @ [projected])
              else compact_loop k sha st m summarize p trigger (results @ [projected]))))))))"

definition compact ::
    "(pystr \<Rightarrow> pystr) \<Rightarrow> 's store_ops \<Rightarrow> meter \<Rightarrow> (prepared \<Rightarrow> int \<Rightarrow> ('s, node) method_st) \<Rightarrow>
     policy \<Rightarrow> string \<Rightarrow> ('s, surface list) method_st" where
  "compact sha st m summarize p trigger =
     compact_loop (if trigger = ''pressure'' then nat (compaction_retries p + 1) else 1)
       sha st m summarize p trigger []"

subsection \<open>Overflow recovery\<close>

text \<open>\<open>k\<close> retries are left at the call; a call raises \<open>ContextOverflowError\<close> on overflow.\<close>

primrec overflow_loop ::
    "nat \<Rightarrow> ('s, 'a) method_st \<Rightarrow> ('s, bool) method_st \<Rightarrow> ('s, 'a) method_st" where
  "overflow_loop 0 call recover = call"
| "overflow_loop (Suc k) call recover = (\<lambda>s.
     (case call s of
        (Inl ContextOverflowError, s') \<Rightarrow>
          bind_st recover (\<lambda>progress.
            if progress then overflow_loop k call recover else raise_st ContextOverflowError) s'
      | r \<Rightarrow> r))"

definition with_overflow_recovery ::
    "('s, 'a) method_st \<Rightarrow> ('s, bool) method_st \<Rightarrow> int \<Rightarrow> ('s, 'a) method_st" where
  "with_overflow_recovery call recover retries =
     (if retries < 0 then raise_st ValueError else overflow_loop (nat retries) call recover)"

subsection \<open>Policies per route\<close>

record policies =
  ps_default :: policy
  ps_overrides :: "(string \<times> string \<times> policy) list"

definition mk_policies :: "policy \<Rightarrow> (string \<times> string \<times> policy) list \<Rightarrow> policies res" where
  "mk_policies d os =
     (let targets = map (\<lambda>(p, m, _). (p, m)) os in
      if \<not> distinct targets \<or> list_ex (\<lambda>(p, m). p = [] \<or> m = []) targets then Inl ValueError
      else Inr \<lparr>ps_default = d, ps_overrides = os\<rparr>)"

definition resolve :: "policies \<Rightarrow> route \<Rightarrow> policy" where
  "resolve ps r =
     (case filter (\<lambda>(p, m, _). (p, m) = (rt_provider r, rt_model r)) (ps_overrides ps) of
        [] \<Rightarrow> ps_default ps | (_, _, q) # _ \<Rightarrow> q)"

subsection \<open>The journal store\<close>

datatype entry =
    Start pystr pystr | Checkpoint pystr pystr | End pystr string

record journal_store =
  js_value :: surface
  js_target :: route
  js_journal :: "entry list"
  js_active :: "pystr option"

definition js_begin :: "prepared \<Rightarrow> (journal_store, pystr) method_st" where
  "js_begin x s =
     (if js_active s \<noteq> None then (Inl BusyError, s)
      else (let token = u (show_int (int (length (js_journal s))))
            in (Inr token, s\<lparr>js_active := Some token,
                  js_journal := js_journal s @ [Start token (pr_sha x)]\<rparr>)))"

definition js_commit ::
    "pystr \<Rightarrow> prepared \<Rightarrow> node \<Rightarrow> meter \<Rightarrow> (journal_store, surface) method_st" where
  "js_commit token x n m s =
     (if js_active s \<noteq> Some token then (Inl BusyError, s)
      else if js_target s \<noteq> pr_route x then (Inl ChangedError, s)
      else (case replacement x (js_value s) n m of
              Inl e \<Rightarrow> (Inl e, s)
            | Inr new \<Rightarrow> (Inr new, s\<lparr>js_value := new,
                js_journal := js_journal s @ [Checkpoint (pr_sha x) (nd_json n), End token ''committed''],
                js_active := None\<rparr>)))"

definition js_fail :: "pystr \<Rightarrow> string \<Rightarrow> (journal_store, unit) method_st" where
  "js_fail token code s =
     (if js_active s \<noteq> Some token then (Inl BusyError, s)
      else (Inr (), s\<lparr>js_journal := js_journal s @ [End token code], js_active := None\<rparr>))"

definition js_recover :: "(journal_store, unit) method_st" where
  "js_recover s = (case js_active s of None \<Rightarrow> (Inr (), s) | Some t \<Rightarrow> js_fail t ''interrupted'' s)"

definition journal_ops :: "journal_store store_ops" where
  "journal_ops = \<lparr>st_snapshot = js_value, st_route = js_target, st_begin = js_begin,
     st_commit = js_commit, st_fail = js_fail\<rparr>"

end
