(* ===== verification/SpanLemmas.thy ===== *)
theory SpanLemmas
  imports ContextTransaction
begin

section \<open>Selected spans and what replacing them does\<close>

text \<open>
  Facts on the pieces of \<open>prepare\<close> and \<open>replacement\<close>: the span that is selected
  (\<open>prepare_SomeE\<close>), tool pairing over concatenated nodes (\<open>cuts_from_append\<close>), and the
  exact condition under which a summary replaces its span (\<open>replacement_iff\<close>).
\<close>

subsection \<open>Tool pairing\<close>

text \<open>The calls left pending by a list of nodes.\<close>

fun pending_after :: "pystr list \<Rightarrow> node list \<Rightarrow> pystr list res" where
  "pending_after q [] = Inr q"
| "pending_after q (n # ns) = bind_res (balance_node n q) (\<lambda>q. pending_after q ns)"

lemma pending_after_append:
  "pending_after q (xs @ ys) = bind_res (pending_after q xs) (\<lambda>q. pending_after q ys)"
  by (induction xs arbitrary: q) (auto simp: bind_res_def split: sum.splits)

lemma cuts_from_append:
  "cuts_from q (xs @ ys) = Inr cs \<longleftrightarrow>
    (\<exists>q' as bs. pending_after q xs = Inr q' \<and> cuts_from q xs = Inr as \<and> cuts_from q' ys = Inr bs \<and>
      cs = as @ bs)"
  by (induction xs arbitrary: q cs) (fastforce simp: bind_res_Inr_iff)+

lemma cuts_from_length: "cuts_from q ns = Inr cs \<Longrightarrow> length cs = length ns"
  by (induction ns arbitrary: q cs) (auto simp: bind_res_Inr_iff)

lemma cuts_from_last:
  "cuts_from q ns = Inr cs \<Longrightarrow>
    \<exists>q'. pending_after q ns = Inr q' \<and> last ((q = []) # cs) = (q' = [])"
  by (induction ns arbitrary: q cs) (auto simp: bind_res_Inr_iff)

text \<open>A cut that holds after \<open>xs\<close> means that nothing is pending there.\<close>

lemma balanced_cuts_append:
  assumes "sf_nodes s = xs @ ys"
  shows "balanced_cuts s = Inr cs \<and> cs ! length xs \<longleftrightarrow>
    (\<exists>as bs. cuts_from [] xs = Inr as \<and> pending_after [] xs = Inr [] \<and> cuts_from [] ys = Inr bs \<and>
      cs = True # as @ bs)"
proof -
  have nth: "(True # as @ bs) ! length xs = last (True # as)" if "length as = length xs" for as bs :: "bool list"
    using that by (simp add: nth_append last_conv_nth nth_Cons' del: last.simps)
  show ?thesis
  proof
    assume l: "balanced_cuts s = Inr cs \<and> cs ! length xs"
    then obtain q as bs where p: "pending_after [] xs = Inr q" "cuts_from [] xs = Inr as"
      "cuts_from q ys = Inr bs" "cs = True # as @ bs"
      by (auto simp: balanced_cuts_def assms bind_res_Inr_iff cuts_from_append)
    then have "last (True # as)" using l nth [OF cuts_from_length [OF p(2)]] by simp
    then have "q = []" using cuts_from_last [OF p(2)] p(1) by simp
    with p show "\<exists>as bs. cuts_from [] xs = Inr as \<and> pending_after [] xs = Inr [] \<and>
      cuts_from [] ys = Inr bs \<and> cs = True # as @ bs" by auto
  next
    assume "\<exists>as bs. cuts_from [] xs = Inr as \<and> pending_after [] xs = Inr [] \<and>
      cuts_from [] ys = Inr bs \<and> cs = True # as @ bs"
    then obtain as bs where p: "cuts_from [] xs = Inr as" "pending_after [] xs = Inr []"
      "cuts_from [] ys = Inr bs" "cs = True # as @ bs" by blast
    have "last (True # as)" using cuts_from_last [OF p(1)] p(2) by simp
    then have "cs ! length xs" using nth [OF cuts_from_length [OF p(1)]] p(4) by simp
    moreover have "cuts_from [] (xs @ ys) = Inr (as @ bs)"
      unfolding cuts_from_append using p by blast
    ultimately show "balanced_cuts s = Inr cs \<and> cs ! length xs"
      using p(4) by (simp add: balanced_cuts_def assms)
  qed
qed

lemma pending_after_cuts: "pending_after q ns = Inr q' \<Longrightarrow> \<exists>cs. cuts_from q ns = Inr cs"
  by (induction ns arbitrary: q) (auto simp: bind_res_Inr_iff)

text \<open>A span between two cuts: every part is paired for itself.\<close>

lemma balanced_span:
  assumes nodes: "sf_nodes s = pre @ src @ post"
  shows "(\<exists>cs. balanced_cuts s = Inr cs \<and> cs ! length pre \<and> cs ! (length pre + length src)) \<longleftrightarrow>
    (\<exists>cs. pending_after [] pre = Inr [] \<and> pending_after [] src = Inr [] \<and> cuts_from [] post = Inr cs)"
    (is "?l = ?r")
proof
  assume ?l
  then obtain cs where cs: "balanced_cuts s = Inr cs \<and> cs ! length pre"
    "balanced_cuts s = Inr cs \<and> cs ! length (pre @ src)" by auto
  from cs(1) have "pending_after [] pre = Inr []"
    using balanced_cuts_append [OF nodes] by blast
  moreover have "pending_after [] (pre @ src) = Inr []" "\<exists>cs. cuts_from [] post = Inr cs"
    using cs(2) balanced_cuts_append [of s "pre @ src" post] nodes by auto
  ultimately show ?r by (auto simp: pending_after_append)
next
  assume ?r
  then obtain cp where p: "pending_after [] pre = Inr []" "pending_after [] src = Inr []"
    "cuts_from [] post = Inr cp" by blast
  obtain ca cb where c: "cuts_from [] pre = Inr ca" "cuts_from [] src = Inr cb"
    using p pending_after_cuts by blast
  have "cuts_from [] (src @ post) = Inr (cb @ cp)" unfolding cuts_from_append using p c by blast
  moreover have "cuts_from [] (pre @ src) = Inr (ca @ cb)" unfolding cuts_from_append using p c by blast
  moreover have "pending_after [] (pre @ src) = Inr []" by (simp add: pending_after_append p)
  ultimately show ?l
    using balanced_cuts_append [OF nodes, of "True # ca @ cb @ cp"]
      balanced_cuts_append [of s "pre @ src" post "True # ca @ cb @ cp"] p c nodes by auto
qed

subsection \<open>The summary\<close>

text \<open>What \<open>check_summary\<close> accepts: a plain text message by the user or the assistant that costs less.\<close>

definition plain_text :: "node \<Rightarrow> bool" where
  "plain_text n \<longleftrightarrow> \<not> nd_pinned n \<and> (\<exists>calls t. body_get ''tool_calls'' n = Inr calls \<and> \<not> truthy calls \<and>
     body_get ''role'' n \<in> {Inr (JStr (u ''assistant'')), Inr (JStr (u ''user''))} \<and>
     body_get ''content'' n = Inr (JStr t) \<and> strip_white t \<noteq> [])"

lemma checkpoint_role_iff:
  "checkpoint_role v = Inr True \<longleftrightarrow> v \<in> {JStr (u ''assistant''), JStr (u ''user'')}"
  by (cases v) auto

lemma is_text_iff: "is_text v \<longleftrightarrow> (\<exists>t. v = JStr t \<and> strip_white t \<noteq> [])"
  by (cases v) (auto simp: is_text_def)

lemma check_summary_iff:
  "check_summary p n m = Inr () \<longleftrightarrow>
    plain_text n \<and> (\<exists>c. mt_node m n (pr_route p) = Inr c \<and> c < pr_cost p)"
proof
  assume "check_summary p n m = Inr ()"
  then obtain calls role content c where n: "\<not> nd_pinned n" "body_get ''tool_calls'' n = Inr calls"
    "\<not> truthy calls" "body_get ''role'' n = Inr role" "checkpoint_role role = Inr True"
    "body_get ''content'' n = Inr content" "is_text content" "mt_node m n (pr_route p) = Inr c" "c < pr_cost p"
    by (auto simp: check_summary_def bind_res_Inr_iff split: if_splits)
  have "role = JStr (u ''assistant'') \<or> role = JStr (u ''user'')"
    using n(5) by (simp add: checkpoint_role_iff)
  moreover obtain t where "content = JStr t" "strip_white t \<noteq> []"
    using n(7) by (auto simp: is_text_iff)
  ultimately show "plain_text n \<and> (\<exists>c. mt_node m n (pr_route p) = Inr c \<and> c < pr_cost p)"
    unfolding plain_text_def using n by auto
next
  assume "plain_text n \<and> (\<exists>c. mt_node m n (pr_route p) = Inr c \<and> c < pr_cost p)"
  then show "check_summary p n m = Inr ()"
    by (auto simp: check_summary_def plain_text_def is_text_iff)
qed

lemma plain_text_balance: "plain_text n \<Longrightarrow> balance_node n q = Inr q"
proof -
  assume "plain_text n"
  then obtain calls where c: "body_get ''tool_calls'' n = Inr calls" "\<not> truthy calls"
    and r: "body_get ''role'' n \<in> {Inr (JStr (u ''assistant'')), Inr (JStr (u ''user''))}"
    by (auto simp: plain_text_def)
  have "calls_of calls = Inr []" using c(2) by (cases calls) auto
  moreover have "has_role ''tool'' n = Inr False" "\<exists>b. has_role ''assistant'' n = Inr b"
    using r by (auto simp: has_role_def u_def)
  ultimately show ?thesis using c by (auto simp: balance_node_def)
qed


subsection \<open>Compare and swap\<close>

lemma index_of_append: "x \<notin> set xs \<Longrightarrow> index_of x (xs @ x # ys) = Some (length xs)"
  by (induction xs) auto

lemma slice_append [simp]:
  "i = length xs \<Longrightarrow> j = length xs + length ys \<Longrightarrow> slice i j (xs @ ys @ zs) = ys"
  by (simp add: slice_def)

lemma slice_take: "slice (length xs) (length xs + k) (xs @ ys) = take k ys"
  by (simp add: slice_def)

lemma slice_map: "slice i j (map f xs) = map f (slice i j xs)"
  by (simp add: slice_def take_map drop_map)

lemma slice_eqD:
  assumes "slice i (i + length ys) xs = ys" and "ys \<noteq> []"
  shows "xs = take i xs @ ys @ drop (i + length ys) xs" "length (take i xs) = i"
proof -
  have "length (take (i + length ys) xs) - i = length ys"
    using arg_cong [OF assms(1), of length] by (simp add: slice_def)
  then have i: "i + length ys \<le> length xs" using assms(2) by (cases ys) simp_all
  then show "length (take i xs) = i" by simp
  have "take (i + length ys) xs = take i xs @ ys"
    using assms(1) i by (metis append_take_drop_id le_add1 min.absorb1 slice_def take_take)
  then show "xs = take i xs @ ys @ drop (i + length ys) xs"
    by (metis append.assoc append_take_drop_id)
qed

text \<open>
  \<open>fits p s pre post\<close>: the prepared span stands in \<open>s\<close> between \<open>pre\<close> and \<open>post\<close>, with the
  neighbours that were recorded and no tool call across its ends.
\<close>

definition fits :: "prepared \<Rightarrow> surface \<Rightarrow> node list \<Rightarrow> node list \<Rightarrow> bool" where
  "fits p s pre post \<longleftrightarrow> sf_session s = pr_session p \<and> pr_source p \<noteq> [] \<and>
     sf_nodes s = pre @ pr_source p @ post \<and> map nd_id pre = pr_before p \<and>
     take (length (pr_after p)) (map nd_id post) = pr_after p \<and>
     (\<exists>cs. pending_after [] pre = Inr [] \<and> pending_after [] (pr_source p) = Inr [] \<and>
       cuts_from [] post = Inr cs)"

lemma replacement_fits:
  assumes r: "replacement p s n m = Inr s'"
  shows "\<exists>pre post. fits p s pre post \<and> check_summary p n m = Inr () \<and>
      mk_surface (sf_session s) (pre @ [n] @ post) = Inr s'"
proof -
  let ?src = "pr_source p" and ?ids = "map nd_id (sf_nodes s)"
  from r obtain i where i: "index_of (nd_id (hd ?src)) ?ids = Some i" and src: "?src \<noteq> []"
    by (auto simp: replacement_def Let_def split: if_splits option.splits)
  let ?pre = "take i (sf_nodes s)" and ?post = "drop (i + length ?src) (sf_nodes s)"
  from r i src have sl: "slice i (i + length ?src) (sf_nodes s) = ?src"
    by (auto simp: replacement_def Let_def split: if_splits)
  note nodes = slice_eqD [OF sl src]
  from r i src have p: "sf_session s = pr_session p" "map nd_id ?pre = pr_before p"
    "slice (i + length ?src) (i + length ?src + length (pr_after p)) ?ids = pr_after p"
    "check_summary p n m = Inr ()" "mk_surface (sf_session s) (?pre @ [n] @ ?post) = Inr s'"
    "\<exists>cs. balanced_cuts s = Inr cs \<and> cs ! i \<and> cs ! (i + length ?src)"
    by (auto simp: replacement_def Let_def bind_res_Inr_iff take_map drop_map split: if_splits)
  have "\<exists>cs. pending_after [] ?pre = Inr [] \<and> pending_after [] ?src = Inr [] \<and> cuts_from [] ?post = Inr cs"
    using p(6) balanced_span [OF nodes(1)] by (simp only: nodes(2))
  moreover have "take (length (pr_after p)) (map nd_id ?post) = pr_after p"
    using p(3) by (simp add: slice_def take_map drop_map drop_take)
  ultimately have "fits p s ?pre ?post"
    unfolding fits_def using p(1,2) src nodes(1) by blast
  then show "\<exists>pre post. fits p s pre post \<and> check_summary p n m = Inr () \<and>
      mk_surface (sf_session s) (pre @ [n] @ post) = Inr s'"
    using p(4,5) by blast
qed

lemma replacement_at:
  assumes "distinct (map nd_id (sf_nodes s))" and f: "fits p s pre post"
  shows "replacement p s n m =
    bind_res (check_summary p n m) (\<lambda>_. mk_surface (sf_session s) (pre @ [n] @ post))"
proof -
  let ?src = "pr_source p"
  from f have nodes: "sf_nodes s = pre @ ?src @ post" and src: "?src \<noteq> []" by (simp_all add: fits_def)
  obtain k ks where ks: "?src = k # ks" using src by (cases ?src) auto
  have i: "index_of (nd_id (hd ?src)) (map nd_id (sf_nodes s)) = Some (length pre)"
    using assms index_of_append [of "nd_id k" "map nd_id pre" "map nd_id (ks @ post)"]
    by (auto simp: nodes ks)
  obtain cs where cs: "balanced_cuts s = Inr cs" "cs ! length pre" "cs ! (length pre + length ?src)"
    using f balanced_span [OF nodes] by (auto simp: fits_def)
  have "slice (length pre + length ?src) (length pre + length ?src + length (pr_after p))
      (map nd_id (sf_nodes s)) = pr_after p"
    using slice_take [of "pre @ ?src" "length (pr_after p)" post] f
    by (simp add: fits_def nodes slice_map take_map del: map_append)
  moreover have "take (length pre) (map nd_id (sf_nodes s)) = pr_before p"
    using f by (simp add: nodes fits_def take_map del: map_append)
  ultimately show ?thesis
    using f i cs src by (simp add: replacement_def Let_def fits_def)
qed

lemma replacement_iff:
  assumes "distinct (map nd_id (sf_nodes s))"
  shows "replacement p s n m = Inr s' \<longleftrightarrow>
    (\<exists>pre post. fits p s pre post \<and> check_summary p n m = Inr () \<and>
      mk_surface (sf_session s) (pre @ [n] @ post) = Inr s')"
  using replacement_fits [of p s n m s'] replacement_at [OF assms, of p _ _ n m] by auto

lemma mk_surface_Inr: "mk_surface sid ns = Inr s \<longleftrightarrow> distinct (map nd_id ns) \<and> s = \<lparr>sf_session = sid, sf_nodes = ns\<rparr>"
  by (auto simp: mk_surface_def)

text \<open>The projected surface is paired again.\<close>

lemma replaced_balanced:
  assumes "fits p s pre post" and "plain_text n" and "sf_nodes s' = pre @ [n] @ post"
  shows "\<exists>cs. balanced_cuts s' = Inr cs"
proof -
  obtain cs where p: "pending_after [] pre = Inr []" "cuts_from [] post = Inr cs"
    using assms(1) by (auto simp: fits_def)
  obtain ca where "cuts_from [] pre = Inr ca" using p(1) pending_after_cuts by blast
  moreover have "cuts_from [] (n # post) = Inr (True # cs)"
    using plain_text_balance [OF assms(2)] p(2) by simp
  ultimately have "cuts_from [] (pre @ n # post) = Inr (ca @ True # cs)"
    unfolding cuts_from_append using p(1) by blast
  then show ?thesis using assms(3) by (simp add: balanced_cuts_def)
qed


subsection \<open>Selection\<close>

lemma costs_InrD:
  assumes "costs s r m = Inr (values, c)"
  shows "length values = length (sf_nodes s)" "\<forall>v \<in> set values. 0 \<le> v"
    "list_all2 (\<lambda>n v. mt_node m n r = Inr v) (sf_nodes s) values"
    "\<exists>e. mt_envelope m s r = Inr e \<and> 0 \<le> e \<and> c = sum_list values + e"
  using assms
  by (auto simp: costs_def bind_res_Inr_iff map_res_Inr_iff list_ex_iff list_all2_lengthD
      split: if_splits intro: list_all2_lengthD [symmetric])

lemma skip_head_bound: "skip_head ns = Inr k \<Longrightarrow> k \<le> length ns"
  by (induction ns arbitrary: k) (auto simp: bind_res_Inr_iff split: if_splits)

lemma skip_head_next:
  "skip_head ns = Inr k \<Longrightarrow> k < length ns \<Longrightarrow>
    \<not> nd_pinned (ns ! k) \<and> has_role ''system'' (ns ! k) = Inr False"
  by (induction ns arbitrary: k) (auto simp: bind_res_Inr_iff split: if_splits)

lemma skip_head_before:
  "skip_head ns = Inr k \<Longrightarrow> i < k \<Longrightarrow>
    nd_pinned (ns ! i) \<or> has_role ''system'' (ns ! i) = Inr True"
proof (induction ns arbitrary: k i)
  case (Cons n ns)
  then show ?case by (cases i) (auto simp: bind_res_Inr_iff split: if_splits)
qed simp

text \<open>The newest node is always kept, and what is kept is worth the retention.\<close>

lemma keep_loop_spec:
  assumes "0 < n" and "n \<le> length vs"
  shows "keep_loop (rev (take n vs)) (sum_list (drop n vs)) w n < n"
    "keep_loop (rev (take n vs)) (sum_list (drop n vs)) w n = 0 \<or>
     w \<le> sum_list (drop (keep_loop (rev (take n vs)) (sum_list (drop n vs)) w n) vs)"
proof -
  have "keep_loop (rev (take n vs)) (sum_list (drop n vs)) w n < n \<and>
     (keep_loop (rev (take n vs)) (sum_list (drop n vs)) w n = 0 \<or>
      w \<le> sum_list (drop (keep_loop (rev (take n vs)) (sum_list (drop n vs)) w n) vs))"
    using assms
  proof (induction n)
    case (Suc n)
    then have n: "n < length vs" by simp
    have "take (Suc n) vs = take n vs @ [vs ! n]" using n by (rule take_Suc_conv_app_nth)
    moreover have "drop n vs = vs ! n # drop (Suc n) vs" using n by (rule Cons_nth_drop_Suc [symmetric])
    ultimately show ?case
      using Suc.IH n by (cases "n = 0") (auto simp: add.commute)
  qed simp
  then show "keep_loop (rev (take n vs)) (sum_list (drop n vs)) w n < n"
    "keep_loop (rev (take n vs)) (sum_list (drop n vs)) w n = 0 \<or>
     w \<le> sum_list (drop (keep_loop (rev (take n vs)) (sum_list (drop n vs)) w n) vs)" by auto
qed

lemma first_pinned_cases:
  "first_pinned ns i j = j \<and> (\<forall>k. i \<le> k \<and> k < j \<longrightarrow> \<not> nd_pinned (ns ! k)) \<or>
   first_pinned ns i j < j \<and> (\<forall>k. i \<le> k \<and> k < first_pinned ns i j \<longrightarrow> \<not> nd_pinned (ns ! k))"
proof (cases "filter (\<lambda>k. nd_pinned (ns ! k)) [i..<j]")
  case Nil
  then show ?thesis by (auto simp: first_pinned_def filter_empty_conv)
next
  case (Cons k ks)
  then obtain us vs where us: "[i..<j] = us @ k # vs" "\<forall>l \<in> set us. \<not> nd_pinned (ns ! l)"
    by (auto dest!: Cons_eq_filterD [OF sym])
  have ord: "sorted_wrt (<) (us @ k # vs)" using sorted_wrt_upt [of i j] us(1) by simp
  have k: "k \<in> set [i..<j]" by (simp add: us(1))
  have "l \<in> set us" if "i \<le> l" "l < k" for l
  proof -
    have "l \<in> set [i..<j]" using that k by simp
    then have "l \<in> set (us @ k # vs)" by (simp only: us(1))
    then show ?thesis using ord that by (auto simp: sorted_wrt_append)
  qed
  moreover have "k < j" using k by simp
  ultimately show ?thesis using us(2) Cons by (auto simp: first_pinned_def)
qed

lemma first_pinned_le: "first_pinned ns i j \<le> j"
  using first_pinned_cases [of ns i j] by auto

lemma first_pinned_none: "i \<le> k \<Longrightarrow> k < first_pinned ns i j \<Longrightarrow> \<not> nd_pinned (ns ! k)"
  using first_pinned_cases [of ns i j] by auto

lemma back_off_le: "back_off cuts i k \<le> k"
  by (induction k) auto

lemma back_off_cut: "i < back_off cuts i k \<Longrightarrow> cuts ! back_off cuts i k"
  by (induction k) (auto split: if_splits)

lemma sum_list_drop_mono:
  assumes "\<forall>v \<in> set vs. (0 :: int) \<le> v" and "i \<le> j"
  shows "sum_list (drop j vs) \<le> sum_list (drop i vs)"
proof -
  have "drop i vs = take (j - i) (drop i vs) @ drop j vs"
    using assms(2) by (metis append_take_drop_id drop_drop le_add_diff_inverse2)
  moreover have "0 \<le> sum_list (take (j - i) (drop i vs))"
    using assms(1) by (intro sum_list_nonneg) (auto dest!: in_set_takeD in_set_dropD)
  ultimately show ?thesis by (metis add_increasing order_refl sum_list_append)
qed


lemma span_Inr:
  assumes "span sha s r values i j = Inr x" and "i \<le> j" and "j \<le> length (sf_nodes s)"
  shows "sf_nodes s = take i (sf_nodes s) @ pr_source x @ drop j (sf_nodes s)"
    "length (pr_source x) = j - i" "pr_session x = sf_session s"
    "pr_before x = map nd_id (take i (sf_nodes s))" "pr_after x = map nd_id (drop j (sf_nodes s))"
    "pr_route x = r" "pr_cost x = sum_list (slice i j values)"
proof -
  have x: "x = \<lparr>pr_session = sf_session s, pr_source = slice i j (sf_nodes s),
      pr_before = map nd_id (take i (sf_nodes s)), pr_after = map nd_id (drop j (sf_nodes s)),
      pr_route = r, pr_cost = sum_list (slice i j values), pr_sha = pr_sha x\<rparr>"
    using assms(1) by (auto simp: span_def Let_def bind_res_Inr_iff)
  have "take j (sf_nodes s) = take i (sf_nodes s) @ slice i j (sf_nodes s)"
    unfolding slice_def using assms(2) by (metis append_take_drop_id min.absorb1 take_take)
  then have "sf_nodes s = take i (sf_nodes s) @ slice i j (sf_nodes s) @ drop j (sf_nodes s)"
    by (metis append.assoc append_take_drop_id)
  moreover have src: "pr_source x = slice i j (sf_nodes s)" by (subst x) simp
  ultimately show "sf_nodes s = take i (sf_nodes s) @ pr_source x @ drop j (sf_nodes s)"
    by (simp only: src)
  show "length (pr_source x) = j - i" using assms(3) by (simp add: src slice_def)
  show "pr_session x = sf_session s" "pr_before x = map nd_id (take i (sf_nodes s))"
    "pr_after x = map nd_id (drop j (sf_nodes s))" "pr_route x = r" "pr_cost x = sum_list (slice i j values)"
    by (subst x, simp)+
qed

text \<open>All that \<open>prepare\<close> guarantees of a span it selects from \<open>i\<close> to \<open>j\<close>.\<close>

definition selected ::
    "(pystr \<Rightarrow> pystr) \<Rightarrow> surface \<Rightarrow> route \<Rightarrow> meter \<Rightarrow> prepared \<Rightarrow> nat \<Rightarrow> nat \<Rightarrow> int list \<Rightarrow> bool list \<Rightarrow> int \<Rightarrow> bool" where
  "selected sha s r m x i j values cuts c \<longleftrightarrow>
     i < j \<and> j < length (sf_nodes s) \<and> costs s r m = Inr (values, c) \<and> balanced_cuts s = Inr cuts \<and>
     skip_head (sf_nodes s) = Inr i \<and> cuts ! i \<and> cuts ! j \<and>
     (\<forall>k. i \<le> k \<and> k < j \<longrightarrow> \<not> nd_pinned (sf_nodes s ! k)) \<and> span sha s r values i j = Inr x"

lemma prepare_Some:
  assumes "prepare sha s r m p trigger = Inr (Some x)"
  shows "\<exists>i j values cuts c w. selected sha s r m x i j values cuts c \<and> w \<le> sum_list (drop j values) \<and>
    (if trigger = ''pressure'' then \<exists>t. budgets p r = Inr (t, w) \<and> t \<le> c else w = 0)"
proof -
  from assms obtain vs c t w cuts i where
    c: "costs s r m = Inr (vs, c)" and
    b: "(if trigger = ''pressure'' then budgets p r else Inr (0, 0)) = Inr (t, w)" and
    p: "\<not> (trigger = ''pressure'' \<and> c < t)" and
    cuts: "balanced_cuts s = Inr cuts" and i: "skip_head (sf_nodes s) = Inr i" and
    here: "i \<noteq> length (sf_nodes s)" "cuts ! i"
    unfolding prepare_def by (auto simp: bind_res_Inr_iff Let_def split: if_splits)
  define k1 where "k1 = keep_loop (rev vs) 0 w (length (sf_nodes s))"
  define k2 where "k2 = min k1 (first_pinned (sf_nodes s) i k1)"
  define j where "j = back_off cuts i k2"
  have x: "i < j" "span sha s r vs i j = Inr x"
    using assms here p
    by (auto simp: prepare_def c b cuts i Let_def k1_def [symmetric] k2_def [symmetric] j_def [symmetric]
        bind_res_Inr_iff split: if_splits)
  note cs = costs_InrD [OF c]
  have "0 < length (sf_nodes s)" using here(1) skip_head_bound [OF i] by arith
  then have n: "0 < length vs" by (simp only: cs(1))
  have k1: "k1 < length (sf_nodes s)" "k1 = 0 \<or> w \<le> sum_list (drop k1 vs)"
    using keep_loop_spec [OF n order_refl, of w] by (simp_all add: k1_def cs(1))
  have le: "j \<le> k2" "k2 \<le> k1" "k2 \<le> first_pinned (sf_nodes s) i k1"
    unfolding j_def by (rule back_off_le) (simp_all add: k2_def)
  have "\<not> nd_pinned (sf_nodes s ! k)" if "i \<le> k" "k < j" for k
    using first_pinned_none [of i k "sf_nodes s" k1] that le by simp
  moreover have "cuts ! j" using back_off_cut x(1) by (simp add: j_def)
  moreover have "j < length (sf_nodes s)" using le k1(1) by simp
  ultimately have "selected sha s r m x i j vs cuts c"
    using x c cuts i here(2) by (simp add: selected_def)
  moreover have "w \<le> sum_list (drop j vs)"
  proof -
    have "k1 \<noteq> 0" using x(1) le by simp
    then show ?thesis using k1(2) le sum_list_drop_mono [OF cs(2), of j k1] by simp
  qed
  moreover have "if trigger = ''pressure'' then \<exists>t. budgets p r = Inr (t, w) \<and> t \<le> c else w = 0"
    using b p by (auto split: if_splits)
  ultimately show ?thesis by blast
qed

text \<open>On a surface that starts as the one the span was taken from, the span fits.\<close>

lemma selected_fits:
  assumes sel: "selected sha s r m x i j vs cuts c"
    and same: "sf_session s' = sf_session s" and nodes': "sf_nodes s' = sf_nodes s @ extra"
    and bal: "balanced_cuts s' = Inr cs"
  shows "fits x s' (take i (sf_nodes s)) (drop j (sf_nodes s) @ extra)"
proof -
  let ?pre = "take i (sf_nodes s)" and ?post = "drop j (sf_nodes s)"
  have ij: "i \<le> j" "j \<le> length (sf_nodes s)" "i < j" "balanced_cuts s = Inr cuts" "cuts ! i" "cuts ! j"
    and sp: "span sha s r vs i j = Inr x" using sel by (simp_all add: selected_def)
  note x = span_Inr [OF sp ij(1,2)]
  have len: "length ?pre = i" "length ?pre + length (pr_source x) = j" using ij x(2) by simp_all
  then have p: "pending_after [] ?pre = Inr []" "pending_after [] (pr_source x) = Inr []"
    using ij(4-6) balanced_span [OF x(1)] by auto
  have "sf_nodes s' = (?pre @ pr_source x) @ ?post @ extra" using x(1) nodes' by simp
  then have "\<exists>cs. cuts_from [] ((?pre @ pr_source x) @ ?post @ extra) = Inr cs"
    using bal by (auto simp: balanced_cuts_def bind_res_Inr_iff)
  moreover have "pending_after [] (?pre @ pr_source x) = Inr []"
    using p by (simp add: pending_after_append)
  ultimately have "\<exists>cs. cuts_from [] (?post @ extra) = Inr cs"
    unfolding cuts_from_append by auto
  moreover have "pr_source x \<noteq> []" using x(2) ij(3) by auto
  moreover have "sf_nodes s' = ?pre @ pr_source x @ ?post @ extra" using x(1) nodes' by simp
  ultimately show ?thesis
    unfolding fits_def using p same x(3-5) by simp
qed

end
