(* ===== verification/Compaction.thy ===== *)
theory Compaction
  imports SpanLemmas
begin

section \<open>What the compaction transaction does to the host's surface\<close>

text \<open>
  The abstract specification: \<open>condenses\<close> replaces one unpinned, tool-balanced span, never the
  newest node, by one cheaper plain message; \<open>evolves\<close> counts such steps, interleaved with
  steps of the environment (what the host does while the summariser runs). The locale
  \<open>store\<close> states the contract of the \<^verbatim>\<open>Store\<close> protocol and shows that \<open>compact\<close> implements the
  specification over every such store; the journal store is one.
\<close>

subsection \<open>Specification\<close>

type_synonym view = "surface \<times> route"

definition view :: "'s store_ops \<Rightarrow> 's \<Rightarrow> view" where
  "view st s = (st_snapshot st s, st_route st s)"

definition condenses :: "meter \<Rightarrow> view \<Rightarrow> view \<Rightarrow> bool" where
  "condenses m a b \<longleftrightarrow> snd b = snd a \<and> sf_session (fst b) = sf_session (fst a) \<and>
     distinct (map nd_id (sf_nodes (fst b))) \<and> (\<exists>cs. balanced_cuts (fst b) = Inr cs) \<and>
     (\<exists>pre src n post c vs. sf_nodes (fst a) = pre @ src @ post \<and> sf_nodes (fst b) = pre @ n # post \<and>
        src \<noteq> [] \<and> post \<noteq> [] \<and> (\<forall>k \<in> set src. \<not> nd_pinned k) \<and> pending_after [] src = Inr [] \<and>
        plain_text n \<and> mt_node m n (snd a) = Inr c \<and>
        list_all2 (\<lambda>k v. mt_node m k (snd a) = Inr v) src vs \<and> c < sum_list vs)"

inductive evolves :: "meter \<Rightarrow> (view \<Rightarrow> view \<Rightarrow> bool) \<Rightarrow> nat \<Rightarrow> view \<Rightarrow> view \<Rightarrow> bool"
  for m env where
  evolves_refl: "evolves m env 0 a a"
| evolves_env: "evolves m env k a b \<Longrightarrow> env b c \<Longrightarrow> evolves m env k a c"
| evolves_condense: "evolves m env k a b \<Longrightarrow> condenses m b c \<Longrightarrow> evolves m env (Suc k) a c"

lemma evolves_trans:
  "evolves m env k b c \<Longrightarrow> evolves m env j a b \<Longrightarrow> evolves m env (j + k) a c"
  by (induction k b c rule: evolves.induct) (auto intro: evolves.intros)

text \<open>Each round of \<open>compact\<close> that commits is one change by the host and one step.\<close>

lemma rounds_evolve: "((env OO condenses m) ^^ k) a b \<Longrightarrow> evolves m env k a b"
  by (induction k arbitrary: b) (auto intro: evolves.intros)

text \<open>Pinned nodes stay, in order, and the newest node stays the newest.\<close>

lemma condenses_keeps:
  assumes "condenses m a b"
  shows "filter nd_pinned (sf_nodes (fst b)) = filter nd_pinned (sf_nodes (fst a))"
    "last (sf_nodes (fst b)) = last (sf_nodes (fst a))"
proof -
  obtain pre src n post where n: "sf_nodes (fst a) = pre @ src @ post" "sf_nodes (fst b) = pre @ n # post"
    "post \<noteq> []" "\<forall>k \<in> set src. \<not> nd_pinned k" "plain_text n"
    using assms unfolding condenses_def by blast
  have "\<not> nd_pinned n" using n(5) by (simp add: plain_text_def)
  then show "filter nd_pinned (sf_nodes (fst b)) = filter nd_pinned (sf_nodes (fst a))"
    using n(1,2,4) by (simp add: filter_empty_conv)
  show "last (sf_nodes (fst b)) = last (sf_nodes (fst a))" using n(1-3) by simp
qed

lemma selected_source:
  assumes "selected sha s r m x i j vs cuts c"
  shows "pr_source x \<noteq> []" "pr_after x \<noteq> []" "pr_route x = r" "\<forall>k \<in> set (pr_source x). \<not> nd_pinned k"
    "list_all2 (\<lambda>k v. mt_node m k r = Inr v) (pr_source x) (slice i j vs)"
    "pr_cost x = sum_list (slice i j vs)"
proof -
  have ij: "i \<le> j" "j \<le> length (sf_nodes s)" "i < j" "j < length (sf_nodes s)"
    and sp: "span sha s r vs i j = Inr x" and c: "costs s r m = Inr (vs, c)"
    and unpinned: "\<And>k. i \<le> k \<Longrightarrow> k < j \<Longrightarrow> \<not> nd_pinned (sf_nodes s ! k)"
    using assms by (simp_all add: selected_def)
  note x = span_Inr [OF sp ij(1,2)]
  show "pr_source x \<noteq> []" using x(2) ij(3) by auto
  show "pr_after x \<noteq> []" "pr_route x = r" using x(5,6) ij(4) by auto
  have src: "pr_source x = slice i j (sf_nodes s)"
    using sp by (auto simp: span_def Let_def bind_res_Inr_iff)
  show "\<forall>k \<in> set (pr_source x). \<not> nd_pinned k"
    using unpinned ij by (auto simp: src slice_def in_set_conv_nth)
  show "list_all2 (\<lambda>k v. mt_node m k r = Inr v) (pr_source x) (slice i j vs)"
    unfolding src slice_def using costs_InrD(3) [OF c] by (intro list_all2_dropI list_all2_takeI)
  show "pr_cost x = sum_list (slice i j vs)" by (rule x(7))
qed

lemma replacement_condenses:
  assumes sel: "selected sha s r m x i j vs cuts c" and rep: "replacement x now n m = Inr new"
  shows "condenses m (now, r) (new, r)"
proof -
  obtain pre post where f: "fits x now pre post" and c: "check_summary x n m = Inr ()"
    and new: "mk_surface (sf_session now) (pre @ [n] @ post) = Inr new"
    using replacement_fits [OF rep] by blast
  note x = selected_source [OF sel]
  have n: "plain_text n" and cost: "\<exists>c. mt_node m n r = Inr c \<and> c < sum_list (slice i j vs)"
    using c x(3,6) by (auto simp: check_summary_iff)
  have nodes: "sf_nodes new = pre @ n # post" "sf_session new = sf_session now"
    "distinct (map nd_id (sf_nodes new))"
    using new by (auto simp: mk_surface_Inr)
  have "\<exists>cs. balanced_cuts new = Inr cs"
    using replaced_balanced [OF f n] nodes(1) by simp
  moreover have "post \<noteq> []" using f x(2) by (auto simp: fits_def)
  moreover have "sf_nodes now = pre @ pr_source x @ post" "pending_after [] (pr_source x) = Inr []"
    using f by (auto simp: fits_def)
  ultimately show ?thesis
    unfolding condenses_def fst_conv snd_conv using nodes n cost x by blast
qed


lemma lift_res_simps: "lift_res (Inr x) = ret x" "lift_res (Inl e) = raise_st e"
  by (simp_all add: fun_eq_iff lift_res_def ret_def raise_st_def)

subsection \<open>The contract of a store, and \<open>compact\<close> over it\<close>

locale store =
  fixes st :: "'s store_ops" and open_tx :: "'s \<Rightarrow> pystr option"
  assumes begin_ok: "st_begin st x s = (Inr t, s') \<Longrightarrow> view st s' = view st s \<and> open_tx s' = Some t"
    and begin_failed: "st_begin st x s = (Inl e, s') \<Longrightarrow> view st s' = view st s \<and> open_tx s' = open_tx s"
    and commit_ok: "st_commit st t x n m s = (Inr new, s') \<Longrightarrow>
      replacement x (st_snapshot st s) n m = Inr new \<and> view st s' = (new, st_route st s) \<and> open_tx s' = None"
    and commit_failed: "st_commit st t x n m s = (Inl e, s') \<Longrightarrow>
      view st s' = view st s \<and> open_tx s' = open_tx s"
    and fail_ok: "open_tx s = Some t \<Longrightarrow>
      \<exists>s'. st_fail st t code s = (Inr (), s') \<and> view st s' = view st s \<and> open_tx s' = None"

text \<open>The summariser leaves the transaction open and changes the host's view as \<open>env\<close> allows.\<close>

definition relies ::
    "'s store_ops \<Rightarrow> ('s \<Rightarrow> pystr option) \<Rightarrow> (view \<Rightarrow> view \<Rightarrow> bool) \<Rightarrow>
     (prepared \<Rightarrow> int \<Rightarrow> ('s, node) method_st) \<Rightarrow> bool" where
  "relies st open_tx env summarize \<longleftrightarrow> (\<forall>x cap s res s'. summarize x cap s = (res, s') \<longrightarrow>
     env (view st s) (view st s') \<and> open_tx s' = open_tx s)"

lemma compact_loop_Suc:
  "compact_loop (Suc k) sha st m summarize p trigger results s =
    (case prepare sha (st_snapshot st s) (st_route st s) m p trigger of
       Inl e \<Rightarrow> (Inl e, s)
     | Inr None \<Rightarrow> (Inr results, s)
     | Inr (Some x) \<Rightarrow>
         (case st_begin st x s of
            (Inl e, s1) \<Rightarrow> (Inl e, s1)
          | (Inr t, s1) \<Rightarrow>
              (case guarded st t (attempt st m summarize p (st_route st s) t x) s1 of
                 (Inl e, s2) \<Rightarrow> (Inl e, s2)
               | (Inr new, s2) \<Rightarrow>
                   (case (if trigger \<noteq> ''pressure'' then Inr True
                          else below_threshold new (st_route st s) m p) of
                      Inl e \<Rightarrow> (Inl e, s2)
                    | Inr done \<Rightarrow>
                        if done then (Inr (results @ [new]), s2)
                        else compact_loop k sha st m summarize p trigger (results @ [new]) s2))))"
proof -
  have lift: "bind_st (lift_res r) f s = (case r of Inl e \<Rightarrow> (Inl e, s) | Inr x \<Rightarrow> f x s)"
    for r :: "'x res" and f :: "'x \<Rightarrow> ('s, 'y) method_st" and s :: 's
    by (simp add: bind_st_def lift_res_def)
  show ?thesis
    unfolding compact_loop.simps bind_st_prims lift
    by (auto simp: bind_st_def [of "st_begin _ _"] bind_st_def [of "guarded _ _ _"] lift ret_def
        simp del: compact_loop.simps split: sum.splits option.splits prod.splits)
qed

context store
begin

lemma attempt_ok:
  assumes sel: "selected sha now r m x i j vs cuts c"
    and sum: "relies st open_tx env summarize"
    and run: "attempt st m summarize p r t x s = (Inr new, s')"
  shows "\<exists>v. env (view st s) v \<and> condenses m v (view st s') \<and> view st s' = (new, r) \<and> open_tx s' = None"
proof -
  obtain n s1 where s1: "summarize x (summary_output p) s = (Inr n, s1)"
    and r1: "st_route st s1 = r" and c1: "st_commit st t x n m s1 = (Inr new, s')"
    using run
    by (auto simp: attempt_def bind_st_def gets_def lift_res_def raise_st_def
        split: prod.splits sum.splits if_splits)
  note ok = commit_ok [OF c1]
  have "condenses m (st_snapshot st s1, r) (new, r)"
    using replacement_condenses [OF sel] ok by blast
  moreover have "view st s1 = (st_snapshot st s1, r)" by (simp add: view_def r1)
  moreover have "env (view st s) (view st s1)" using sum s1 by (auto simp: relies_def)
  ultimately show ?thesis using ok r1 by auto
qed

lemma attempt_failed:
  assumes sum: "relies st open_tx env summarize"
    and run: "attempt st m summarize p r t x s = (Inl e, s')"
  shows "env (view st s) (view st s') \<and> open_tx s' = open_tx s"
proof -
  obtain res s1 where s1: "summarize x (summary_output p) s = (res, s1)" by fastforce
  have e: "env (view st s) (view st s1) \<and> open_tx s1 = open_tx s"
    using sum s1 by (auto simp: relies_def)
  have "s' = s1 \<or> (\<exists>n. st_commit st t x n m s1 = (Inl e, s'))"
    using run s1
    by (auto simp: attempt_def bind_st_def gets_def lift_res_def raise_st_def
        split: prod.splits sum.splits if_splits)
  then have "view st s' = view st s1 \<and> open_tx s' = open_tx s1"
    using commit_failed by blast
  with e show ?thesis by simp
qed

lemma guarded_failed:
  assumes "open_tx s = Some t" and "relies st open_tx env summarize"
    and "guarded st t (attempt st m summarize p r t x) s = (Inl e, s')"
  shows "env (view st s) (view st s') \<and> open_tx s' = None"
proof -
  obtain e' s1 where a: "attempt st m summarize p r t x s = (Inl e', s1)"
    and f: "bind_st (st_fail st t (if e' = CancelledError then ''cancelled'' else ''failed''))
            (\<lambda>_. raise_st e' :: ('s, surface) method_st) s1 = (Inl e, s')"
    using assms(3) by (auto simp: guarded_def split: prod.splits sum.splits)
  note a' = attempt_failed [OF assms(2) a]
  obtain s2 where "st_fail st t (if e' = CancelledError then ''cancelled'' else ''failed'') s1 = (Inr (), s2)"
    "view st s2 = view st s1" "open_tx s2 = None"
    using fail_ok [of s1 t "if e' = CancelledError then ''cancelled'' else ''failed''"] a' assms(1) by auto
  then show ?thesis using a' f by (auto simp: raise_st_def)
qed

lemma guarded_ok:
  "guarded st t (attempt st m summarize p r t x) s = (Inr new, s') \<Longrightarrow>
    attempt st m summarize p r t x s = (Inr new, s')"
  by (auto simp: guarded_def bind_st_def raise_st_def split: prod.splits sum.splits)

text \<open>One round commits one step and goes on, or ends the loop.\<close>

lemma round_refines:
  assumes sum: "relies st open_tx env summarize"
    and prep: "prepare sha (st_snapshot st s) (st_route st s) m p trigger = Inr (Some x)"
    and b: "st_begin st x s = (Inr t, s1)"
    and g: "guarded st t (attempt st m summarize p (st_route st s) t x) s1 = (res, s2)"
  shows "open_tx s2 = None \<and> (case res of
      Inl e \<Rightarrow> env (view st s) (view st s2)
    | Inr new \<Rightarrow> (env OO condenses m) (view st s) (view st s2) \<and> view st s2 = (new, st_route st s))"
proof (cases res)
  case (Inl e)
  have "env (view st s1) (view st s2) \<and> open_tx s2 = None"
    using guarded_failed [of s1 t env summarize] begin_ok [OF b] sum g Inl by blast
  moreover have "view st s1 = view st s" using begin_ok [OF b] by blast
  ultimately show ?thesis using Inl by simp
next
  case (Inr new)
  obtain i j vs cuts c where sel: "selected sha (st_snapshot st s) (st_route st s) m x i j vs cuts c"
    using prepare_Some [OF prep] by blast
  have "attempt st m summarize p (st_route st s) t x s1 = (Inr new, s2)"
    using guarded_ok g Inr by blast
  from attempt_ok [OF sel sum this] obtain v where v: "env (view st s1) v" "condenses m v (view st s2)"
    "view st s2 = (new, st_route st s)" "open_tx s2 = None" by blast
  have "(env OO condenses m) (view st s) (view st s2)"
    using v(1,2) begin_ok [OF b] by auto
  then show ?thesis using v Inr by simp
qed

lemma compact_loop_cases:
  assumes sum: "relies st open_tx env summarize" and open_tx: "open_tx s = None"
    and run: "compact_loop (Suc k) sha st m summarize p trigger results s = (res, s')"
  obtains (stopped) "open_tx s' = None" "view st s' = view st s \<or> \<not> is_ok res \<and> env (view st s) (view st s')"
      "\<And>rs. res = Inr rs \<Longrightarrow> rs = results \<and> s' = s \<and>
         prepare sha (st_snapshot st s) (st_route st s) m p trigger = Inr None"
  | (ended) new where "open_tx s' = None" "(env OO condenses m) (view st s) (view st s')"
      "st_snapshot st s' = new" "\<And>rs. res = Inr rs \<Longrightarrow> rs = results @ [new]"
      "(if trigger \<noteq> ''pressure'' then Inr True else below_threshold new (st_route st s') m p) = Inr True \<longleftrightarrow> is_ok res"
  | (again) new s2 where "trigger = ''pressure''" "open_tx s2 = None" "(env OO condenses m) (view st s) (view st s2)"
      "st_snapshot st s2 = new" "compact_loop k sha st m summarize p trigger (results @ [new]) s2 = (res, s')"
proof -
  let ?prep = "prepare sha (st_snapshot st s) (st_route st s) m p trigger"
  let ?done = "\<lambda>new. if trigger \<noteq> ''pressure'' then Inr True else below_threshold new (st_route st s) m p"
  note run = run [unfolded compact_loop_Suc]
  consider (idle) "?prep = Inr None \<or> (\<exists>e. ?prep = Inl e)" | (begin_fails) x e s1 where "?prep = Inr (Some x)" "st_begin st x s = (Inl e, s1)"
    | (begins) x t s1 gr s2 where "?prep = Inr (Some x)" "st_begin st x s = (Inr t, s1)"
      "guarded st t (attempt st m summarize p (st_route st s) t x) s1 = (gr, s2)"
    by (metis not_Some_eq old.sum.exhaust surj_pair)
  then show thesis
  proof cases
    case idle
    then have "s' = s" "\<And>rs. res = Inr rs \<Longrightarrow> rs = results \<and> ?prep = Inr None" using run by auto
    then show thesis using open_tx by (intro stopped) auto
  next
    case (begin_fails x e s1)
    then have "s' = s1" "res = Inl e" using run by auto
    then show thesis
      using begin_failed [OF begin_fails(2)] open_tx by (intro stopped) simp_all
  next
    case (begins x t s1 gr s2)
    note step = round_refines [OF sum begins]
    show thesis
    proof (cases gr)
      case (Inl e)
      then have "s' = s2" "res = Inl e" using run begins by auto
      then show thesis using step Inl by (intro stopped) simp_all
    next
      case (Inr new)
      have new: "open_tx s2 = None" "(env OO condenses m) (view st s) (view st s2)" "st_snapshot st s2 = new"
        and route: "st_route st s2 = st_route st s"
        using step Inr by (auto simp: view_def)
      show thesis
      proof (cases "?done new = Inr False")
        case True
        then have "trigger = ''pressure''" by (simp split: if_splits)
        then show thesis using run begins Inr True by (intro again [OF _ new]) simp_all
      next
        case False
        then have "s' = s2" "\<And>rs. res = Inr rs \<Longrightarrow> rs = results @ [new]"
          "?done new = Inr True \<longleftrightarrow> is_ok res"
          using run begins Inr by (auto split: sum.splits if_splits)
        then show thesis using new by (intro ended [of new]) (simp_all add: route split: if_splits)
      qed
    qed
  qed
qed

text \<open>\<open>compact\<close> implements the specification, with at most as many steps as rounds.\<close>

lemma compact_loop_refines:
  assumes sum: "relies st open_tx env summarize" and "open_tx s = None"
    and "compact_loop k sha st m summarize p trigger results s = (res, s')"
  shows "open_tx s' = None \<and> (\<exists>j \<le> k. \<exists>v. ((env OO condenses m) ^^ j) (view st s) v \<and>
    (v = view st s' \<or> j < k \<and> \<not> is_ok res \<and> env v (view st s')) \<and>
    (\<forall>rs. res = Inr rs \<longrightarrow> (\<exists>news. rs = results @ news \<and> length news = j \<and>
       st_snapshot st s' = last (st_snapshot st s # news))))"
  using assms(2,3)
proof (induction k arbitrary: results s)
  case 0
  then show ?case by (auto simp: raise_st_def simp del: split_paired_Ex)
next
  case (Suc k)
  from sum Suc.prems show ?case
  proof (cases rule: compact_loop_cases)
    case stopped
    have "\<exists>news. rs = results @ news \<and> length news = 0 \<and> st_snapshot st s' = last (st_snapshot st s # news)"
      if "res = Inr rs" for rs
      using stopped(3) [OF that] by simp
    then show ?thesis using stopped(1,2)
      by (intro conjI exI [of _ "0 :: nat"] exI [of _ "view st s"]) auto
  next
    case (ended new)
    have "\<exists>news. rs = results @ news \<and> length news = 1 \<and> st_snapshot st s' = last (st_snapshot st s # news)"
      if "res = Inr rs" for rs
      using ended(3) ended(4) [OF that] by simp
    moreover have "((env OO condenses m) ^^ Suc 0) (view st s) (view st s')" using ended(2) by (simp add: eq_OO)
    moreover have "Suc 0 \<le> Suc k" by simp
    ultimately show ?thesis using ended(1) One_nat_def by metis
  next
    case (again new s2)
    from Suc.IH [OF again(2,5)] obtain j v where j: "open_tx s' = None" "j \<le> k"
      "((env OO condenses m) ^^ j) (view st s2) v"
      "\<And>rs. res = Inr rs \<Longrightarrow> \<exists>news. rs = (results @ [new]) @ news \<and> length news = j \<and>
         st_snapshot st s' = last (st_snapshot st s2 # news)"
      "v = view st s' \<or> j < k \<and> \<not> is_ok res \<and> env v (view st s')" by blast
    have "\<exists>news. rs = results @ news \<and> length news = Suc j \<and>
        st_snapshot st s' = last (st_snapshot st s # news)" if rs: "res = Inr rs" for rs
    proof -
      obtain news where "rs = (results @ [new]) @ news" "length news = j"
        "st_snapshot st s' = last (new # news)" using j(4) [OF rs] again(4) by blast
      then show ?thesis by (intro exI [of _ "new # news"]) simp
    qed
    moreover have "((env OO condenses m) ^^ Suc j) (view st s) v" using again(3) j(3) by (rule relpowp_Suc_I2)
    moreover have "Suc j \<le> Suc k" "v = view st s' \<or> Suc j < Suc k \<and> \<not> is_ok res \<and> env v (view st s')"
      using j(2,5) by auto
    ultimately show ?thesis using j(1) by blast
  qed
qed

lemma pressure_relieved:
  assumes sum: "relies st open_tx env summarize" and "open_tx s = None"
    and "compact_loop k sha st m summarize p ''pressure'' results s = (Inr rs, s')"
  shows "prepare sha (st_snapshot st s') (st_route st s') m p ''pressure'' = Inr None \<or>
    below_threshold (st_snapshot st s') (st_route st s') m p = Inr True"
  using assms(2,3)
proof (induction k arbitrary: results s)
  case 0
  then show ?case by (simp add: raise_st_def)
next
  case (Suc k)
  from sum Suc.prems show ?case
  proof (cases rule: compact_loop_cases)
    case stopped
    then show ?thesis by blast
  next
    case (ended new)
    then show ?thesis by simp
  next
    case (again new s2)
    then show ?thesis by (intro Suc.IH)
  qed
qed

lemma single_round_atomic:
  assumes sum: "relies st open_tx env summarize" and "open_tx s = None" and "trigger \<noteq> ''pressure''"
    and "compact sha st m summarize p trigger s = (res, s')"
  shows "open_tx s' = None \<and>
    (case res of
       Inl e \<Rightarrow> view st s' = view st s \<or> env (view st s) (view st s')
     | Inr [] \<Rightarrow> s' = s
     | Inr (new # rs) \<Rightarrow> rs = [] \<and> st_snapshot st s' = new \<and> (env OO condenses m) (view st s) (view st s'))"
proof -
  have "compact_loop (Suc 0) sha st m summarize p trigger [] s = (res, s')"
    using assms(3,4) by (simp add: compact_def del: compact_loop.simps)
  with sum assms(2) show ?thesis
  proof (cases rule: compact_loop_cases)
    case stopped
    then show ?thesis by (cases res) auto
  next
    case (ended new)
    then show ?thesis using assms(3) by (cases res) auto
  next
    case (again new s2)
    then show ?thesis using assms(3) by simp
  qed
qed

end

subsection \<open>The journal store keeps the contract\<close>

lemma view_journal: "view journal_ops s = (js_value s, js_target s)"
  by (simp add: view_def journal_ops_def)

interpretation journal: store journal_ops js_active
  by unfold_locales
    (auto simp: view_def journal_ops_def js_begin_def js_commit_def js_fail_def Let_def
      split: if_splits sum.splits)

lemma journal_rounds:
  assumes "relies journal_ops js_active env summarize" and "js_active s = None"
    and "compact sha journal_ops m summarize p trigger s = (res, s')"
  obtains k v where "js_active s' = None" "k \<le> (if trigger = ''pressure'' then nat (compaction_retries p + 1) else 1)"
    "((env OO condenses m) ^^ k) (js_value s, js_target s) v"
    "v = (js_value s', js_target s') \<or>
      k < (if trigger = ''pressure'' then nat (compaction_retries p + 1) else 1) \<and> \<not> is_ok res \<and> env v (js_value s', js_target s')"
    "\<And>rs. res = Inr rs \<Longrightarrow> length rs = k \<and> js_value s' = last (js_value s # rs)"
proof -
  obtain k v where k: "js_active s' = None" "((env OO condenses m) ^^ k) (view journal_ops s) v"
    "k \<le> (if trigger = ''pressure'' then nat (compaction_retries p + 1) else 1)"
    "v = view journal_ops s' \<or> k < (if trigger = ''pressure'' then nat (compaction_retries p + 1) else 1) \<and>
      \<not> is_ok res \<and> env v (view journal_ops s')"
    "\<And>rs. res = Inr rs \<Longrightarrow> \<exists>news. rs = [] @ news \<and> length news = k \<and>
       st_snapshot journal_ops s' = last (st_snapshot journal_ops s # news)"
    using journal.compact_loop_refines [OF assms(1,2) assms(3) [unfolded compact_def]] by blast
  have "length rs = k \<and> js_value s' = last (js_value s # rs)" if "res = Inr rs" for rs
    using k(5) [OF that] by (auto simp: journal_ops_def)
  with k(1-4) show thesis by (intro that) (simp_all only: view_journal)
qed

lemma journal_compact:
  assumes "relies journal_ops js_active env summarize" and "js_active s = None"
    and "compact sha journal_ops m summarize p trigger s = (res, s')"
  obtains k where "js_active s' = None" "k \<le> (if trigger = ''pressure'' then nat (compaction_retries p + 1) else 1)"
    "evolves m env k (js_value s, js_target s) (js_value s', js_target s')"
    "\<And>rs. res = Inr rs \<Longrightarrow> length rs = k \<and> js_value s' = last (js_value s # rs)"
  using assms
proof (rule journal_rounds)
  fix k v
  assume "((env OO condenses m) ^^ k) (js_value s, js_target s) v"
    and v: "v = (js_value s', js_target s') \<or>
      k < (if trigger = ''pressure'' then nat (compaction_retries p + 1) else 1) \<and> \<not> is_ok res \<and> env v (js_value s', js_target s')"
    and more: "js_active s' = None" "k \<le> (if trigger = ''pressure'' then nat (compaction_retries p + 1) else 1)"
      "\<And>rs. res = Inr rs \<Longrightarrow> length rs = k \<and> js_value s' = last (js_value s # rs)"
  then have "evolves m env k (js_value s, js_target s) v" by (intro rounds_evolve)
  with v have "evolves m env k (js_value s, js_target s) (js_value s', js_target s')" by (auto intro: evolves_env)
  with more show thesis by (intro that) auto
qed

text \<open>A summariser that answers without touching the store.\<close>

definition quiet :: "(prepared \<Rightarrow> int \<Rightarrow> node res) \<Rightarrow> prepared \<Rightarrow> int \<Rightarrow> ('s, node) method_st" where
  "quiet f x cap = lift_res (f x cap)"

lemma quiet_relies: "relies st open_tx (=) (quiet f)"
  by (auto simp: relies_def quiet_def lift_res_def)

text \<open>The host appends nodes, of a total cost of at most \<open>d\<close>.\<close>

definition appends :: "meter \<Rightarrow> int \<Rightarrow> view \<Rightarrow> view \<Rightarrow> bool" where
  "appends m d a b \<longleftrightarrow> snd b = snd a \<and> sf_session (fst b) = sf_session (fst a) \<and>
     (\<exists>extra ws. sf_nodes (fst b) = sf_nodes (fst a) @ extra \<and>
        list_all2 (\<lambda>k v. mt_node m k (snd a) = Inr v) extra ws \<and> sum_list ws \<le> d)"


subsection \<open>The contract of a meter\<close>

text \<open>
  What the engine needs of a meter beyond what \<open>costs\<close> checks: the cost of a node is its own, and
  the envelope does not depend on the messages. Then every condensing step makes the surface cheaper.
\<close>

locale additive_meter =
  fixes m :: meter
  assumes node_nonneg: "mt_node m n r = Inr v \<Longrightarrow> 0 \<le> v"
    and envelope_stable: "mt_envelope m s r = mt_envelope m s' r"

context additive_meter
begin

lemma condense_cheaper:
  assumes step: "condenses m (s, r) (s', r)" and c: "costs s r m = Inr (vs, c)"
  shows "\<exists>vs' c'. costs s' r m = Inr (vs', c') \<and> c' < c"
proof -
  obtain pre src n post k ws where nodes: "sf_nodes s = pre @ src @ post" "sf_nodes s' = pre @ n # post"
    and n: "mt_node m n r = Inr k" and ws: "list_all2 (\<lambda>k v. mt_node m k r = Inr v) src ws" "k < sum_list ws"
    using step unfolding condenses_def fst_conv snd_conv by blast
  note cs = costs_InrD [OF c]
  obtain e where e: "mt_envelope m s r = Inr e" "0 \<le> e" "c = sum_list vs + e" using cs(4) by blast
  obtain a b d where split: "vs = a @ b @ d" "list_all2 (\<lambda>k v. mt_node m k r = Inr v) pre a"
    "list_all2 (\<lambda>k v. mt_node m k r = Inr v) src b" "list_all2 (\<lambda>k v. mt_node m k r = Inr v) post d"
    using cs(3) unfolding nodes by (auto simp: list_all2_append1)
  have "b = ws" using split(3) ws(1) by (auto simp: list_all2_conv_all_nth intro!: nth_equalityI)
  have "map_res (\<lambda>n. mt_node m n r) (sf_nodes s') = Inr (a @ k # d)"
    using split(2,4) n by (simp add: map_res_Inr_iff nodes list_all2_appendI)
  moreover have "mt_envelope m s' r = Inr e" using e(1) envelope_stable by metis
  moreover have "\<forall>v \<in> set (a @ k # d). 0 \<le> v" using cs(2) split(1) node_nonneg [OF n] by auto
  moreover have "mt_unit m = rt_unit r" using c by (auto simp: costs_def split: if_splits)
  ultimately have "costs s' r m = Inr (a @ k # d, sum_list (a @ k # d) + e)"
    using e(2) by (simp add: costs_def list_ex_iff not_less)
  moreover have "sum_list (a @ k # d) + e < c" using ws(2) \<open>b = ws\<close> by (simp add: e(3) split(1))
  ultimately show ?thesis by blast
qed

text \<open>Nodes that the host appends, of a total cost of at most \<open>d\<close>, cost just that.\<close>

lemma appends_cost:
  assumes "appends m d (s, r) v" and c: "costs s r m = Inr (vs, c)"
  shows "snd v = r \<and> 0 \<le> d \<and> (\<exists>vs' c'. costs (fst v) r m = Inr (vs', c') \<and> c' \<le> c + d)"
proof -
  obtain extra ws where n: "sf_nodes (fst v) = sf_nodes s @ extra" and
      ws: "list_all2 (\<lambda>k v. mt_node m k r = Inr v) extra ws" "sum_list ws \<le> d" and r: "snd v = r"
    using assms(1) by (auto simp: appends_def)
  note cs = costs_InrD [OF c]
  obtain e where e: "mt_envelope m s r = Inr e" "0 \<le> e" "c = sum_list vs + e" using cs(4) by blast
  have nonneg: "\<forall>w \<in> set ws. 0 \<le> w"
    using ws(1) by (induction rule: list_all2_induct) (auto dest: node_nonneg)
  have "map_res (\<lambda>n. mt_node m n r) (sf_nodes (fst v)) = Inr (vs @ ws)"
    using cs(3) ws(1) by (simp add: map_res_Inr_iff n list_all2_appendI)
  moreover have "mt_envelope m (fst v) r = Inr e" using e(1) envelope_stable by metis
  moreover have "mt_unit m = rt_unit r" using c by (auto simp: costs_def split: if_splits)
  ultimately have "costs (fst v) r m = Inr (vs @ ws, sum_list (vs @ ws) + e)"
    using e(2) cs(2) nonneg by (auto simp: costs_def list_ex_iff not_less)
  moreover have "0 \<le> sum_list ws" using nonneg by (simp add: sum_list_nonneg)
  ultimately show ?thesis using ws(2) r e(3) by auto
qed

text \<open>The number of steps is bounded by the cost and what the host appends.\<close>

lemma rounds_bounded:
  assumes "((appends m d OO condenses m) ^^ k) (s, r) v" and "costs s r m = Inr (vs, c)"
  shows "snd v = r \<and> (\<exists>vs' c'. costs (fst v) r m = Inr (vs', c') \<and> c' + int k \<le> c + int k * d)"
  using assms
proof (induction k arbitrary: v)
  case (Suc k)
  then obtain w x where w: "((appends m d OO condenses m) ^^ k) (s, r) w" "appends m d w x" "condenses m x v" by auto
  then obtain vs' c' where c': "snd w = r" "costs (fst w) r m = Inr (vs', c')" "c' + int k \<le> c + int k * d"
    using Suc by blast
  have "appends m d (fst w, r) x" using w(2) c'(1) by (metis prod.collapse)
  from appends_cost [OF this c'(2)] obtain ws b where b: "snd x = r" "costs (fst x) r m = Inr (ws, b)" "b \<le> c' + d" by blast
  have "snd v = r" using w(3) b(1) by (simp add: condenses_def)
  then have "condenses m (fst x, r) (fst v, r)" using w(3) b(1) by (metis prod.collapse)
  from condense_cheaper [OF this b(2)] obtain vs'' c'' where "costs (fst v) r m = Inr (vs'', c'')" "c'' < b"
    by blast
  then show ?case using \<open>snd v = r\<close> c'(3) b(3) by (auto simp: algebra_simps)
qed auto

end

lemma encoded_length_nonneg: "encoded_length t = Inr k \<Longrightarrow> 0 \<le> k"
  by (auto simp: encoded_length_def utf8_width_def intro!: sum_list_nonneg split: if_splits)

interpretation utf8: additive_meter utf8_meter
  by unfold_locales (auto simp: utf8_meter_def dest: encoded_length_nonneg)

end
