(* ===== verification/ContextProperties.thy ===== *)
theory ContextProperties
  imports Compaction
begin

section \<open>Properties of context compaction\<close>

text \<open>
  Properties of \<open>ContextEngine\<close> and \<open>ContextTransaction\<close>, with a small session as the concrete
  input of the witnesses: a system message, a completed tool round and two user messages.
\<close>

subsection \<open>Messages whose text can be encoded\<close>

text \<open>Values whose text is well-formed Unicode, without lone surrogates: a finite check on the value itself.\<close>

definition scalar :: "nat \<Rightarrow> bool" where
  "scalar c \<longleftrightarrow> c < 55296 \<or> 57343 < c"

fun encodable :: "json \<Rightarrow> bool" where
  "encodable (JFloat t) = list_all scalar t"
| "encodable (JStr t) = list_all scalar t"
| "encodable (JArr vs) = list_all encodable vs"
| "encodable (JObj kvs) = list_all (\<lambda>(k, v). list_all scalar k \<and> encodable v) kvs"
| "encodable _ = True"

lemma u_eq_iff [simp]: "u a = u b \<longleftrightarrow> a = b"
  by (simp add: u_def inj_map_eq_map [OF inj_of_char])

lemma u_Nil [simp]: "u a = [] \<longleftrightarrow> a = []"
  by (simp add: u_def)

lemma u_scalar: "\<forall>c \<in> set (u s). scalar c"
proof -
  have "of_char c < (55296 :: nat)" for c
  proof -
    have "of_char c mod 256 < (256 :: nat)" by (rule mod_less_divisor) simp
    then have "of_char c < (256 :: nat)" by (simp only: of_char_mod_256)
    then show ?thesis by (rule less_trans) simp
  qed
  then show ?thesis by (auto simp: u_def scalar_def)
qed

lemma u_scalar_all: "list_all scalar (u s)"
  using u_scalar by (simp add: list_all_iff)

lemma escape_scalar: "scalar c \<Longrightarrow> \<forall>x \<in> set (escape c). scalar x"
proof -
  have "hex_digit d \<le> 87 + d" for d by (simp add: hex_digit_def)
  then have "hex_digit (c div 16) < 55296" "hex_digit (c mod 16) < 55296" if "c < 32"
    using that le_less_trans [of "hex_digit (c div 16)" "87 + c div 16" 55296]
      le_less_trans [of "hex_digit (c mod 16)" "87 + c mod 16" 55296] by auto
  then show "scalar c \<Longrightarrow> ?thesis" by (simp add: escape_def scalar_def)
qed

lemma quote_scalar: "\<forall>c \<in> set t. scalar c \<Longrightarrow> \<forall>c \<in> set (quote t). scalar c"
  using escape_scalar by (auto simp: quote_def scalar_def [of 34])

lemma join_set: "set (join c ts) \<subseteq> insert c (\<Union> (set ` set ts))"
  by (induction c ts rule: join.induct) auto

lemma encodable_sorted: "encodable v \<Longrightarrow> encodable (sorted_json v)"
  by (induction v) (auto simp: list_all_iff)

lemma join_scalar: "scalar c \<Longrightarrow> \<forall>t \<in> set ts. \<forall>x \<in> set t. scalar x \<Longrightarrow> \<forall>x \<in> set (join c ts). scalar x"
  using join_set [of c ts] by auto

lemma render_scalar: "encodable v \<Longrightarrow> \<forall>c \<in> set (render v). scalar c"
proof (induction v)
  case (JArr vs)
  then have "\<forall>t \<in> set (map render vs). \<forall>x \<in> set t. scalar x" by (simp add: list_all_iff)
  from join_scalar [OF _ this, of 44] show ?case by (simp add: scalar_def)
next
  case (JObj kvs)
  have "\<forall>c \<in> set (quote k @ 58 # render v). scalar c" if kv: "(k, v) \<in> set kvs" for k v
  proof -
    have "\<forall>c \<in> set k. scalar c" "encodable v" using JObj.prems kv by (auto simp: list_all_iff)
    then show ?thesis using quote_scalar [of k] JObj.IH [OF kv, of v] by (simp add: ball_Un scalar_def [of 58])
  qed
  then have "\<forall>t \<in> set (map (\<lambda>(k, v). quote k @ 58 # render v) kvs). \<forall>x \<in> set t. scalar x"
    by fastforce
  from join_scalar [OF _ this, of 44] show ?case by (simp add: scalar_def)
next
  case (JStr t)
  then show ?case using quote_scalar [of t] by (simp add: list_all_iff)
qed (use u_scalar in \<open>simp_all add: list_all_iff\<close>)

lemma canonical_scalar: "encodable v \<Longrightarrow> list_all scalar (canonical v)"
  using render_scalar [OF encodable_sorted, of v] by (simp add: canonical_def list_all_iff)

lemma encoded_canonical: "encodable v \<Longrightarrow> \<exists>k. encoded_length (canonical v) = Inr k"
  using render_scalar [OF encodable_sorted, of v]
  by (auto simp: encoded_length_def canonical_def list_ex_iff scalar_def)

lemma body_get_message:
  "json_ok (JObj kvs) \<Longrightarrow> body_get k (message i (JObj kvs) pin) =
    Inr (sorted_json (case map_of kvs (u k) of None \<Rightarrow> JNull | Some v \<Rightarrow> v))"
  by (simp add: body_get_def body_def message_def loads_canonical json_get_sorted del: json_ok.simps sorted_json.simps)

subsection \<open>A sample session\<close>

definition says :: "string \<Rightarrow> string \<Rightarrow> json" where
  "says role content = JObj [(u ''role'', JStr (u role)), (u ''content'', JStr (u content))]"

definition sample_nodes :: "node list" where
  "sample_nodes = [message (u ''s'') (says ''system'' ''be brief'') False,
     message (u ''a'') (JObj [(u ''role'', JStr (u ''assistant'')),
       (u ''tool_calls'', JArr [JObj [(u ''id'', JStr (u ''c1''))]])]) False,
     message (u ''t'') (JObj [(u ''role'', JStr (u ''tool'')), (u ''tool_call_id'', JStr (u ''c1'')),
       (u ''content'', JStr (u ''a long result''))]) False,
     message (u ''q'') (says ''user'' ''next question'') False]"

definition sample :: surface where
  "sample = \<lparr>sf_session = u ''run'', sf_nodes = sample_nodes\<rparr>"

definition sample_route :: route where
  "sample_route = \<lparr>rt_provider = ''p'', rt_model = ''m'', rt_capacity = 400, rt_output = 10, rt_unit = ''tokens''\<rparr>"

definition sample_policy :: policy where
  "sample_policy = default_policy\<lparr>headroom := 290, retain_units := Some 10\<rparr>"

definition sample_meter :: meter where
  "sample_meter = \<lparr>mt_unit = ''tokens'',
     mt_node = (\<lambda>n r. Inr (if nd_id n = u ''m'' then 2 else 40)), mt_envelope = (\<lambda>s r. Inr 10)\<rparr>"

definition sample_summary :: node where
  "sample_summary = message (u ''m'') (says ''assistant'' ''done'') False"

definition sample_prepared :: prepared where
  "sample_prepared = \<lparr>pr_session = u ''run'', pr_source = [sample_nodes ! 1, sample_nodes ! 2],
     pr_before = [u ''s''], pr_after = [u ''q''], pr_route = sample_route, pr_cost = 80, pr_sha = []\<rparr>"

lemmas sample_defs = sample_def sample_nodes_def sample_route_def sample_meter_def sample_prepared_def

lemma sample_body:
  "body_get k (message i (says r t) pin) = Inr (
     if k = ''role'' then JStr (u r) else if k = ''content'' then JStr (u t) else JNull)"
  by (simp add: says_def body_get_message)

lemma sample_ids: "nd_id (message i m pin) = i" "nd_pinned (message i m pin) = pin"
  by (simp_all add: message_def)

lemma sample_tool_bodies:
  "body_get k (sample_nodes ! 1) = Inr (if k = ''role'' then JStr (u ''assistant'')
     else if k = ''tool_calls'' then JArr [JObj [(u ''id'', JStr (u ''c1''))]] else JNull)"
  "body_get k (sample_nodes ! 2) = Inr (if k = ''role'' then JStr (u ''tool'')
     else if k = ''tool_call_id'' then JStr (u ''c1'')
     else if k = ''content'' then JStr (u ''a long result'') else JNull)"
  by (simp_all add: sample_nodes_def body_get_message)

lemma sample_costs: "costs sample sample_route sample_meter = Inr ([40, 40, 40, 40], 170)"
  by (simp add: costs_def sample_defs sample_ids)

lemma sample_budgets: "budgets sample_policy sample_route = Inr (100, 10)"
  by (simp add: budgets_def sample_policy_def default_policy_def sample_route_def Let_def)

lemma sample_cuts: "balanced_cuts sample = Inr [True, True, False, True, True]"
  using sample_tool_bodies
  by (simp add: balanced_cuts_def sample_def sample_nodes_def balance_node_def has_role_def sample_body)

lemma sample_span:
  "span (\<lambda>_. []) sample sample_route [40, 40, 40, 40] 1 3 = Inr sample_prepared"
proof -
  have "encodable (JArr (map (\<lambda>n. JStr (nd_json n)) [sample_nodes ! 1, sample_nodes ! 2]))"
    by (simp add: sample_nodes_def message_def canonical_scalar u_scalar_all)
  from encoded_canonical [OF this] show ?thesis
    by (auto simp: span_def Let_def slice_def sample_defs sample_ids)
qed

lemma sample_prepare:
  "prepare (\<lambda>_. []) sample sample_route sample_meter sample_policy ''pressure'' = Inr (Some sample_prepared)"
proof -
  have "skip_head (sf_nodes sample) = Inr 1"
    using sample_tool_bodies(1) by (simp add: sample_def sample_nodes_def has_role_def sample_body sample_ids)
  moreover have "first_pinned (sf_nodes sample) 1 3 = 3"
    by (simp add: first_pinned_def sample_def sample_nodes_def sample_ids upt_rec)
  moreover have "length (sf_nodes sample) = 4" by (simp add: sample_def sample_nodes_def)
  ultimately show ?thesis
    using sample_span
    by (simp add: prepare_def sample_costs sample_budgets sample_cuts eval_nat_numeral)
qed


definition sample_after :: surface where
  "sample_after = \<lparr>sf_session = u ''run'', sf_nodes = [sample_nodes ! 0, sample_summary, sample_nodes ! 3]\<rparr>"

lemma sample_summary_plain: "plain_text sample_summary"
  by (simp add: plain_text_def sample_summary_def sample_ids sample_body)
    (simp add: strip_white_def u_def is_white_def)

lemma sample_distinct: "distinct (map nd_id (sf_nodes sample))"
  by (simp add: sample_def sample_nodes_def sample_ids)

lemma sample_fits: "fits sample_prepared sample [sample_nodes ! 0] [sample_nodes ! 3]"
proof -
  have p: "pending_after [] [sample_nodes ! 0] = Inr []" "cuts_from [] [sample_nodes ! 3] = Inr [True]"
    by (simp_all add: sample_nodes_def balance_node_def has_role_def sample_body)
  have "pending_after [] [sample_nodes ! 1, sample_nodes ! 2] = Inr []"
    using sample_tool_bodies by (simp add: balance_node_def has_role_def)
  with p show ?thesis
    by (simp add: fits_def sample_def sample_prepared_def)
      (simp add: sample_nodes_def sample_ids)
qed

lemma sample_replacement: "replacement sample_prepared sample sample_summary sample_meter = Inr sample_after"
  unfolding replacement_iff [OF sample_distinct]
  by (rule exI [of _ "[sample_nodes ! 0]"], rule exI [of _ "[sample_nodes ! 3]"])
    (simp add: sample_fits check_summary_iff sample_summary_plain mk_surface_Inr sample_meter_def,
     simp add: sample_summary_def sample_nodes_def sample_ids sample_after_def sample_def sample_prepared_def)

subsection \<open>Selection\<close>

text \<open>
  C26. A span that \<open>prepare\<close> selects is a nonempty slice of the surface between the recorded
  neighbours: everything before it is a system message or pinned, none of it is pinned and its
  first node is no system message, every tool call in it is answered in it, and the newest node
  is never part of it. Under pressure the surface has reached the threshold of the policy and
  what is kept behind the span costs at least the retention.
\<close>

theorem prepare_selects_span:
  assumes "prepare sha s r m p trigger = Inr (Some x)"
  shows "\<exists>pre post. sf_nodes s = pre @ pr_source x @ post \<and> pr_source x \<noteq> [] \<and> post \<noteq> [] \<and>
    map nd_id pre = pr_before x \<and> map nd_id post = pr_after x \<and>
    (\<forall>k < length pre. nd_pinned (pre ! k) \<or> has_role ''system'' (pre ! k) = Inr True) \<and>
    (\<forall>n \<in> set (pr_source x). \<not> nd_pinned n) \<and> has_role ''system'' (hd (pr_source x)) = Inr False \<and>
    pending_after [] (pr_source x) = Inr [] \<and>
    (trigger \<noteq> ''pressure'' \<or> (\<exists>t w vs c. budgets p r = Inr (t, w) \<and> costs s r m = Inr (vs, c) \<and>
       t \<le> c \<and> w \<le> sum_list (drop (length pre + length (pr_source x)) vs)))"
proof -
  obtain i j vs cuts c w where sel: "selected sha s r m x i j vs cuts c" and w: "w \<le> sum_list (drop j vs)"
    and t: "if trigger = ''pressure'' then \<exists>t. budgets p r = Inr (t, w) \<and> t \<le> c else w = 0"
    using prepare_Some [OF assms] by blast
  have ij: "i \<le> j" "j \<le> length (sf_nodes s)" "i < j" "j < length (sf_nodes s)"
    and sp: "span sha s r vs i j = Inr x" and c: "costs s r m = Inr (vs, c)"
    and head: "skip_head (sf_nodes s) = Inr i" and cuts: "balanced_cuts s = Inr cuts"
    using sel by (simp_all add: selected_def)
  note x = span_Inr [OF sp ij(1,2)] and src = selected_source [OF sel]
  have "fits x s (take i (sf_nodes s)) (drop j (sf_nodes s) @ [])"
    using selected_fits [OF sel _ _ cuts, of "[]"] by simp
  then have "pending_after [] (pr_source x) = Inr []" by (simp add: fits_def)
  moreover have "\<forall>k < length (take i (sf_nodes s)). nd_pinned (take i (sf_nodes s) ! k) \<or>
      has_role ''system'' (take i (sf_nodes s) ! k) = Inr True"
    using skip_head_before [OF head] by simp
  moreover have "hd (pr_source x) = sf_nodes s ! i"
    using sp ij by (auto simp: span_def Let_def bind_res_Inr_iff slice_def hd_drop_conv_nth)
  then have "has_role ''system'' (hd (pr_source x)) = Inr False"
    using skip_head_next [OF head] ij by simp
  moreover have "drop j (sf_nodes s) \<noteq> []" using ij(4) by simp
  moreover have "length (take i (sf_nodes s)) + length (pr_source x) = j" using x(2) ij by simp
  then have "trigger \<noteq> ''pressure'' \<or> (\<exists>t w vs c. budgets p r = Inr (t, w) \<and> costs s r m = Inr (vs, c) \<and>
       t \<le> c \<and> w \<le> sum_list (drop (length (take i (sf_nodes s)) + length (pr_source x)) vs))"
  proof (cases "trigger = ''pressure''")
    case True
    then show ?thesis using t w c \<open>length (take i (sf_nodes s)) + length (pr_source x) = j\<close> by auto
  qed simp
  ultimately show ?thesis
    using x(1) x(4,5) [symmetric] src(1,4) by blast
qed

theorem prepare_selects_span_witness:
  "sf_nodes sample = [sample_nodes ! 0] @ pr_source sample_prepared @ [sample_nodes ! 3] \<and>
    (\<exists>pre post. sf_nodes sample = pre @ pr_source sample_prepared @ post \<and> post \<noteq> [])"
  using prepare_selects_span [OF sample_prepare] by (auto simp: sample_defs)

text \<open>
  C32. The budgets of a valid policy on a valid route: a positive threshold below the routed
  capacity that leaves the reserved output and the headroom free, and a retention from zero up to
  less than the threshold; \<open>budgets\<close> fails exactly when the threshold is not positive or not above
  the retention.
\<close>

theorem budgets_bounds:
  assumes "check_policy p = Inr ()" and "mk_route provider model capacity output units = Inr r"
  shows "if budgets p r = Inl ValueError then True
    else \<exists>t w. budgets p r = Inr (t, w) \<and> 0 < t \<and> t < capacity \<and>
      t \<le> capacity - output - headroom p \<and> 0 \<le> w \<and> w < t"
proof -
  have r: "rt_capacity r = capacity" "rt_output r = output" "0 < capacity" "0 \<le> output" "output < capacity"
    using assms(2) by (auto simp: mk_route_def split: if_splits)
  have p: "0 < threshold_ratio p" "threshold_ratio p < 1"
    "\<And>n. retain_units p = Some n \<Longrightarrow> 0 \<le> n"
    "retain_units p = None \<Longrightarrow> \<exists>q. retain_ratio p = Some q \<and> 0 \<le> q"
    using assms(1) by (auto simp: check_policy_def split: if_splits option.splits)
  define t where "t = \<lfloor>min (of_int capacity * threshold_ratio p) (of_int (capacity - output - headroom p))\<rfloor>"
  obtain w where w: "budgets p r = (if t \<le> 0 \<or> w \<ge> t then Inl ValueError else Inr (t, w))" "0 \<le> w"
  proof (cases "retain_units p")
    case None
    then obtain q where "retain_ratio p = Some q" "0 \<le> q" using p(4) by blast
    then show thesis
      using that [of "\<lfloor>of_int (capacity - output) * q\<rfloor>"] None r
      by (simp add: budgets_def Let_def t_def)
  next
    case (Some n)
    then show thesis using that [of n] p(3) r by (simp add: budgets_def Let_def t_def)
  qed
  have "of_int t \<le> of_int capacity * threshold_ratio p" "of_int t \<le> (of_int (capacity - output - headroom p) :: rat)"
    unfolding t_def using of_int_floor_le order_trans min.cobounded1 min.cobounded2 by metis+
  moreover have "of_int capacity * threshold_ratio p < (of_int capacity :: rat)"
    using p(2) r(3) by simp
  ultimately have "of_int t < (of_int capacity :: rat)" "t \<le> capacity - output - headroom p"
    by (simp_all only: of_int_le_iff)
  then show ?thesis using w by auto
qed

theorem budgets_bounds_witness:
  "if budgets sample_policy sample_route = Inl ValueError then True
    else \<exists>t w. budgets sample_policy sample_route = Inr (t, w) \<and> 0 < t \<and> t < 400 \<and>
      t \<le> 400 - 10 - headroom sample_policy \<and> 0 \<le> w \<and> w < t"
  by (rule budgets_bounds [where provider = "''p''" and model = "''m''" and units = "''tokens''"])
    (simp_all add: check_policy_def sample_policy_def default_policy_def mk_route_def sample_route_def)


subsection \<open>Replacement\<close>

text \<open>
  C28. On a surface with distinct ids \<open>replacement\<close> succeeds exactly when the prepared span still
  stands between its recorded neighbours with no tool call across its ends, and the summary is an
  unpinned plain text by user or assistant that costs less than the span and has a fresh id; the
  result is the surface with the span replaced by the summary.
\<close>

theorem replacement_exact:
  assumes "distinct (map nd_id (sf_nodes s))"
  shows "replacement p s n m = Inr s' \<longleftrightarrow>
    (\<exists>pre post. fits p s pre post \<and> plain_text n \<and>
      (\<exists>c. mt_node m n (pr_route p) = Inr c \<and> c < pr_cost p) \<and>
      nd_id n \<notin> set (map nd_id (pre @ post)) \<and>
      s' = \<lparr>sf_session = sf_session s, sf_nodes = pre @ n # post\<rparr>)"
proof -
  have "mk_surface (sf_session s) (pre @ [n] @ post) = Inr s' \<longleftrightarrow>
      nd_id n \<notin> set (map nd_id (pre @ post)) \<and> s' = \<lparr>sf_session = sf_session s, sf_nodes = pre @ n # post\<rparr>"
    if "fits p s pre post" for pre post
    using assms that by (auto simp: mk_surface_Inr fits_def)
  then show ?thesis
    unfolding replacement_iff [OF assms] check_summary_iff by blast
qed

theorem replacement_exact_witness:
  "replacement sample_prepared sample sample_summary sample_meter = Inr sample_after \<and>
    (\<exists>pre post. fits sample_prepared sample pre post \<and> sf_nodes sample_after = pre @ sample_summary # post)"
proof -
  obtain pre post where "fits sample_prepared sample pre post"
    "sample_after = \<lparr>sf_session = sf_session sample, sf_nodes = pre @ sample_summary # post\<rparr>"
    using replacement_exact [OF sample_distinct, of sample_prepared sample_summary sample_meter sample_after]
      sample_replacement by blast
  moreover from arg_cong [OF this(2), of sf_nodes]
  have "sf_nodes sample_after = pre @ sample_summary # post" by simp
  ultimately show ?thesis using sample_replacement by blast
qed

text \<open>
  Nodes appended while the summary was written do not get in its way: for a span prepared on
  \<open>s\<close>, a good summary replaces it on every later surface that extends \<open>s\<close>, and what was appended stays.
\<close>

theorem replacement_allows_appends:
  assumes "prepare sha s r m p trigger = Inr (Some x)"
    and "sf_session now = sf_session s" and "sf_nodes now = sf_nodes s @ extra"
    and "distinct (map nd_id (sf_nodes now))" and "balanced_cuts now = Inr cs"
    and "plain_text n" and "mt_node m n r = Inr c" and "c < pr_cost x"
    and "nd_id n \<notin> set (map nd_id (sf_nodes now))"
  shows "\<exists>pre post. sf_nodes s = pre @ pr_source x @ post \<and>
    replacement x now n m = Inr \<lparr>sf_session = sf_session s, sf_nodes = pre @ n # post @ extra\<rparr>"
proof -
  obtain i j vs cuts c where sel: "selected sha s r m x i j vs cuts c"
    using prepare_Some [OF assms(1)] by blast
  obtain pre post where f: "fits x now pre (post @ extra)" and nodes: "sf_nodes s = pre @ pr_source x @ post"
  proof
    show f: "fits x now (take i (sf_nodes s)) (drop j (sf_nodes s) @ extra)"
      by (rule selected_fits [OF sel assms(2,3,5)])
    then show "sf_nodes s = take i (sf_nodes s) @ pr_source x @ drop j (sf_nodes s)"
      using assms(3) by (simp add: fits_def)
  qed
  have now: "sf_nodes now = pre @ pr_source x @ post @ extra" using f by (simp add: fits_def)
  have "check_summary x n m = Inr ()"
    using assms(6-8) selected_source(3) [OF sel] by (simp add: check_summary_iff)
  moreover have "mk_surface (sf_session now) (pre @ [n] @ post @ extra) =
      Inr \<lparr>sf_session = sf_session s, sf_nodes = pre @ n # post @ extra\<rparr>"
    using assms(4,9) by (auto simp: mk_surface_Inr assms(2) now)
  ultimately have "replacement x now n m = Inr \<lparr>sf_session = sf_session s, sf_nodes = pre @ n # post @ extra\<rparr>"
    using f replacement_iff [OF assms(4)] by blast
  with nodes show ?thesis by blast
qed


definition sample_later :: surface where
  "sample_later = \<lparr>sf_session = u ''run'',
     sf_nodes = sample_nodes @ [message (u ''z'') (says ''user'' ''more'') False]\<rparr>"

lemma sample_later_cuts: "balanced_cuts sample_later = Inr [True, True, False, True, True, True]"
  using sample_tool_bodies
  by (simp add: balanced_cuts_def sample_later_def sample_nodes_def balance_node_def has_role_def sample_body)

theorem replacement_allows_appends_witness:
  "\<exists>pre post. sf_nodes sample = pre @ pr_source sample_prepared @ post \<and>
    replacement sample_prepared sample_later sample_summary sample_meter =
      Inr \<lparr>sf_session = u ''run'',
        sf_nodes = pre @ sample_summary # post @ [message (u ''z'') (says ''user'' ''more'') False]\<rparr>"
proof -
  have "\<exists>pre post. sf_nodes sample = pre @ pr_source sample_prepared @ post \<and>
    replacement sample_prepared sample_later sample_summary sample_meter =
      Inr \<lparr>sf_session = sf_session sample,
        sf_nodes = pre @ sample_summary # post @ [message (u ''z'') (says ''user'' ''more'') False]\<rparr>"
    by (rule replacement_allows_appends [OF sample_prepare _ _ _ sample_later_cuts sample_summary_plain,
          where c = 2])
      (simp_all add: sample_later_def sample_def sample_nodes_def sample_ids sample_summary_def
        sample_meter_def sample_prepared_def)
  then show ?thesis by (simp add: sample_def)
qed

subsection \<open>The transaction\<close>

text \<open>
  C27. \<open>compact\<close> on the journal store implements its specification: whatever the summariser
  changes in the host's view meanwhile (\<open>env\<close>), the view evolves by at most as many condensing
  steps as rounds, one per surface in the result; each step replaces an unpinned, tool-balanced
  span that leaves the newest node alone by one cheaper plain message. Whatever happens, no
  transaction is left open.
\<close>

theorem compact_refines:
  assumes "relies journal_ops js_active env summarize" and "js_active s = None"
    and "compact sha journal_ops m summarize p trigger s = (res, s')"
  shows "js_active s' = None \<and>
    (\<exists>k \<le> (if trigger = ''pressure'' then nat (compaction_retries p + 1) else 1).
       evolves m env k (js_value s, js_target s) (js_value s', js_target s') \<and>
       (\<forall>rs. res = Inr rs \<longrightarrow> length rs = k \<and> js_value s' = last (js_value s # rs)))"
  using journal_compact [OF assms] by metis

definition sample_store :: journal_store where
  "sample_store = \<lparr>js_value = sample, js_target = sample_route, js_journal = [], js_active = None\<rparr>"

definition sample_stored :: journal_store where
  "sample_stored = \<lparr>js_value = sample_after, js_target = sample_route,
     js_journal = [Start (u ''0'') [], Checkpoint [] (nd_json sample_summary), End (u ''0'') ''committed''],
     js_active = None\<rparr>"

lemma sample_below: "below_threshold sample_after sample_route sample_meter sample_policy = Inr True"
  by (simp add: below_threshold_def sample_budgets)
    (simp add: costs_def sample_after_def sample_nodes_def sample_meter_def sample_ids sample_summary_def sample_route_def)

lemma sample_compact:
  "compact (\<lambda>_. []) journal_ops sample_meter (quiet (\<lambda>_ _. Inr sample_summary)) sample_policy ''pressure''
     sample_store = (Inr [sample_after], sample_stored)"
proof -
  have token: "u (show_int (int (length ([] :: entry list)))) = u ''0''"
    by code_simp
  have ops: "st_snapshot journal_ops = js_value" "st_route journal_ops = js_target"
    "st_begin journal_ops = js_begin" "st_commit journal_ops = js_commit"
    by (simp_all add: journal_ops_def)
  have pr: "pr_route sample_prepared = sample_route" "pr_sha sample_prepared = []"
    by (simp_all add: sample_prepared_def)
  have tx: "js_begin sample_prepared sample_store =
      (Inr (u ''0''), sample_store\<lparr>js_active := Some (u ''0''), js_journal := [Start (u ''0'') []]\<rparr>)"
    using token by (simp add: js_begin_def sample_store_def pr Let_def)
  have run: "guarded journal_ops (u ''0'') (attempt journal_ops sample_meter (quiet (\<lambda>_ _. Inr sample_summary))
      sample_policy sample_route (u ''0'') sample_prepared)
      (sample_store\<lparr>js_active := Some (u ''0''), js_journal := [Start (u ''0'') []]\<rparr>) = (Inr sample_after, sample_stored)"
    by (simp add: guarded_def attempt_def quiet_def lift_res_simps ops js_commit_def sample_store_def
        sample_replacement pr sample_stored_def)
  have "nat (compaction_retries sample_policy + 1) = Suc (Suc 0)"
    by (simp add: sample_policy_def default_policy_def)
  moreover have "js_value sample_store = sample" "js_target sample_store = sample_route"
    by (simp_all add: sample_store_def)
  ultimately show ?thesis
    by (simp add: compact_def compact_loop_Suc ops sample_prepare tx run sample_below del: compact_loop.simps)
qed

theorem compact_refines_witness:
  "js_active sample_stored = None \<and>
    (\<exists>k \<le> 2. evolves sample_meter (=) k (sample, sample_route) (sample_after, sample_route))"
proof -
  have "js_active sample_store = None" by (simp add: sample_store_def)
  from compact_refines [OF quiet_relies this sample_compact]
  obtain k where "k \<le> (if ''pressure'' = ''pressure'' then nat (compaction_retries sample_policy + 1) else 1)"
    "evolves sample_meter (=) k (js_value sample_store, js_target sample_store)
       (js_value sample_stored, js_target sample_stored)" "js_active sample_stored = None" by blast
  then show ?thesis
    by (intro conjI exI [of _ k])
      (simp_all add: sample_policy_def default_policy_def sample_store_def sample_stored_def)
qed

text \<open>
  C29. Compaction pays: with a meter that prices every node for itself, while the host appends at most
  nodes of total cost \<open>d\<close> to the surface during each call of the summariser, each surface that \<open>compact\<close> returns
  is cheaper by at least one unit than the one before with what was appended to it, and when a
  round fails the total cost has grown by what was appended only. With \<open>d = 0\<close> the cost never grows.
\<close>

theorem compact_reduces_cost:
  assumes "additive_meter m" and "relies journal_ops js_active (appends m d) summarize" "0 \<le> d" and "js_active s = None"
    and "costs (js_value s) (js_target s) m = Inr (vs, c)"
    and "compact sha journal_ops m summarize p trigger s = (res, s')"
  shows "js_target s' = js_target s \<and> (\<exists>vs' c'. costs (js_value s') (js_target s') m = Inr (vs', c') \<and>
    (case res of
       Inl e \<Rightarrow> c' \<le> c + d * int (if trigger = ''pressure'' then nat (compaction_retries p + 1) else 1)
     | Inr rs \<Rightarrow> c' + int (length rs) \<le> c + d * int (length rs)))"
proof -
  let ?n = "if trigger = ''pressure'' then nat (compaction_retries p + 1) else 1"
  obtain k v where k: "k \<le> ?n" "((appends m d OO condenses m) ^^ k) (js_value s, js_target s) v"
    "v = (js_value s', js_target s') \<or> k < ?n \<and> \<not> is_ok res \<and> appends m d v (js_value s', js_target s')"
    "\<And>rs. res = Inr rs \<Longrightarrow> length rs = k"
    by (rule journal_rounds [OF assms(2,4,6)]) blast
  from additive_meter.rounds_bounded [OF assms(1) k(2) assms(5)]
  obtain ws b where b: "snd v = js_target s" "costs (fst v) (js_target s) m = Inr (ws, b)" "b + int k \<le> c + d * int k"
    by (auto simp: mult.commute)
  have d: "d * int k + (if k < ?n then d else 0) \<le> d * int ?n"
    using k(1) assms(3) mult_left_mono [of "int k + (if k < ?n then 1 else 0)" "int ?n" d] by (auto simp: algebra_simps)
  from k(3) show ?thesis
  proof
    assume "v = (js_value s', js_target s')"
    then show ?thesis using b k(4) d assms(3) by (auto split: sum.splits if_splits)
  next
    assume last: "k < ?n \<and> \<not> is_ok res \<and> appends m d v (js_value s', js_target s')"
    then obtain e where e: "res = Inl e" by (cases res) simp_all
    have "appends m d (fst v, js_target s) (js_value s', js_target s')" using last b(1) by (metis prod.collapse)
    from additive_meter.appends_cost [OF assms(1) this b(2)] show ?thesis
      using last b(3) d by (auto simp: e)
  qed
qed

lemma sample_meter_additive: "additive_meter sample_meter"
  by unfold_locales (auto simp: sample_meter_def split: if_splits)

lemma quiet_appends: "0 \<le> d \<Longrightarrow> relies st open_tx (appends m d) (quiet f)"
  by (auto simp: relies_def quiet_def lift_res_def appends_def)

theorem compact_reduces_cost_witness:
  "\<exists>vs c. costs sample_after sample_route sample_meter = Inr (vs, c) \<and> c + 1 \<le> 170"
proof -
  have "js_active sample_store = None" "js_value sample_store = sample" "js_target sample_store = sample_route"
    by (simp_all add: sample_store_def)
  then show ?thesis
    using compact_reduces_cost [OF sample_meter_additive quiet_appends [of 0] _ _ _ sample_compact] sample_costs
    by (auto simp: sample_stored_def)
qed

text \<open>
  C30. When \<open>compact\<close> returns under pressure, the pressure is gone or nothing is left to select:
  the final surface costs less than the threshold, or \<open>prepare\<close> finds no span on it.
\<close>

theorem compact_relieves_pressure:
  assumes "relies journal_ops js_active env summarize" and "js_active s = None"
    and "compact sha journal_ops m summarize p ''pressure'' s = (Inr rs, s')"
  shows "prepare sha (js_value s') (js_target s') m p ''pressure'' = Inr None \<or>
    below_threshold (js_value s') (js_target s') m p = Inr True"
  using journal.pressure_relieved [OF assms(1,2)] assms(3)
  by (simp add: compact_def journal_ops_def)

theorem compact_relieves_pressure_witness:
  "prepare (\<lambda>_. []) sample_after sample_route sample_meter sample_policy ''pressure'' = Inr None \<or>
    below_threshold sample_after sample_route sample_meter sample_policy = Inr True"
proof -
  have "js_active sample_store = None" by (simp add: sample_store_def)
  from compact_relieves_pressure [OF quiet_relies this sample_compact]
  show ?thesis by (simp add: sample_stored_def)
qed


text \<open>
  One explicit compaction is atomic: if it raises, whether the summariser fails or its answer
  is refused, the surface is the one before; if it returns a surface, that is the stored one and it
  is one condensing step away; if it returns nothing, nothing has changed. No transaction is left open.
\<close>

theorem compact_atomic:
  assumes "js_active s = None" and "trigger \<noteq> ''pressure''"
    and "compact sha journal_ops m (quiet f) p trigger s = (res, s')"
  shows "js_active s' = None \<and> js_target s' = js_target s \<and>
    (case res of
       Inl e \<Rightarrow> js_value s' = js_value s
     | Inr [] \<Rightarrow> s' = s
     | Inr (new # rs) \<Rightarrow> rs = [] \<and> js_value s' = new \<and>
         condenses m (js_value s, js_target s) (new, js_target s))"
proof -
  note step = journal.single_round_atomic [OF quiet_relies assms]
  show ?thesis
  proof (cases res)
    case (Inl e)
    then show ?thesis using step by (auto simp: view_journal)
  next
    case (Inr rs)
    show ?thesis
    proof (cases rs)
      case Nil
      then show ?thesis using step Inr assms(1) by simp
    next
      case (Cons new rs')
      then have "rs' = [] \<and> js_value s' = new \<and> condenses m (view journal_ops s) (view journal_ops s')"
        using step Inr by (simp add: journal_ops_def eq_OO)
      moreover from this have "js_target s' = js_target s" by (simp add: condenses_def view_journal)
      ultimately show ?thesis using step Inr Cons by (auto simp: view_journal)
    qed
  qed
qed

definition sample_cancelled :: journal_store where
  "sample_cancelled = sample_store\<lparr>js_journal := [Start (u ''0'') [], End (u ''0'') ''cancelled'']\<rparr>"

lemma sample_cancel:
  "compact (\<lambda>_. []) journal_ops sample_meter (quiet (\<lambda>_ _. Inl CancelledError)) sample_policy ''manual''
     sample_store = (Inl CancelledError, sample_cancelled)"
proof -
  have token: "u (show_int (int (length ([] :: entry list)))) = u ''0''"
    by code_simp
  have "skip_head (sf_nodes sample) = Inr 1" "length (sf_nodes sample) = 4" "first_pinned (sf_nodes sample) 1 3 = 3"
    using sample_tool_bodies(1)
    by (simp_all add: sample_def sample_nodes_def has_role_def sample_body sample_ids first_pinned_def upt_rec)
  then have prep: "prepare (\<lambda>_. []) sample sample_route sample_meter sample_policy ''manual'' = Inr (Some sample_prepared)"
    using sample_span by (simp add: prepare_def sample_costs sample_cuts eval_nat_numeral)
  have ops: "st_snapshot journal_ops = js_value" "st_route journal_ops = js_target"
    "st_begin journal_ops = js_begin" "st_fail journal_ops = js_fail"
    by (simp_all add: journal_ops_def)
  have tx: "js_begin sample_prepared sample_store =
      (Inr (u ''0''), sample_store\<lparr>js_active := Some (u ''0''), js_journal := [Start (u ''0'') []]\<rparr>)"
    using token by (simp add: js_begin_def sample_store_def sample_prepared_def Let_def)
  have run: "guarded journal_ops (u ''0'') (attempt journal_ops sample_meter (quiet (\<lambda>_ _. Inl CancelledError))
      sample_policy sample_route (u ''0'') sample_prepared)
      (sample_store\<lparr>js_active := Some (u ''0''), js_journal := [Start (u ''0'') []]\<rparr>) =
      (Inl CancelledError, sample_cancelled)"
    by (simp add: guarded_def attempt_def quiet_def lift_res_simps ops js_fail_def)
      (simp add: ops raise_st_def bind_st_def js_fail_def sample_cancelled_def sample_store_def)
  have "js_value sample_store = sample" "js_target sample_store = sample_route"
    by (simp_all add: sample_store_def)
  then have "compact_loop (Suc 0) (\<lambda>_. []) journal_ops sample_meter (quiet (\<lambda>_ _. Inl CancelledError))
      sample_policy ''manual'' [] sample_store = (Inl CancelledError, sample_cancelled)"
    by (simp add: compact_loop_Suc ops prep tx run del: compact_loop.simps)
  then show ?thesis by (simp add: compact_def del: compact_loop.simps)
qed

theorem compact_atomic_witness:
  "js_active sample_cancelled = None \<and> js_target sample_cancelled = sample_route \<and>
    js_value sample_cancelled = sample"
  using compact_atomic [OF _ _ sample_cancel] by (simp add: sample_store_def)

subsection \<open>Overflow recovery\<close>

text \<open>The calls and recoveries in the order they are made, with their outcomes\<close>

datatype 'a overflow_event = Called "'a res" | Recovered "bool res"

definition logged ::
  "('a res \<Rightarrow> 'b overflow_event) \<Rightarrow> ('s, 'a) method_st \<Rightarrow> ('s \<times> 'b overflow_event list, 'a) method_st" where
  "logged event f = (\<lambda>(s, es). (fst (f s), (snd (f s), es @ [event (fst (f s))])))"

lemma overflow_loop_Suc:
  "overflow_loop (Suc j) call recover s =
    (case call s of (r, s1) \<Rightarrow>
      if r = Inl ContextOverflowError
      then (case recover s1 of (a, s2) \<Rightarrow>
        if a = Inr True then overflow_loop j call recover s2
        else (case a of Inl err \<Rightarrow> Inl err | Inr _ \<Rightarrow> Inl ContextOverflowError, s2))
      else (r, s1))"
  by (auto simp: bind_st_def raise_st_def split: prod.split sum.split py_error.split bool.split)

lemma overflow_loop_logged:
  "overflow_loop j (logged Called call) (logged Recovered recover) (s, es) = (res, (s', events)) \<Longrightarrow>
    overflow_loop j call recover s = (res, s') \<and>
    (\<exists>k last.
      events = es @ concat (replicate k [Called (Inl ContextOverflowError), Recovered (Inr True)]) @ last \<and> k \<le> j \<and>
      (last = [Called res] \<and> (res = Inl ContextOverflowError \<longrightarrow> k = j) \<or>
       (\<exists>answer. last = [Called (Inl ContextOverflowError), Recovered answer] \<and> k < j \<and> answer \<noteq> Inr True \<and>
         res = (case answer of Inl err \<Rightarrow> Inl err | Inr _ \<Rightarrow> Inl ContextOverflowError))))"
proof (induction j arbitrary: s es)
  case 0
  then show ?case by (intro conjI exI [of _ 0] exI [of _ "[Called res]"]) (auto simp: logged_def)
next
  case (Suc j)
  obtain r s1 where c: "call s = (r, s1)" by fastforce
  then have c': "logged Called call (s, es) = (r, (s1, es @ [Called r]))" by (simp add: logged_def)
  show ?case
  proof (cases "r = Inl ContextOverflowError")
    case False
    then have "events = es @ [Called r]" "r = res" "s1 = s'" "overflow_loop (Suc j) call recover s = (r, s1)"
      using Suc.prems by (auto simp: overflow_loop_Suc c c' simp del: overflow_loop.simps)
    then show ?thesis using False
      by (intro conjI exI [of _ 0] exI [of _ "[Called res]"]) simp_all
  next
    case True
    obtain rr s2 where r: "recover s1 = (rr, s2)" by fastforce
    let ?es = "es @ [Called (Inl ContextOverflowError), Recovered rr]"
    have r': "logged Recovered recover (s1, es @ [Called (Inl ContextOverflowError)]) = (rr, (s2, ?es))"
      using r by (simp add: logged_def)
    show ?thesis
    proof (cases "rr = Inr True")
      case again: True
      have "overflow_loop j (logged Called call) (logged Recovered recover) (s2, ?es) = (res, (s', events))"
        using Suc.prems again by (simp add: overflow_loop_Suc c' True r' del: overflow_loop.simps)
      from Suc.IH [OF this] obtain k last where run: "overflow_loop j call recover s2 = (res, s')"
        and ev: "events = ?es @ concat (replicate k [Called (Inl ContextOverflowError), Recovered (Inr True)]) @ last" "k \<le> j"
        and last: "last = [Called res] \<and> (res = Inl ContextOverflowError \<longrightarrow> k = j) \<or>
          (\<exists>answer. last = [Called (Inl ContextOverflowError), Recovered answer] \<and> k < j \<and> answer \<noteq> Inr True \<and>
            res = (case answer of Inl err \<Rightarrow> Inl err | Inr _ \<Rightarrow> Inl ContextOverflowError))" by blast
      have "overflow_loop (Suc j) call recover s = (res, s')"
        using run by (simp add: overflow_loop_Suc c True r again del: overflow_loop.simps)
      then show ?thesis using ev last again
        by (intro conjI exI [of _ "Suc k"] exI [of _ last]) simp_all
    next
      case False
      then have "events = ?es" "res = (case rr of Inl err \<Rightarrow> Inl err | Inr _ \<Rightarrow> Inl ContextOverflowError)"
          "overflow_loop (Suc j) call recover s = (res, s')"
        using Suc.prems by (auto simp: overflow_loop_Suc c c' True r r' simp del: overflow_loop.simps)
      then show ?thesis using False
        by (intro conjI exI [of _ 0] exI [of _ "[Called (Inl ContextOverflowError), Recovered rr]"]) simp_all
    qed
  qed
qed

text \<open>
  C31. Overflow recovery, by the log of its calls and recoveries, which does not change its result: it is a
  number of rounds, at most \<open>retries\<close>, in each of which the call overflowed and the recovery
  confirmed progress, and then either one last call, whose result is the result (an overflow
  only when the retries are used up), or an overflow after which the recovery raised, or answered that
  there was no progress, which ends it with that error or the overflow.
\<close>

theorem overflow_recovery_bounded:
  assumes "0 \<le> retries"
    and "with_overflow_recovery (logged Called call) (logged Recovered recover) retries (s, []) = (res, (s', events))"
  shows "with_overflow_recovery call recover retries s = (res, s') \<and>
    (\<exists>k last.
      events = concat (replicate k [Called (Inl ContextOverflowError), Recovered (Inr True)]) @ last \<and> int k \<le> retries \<and>
      (last = [Called res] \<and> (res = Inl ContextOverflowError \<longrightarrow> int k = retries) \<or>
       (\<exists>answer. last = [Called (Inl ContextOverflowError), Recovered answer] \<and> int k < retries \<and> answer \<noteq> Inr True \<and>
         res = (case answer of Inl err \<Rightarrow> Inl err | Inr _ \<Rightarrow> Inl ContextOverflowError))))"
proof -
  have n: "(int k \<le> retries) = (k \<le> nat retries)" "(int k = retries) = (k = nat retries)" "(int k < retries) = (k < nat retries)" for k
    using assms(1) by auto
  show ?thesis unfolding n
    using overflow_loop_logged [of "nat retries" call recover s "[]" res s' events] assms
    by (simp add: with_overflow_recovery_def)
qed

definition sample_call :: "(nat, string) method_st" where
  "sample_call n = (if n < 2 then (Inl ContextOverflowError, n) else (Inr ''ok'', n))"

definition sample_recover :: "(nat, bool) method_st" where
  "sample_recover n = (Inr True, n + 1)"

theorem overflow_recovery_bounded_witness:
  "with_overflow_recovery sample_call sample_recover 2 0 = (Inr ''ok'', 2) \<and>
   (\<exists>k. [Called (Inl ContextOverflowError), Recovered (Inr True), Called (Inl ContextOverflowError), Recovered (Inr True),
      Called (Inr ''ok'')] = concat (replicate k [Called (Inl ContextOverflowError), Recovered (Inr True)]) @ [Called (Inr ''ok'')])"
proof -
  have "with_overflow_recovery (logged Called sample_call) (logged Recovered sample_recover) 2 (0, []) =
      (Inr ''ok'', (2, [Called (Inl ContextOverflowError), Recovered (Inr True), Called (Inl ContextOverflowError),
        Recovered (Inr True), Called (Inr ''ok'')]))"
    by code_simp
  from overflow_recovery_bounded [OF _ this] show ?thesis by auto
qed

subsection \<open>System messages behind the head\<close>

text \<open>
  \<open>prepare\<close> protects system messages at the head of the surface only; a later one can be part of
  the span it selects, which \<open>prepare_range\<close> refuses as crossing a protected boundary.
\<close>

definition mixed :: surface where
  "mixed = \<lparr>sf_session = u ''run'', sf_nodes = [message (u ''a'') (says ''user'' ''one'') False,
     message (u ''b'') (says ''system'' ''two'') False, message (u ''c'') (says ''user'' ''three'') False]\<rparr>"

lemma prepare_selects_later_system:
  "\<exists>x. prepare (\<lambda>_. []) mixed sample_route sample_meter sample_policy ''manual'' = Inr (Some x) \<and>
    has_role ''system'' (sf_nodes mixed ! 1) = Inr True \<and> sf_nodes mixed ! 1 \<in> set (pr_source x) \<and>
    prepare_range (\<lambda>_. []) mixed sample_route sample_meter 0 2 = Inl ValueError"
proof -
  have costs: "costs mixed sample_route sample_meter = Inr ([40, 40, 40], 130)"
    by (simp add: costs_def mixed_def sample_meter_def sample_route_def sample_ids)
  have cuts: "balanced_cuts mixed = Inr [True, True, True, True]"
    by (simp add: balanced_cuts_def mixed_def balance_node_def has_role_def sample_body)
  have role: "has_role ''system'' (sf_nodes mixed ! 1) = Inr True"
    by (simp add: mixed_def has_role_def sample_body)
  have head: "skip_head (sf_nodes mixed) = Inr 0" "first_pinned (sf_nodes mixed) 0 2 = 2" "length (sf_nodes mixed) = 3"
    by (simp_all add: mixed_def has_role_def sample_body sample_ids first_pinned_def upt_rec)
  have "encodable (JArr (map (\<lambda>n. JStr (nd_json n)) (slice 0 2 (sf_nodes mixed))))"
    by (simp add: mixed_def slice_def says_def message_def canonical_scalar u_scalar_all)
  from encoded_canonical [OF this] obtain x where x: "span (\<lambda>_. []) mixed sample_route [40, 40, 40] 0 2 = Inr x"
    by (auto simp: span_def Let_def)
  have "pr_source x = slice 0 2 (sf_nodes mixed)" using x by (auto simp: span_def Let_def bind_res_Inr_iff)
  then have "sf_nodes mixed ! 1 \<in> set (pr_source x)" by (simp add: mixed_def slice_def)
  moreover have "prepare (\<lambda>_. []) mixed sample_route sample_meter sample_policy ''manual'' = Inr (Some x)"
    using head x by (simp add: prepare_def costs cuts eval_nat_numeral)
  moreover have "prepare_range (\<lambda>_. []) mixed sample_route sample_meter 0 2 = Inl ValueError"
    by (simp add: prepare_range_def costs cuts head(3))
      (simp add: mixed_def slice_def has_role_def sample_body sample_ids)
  ultimately show ?thesis using role by blast
qed

end
