(* ===== verification/AgentContext.thy ===== *)
theory AgentContext
  imports ContextTransaction
begin

section \<open>How the agents use the compaction engine\<close>

text \<open>
  The host side of context compaction: \<^verbatim>\<open>src/ai2apps/agents/context_engine_adapter.py\<close> (message
  groups as pinned or compactable nodes), \<^verbatim>\<open>src/ai2apps/agents/context.py\<close> (the byte guard of a
  request), \<^verbatim>\<open>src/ai2apps/agents/context_meter.py\<close> (is an error of the provider an overflow),
  \<^verbatim>\<open>src/ai2apps/context_engine/images.py\<close> and \<^verbatim>\<open>src/ai2apps/context_engine/pruning.py\<close>
  (projections that leave a reference in the place of an image or a long tool result).
  The encoder of a group and SHA-256 are parameters.
\<close>

subsection \<open>Items and texts of JSON values\<close>

text \<open>\<^verbatim>\<open>value[key]\<close>, \<^verbatim>\<open>value.encode()\<close> and \<^verbatim>\<open>json.dumps(...).encode()\<close>\<close>

fun json_item :: "string \<Rightarrow> json \<Rightarrow> json res" where
  "json_item k (JObj kvs) = (case map_of kvs (u k) of None \<Rightarrow> Inl KeyError | Some v \<Rightarrow> Inr v)"
| "json_item k _ = Inl TypeError"

fun text_bytes :: "json \<Rightarrow> int res" where
  "text_bytes (JStr t) = encoded_length t"
| "text_bytes _ = Inl AttributeError"

definition encode_json :: "json \<Rightarrow> (pystr \<times> int) res" where
  "encode_json v = bind_res (encoded_length (canonical v)) (\<lambda>k. Inr (canonical v, k))"

subsection \<open>Groups of messages as nodes\<close>

definition round_cost :: "node \<Rightarrow> int res" where
  "round_cost n = bind_res (body n) (\<lambda>b. bind_res (json_item ''content'' b) text_bytes)"

definition round_meter :: "int \<Rightarrow> meter" where
  "round_meter overhead = \<lparr>mt_unit = ''utf8_bytes'', mt_node = (\<lambda>n r. round_cost n),
     mt_envelope = (\<lambda>s r. Inr overhead)\<rparr>"

definition group_node :: "('g \<Rightarrow> pystr) \<Rightarrow> nat \<Rightarrow> nat \<times> 'g \<Rightarrow> node" where
  "group_node encode n = (\<lambda>(i, g). message (u (show_int (int i)))
     (JObj [(u ''role'', JStr (u ''assistant'')), (u ''content'', JStr (encode g))])
     (int i \<ge> int n - 2))"

definition groups_surface :: "'g list \<Rightarrow> pystr \<Rightarrow> ('g \<Rightarrow> pystr) \<Rightarrow> surface res" where
  "groups_surface groups run_id encode =
     mk_surface run_id (map (group_node encode (length groups)) (enumerate 0 groups))"

definition round_policy :: policy where
  "round_policy = default_policy\<lparr>threshold_ratio := 3 / 4, headroom := 0,
     retain_ratio := Some (16 / 100), summary_output := 2048\<rparr>"

definition byte_route :: "int \<Rightarrow> route res" where
  "byte_route max_bytes = mk_route ''ai2apps-byte-admission'' ''serialized-request'' max_bytes 0 ''utf8_bytes''"

definition compactable_end ::
    "(pystr \<Rightarrow> pystr) \<Rightarrow> 'g list \<Rightarrow> nat \<Rightarrow> int \<Rightarrow> int \<Rightarrow> pystr \<Rightarrow> ('g \<Rightarrow> pystr) \<Rightarrow> bool \<Rightarrow> nat res" where
  "compactable_end sha groups covered request_bytes max_bytes run_id encode force =
     (let remaining = drop covered groups in
      if length remaining \<le> 2 \<or> max_bytes < 2 then Inr covered
      else bind_res (groups_surface remaining run_id encode) (\<lambda>s.
           bind_res (map_res round_cost (sf_nodes s)) (\<lambda>values.
           bind_res (byte_route max_bytes) (\<lambda>r.
           bind_res (check_policy round_policy) (\<lambda>_.
           bind_res (prepare sha s r (round_meter (max 0 (request_bytes - sum_list values))) round_policy
                       (if force then ''manual'' else ''pressure'')) (\<lambda>selected.
           Inr (case selected of None \<Rightarrow> covered | Some x \<Rightarrow> covered + length (pr_source x))))))))"

definition validates_replacement ::
    "(pystr \<Rightarrow> pystr) \<Rightarrow> 'g list \<Rightarrow> int \<Rightarrow> json \<Rightarrow> pystr \<Rightarrow> ('g \<Rightarrow> pystr) \<Rightarrow> bool res" where
  "validates_replacement sha groups count candidate run_id encode =
     bind_res (groups_surface groups run_id encode) (\<lambda>s.
     bind_res (byte_route 524288) (\<lambda>r.
     (case bind_res (prepare_range sha s r (round_meter 0) 0 count) (\<lambda>x.
             replacement x s (message (u ''checkpoint'') candidate False) (round_meter 0)) of
        Inr _ \<Rightarrow> Inr True
      | Inl e \<Rightarrow> if e = ValueError \<or> e = SummaryError then Inr False else Inl e)))"

subsection \<open>Overflow reported by the provider\<close>

text \<open>\<^verbatim>\<open>\d\<close> of the regular expression: the decimal digits of Unicode 14, by their zeros\<close>

definition digit_zeros :: "nat list" where
  "digit_zeros = [48, 1632, 1776, 1984, 2406, 2534, 2662, 2790, 2918, 3046, 3174, 3302, 3430, 3558,
     3664, 3792, 3872, 4160, 4240, 6112, 6160, 6470, 6608, 6784, 6800, 6992, 7088, 7232, 7248, 42528,
     43216, 43264, 43472, 43504, 43600, 44016, 65296, 66720, 68912, 69734, 69872, 69942, 70096, 70384,
     70736, 70864, 71248, 71360, 71472, 71904, 72016, 72784, 73040, 73120, 92768, 92864, 93008, 120782,
     120792, 120802, 120812, 120822, 123200, 123632, 125264, 130032]"

definition is_decimal :: "nat \<Rightarrow> bool" where
  "is_decimal c \<longleftrightarrow> list_ex (\<lambda>z. z \<le> c \<and> c < z + 10) digit_zeros"

definition after_text :: "string \<Rightarrow> pystr \<Rightarrow> pystr option" where
  "after_text w t = (if take (length w) t = u w then Some (drop (length w) t) else None)"

definition after_digits :: "pystr \<Rightarrow> pystr option" where
  "after_digits t = (if takeWhile is_decimal t = [] then None else Some (dropWhile is_decimal t))"

definition overflow_detail :: "pystr \<Rightarrow> bool" where
  "overflow_detail t \<longleftrightarrow>
     Option.bind (after_text ''Prompt too long: '' t) (\<lambda>t.
     Option.bind (after_digits t) (\<lambda>t.
     Option.bind (after_text '' tokens exceeds max context window of '' t) (\<lambda>t.
     Option.bind (after_digits t) (after_text '' tokens'')))) = Some []"

fun overflow_code :: "json \<Rightarrow> bool res" where
  "overflow_code (JStr t) = Inr (t = u ''context_length_exceeded'' \<or> t = u ''context_window_exceeded'')"
| "overflow_code (JArr _) = Inl TypeError"
| "overflow_code (JObj _) = Inl TypeError"
| "overflow_code _ = Inr False"

definition provider_overflow :: "int \<Rightarrow> pystr \<Rightarrow> bool res" where
  "provider_overflow status t =
     (if status \<notin> {400, 413, 422} then Inr False
      else (case loads t of
         Inr (JObj kvs) \<Rightarrow>
           bind_res (json_get ''error'' (JObj kvs)) (\<lambda>error.
           bind_res (case error of JObj _ \<Rightarrow> bind_res (json_get ''code'' error) overflow_code | _ \<Rightarrow> Inr False) (\<lambda>known.
           if known then Inr True
           else bind_res (json_get ''detail'' (JObj kvs)) (\<lambda>detail.
             Inr (case detail of JStr d \<Rightarrow> overflow_detail d | _ \<Rightarrow> False))))
       | _ \<Rightarrow> Inr False))"

subsection \<open>The byte guard of a request\<close>

type_synonym request = "(pystr \<times> json) list"

record bound_audit =
  ba_policy :: string
  ba_max_bytes :: int
  ba_original_bytes :: int
  ba_request_bytes :: int
  ba_omitted :: nat
  ba_sha :: pystr

text \<open>\<^verbatim>\<open>list(value)\<close>\<close>

fun json_list :: "json \<Rightarrow> json list res" where
  "json_list (JArr vs) = Inr vs"
| "json_list (JStr t) = Inr (map (\<lambda>c. JStr [c]) t)"
| "json_list (JObj kvs) = Inr (map (\<lambda>(k, _). JStr k) kvs)"
| "json_list _ = Inl TypeError"

definition role_is :: "string \<Rightarrow> json \<Rightarrow> bool res" where
  "role_is w m = bind_res (json_get ''role'' m) (\<lambda>r. Inr (r = JStr (u w)))"

definition user_turns :: "json list \<Rightarrow> int \<Rightarrow> nat list res" where
  "user_turns messages base_count =
     bind_res (map_res (\<lambda>i. bind_res (py_nth messages (int i)) (role_is ''user'')) [0..<nat base_count]) (\<lambda>flags.
     Inr (map fst (filter snd (enumerate 0 flags))))"

definition retained :: "nat \<Rightarrow> json list \<Rightarrow> json list res" where
  "retained cutoff messages =
     bind_res (map_res (\<lambda>(i, m). if i \<ge> cutoff then Inr True else role_is ''system'' m) (enumerate 0 messages))
       (\<lambda>flags. Inr (map fst (filter snd (zip messages flags))))"

definition notice :: "nat \<Rightarrow> json" where
  "notice removed = JObj [(u ''role'', JStr (u ''system'')), (u ''content'', JStr (u (show_int (int removed)) @
     u '' older context messages were omitted by the request byte budget. Their contents are not available in this request; do not infer missing facts.''))]"

text \<open>The loop over the user turns that may start the request, while it is too long.\<close>

fun omit_loop ::
    "nat list \<Rightarrow> json list \<Rightarrow> int \<Rightarrow> request \<times> (pystr \<times> int) \<times> nat \<Rightarrow> (request \<times> (pystr \<times> int) \<times> nat) res" where
  "omit_loop [] messages max_bytes acc = Inr acc"
| "omit_loop (cutoff # cutoffs) messages max_bytes (bounded, payload, removed) =
     (if snd payload \<le> max_bytes then Inr (bounded, payload, removed)
      else bind_res (retained cutoff messages) (\<lambda>kept.
        let removed = length messages - length kept;
            bounded = dict_set (u ''messages'') (JArr (notice removed # kept)) bounded
        in bind_res (encode_json (JObj bounded)) (\<lambda>payload.
           omit_loop cutoffs messages max_bytes (bounded, payload, removed))))"

definition bound_request ::
    "(pystr \<Rightarrow> pystr) \<Rightarrow> request \<Rightarrow> int \<Rightarrow> int \<Rightarrow> bool \<Rightarrow> (request \<times> bound_audit) res" where
  "bound_request sha request base_count max_bytes preserve_history =
     bind_res (encode_json (JObj request)) (\<lambda>original.
     bind_res (bind_res (json_item ''messages'' (JObj request)) json_list) (\<lambda>messages.
     bind_res (user_turns messages base_count) (\<lambda>users.
     bind_res (omit_loop (if preserve_history then [] else drop 1 users) messages max_bytes (request, original, 0))
       (\<lambda>(bounded, payload, removed).
     if snd payload > max_bytes then Inl ContextBudgetError
     else Inr (bounded, \<lparr>ba_policy = (if preserve_history then ''protected-history-byte-budget/v2''
                                       else ''whole-turn-byte-budget/v1''),
       ba_max_bytes = max_bytes, ba_original_bytes = snd original, ba_request_bytes = snd payload,
       ba_omitted = removed, ba_sha = sha (fst payload)\<rparr>)))))"

subsection \<open>Images\<close>

fun input_role :: "json \<Rightarrow> bool res" where
  "input_role (JStr t) = Inr (t = u ''user'' \<or> t = u ''tool'')"
| "input_role (JArr _) = Inl TypeError"
| "input_role (JObj _) = Inl TypeError"
| "input_role _ = Inr False"

definition is_image :: "json \<Rightarrow> bool res" where
  "is_image part = bind_res (json_get ''type'' part) (\<lambda>t. Inr (t = JStr (u ''image_url'')))"

definition body_images :: "json \<Rightarrow> nat list res" where
  "body_images b =
     bind_res (bind_res (json_get ''role'' b) input_role) (\<lambda>input.
     if \<not> input then Inr []
     else bind_res (json_get ''content'' b) (\<lambda>content.
       (case content of
          JArr parts \<Rightarrow> bind_res (map_res is_image parts) (\<lambda>flags. Inr (map fst (filter snd (enumerate 0 flags))))
        | _ \<Rightarrow> Inr [])))"

definition image_indexes :: "node \<Rightarrow> nat list res" where
  "image_indexes n = bind_res (body n) body_images"

definition offloaded :: "(pystr \<Rightarrow> pystr) \<Rightarrow> json \<Rightarrow> nat \<Rightarrow> json \<Rightarrow> json res" where
  "offloaded sha reference index pic =
     bind_res (encode_json pic) (\<lambda>(t, _).
     Inr (JObj [(u ''type'', JStr (u ''text'')), (u ''text'', JStr (canonical (JObj [
       (u ''type'', JStr (u ''ai2apps.image-offload/v1'')),
       (u ''notice'', JStr (u ''This original image is omitted from this request. Do not infer unseen image content.'')),
       (u ''source'', reference),
       (u ''part_index'', JInt (int index)),
       (u ''sha256'', JStr (sha t))])))]))"

fun offload_parts :: "(pystr \<Rightarrow> pystr) \<Rightarrow> json \<Rightarrow> nat list \<Rightarrow> json list \<Rightarrow> json list res" where
  "offload_parts sha reference [] parts = Inr parts"
| "offload_parts sha reference (i # is) parts =
     bind_res (offloaded sha reference i (parts ! i)) (\<lambda>part.
     offload_parts sha reference is (parts[i := part]))"

definition set_content :: "json \<Rightarrow> json \<Rightarrow> json res" where
  "set_content v b = (case b of JObj kvs \<Rightarrow> Inr (JObj (dict_set (u ''content'') v kvs)) | _ \<Rightarrow> Inl TypeError)"

definition offload_images :: "(pystr \<Rightarrow> pystr) \<Rightarrow> node \<Rightarrow> int list \<Rightarrow> json \<Rightarrow> node res" where
  "offload_images sha n indexes reference =
     (if indexes = [] \<or> sort (remdups indexes) \<noteq> indexes then Inl ValueError
      else bind_res (image_indexes n) (\<lambda>eligible.
        if list_ex (\<lambda>i. i \<notin> set (map int eligible)) indexes then Inl ValueError
        else bind_res (body n) (\<lambda>b.
          bind_res (bind_res (json_item ''content'' b) json_list) (\<lambda>parts.
          bind_res (offload_parts sha reference (map nat indexes) parts) (\<lambda>parts.
          bind_res (set_content (JArr parts) b) (\<lambda>b.
          Inr (message (nd_id n) b (nd_pinned n))))))))"

fun pick_images :: "node list \<Rightarrow> nat \<Rightarrow> (node \<times> nat list) list res" where
  "pick_images [] count = Inr []"
| "pick_images (n # ns) count =
     (if nd_pinned n then pick_images ns count
      else bind_res (image_indexes n) (\<lambda>indexes.
        let taken = take count indexes;
            count = count - length taken;
            here = (if taken = [] then [] else [(n, taken)])
        in if count = 0 then Inr here
           else bind_res (pick_images ns count) (\<lambda>rest. Inr (here @ rest))))"

definition oldest_images :: "surface \<Rightarrow> int \<Rightarrow> (node \<times> nat list) list res" where
  "oldest_images s count =
     (if count \<le> 0 then Inl ValueError else pick_images (sf_nodes s) (nat count))"

subsection \<open>Long tool results\<close>

definition tool_reference :: "(pystr \<Rightarrow> pystr) \<Rightarrow> json \<Rightarrow> pystr \<Rightarrow> json" where
  "tool_reference sha reference t = JObj [
     (u ''type'', JStr (u ''ai2apps.session-tool-reference/v1'')),
     (u ''notice'', JStr (u ''Partial original tool result. Read omitted evidence before relying on it; tool completion is not task completion.'')),
     (u ''source'', reference),
     (u ''sha256'', JStr (sha t)),
     (u ''total_characters'', JInt (int (length t))),
     (u ''head'', JStr (take 2048 t)),
     (u ''tail'', JStr (drop (length t - 1024) t)),
     (u ''omitted_characters'', JInt (int (length t) - 3072))]"

definition is_reference :: "pystr \<Rightarrow> bool" where
  "is_reference t =
     (case bind_res (loads t) (json_get ''type'') of
        Inr v \<Rightarrow> v = JStr (u ''ai2apps.session-tool-reference/v1'') | Inl _ \<Rightarrow> False)"

definition prune_text :: "(pystr \<Rightarrow> pystr) \<Rightarrow> node \<Rightarrow> json \<Rightarrow> json \<Rightarrow> pystr \<Rightarrow> node option res" where
  "prune_text sha n reference b t =
     bind_res (set_content (JStr (canonical (tool_reference sha reference t))) b) (\<lambda>b.
     bind_res (encode_json b) (\<lambda>(_, size).
     bind_res (encoded_length (nd_json n)) (\<lambda>original.
     Inr (if size \<ge> original then None else Some (message (nd_id n) b (nd_pinned n))))))"

definition prune_tool_result :: "(pystr \<Rightarrow> pystr) \<Rightarrow> node \<Rightarrow> json \<Rightarrow> int \<Rightarrow> node option res" where
  "prune_tool_result sha n reference threshold =
     bind_res (body n) (\<lambda>b.
     bind_res (json_get ''content'' b) (\<lambda>content.
     bind_res (role_is ''tool'' b) (\<lambda>tool.
     if \<not> tool then Inr None
     else (case content of
        JStr t \<Rightarrow> bind_res (encoded_length t) (\<lambda>size.
          if size \<le> threshold \<or> is_reference t then Inr None else prune_text sha n reference b t)
      | _ \<Rightarrow> Inr None))))"

end
