(* ===== verification/AgentProperties.thy ===== *)
theory AgentProperties
  imports AgentContext ContextProperties
begin

section \<open>Properties of the agents' context guards\<close>

text \<open>
  Properties of \<open>AgentContext\<close>: what of a run may be compacted, what the byte guard of a request
  drops, and what the projections of images and tool results keep.
\<close>

subsection \<open>Groups\<close>

lemma group_node_simps:
  "nd_pinned (group_node encode n (i, g)) \<longleftrightarrow> n \<le> i + 2"
  "has_role w (group_node encode n (i, g)) = Inr (w = ''assistant'')"
  by (auto simp: group_node_def message_def has_role_def body_get_message [unfolded message_def])

lemma groups_surface_nth:
  assumes "groups_surface groups run_id encode = Inr s"
  shows "length (sf_nodes s) = length groups"
    "k < length groups \<Longrightarrow> sf_nodes s ! k = group_node encode (length groups) (k, groups ! k)"
  using assms by (auto simp: groups_surface_def mk_surface_Inr nth_enumerate_eq)

lemma compactable_end_bounds':
  assumes "compactable_end sha groups covered request_bytes max_bytes run_id encode force = Inr e"
  shows "e = covered \<or> covered < e \<and> e + 2 \<le> length groups"
proof (cases "e = covered")
  case False
  let ?rest = "drop covered groups"
  let ?trigger = "if force then ''manual'' else ''pressure''"
  obtain s overhead r x where n: "2 < length ?rest"
    and s: "groups_surface ?rest run_id encode = Inr s"
    and p: "prepare sha s r (round_meter overhead) round_policy ?trigger = Inr (Some x)"
    and e: "e = covered + length (pr_source x)"
    using assms False
    by (auto simp: compactable_end_def Let_def bind_res_Inr_iff split: if_splits option.splits)
  obtain i j vs cuts c where sel: "selected sha s r (round_meter overhead) x i j vs cuts c"
    using prepare_Some [OF p] by blast
  note nodes = groups_surface_nth [OF s]
  have ij: "i \<le> j" "j \<le> length (sf_nodes s)" "i < j" and sp: "span sha s r vs i j = Inr x"
    and head: "skip_head (sf_nodes s) = Inr i"
    and unpinned: "\<And>k. i \<le> k \<Longrightarrow> k < j \<Longrightarrow> \<not> nd_pinned (sf_nodes s ! k)"
    using sel by (simp_all add: selected_def)
  have "sf_nodes s ! 0 = group_node encode (length ?rest) (0, ?rest ! 0)"
    using nodes(2) [of 0] n by simp
  then have first: "\<not> nd_pinned (sf_nodes s ! 0)" "has_role ''system'' (sf_nodes s ! 0) = Inr False"
    using n by (simp_all add: group_node_simps)
  have i: "i = 0"
  proof (rule ccontr)
    assume "i \<noteq> 0"
    then show False using skip_head_before [OF head, of 0] first by simp
  qed
  have "\<not> nd_pinned (sf_nodes s ! (j - 1))" using unpinned [of "j - 1"] ij by simp
  moreover have "sf_nodes s ! (j - 1) = group_node encode (length ?rest) (j - 1, ?rest ! (j - 1))"
    using nodes ij by simp
  ultimately have "j + 2 \<le> length ?rest" using ij by (simp add: group_node_simps)
  moreover have "length (pr_source x) = j" using span_Inr(2) [OF sp ij(1,2)] i by simp
  ultimately show ?thesis using e ij n by simp
qed simp

text \<open>
  What \<open>compactable_end\<close> offers for compaction starts at the first group not yet covered and
  leaves out the last two groups of the run, whatever is measured.
\<close>

theorem compactable_end_bounds:
  assumes "compactable_end sha groups covered request_bytes max_bytes run_id encode force = Inr e"
  shows "e = covered \<or> covered < e \<and> e + 2 \<le> length groups"
  using assms by (rule compactable_end_bounds')

lemma round_cost_group: "round_cost (group_node encode n (i, g)) = encoded_length (encode g)"
proof -
  let ?m = "JObj [(u ''role'', JStr (u ''assistant'')), (u ''content'', JStr (encode g))]"
  have "body (group_node encode n (i, g)) = Inr (sorted_json ?m)"
    unfolding group_node_def message_def body_def by (simp add: loads_canonical)
  moreover have "json_item ''content'' (sorted_json ?m) = Inr (JStr (encode g))"
    using map_of_sorted [of "[(u ''role'', JStr (u ''assistant'')), (u ''content'', JStr (encode g))]" sorted_json "u ''content''"]
    by simp
  ultimately show ?thesis by (simp add: round_cost_def)
qed

lemma group_balance: "balance_node (group_node encode n (i, g)) q = Inr q"
  by (simp add: balance_node_def group_node_simps)
    (simp add: group_node_def body_get_message)

text \<open>The meter of the adapter keeps the contract of meters.\<close>

lemma text_bytes_nonneg: "text_bytes v = Inr k \<Longrightarrow> 0 \<le> k"
  by (cases v) (auto dest: encoded_length_nonneg)

interpretation rounds: additive_meter "round_meter overhead" for overhead
  by unfold_locales
    (auto simp: round_meter_def round_cost_def bind_res_Inr_iff dest: text_bytes_nonneg)

definition sample_group :: "nat \<Rightarrow> node" where
  "sample_group i = group_node (\<lambda>_. u ''a'') 4 (i, i)"

definition sample_groups :: surface where
  "sample_groups = \<lparr>sf_session = u ''run'', sf_nodes = map sample_group [0, 1, 2, 3]\<rparr>"

lemma sample_group_simps:
  "nd_pinned (sample_group i) \<longleftrightarrow> 2 \<le> i" "has_role w (sample_group i) = Inr (w = ''assistant'')"
  "balance_node (sample_group i) q = Inr q" "round_cost (sample_group i) = Inr 1"
  "nd_id (sample_group i) = u (show_int (int i))"
  by (auto simp: sample_group_def group_node_simps group_balance round_cost_group)
    (simp_all add: encoded_length_def u_def utf8_width_def group_node_def message_def)

lemma sample_groups_nodes: "groups_surface [0, 1, 2, 3 :: nat] (u ''run'') (\<lambda>_. u ''a'') = Inr sample_groups"
proof -
  have nodes: "map (group_node (\<lambda>_. u ''a'') (length [0, 1, 2, 3 :: nat])) (enumerate 0 [0, 1, 2, 3 :: nat]) =
      map sample_group [0, 1, 2, 3]"
    by (simp add: sample_group_def eval_nat_numeral)
  moreover have "distinct (map nd_id (map sample_group [0, 1, 2, 3]))"
    by (simp add: sample_group_simps show_int_inj)
  ultimately show ?thesis unfolding groups_surface_def mk_surface_def sample_groups_def by (simp only: if_True)
qed

lemma sample_groups_prepare:
  assumes "byte_route 1000 = Inr r" and "0 \<le> k"
  shows "\<exists>x. prepare (\<lambda>_. []) sample_groups r (round_meter k) round_policy ''manual'' = Inr (Some x) \<and>
    length (pr_source x) = 2"
proof -
  have nodes: "sf_nodes sample_groups = map sample_group [0, 1, 2, 3]" by (simp add: sample_groups_def)
  have unit: "rt_unit r = ''utf8_bytes''" using assms(1) by (auto simp: byte_route_def mk_route_def)
  have costs: "costs sample_groups r (round_meter k) = Inr ([1, 1, 1, 1], 4 + k)"
    using assms(2) by (simp add: costs_def round_meter_def unit nodes sample_group_simps)
  have cuts: "balanced_cuts sample_groups = Inr [True, True, True, True, True]"
    by (simp add: balanced_cuts_def nodes sample_group_simps)
  have head: "skip_head (sf_nodes sample_groups) = Inr 0"
    by (simp add: nodes sample_group_simps)
  have pinned: "first_pinned (sf_nodes sample_groups) 0 3 = 2"
    by (simp add: first_pinned_def nodes sample_group_simps upt_rec)
  have "encodable (JArr (map (\<lambda>n. JStr (nd_json n)) (slice 0 2 (sf_nodes sample_groups))))"
    by (simp add: slice_def nodes sample_group_def group_node_def message_def canonical_scalar u_scalar_all)
  from encoded_canonical [OF this] obtain x where x: "span (\<lambda>_. []) sample_groups r [1, 1, 1, 1] 0 2 = Inr x"
    by (auto simp: span_def Let_def)
  have len: "length (sf_nodes sample_groups) = 4" by (simp add: nodes)
  have "length (pr_source x) = 2" using span_Inr(2) [OF x] by (simp add: nodes)
  moreover have "prepare (\<lambda>_. []) sample_groups r (round_meter k) round_policy ''manual'' = Inr (Some x)"
    using pinned x len by (simp add: prepare_def costs cuts head eval_nat_numeral)
  ultimately show ?thesis by blast
qed

theorem compactable_end_bounds_witness:
  "compactable_end (\<lambda>_. []) [0, 1, 2, 3 :: nat] 0 500 1000 (u ''run'') (\<lambda>_. u ''a'') True = Inr 2 \<and>
    ((2 :: nat) = 0 \<or> 0 < (2 :: nat) \<and> 2 + 2 \<le> length [0, 1, 2, 3 :: nat])"
proof -
  obtain r where r: "byte_route 1000 = Inr r" by (simp add: byte_route_def mk_route_def)
  obtain x where x: "prepare (\<lambda>_. []) sample_groups r (round_meter 496) round_policy ''manual'' = Inr (Some x)"
    "length (pr_source x) = 2" using sample_groups_prepare [OF r, of 496] by auto
  have "map_res round_cost (sf_nodes sample_groups) = Inr [1, 1, 1, 1]"
    by (simp add: sample_groups_def sample_group_simps)
  moreover have "check_policy round_policy = Inr ()"
    by (simp add: check_policy_def round_policy_def default_policy_def)
  ultimately have e: "compactable_end (\<lambda>_. []) [0, 1, 2, 3 :: nat] 0 500 1000 (u ''run'') (\<lambda>_. u ''a'') True = Inr 2"
    using sample_groups_nodes r x by (simp add: compactable_end_def)
  from compactable_end_bounds [OF e] e show ?thesis by simp
qed

subsection \<open>The byte guard\<close>

lemma retained_Inr:
  assumes "retained cutoff messages = Inr kept"
  shows "kept = filter (\<lambda>m. role_is ''system'' m = Inr True) (take cutoff messages) @ drop cutoff messages"
proof -
  have step: "map_res (\<lambda>(i, m). if i \<ge> cutoff then Inr True else role_is ''system'' m) (enumerate k ms) = Inr flags \<Longrightarrow>
    map fst (filter snd (zip ms flags)) =
      filter (\<lambda>m. role_is ''system'' m = Inr True) (take (cutoff - k) ms) @ drop (cutoff - k) ms" for k ms flags
  proof (induction ms arbitrary: k flags)
    case (Cons m ms)
    obtain f fs where f: "(if k \<ge> cutoff then Inr True else role_is ''system'' m) = Inr f"
      "map_res (\<lambda>(i, m). if i \<ge> cutoff then Inr True else role_is ''system'' m) (enumerate (Suc k) ms) = Inr fs"
      "flags = f # fs"
      using Cons.prems by (auto simp: bind_res_Inr_iff)
    note IH = Cons.IH [OF f(2)]
    show ?case
    proof (cases "k \<ge> cutoff")
      case True
      then show ?thesis using IH f by simp
    next
      case False
      then obtain d where "cutoff - k = Suc d" "cutoff - Suc k = d" by (metis Suc_diff_Suc not_le)
      then show ?thesis using IH f False by (auto split: if_splits)
    qed
  qed simp
  obtain flags where "map_res (\<lambda>(i, m). if i \<ge> cutoff then Inr True else role_is ''system'' m)
      (enumerate 0 messages) = Inr flags" "kept = map fst (filter snd (zip messages flags))"
    using assms by (auto simp: retained_def bind_res_Inr_iff)
  from step [OF this(1)] this(2) show ?thesis by simp
qed

text \<open>\<open>bounded\<close> is \<open>request\<close> with its messages before \<open>cutoff\<close> omitted, system messages excepted.\<close>

definition omits :: "request \<Rightarrow> json list \<Rightarrow> nat \<Rightarrow> nat \<Rightarrow> request \<Rightarrow> bool" where
  "omits request messages cutoff removed bounded \<longleftrightarrow>
     (\<exists>kept. kept = filter (\<lambda>m. role_is ''system'' m = Inr True) (take cutoff messages) @ drop cutoff messages \<and>
        removed = length messages - length kept \<and>
        map_of bounded = (map_of request)(u ''messages'' \<mapsto> JArr (notice removed # kept)))"

lemma omit_loop_Inr:
  assumes "omit_loop cutoffs messages max_bytes (b0, p0, k0) = Inr (b, p, k)"
    and "encode_json (JObj b0) = Inr p0"
    and "b0 = request \<and> k0 = 0 \<or> (\<exists>cutoff \<in> C. omits request messages cutoff k0 b0)"
    and "set cutoffs \<subseteq> C"
  shows "encode_json (JObj b) = Inr p"
    "b = request \<and> k = 0 \<or> (\<exists>cutoff \<in> C. omits request messages cutoff k b)"
proof -
  have "encode_json (JObj b) = Inr p \<and> (b = request \<and> k = 0 \<or> (\<exists>cutoff \<in> C. omits request messages cutoff k b))"
    using assms
  proof (induction cutoffs arbitrary: b0 p0 k0)
    case (Cons cutoff cutoffs)
    show ?case
    proof (cases "snd p0 \<le> max_bytes")
      case False
      let ?bounded = "\<lambda>kept. dict_set (u ''messages'') (JArr (notice (length messages - length kept) # kept)) b0"
      obtain kept p1 where kept: "retained cutoff messages = Inr kept"
        and p1: "encode_json (JObj (?bounded kept)) = Inr p1"
        and rest: "omit_loop cutoffs messages max_bytes (?bounded kept, p1, length messages - length kept) = Inr (b, p, k)"
        using Cons.prems(1) False by (auto simp: bind_res_Inr_iff Let_def)
      have "map_of (?bounded kept) = (map_of request)(u ''messages'' \<mapsto> JArr (notice (length messages - length kept) # kept))"
        using Cons.prems(3) by (auto simp: omits_def)
      then have "omits request messages cutoff (length messages - length kept) (?bounded kept)"
        using retained_Inr [OF kept] by (simp add: omits_def)
      then show ?thesis using Cons.IH [OF rest p1] Cons.prems(4) by auto
    qed (use Cons.prems in auto)
  qed simp
  then show "encode_json (JObj b) = Inr p"
    "b = request \<and> k = 0 \<or> (\<exists>cutoff \<in> C. omits request messages cutoff k b)" by blast+
qed

lemma flagged_index: "i \<in> set (map fst (filter snd (enumerate 0 flags))) \<longleftrightarrow> i < length flags \<and> flags ! i"
  by (auto simp: in_set_enumerate_eq image_iff)

lemma user_turns_role:
  assumes "user_turns messages base_count = Inr users" and "i \<in> set users"
  shows "i < length messages \<and> int i < base_count \<and> role_is ''user'' (messages ! i) = Inr True"
proof -
  obtain flags where flags: "list_all2 (\<lambda>i b. bind_res (py_nth messages (int i)) (role_is ''user'') = Inr b)
      [0..<nat base_count] flags" "users = map fst (filter snd (enumerate 0 flags))"
    using assms(1) by (auto simp: user_turns_def bind_res_Inr_iff map_res_Inr_iff)
  have i: "i < length flags" "flags ! i" using assms(2) flagged_index [of i flags] flags(2) by simp_all
  have len: "length flags = nat base_count" using list_all2_lengthD [OF flags(1)] by simp
  have "bind_res (py_nth messages (int i)) (role_is ''user'') = Inr True"
    using list_all2_nthD [OF flags(1), of i] i len by simp
  then show ?thesis
    using i(1) len by (auto simp: bind_res_Inr_iff py_nth_def Let_def split: if_splits)
qed

text \<open>
  C39. A request that passes the byte guard fits into the budget by its actual serialized size. It
  is the request as given, or the request with its messages before some user turn of the base
  replaced by a notice of how many are missing, all system messages among them kept in order;
  nothing is dropped from that turn on, and nothing at all when the history is preserved or the
  request fitted as it was.
\<close>

theorem bound_request_within_budget:
  assumes "bound_request sha request base_count max_bytes preserve = Inr (bounded, audit)"
  shows "ba_request_bytes audit \<le> max_bytes \<and>
    (\<exists>t. encode_json (JObj bounded) = Inr (t, ba_request_bytes audit) \<and> ba_sha audit = sha t) \<and>
    (if preserve \<or> ba_original_bytes audit \<le> max_bytes \<or> bounded = request then bounded = request
     else \<exists>messages cutoff. map_of request (u ''messages'') = Some (JArr messages) \<and> cutoff < length messages \<and>
       int cutoff < base_count \<and> role_is ''user'' (messages ! cutoff) = Inr True \<and>
       omits request messages cutoff (ba_omitted audit) bounded)"
proof -
  let ?cut = "\<lambda>users. if preserve then [] else drop 1 users"
  obtain original messages users payload where
    o: "encode_json (JObj request) = Inr original" and
    m: "bind_res (json_item ''messages'' (JObj request)) json_list = Inr messages" and
    us: "user_turns messages base_count = Inr users" and
    l: "omit_loop (?cut users) messages max_bytes (request, original, 0) = Inr (bounded, payload, ba_omitted audit)" and
    fits: "snd payload \<le> max_bytes" and
    audit: "ba_original_bytes audit = snd original" "ba_request_bytes audit = snd payload" "ba_sha audit = sha (fst payload)"
    using assms by (auto simp: bound_request_def bind_res_Inr_iff split: prod.splits if_splits)
  have "set (?cut users) \<subseteq> set users" using set_drop_subset [of 1 users] by simp
  from omit_loop_Inr [OF l o _ this, of request]
  have enc: "encode_json (JObj bounded) = Inr payload"
    and alt: "bounded = request \<or> (\<exists>cutoff \<in> set users. omits request messages cutoff (ba_omitted audit) bounded)"
    by blast+
  have same: "bounded = request" if "preserve \<or> ba_original_bytes audit \<le> max_bytes"
  proof (cases "?cut users")
    case (Cons c cs)
    then have "snd original \<le> max_bytes" using that audit(1) by auto
    then show ?thesis using l Cons by simp
  qed (use l in simp)
  have "\<exists>messages cutoff. map_of request (u ''messages'') = Some (JArr messages) \<and> cutoff < length messages \<and>
      int cutoff < base_count \<and> role_is ''user'' (messages ! cutoff) = Inr True \<and>
      omits request messages cutoff (ba_omitted audit) bounded" if changed: "bounded \<noteq> request"
  proof -
    obtain cutoff where c: "cutoff \<in> set users" "omits request messages cutoff (ba_omitted audit) bounded"
      using alt changed by blast
    note turn = user_turns_role [OF us c(1)]
    obtain v where v: "map_of request (u ''messages'') = Some v" "json_list v = Inr messages"
      using m by (auto simp: bind_res_Inr_iff split: option.splits)
    have "v = JArr messages"
      using v(2) turn by (cases v) (auto simp: role_is_def split: prod.splits)
    then show ?thesis using v(1) c(2) turn by blast
  qed
  then show ?thesis using fits enc audit same by (cases payload) auto
qed


definition sample_request :: request where
  "sample_request = [(u ''messages'', JArr [
     JObj [(u ''role'', JStr (u ''user'')), (u ''content'', JStr (replicate 300 120))],
     JObj [(u ''role'', JStr (u ''user'')), (u ''content'', JStr (u ''b''))]])]"

definition sample_bounded :: request where
  "sample_bounded = [(u ''messages'', JArr [notice 1,
     JObj [(u ''role'', JStr (u ''user'')), (u ''content'', JStr (u ''b''))]])]"


text \<open>Sizes of messages of plain ASCII, where nothing is escaped.\<close>

definition plain_char :: "nat \<Rightarrow> bool" where
  "plain_char c \<longleftrightarrow> 32 \<le> c \<and> c < 128 \<and> c \<noteq> 34 \<and> c \<noteq> 92"

lemma quote_plain: "list_all plain_char t \<Longrightarrow> quote t = 34 # t @ [34]"
proof -
  have "concat (map escape t) = t" if "list_all plain_char t"
    using that by (induction t) (simp_all add: escape_def plain_char_def)
  then show "list_all plain_char t \<Longrightarrow> quote t = 34 # t @ [34]" by (simp add: quote_def)
qed

lemma encoded_ascii: "list_all (\<lambda>c. c < 128) t \<Longrightarrow> encoded_length t = Inr (int (length t))"
proof -
  assume a: "list_all (\<lambda>c. c < 128) t"
  then have "sum_list (map utf8_width t) = int (length t)"
    by (induction t) (simp_all add: utf8_width_def)
  moreover have "\<not> list_ex (\<lambda>c. 55296 \<le> c \<and> c \<le> 57343) t" using a by (auto simp: list_all_iff list_ex_iff)
  ultimately show ?thesis by (simp add: encoded_length_def)
qed

lemma plain_ascii: "list_all plain_char t \<Longrightarrow> list_all (\<lambda>c. c < 128) t"
  by (auto simp: list_all_iff plain_char_def)

lemma plain_names:
  "list_all plain_char (u ''role'')" "list_all plain_char (u ''content'')" "list_all plain_char (u ''user'')"
  "list_all plain_char (u ''system'')" "list_all plain_char (u ''messages'')"
  by (simp_all add: u_def plain_char_def)

lemma canonical_chat:
  assumes "list_all plain_char r" and "list_all plain_char t"
  shows "render (sorted_json (JObj [(u ''role'', JStr r), (u ''content'', JStr t)])) =
    123 # quote (u ''content'') @ 58 # quote t @ 44 # quote (u ''role'') @ 58 # quote r @ [125]"
proof -
  have "u ''content'' \<le> u ''role''" "\<not> u ''role'' \<le> u ''content''" by (simp_all add: u_def)
  then show ?thesis by simp
qed

lemma length_u [simp]: "length (u s) = length s"
  by (simp add: u_def)

lemma chat_size:
  assumes "list_all plain_char r" and "list_all plain_char t"
  shows "length (render (sorted_json (JObj [(u ''role'', JStr r), (u ''content'', JStr t)]))) = 24 + length r + length t"
    "list_all (\<lambda>c. c < 128) (render (sorted_json (JObj [(u ''role'', JStr r), (u ''content'', JStr t)])))"
proof -
  note q = quote_plain [OF assms(1)] quote_plain [OF assms(2)] plain_names [THEN quote_plain]
  show "length (render (sorted_json (JObj [(u ''role'', JStr r), (u ''content'', JStr t)]))) = 24 + length r + length t"
    unfolding canonical_chat [OF assms] q by simp
  show "list_all (\<lambda>c. c < 128) (render (sorted_json (JObj [(u ''role'', JStr r), (u ''content'', JStr t)])))"
    unfolding canonical_chat [OF assms] q
    using plain_ascii [OF assms(1)] plain_ascii [OF assms(2)] plain_names [THEN plain_ascii] by simp
qed

lemma messages_size:
  assumes "list_all plain_char r" "list_all plain_char t" "list_all plain_char r'" "list_all plain_char t'"
  shows "encode_json (JObj [(u ''messages'', JArr [JObj [(u ''role'', JStr r), (u ''content'', JStr t)],
      JObj [(u ''role'', JStr r'), (u ''content'', JStr t')]])]) =
    Inr (canonical (JObj [(u ''messages'', JArr [JObj [(u ''role'', JStr r), (u ''content'', JStr t)],
      JObj [(u ''role'', JStr r'), (u ''content'', JStr t')]])]),
      int (64 + length r + length t + length r' + length t'))"
proof -
  let ?m = "render (sorted_json (JObj [(u ''role'', JStr r), (u ''content'', JStr t)]))"
  let ?m' = "render (sorted_json (JObj [(u ''role'', JStr r'), (u ''content'', JStr t')]))"
  have c: "canonical (JObj [(u ''messages'', JArr [JObj [(u ''role'', JStr r), (u ''content'', JStr t)],
      JObj [(u ''role'', JStr r'), (u ''content'', JStr t')]])]) =
    123 # quote (u ''messages'') @ 58 # 91 # ?m @ 44 # ?m' @ [93, 125]"
    by (simp add: canonical_def del: sorted_json.simps(2)) simp
  have "encoded_length (123 # quote (u ''messages'') @ 58 # 91 # ?m @ 44 # ?m' @ [93, 125]) =
      Inr (int (length (123 # quote (u ''messages'') @ 58 # 91 # ?m @ 44 # ?m' @ [93, 125])))"
    unfolding quote_plain [OF plain_names(5)]
    using chat_size(2) [OF assms(1,2)] chat_size(2) [OF assms(3,4)] plain_names(5) [THEN plain_ascii]
    by (intro encoded_ascii) simp
  then show ?thesis
    unfolding encode_json_def c
    by (simp add: chat_size(1) [OF assms(1,2)] chat_size(1) [OF assms(3,4)] quote_plain [OF plain_names(5)]
        del: sorted_json.simps render.simps)
qed

lemma notice_plain: "list_all plain_char (u (show_int (int 1)) @
   u '' older context messages were omitted by the request byte budget. Their contents are not available in this request; do not infer missing facts.'')"
proof -
  have "list_all plain_char (u '' older context messages were omitted by the request byte budget. Their contents are not available in this request; do not infer missing facts.'')"
    by (simp add: u_def plain_char_def)
  moreover have "show_int (int 1) = ''1''" by code_simp
  then have "list_all plain_char (u (show_int (int 1)))" by (simp add: u_def plain_char_def)
  ultimately show ?thesis by simp
qed


theorem bound_request_within_budget_witness:
  "\<exists>audit. bound_request (\<lambda>t. []) sample_request 2 300 False = Inr (sample_bounded, audit) \<and>
    ba_request_bytes audit \<le> 300 \<and> omits sample_request
      [JObj [(u ''role'', JStr (u ''user'')), (u ''content'', JStr (replicate 300 120))],
       JObj [(u ''role'', JStr (u ''user'')), (u ''content'', JStr (u ''b''))]] 1 (ba_omitted audit) sample_bounded"
proof -
  let ?old = "JObj [(u ''role'', JStr (u ''user'')), (u ''content'', JStr (replicate 300 120))]"
  let ?new = "JObj [(u ''role'', JStr (u ''user'')), (u ''content'', JStr (u ''b''))]"
  have plain: "list_all plain_char (u ''b'')" "list_all plain_char (replicate 300 120)"
    by (simp add: u_def plain_char_def) (simp add: list_all_iff plain_char_def)
  have s1: "encode_json (JObj sample_request) = Inr (canonical (JObj sample_request), 373)"
    using messages_size [OF plain_names(3) plain(2) plain_names(3) plain(1)] by (simp add: sample_request_def)
  have s2: "encode_json (JObj sample_bounded) = Inr (canonical (JObj sample_bounded), 218)"
    using messages_size [OF plain_names(4) notice_plain plain_names(3) plain(1)]
    by (simp add: sample_bounded_def notice_def show_int_def show_nat.simps)
  have users: "user_turns [?old, ?new] 2 = Inr [0, 1]"
    by (simp add: user_turns_def upt_rec py_nth_def role_is_def)
  have kept: "retained 1 [?old, ?new] = Inr [?new]"
    by (simp add: retained_def role_is_def)
  obtain audit where b: "bound_request (\<lambda>t. []) sample_request 2 300 False = Inr (sample_bounded, audit)"
    and audit: "ba_original_bytes audit = 373" "ba_omitted audit = 1"
    using s1 s2 users kept
    by (simp add: bound_request_def sample_request_def sample_bounded_def Let_def)
  have "ba_request_bytes audit \<le> 300"
    using bound_request_within_budget [OF b] by blast
  moreover have "omits sample_request [?old, ?new] 1 (ba_omitted audit) sample_bounded"
    using audit by (simp add: omits_def sample_request_def sample_bounded_def role_is_def fun_eq_iff)
  ultimately show ?thesis using b by blast
qed


subsection \<open>Images\<close>

lemma flagged_upt: "map fst (filter snd (enumerate 0 flags)) = filter (\<lambda>i. flags ! i) [0..<length flags]"
proof (induction flags rule: rev_induct)
  case (snoc f fs)
  have "filter (\<lambda>i. (fs @ [f]) ! i) [0..<length fs] = filter (\<lambda>i. fs ! i) [0..<length fs]"
    by (rule filter_cong) (auto simp: nth_append)
  then show ?case using snoc by (simp add: enumerate_append_eq)
qed simp

lemma offload_parts_nth:
  assumes "offload_parts sha reference is parts = Inr parts'" and "distinct is"
    and "\<forall>i \<in> set is. i < length parts"
  shows "length parts' = length parts"
    "k < length parts \<Longrightarrow> if k \<in> set is then offloaded sha reference k (parts ! k) = Inr (parts' ! k)
       else parts' ! k = parts ! k"
proof -
  have "length parts' = length parts \<and> (\<forall>k < length parts. if k \<in> set is
      then offloaded sha reference k (parts ! k) = Inr (parts' ! k) else parts' ! k = parts ! k)"
    using assms
  proof (induction "is" arbitrary: parts)
    case (Cons i "is")
    obtain p where p: "offloaded sha reference i (parts ! i) = Inr p"
      and rest: "offload_parts sha reference is (parts[i := p]) = Inr parts'"
      using Cons.prems(1) by (auto simp: bind_res_Inr_iff)
    have i: "i \<notin> set is" "i < length parts" "distinct is" "\<forall>j \<in> set is. j < length (parts[i := p])"
      using Cons.prems(2,3) by auto
    note IH = Cons.IH [OF rest i(3,4)]
    have "if k \<in> set (i # is) then offloaded sha reference k (parts ! k) = Inr (parts' ! k)
        else parts' ! k = parts ! k" if "k < length parts" for k
      using IH that i(1,2) p by (cases "k = i") (auto dest!: spec [of _ k] split: if_splits)
    then show ?case using IH by simp
  qed simp
  then show "length parts' = length parts"
    "k < length parts \<Longrightarrow> if k \<in> set is then offloaded sha reference k (parts ! k) = Inr (parts' ! k)
       else parts' ! k = parts ! k" by blast+
qed

lemma offloaded_Inr:
  assumes "offloaded sha reference i p = Inr q"
  shows "json_ok q" "is_image q = Inr False"
  using assms by (auto simp: offloaded_def bind_res_Inr_iff is_image_def split: prod.splits)

lemma sorted_JStr: "sorted_json v = JStr t \<longleftrightarrow> v = JStr t"
  by (cases v) auto

lemma is_image_sorted: "json_ok p \<Longrightarrow> is_image (sorted_json p) = is_image p"
proof (cases p)
  case (JObj kvs)
  assume "json_ok p"
  then show ?thesis
    using JObj by (simp add: is_image_def json_get_sorted sorted_JStr del: sorted_json.simps json_ok.simps)
qed (simp_all add: is_image_def)

lemma input_role_sorted: "input_role (sorted_json v) = input_role v"
  by (cases v) simp_all

lemma body_images_Inr:
  assumes "body_images (JObj kvs) = Inr eligible" and "eligible \<noteq> []"
  shows "\<exists>role parts flags. json_get ''role'' (JObj kvs) = Inr role \<and> input_role role = Inr True \<and>
    map_of kvs (u ''content'') = Some (JArr parts) \<and> list_all2 (\<lambda>p f. is_image p = Inr f) parts flags \<and>
    eligible = filter (\<lambda>i. flags ! i) [0..<length parts]"
  using assms
  by (auto simp: body_images_def bind_res_Inr_iff map_res_Inr_iff flagged_upt list_all2_lengthD
      split: if_splits json.splits option.splits)


lemma json_ok_set:
  assumes "json_ok (JObj kvs)" and "json_ok v"
  shows "json_ok (JObj (dict_set k v kvs))"
proof -
  have "set (dict_set k v kvs) \<subseteq> insert (k, v) (set kvs)" by (induction kvs) auto
  then show ?thesis using assms by (auto simp: list_all_iff distinct_update)
qed

lemma body_message: "json_ok b \<Longrightarrow> body (message i b pin) = Inr (sorted_json b)"
  by (simp add: body_def message_def loads_canonical)

text \<open>The eligible images of a message whose content is replaced by \<open>parts'\<close>.\<close>

lemma body_images_replaced:
  assumes ok: "json_ok (JObj kvs)" and parts: "json_ok (JArr parts')"
    and role: "json_get ''role'' (JObj kvs) = Inr role" "input_role role = Inr True"
    and flags: "list_all2 (\<lambda>p f. is_image p = Inr f) parts' flags'"
  shows "body_images (sorted_json (JObj (dict_set (u ''content'') (JArr parts') kvs))) =
    Inr (filter (\<lambda>i. flags' ! i) [0..<length parts'])"
proof -
  let ?b = "JObj (dict_set (u ''content'') (JArr parts') kvs)"
  have b: "json_ok ?b" using ok parts by (rule json_ok_set)
  have "json_get ''role'' (sorted_json ?b) = Inr (sorted_json role)"
    using role(1) by (simp add: json_get_sorted [OF b] del: sorted_json.simps)
  moreover have "json_get ''content'' (sorted_json ?b) = Inr (JArr (map sorted_json parts'))"
    by (simp add: json_get_sorted [OF b] del: sorted_json.simps(2))
  moreover have "map_res is_image (map sorted_json parts') = Inr flags'"
    using flags parts
    by (auto simp: map_res_Inr_iff list_all2_conv_all_nth list_all_iff is_image_sorted)
  ultimately show ?thesis
    using role(2) list_all2_lengthD [OF flags]
    by (simp add: body_images_def input_role_sorted flagged_upt del: sorted_json.simps)
qed

text \<open>
  Offloading images replaces exactly the chosen parts of the message by references with the
  hash of the image, and leaves id, pin, every other part and every other field as they were; only
  images of a user or tool message can be chosen, and what was offloaded is no longer eligible.
\<close>

theorem offload_images_exact:
  assumes "body n = Inr (JObj kvs)" and "json_ok (JObj kvs)"
    and "offload_images sha n indexes reference = Inr n'"
  shows "\<exists>parts parts' eligible. map_of kvs (u ''content'') = Some (JArr parts) \<and>
    image_indexes n = Inr eligible \<and> set indexes \<subseteq> int ` set eligible \<and>
    nd_id n' = nd_id n \<and> nd_pinned n' = nd_pinned n \<and>
    body n' = Inr (sorted_json (JObj (dict_set (u ''content'') (JArr parts') kvs))) \<and>
    length parts' = length parts \<and>
    (\<forall>i < length parts. if int i \<in> set indexes then offloaded sha reference i (parts ! i) = Inr (parts' ! i)
       else parts' ! i = parts ! i) \<and>
    image_indexes n' = Inr (filter (\<lambda>i. int i \<notin> set indexes) eligible)"
proof -
  obtain eligible v b' parts' where
    ix: "indexes \<noteq> []" "sort (remdups indexes) = indexes" "image_indexes n = Inr eligible"
    "\<forall>i \<in> set indexes. i \<in> int ` set eligible" and
    v: "bind_res (json_item ''content'' (JObj kvs)) json_list = Inr v" and
    off: "offload_parts sha reference (map nat indexes) v = Inr parts'" and
    n': "n' = message (nd_id n) (JObj (dict_set (u ''content'') (JArr parts') kvs)) (nd_pinned n)"
    using assms(1,3)
    by (auto simp: offload_images_def bind_res_Inr_iff set_content_def list_ex_iff split: if_splits)
  have "eligible \<noteq> []" using ix(1,4) by (cases indexes) auto
  moreover have "body_images (JObj kvs) = Inr eligible" using ix(3) assms(1) by (simp add: image_indexes_def)
  ultimately obtain role parts flags where
    role: "json_get ''role'' (JObj kvs) = Inr role" "input_role role = Inr True" and
    content: "map_of kvs (u ''content'') = Some (JArr parts)" and
    flags: "list_all2 (\<lambda>p f. is_image p = Inr f) parts flags" and
    el: "eligible = filter (\<lambda>i. flags ! i) [0..<length parts]"
    using body_images_Inr by blast
  have "v = parts" using v content by simp
  have "distinct indexes" using ix(2) by (metis distinct_remdups distinct_sort)
  moreover have nonneg: "\<And>i. i \<in> set indexes \<Longrightarrow> 0 \<le> i" using ix(4) by auto
  then have "inj_on nat (set indexes)" by (intro inj_onI) (simp add: eq_nat_nat_iff)
  ultimately have "distinct (map nat indexes)" by (simp add: distinct_map)
  moreover have "\<forall>i \<in> set (map nat indexes). i < length parts" using ix(4) el by auto
  ultimately have off': "length parts' = length parts"
    "\<And>k. k < length parts \<Longrightarrow> if k \<in> set (map nat indexes)
       then offloaded sha reference k (parts ! k) = Inr (parts' ! k) else parts' ! k = parts ! k"
    using offload_parts_nth [OF off [unfolded \<open>v = parts\<close>]] by blast+
  have mem: "k \<in> set (map nat indexes) \<longleftrightarrow> int k \<in> set indexes" for k
    using nonneg by (force simp: image_iff)
  have parts: "if int k \<in> set indexes then offloaded sha reference k (parts ! k) = Inr (parts' ! k)
      else parts' ! k = parts ! k" if "k < length parts" for k
    using off'(2) [OF that] unfolding mem .
  have ok: "json_ok (JArr parts)" using assms(2) map_of_SomeD [OF content] by (auto simp: list_all_iff)
  have ok': "json_ok (JArr parts')"
  proof -
    have "json_ok (parts' ! k)" if "k < length parts" for k
      using parts [OF that] ok that offloaded_Inr(1) by (auto simp: list_all_length split: if_splits)
    then show ?thesis by (simp add: list_all_length off'(1))
  qed
  let ?flags = "map (\<lambda>k. flags ! k \<and> int k \<notin> set indexes) [0..<length parts]"
  have "list_all2 (\<lambda>p f. is_image p = Inr f) parts' ?flags"
    unfolding list_all2_conv_all_nth
  proof (intro conjI allI impI)
    fix k assume k: "k < length parts'"
    then show "is_image (parts' ! k) = Inr (?flags ! k)"
      using parts [of k] off'(1) offloaded_Inr(2) list_all2_nthD [OF flags, of k]
      by (auto split: if_splits)
  qed (simp add: off'(1))
  from body_images_replaced [OF assms(2) ok' role this]
  have "body_images (sorted_json (JObj (dict_set (u ''content'') (JArr parts') kvs))) =
      Inr (filter (\<lambda>i. ?flags ! i) [0..<length parts])" by (simp only: off'(1))
  moreover have "filter (\<lambda>i. ?flags ! i) [0..<length parts] = filter (\<lambda>i. int i \<notin> set indexes) eligible"
    unfolding el filter_filter by (rule filter_cong) auto
  moreover have body': "body n' = Inr (sorted_json (JObj (dict_set (u ''content'') (JArr parts') kvs)))"
    unfolding n' by (rule body_message [OF json_ok_set [OF assms(2) ok']])
  ultimately have "image_indexes n' = Inr (filter (\<lambda>i. int i \<notin> set indexes) eligible)"
    by (simp add: image_indexes_def)
  moreover have "nd_id n' = nd_id n" "nd_pinned n' = nd_pinned n" by (simp_all add: n' message_def)
  ultimately show ?thesis using content ix(3,4) body' off'(1) parts by blast
qed


definition sample_photo :: "(pystr \<times> json) list" where
  "sample_photo = [(u ''content'', JArr [JObj [(u ''type'', JStr (u ''text''))], JObj [(u ''type'', JStr (u ''image_url''))]]),
     (u ''role'', JStr (u ''user''))]"

lemma sample_photo_body: "json_ok (JObj sample_photo)" "body (message i (JObj sample_photo) pin) = Inr (JObj sample_photo)"
proof -
  show ok: "json_ok (JObj sample_photo)" by (simp add: sample_photo_def)
  have "u ''content'' \<le> u ''role''" by (simp add: u_def)
  then have "sorted_json (JObj sample_photo) = JObj sample_photo" by (simp add: sample_photo_def)
  then show "body (message i (JObj sample_photo) pin) = Inr (JObj sample_photo)"
    using body_message [OF ok] by simp
qed

theorem offload_images_exact_witness:
  "\<exists>n'. offload_images (\<lambda>_. []) (message (u ''p'') (JObj sample_photo) False) [1] JNull = Inr n' \<and>
    image_indexes n' = Inr [] \<and> nd_id n' = u ''p''"
proof -
  let ?n = "message (u ''p'') (JObj sample_photo) False"
  have "encodable (JObj [(u ''type'', JStr (u ''image_url''))])" by (simp add: u_scalar_all)
  from encoded_canonical [OF this] obtain p where p:
    "offloaded (\<lambda>_. []) JNull 1 (JObj [(u ''type'', JStr (u ''image_url''))]) = Inr p"
    by (auto simp: offloaded_def encode_json_def)
  have el: "image_indexes ?n = Inr [1]"
    by (simp add: image_indexes_def sample_photo_body body_images_def is_image_def)
      (simp add: sample_photo_def is_image_def)
  have "\<exists>n'. offload_images (\<lambda>_. []) ?n [1] JNull = Inr n'"
    using p by (simp add: offload_images_def el sample_photo_body)
      (simp add: sample_photo_def set_content_def)
  then obtain n' where n': "offload_images (\<lambda>_. []) ?n [1] JNull = Inr n'" by blast
  from offload_images_exact [OF sample_photo_body(2,1) n'] have "nd_id n' = nd_id ?n" "image_indexes n' = Inr []"
    using el by auto
  then show ?thesis using n' by (auto simp: sample_ids)
qed


subsection \<open>Long tool results\<close>

lemma tool_reference_ok: "json_ok reference \<Longrightarrow> json_ok (tool_reference sha reference t)"
  by (simp add: tool_reference_def)

lemma reference_recognised:
  assumes "json_ok reference"
  shows "is_reference (canonical (tool_reference sha reference t))"
proof -
  have "json_get ''type'' (sorted_json (tool_reference sha reference t)) =
      Inr (JStr (u ''ai2apps.session-tool-reference/v1''))"
    using json_get_sorted [OF tool_reference_ok [OF assms, of sha t], of "''type''"]
    by (simp add: tool_reference_def del: sorted_json.simps(2))
  then show ?thesis
    by (simp add: is_reference_def loads_canonical [OF tool_reference_ok [OF assms]])
qed

text \<open>
  A pruned tool result has the same id and pin and the same fields apart from its content,
  which is a reference with the hash, the head and the tail of the text; it is strictly shorter in
  bytes than the original, whose text is longer than the threshold, and is never pruned again.
\<close>

theorem prune_tool_result_shrinks:
  assumes "body n = Inr (JObj kvs)" and "json_ok (JObj kvs)" and "json_ok reference"
    and "prune_tool_result sha n reference threshold = Inr (Some n')"
  shows "nd_id n' = nd_id n \<and> nd_pinned n' = nd_pinned n \<and>
    (\<exists>t size a b. map_of kvs (u ''content'') = Some (JStr t) \<and> map_of kvs (u ''role'') = Some (JStr (u ''tool'')) \<and>
       encoded_length t = Inr size \<and> threshold < size \<and>
       body n' = Inr (sorted_json (JObj (dict_set (u ''content'')
         (JStr (canonical (tool_reference sha reference t))) kvs))) \<and>
       encoded_length (nd_json n') = Inr a \<and> encoded_length (nd_json n) = Inr b \<and> a < b) \<and>
    (\<forall>reference' threshold' x. prune_tool_result sha n' reference' threshold' \<noteq> Inr (Some x))"
proof -
  let ?set = "\<lambda>t. JObj (dict_set (u ''content'') (JStr (canonical (tool_reference sha reference t))) kvs)"
  obtain t size where t: "map_of kvs (u ''content'') = Some (JStr t)" "map_of kvs (u ''role'') = Some (JStr (u ''tool''))"
    "encoded_length t = Inr size" "threshold < size"
    and p: "prune_text sha n reference (JObj kvs) t = Inr (Some n')"
    using assms(1,4)
    by (auto simp: prune_tool_result_def bind_res_Inr_iff role_is_def split: json.splits if_splits option.splits)
  obtain a b where size: "encode_json (?set t) = Inr (canonical (?set t), a)" "encoded_length (nd_json n) = Inr b" "a < b"
    and n': "n' = message (nd_id n) (?set t) (nd_pinned n)"
    using p by (auto simp: prune_text_def set_content_def bind_res_Inr_iff encode_json_def split: if_splits)
  have ok: "json_ok (?set t)" using assms(2) by (intro json_ok_set) simp_all
  have body': "body n' = Inr (sorted_json (?set t))" unfolding n' by (rule body_message [OF ok])
  have "encoded_length (nd_json n') = Inr a"
    using size(1) by (auto simp: n' message_def encode_json_def bind_res_Inr_iff)
  moreover have "prune_tool_result sha n' reference' threshold' \<noteq> Inr (Some x)" for reference' threshold' x
  proof -
    have "json_get ''content'' (sorted_json (?set t)) = Inr (JStr (canonical (tool_reference sha reference t)))"
      using json_get_sorted [OF ok, of "''content''"] by (simp del: sorted_json.simps(2))
    then show ?thesis
      using reference_recognised [OF assms(3), of sha t]
      by (auto simp: prune_tool_result_def body' bind_res_Inr_iff)
  qed
  moreover have "nd_id n' = nd_id n" "nd_pinned n' = nd_pinned n" by (simp_all add: n' message_def)
  ultimately show ?thesis using t size(2,3) body' by blast
qed


text \<open>A long result of plain text, pruned.\<close>

definition ascii :: "pystr \<Rightarrow> bool" where
  "ascii t \<longleftrightarrow> list_all (\<lambda>c. 32 \<le> c \<and> c < 128) t"

lemma ascii_append [simp]:
  "ascii []" "ascii (c # t) \<longleftrightarrow> 32 \<le> c \<and> c < 128 \<and> ascii t" "ascii (t @ t') \<longleftrightarrow> ascii t \<and> ascii t'"
  "ascii (replicate k 120)"
  by (auto simp: ascii_def) (simp add: list_all_iff)

lemma quote_ascii: "ascii t \<Longrightarrow> ascii (quote t) \<and> length (quote t) \<le> 2 * length t + 2"
proof -
  have "ascii (concat (map escape t)) \<and> length (concat (map escape t)) \<le> 2 * length t" if "ascii t"
    using that by (induction t) (auto simp: escape_def)
  then show "ascii t \<Longrightarrow> ?thesis" by (simp add: quote_def)
qed

lemma ascii_size: "ascii t \<Longrightarrow> encoded_length t = Inr (int (length t))"
  by (rule encoded_ascii) (auto simp: ascii_def list_all_iff)

definition sample_long :: pystr where
  "sample_long = replicate 40000 120"

definition sample_reference :: pystr where
  "sample_reference = canonical (tool_reference (\<lambda>_. []) JNull sample_long)"

lemma sample_reference_ascii: "ascii sample_reference" and sample_reference_length: "length sample_reference < 8000"
proof -
  have r: "sorted_json (tool_reference (\<lambda>_. []) JNull sample_long) = JObj [
     (u ''head'', JStr (replicate 2048 120)),
     (u ''notice'', JStr (u ''Partial original tool result. Read omitted evidence before relying on it; tool completion is not task completion.'')),
     (u ''omitted_characters'', JInt 36928),
     (u ''sha256'', JStr []),
     (u ''source'', JNull),
     (u ''tail'', JStr (replicate 1024 120)),
     (u ''total_characters'', JInt 40000),
     (u ''type'', JStr (u ''ai2apps.session-tool-reference/v1''))]"
    by (simp add: tool_reference_def sample_long_def u_def)
  have words: "ascii (u ''head'')" "ascii (u ''notice'')" "ascii (u ''omitted_characters'')" "ascii (u ''sha256'')"
    "ascii (u ''source'')" "ascii (u ''tail'')" "ascii (u ''total_characters'')" "ascii (u ''type'')"
    "ascii (u ''ai2apps.session-tool-reference/v1'')"
    "ascii (u ''Partial original tool result. Read omitted evidence before relying on it; tool completion is not task completion.'')"
    by (simp_all add: u_def)
  have numbers: "u (show_int 36928) = [51, 54, 57, 50, 56]" "u (show_int 40000) = [52, 48, 48, 48, 48]"
    by (simp_all add: u_def show_int_def show_nat.simps digit_def)
  have literals: "ascii (u ''null'')" by (simp add: u_def)
  have x: "ascii (replicate 2048 120)" "ascii (replicate 1024 120)" "ascii []" by simp_all
  note q = words [THEN quote_ascii] x [THEN quote_ascii]
  show "ascii sample_reference"
    using q literals by (simp add: sample_reference_def canonical_def r numbers)
  show "length sample_reference < 8000"
    using q by (simp add: sample_reference_def canonical_def r numbers)
qed

definition sample_result :: "pystr \<Rightarrow> (pystr \<times> json) list" where
  "sample_result t = [(u ''content'', JStr t), (u ''role'', JStr (u ''tool''))]"

lemma sample_result_body: "json_ok (JObj (sample_result t))" "sorted_json (JObj (sample_result t)) = JObj (sample_result t)"
proof -
  show "json_ok (JObj (sample_result t))" by (simp add: sample_result_def)
  have "u ''content'' \<le> u ''role''" by (simp add: u_def)
  then show "sorted_json (JObj (sample_result t)) = JObj (sample_result t)" by (simp add: sample_result_def)
qed

lemma sample_result_size:
  assumes "ascii t"
  shows "encoded_length (canonical (JObj (sample_result t))) = Inr (int (26 + length (quote t)))"
proof -
  have names: "list_all plain_char (u ''content'')" "list_all plain_char (u ''role'')" "list_all plain_char (u ''tool'')"
    by (simp_all add: u_def plain_char_def)
  have c: "canonical (JObj (sample_result t)) = 123 # quote (u ''content'') @ 58 # quote t @ 44 # quote (u ''role'') @
      58 # quote (u ''tool'') @ [125]"
    unfolding canonical_def sample_result_body by (simp add: sample_result_def)
  have "ascii (u ''content'')" "ascii (u ''role'')" "ascii (u ''tool'')" by (simp_all add: u_def)
  then have "ascii (canonical (JObj (sample_result t)))"
    unfolding c using quote_ascii [OF assms] by (simp add: quote_ascii)
  from ascii_size [OF this] show ?thesis by (simp add: c quote_plain [OF names(1)] quote_plain [OF names(2)] quote_plain [OF names(3)])
qed

lemma is_reference_plain: "\<not> is_reference (120 # t)"
proof -
  have "literal w v (120 # t) = None"
    if "w \<in> {''null'', ''true'', ''false'', ''NaN'', ''Infinity'', ''-Infinity''}" for w v
    using that by (auto simp: literal_def u_def)
  moreover have "parse_number (120 # t) = None"
    by (simp add: parse_number_def int_part_def is_digit_def Let_def)
  ultimately have "parse_scalar (120 # t) = None" by (simp add: parse_scalar_def first_some_def)
  then have "loads (120 # t) = Inl ValueError"
    by (simp add: loads_def skip_ws_def)
  then show ?thesis by (simp add: is_reference_def)
qed

theorem prune_tool_result_shrinks_witness:
  "\<exists>n' a b. prune_tool_result (\<lambda>_. []) (message (u ''t'') (JObj (sample_result sample_long)) False) JNull 32768 =
      Inr (Some n') \<and> encoded_length (nd_json n') = Inr a \<and> b = 40028 \<and> a < b \<and>
    (\<forall>x. prune_tool_result (\<lambda>_. []) n' JNull 0 \<noteq> Inr (Some x))"
proof -
  let ?n = "message (u ''t'') (JObj (sample_result sample_long)) False"
  have long: "ascii sample_long" "encoded_length sample_long = Inr 40000" "quote sample_long = 34 # sample_long @ [34]"
    by (simp_all add: sample_long_def ascii_size quote_plain list_all_iff plain_char_def)
  have size: "encoded_length (nd_json ?n) = Inr 40028"
    using sample_result_size [OF long(1)] by (simp add: message_def long(3)) (simp add: sample_long_def)
  have body: "body ?n = Inr (JObj (sample_result sample_long))"
    by (simp only: body_message [OF sample_result_body(1)] sample_result_body(2))
  have "sample_long = replicate (Suc 39999) 120" by (simp add: sample_long_def del: replicate.simps)
  then have head: "sample_long = 120 # replicate 39999 120" by (simp only: replicate.simps)
  have "\<not> is_reference sample_long" unfolding head by (rule is_reference_plain)
  moreover have "encode_json (JObj (sample_result sample_reference)) =
      Inr (canonical (JObj (sample_result sample_reference)), int (26 + length (quote sample_reference)))"
    by (simp add: encode_json_def sample_result_size [OF sample_reference_ascii])
  moreover have "int (26 + length (quote sample_reference)) < 40028"
    using quote_ascii [OF sample_reference_ascii] sample_reference_length by simp
  moreover have "json_get ''content'' (JObj (sample_result t)) = Inr (JStr t)"
    "role_is ''tool'' (JObj (sample_result t)) = Inr True"
    "set_content v (JObj (sample_result t)) = Inr (JObj [(u ''content'', v), (u ''role'', JStr (u ''tool''))])" for t v
    by (simp_all add: sample_result_def role_is_def set_content_def)
  ultimately have "\<exists>n'. prune_tool_result (\<lambda>_. []) ?n JNull 32768 = Inr (Some n')"
    using size
    by (simp add: prune_tool_result_def body long(2) prune_text_def
        sample_reference_def [symmetric] sample_result_def [of sample_reference, symmetric])
  then obtain n' where n': "prune_tool_result (\<lambda>_. []) ?n JNull 32768 = Inr (Some n')" by blast
  from prune_tool_result_shrinks [OF body sample_result_body(1) _ n'] show ?thesis
    using n' size by auto
qed


subsection \<open>An error code that is no string\<close>

text \<open>A list as error code of the provider is not hashable, and the membership test raises.\<close>

lemma provider_overflow_unhashable:
  "provider_overflow 400 (canonical (JObj [(u ''error'', JObj [(u ''code'', JArr [])])])) = Inl TypeError"
  by (simp add: provider_overflow_def loads_canonical)

end
