(* ===== verification/AgentGuards.thy ===== *)
theory AgentGuards
  imports AgentContext
begin

section \<open>Guards around the tools of an agent\<close>

text \<open>
  \<^verbatim>\<open>src/ai2apps/agents/loop_guard.py\<close> (repeated tool cycles), \<^verbatim>\<open>src/ai2apps/agents/tool_recovery.py\<close>
  (which tool failures the model may answer), \<^verbatim>\<open>src/ai2apps/capabilities/risk.py\<close> (classes of
  effects, redaction) and \<^verbatim>\<open>src/ai2apps/capabilities/policy.py\<close> (the decision on a tool call).
  Parameters: SHA-256, the repository's leases and matching policies, the auditor, and \<open>lower\<close>, the
  lower-casing of strings, which rests on the Unicode tables of the interpreter.
\<close>

subsection \<open>Repeated tool cycles\<close>

text \<open>\<^verbatim>\<open>json.dumps(value, sort_keys=True, ensure_ascii=False)\<close>, with its spaces\<close>

fun join_spaced :: "nat \<Rightarrow> pystr list \<Rightarrow> pystr" where
  "join_spaced c [] = []"
| "join_spaced c [t] = t"
| "join_spaced c (t # ts) = t @ c # 32 # join_spaced c ts"

fun render_spaced :: "json \<Rightarrow> pystr" where
  "render_spaced (JArr vs) = 91 # join_spaced 44 (map render_spaced vs) @ [93]"
| "render_spaced (JObj kvs) =
     123 # join_spaced 44 (map (\<lambda>(k, v). quote k @ 58 # 32 # render_spaced v) kvs) @ [125]"
| "render_spaced v = render v"

type_synonym call_key = "pystr \<times> pystr"

definition call_key :: "(pystr \<Rightarrow> pystr) \<Rightarrow> pystr \<Rightarrow> json \<Rightarrow> call_key res" where
  "call_key sha name arguments =
     (let encoded = render_spaced (sorted_json arguments)
      in bind_res (encoded_length encoded) (\<lambda>_. Inr (name, sha encoded)))"

record run_step =
  step_tool :: pystr
  step_input :: json
  step_output :: json

definition step_key :: "(pystr \<Rightarrow> pystr) \<Rightarrow> run_step \<Rightarrow> (call_key \<times> call_key) res" where
  "step_key sha s =
     bind_res (call_key sha (step_tool s) (step_input s)) (\<lambda>a.
     bind_res (call_key sha (u ''output'') (step_output s)) (\<lambda>b. Inr (a, b)))"

text \<open>\<^verbatim>\<open>xs[-n:]\<close>\<close>

definition last_slice :: "nat \<Rightarrow> 'a list \<Rightarrow> 'a list" where
  "last_slice n xs = (if n = 0 then xs else drop (length xs - n) xs)"

fun cycle_loop ::
    "nat list \<Rightarrow> nat \<Rightarrow> (call_key \<times> call_key) list \<Rightarrow> call_key \<Rightarrow> bool res" where
  "cycle_loop [] repetitions recent candidate = Inr False"
| "cycle_loop (period # periods) repetitions recent candidate =
     (if length recent < repetitions * period then cycle_loop periods repetitions recent candidate
      else (case last_slice period recent of
        [] \<Rightarrow> Inl IndexError
      | (first, _) # _ \<Rightarrow>
          if candidate = first \<and>
            last_slice (period * repetitions) recent = concat (replicate repetitions (last_slice period recent))
          then Inr True else cycle_loop periods repetitions recent candidate))"

definition repeats_cycle ::
    "(pystr \<Rightarrow> pystr) \<Rightarrow> run_step list \<Rightarrow> pystr \<Rightarrow> json \<Rightarrow> nat \<Rightarrow> nat \<Rightarrow> bool res" where
  "repeats_cycle sha steps name arguments repetitions max_period =
     bind_res (map_res (step_key sha) (last_slice (repetitions * max_period) steps)) (\<lambda>recent.
     bind_res (call_key sha name arguments) (\<lambda>candidate.
     cycle_loop [2..<max_period + 1] repetitions recent candidate))"

subsection \<open>Tool failures\<close>

definition max_recoveries :: int where
  "max_recoveries = 3"

definition preflight_codes :: "string set" where
  "preflight_codes = {''invalid_tool_arguments'', ''tool_not_available'', ''invalid_question''}"

definition read_only_codes :: "string set" where
  "read_only_codes = {''invalid_tool_input'', ''tool_timeout'', ''provider_error'', ''invalid_tool_output'',
     ''service_unavailable'', ''provider_unavailable'', ''tool_disabled'', ''tool_not_found''}"

definition model_visible :: "json \<Rightarrow> bool res" where
  "model_visible error =
     (if \<not> truthy error then Inr False
      else bind_res (json_get ''model_visible_error'' error) (\<lambda>v.
        if v = JBool True then Inr True
        else bind_res (json_get ''recoverable_input_error'' error) (\<lambda>w. Inr (w = JBool True))))"

definition recoverable :: "string \<Rightarrow> string list \<Rightarrow> int \<Rightarrow> bool \<Rightarrow> bool \<Rightarrow> bool" where
  "recoverable code effects prior_errors enabled preflight =
     (if \<not> enabled \<or> prior_errors \<ge> max_recoveries then False
      else if preflight then code \<in> preflight_codes
      else effects = [] \<and> code \<in> read_only_codes)"

definition error_result :: "string \<Rightarrow> pystr \<Rightarrow> bool \<Rightarrow> bool \<Rightarrow> json" where
  "error_result code msg retryable preflight =
     JObj ([(u ''code'', JStr (u code)), (u ''message'', JStr (take 2048 msg)),
       (u ''retryable'', JBool retryable), (u ''model_visible_error'', JBool True), (u ''is_error'', JBool True),
       (u ''phase'', JStr (u (if preflight \<or> code \<in> {''invalid_tool_input'', ''service_unavailable'',
            ''provider_unavailable'', ''tool_disabled'', ''tool_not_found''} then ''prepare'' else ''execute''))),
       (u ''next_action'', JStr (u ''Correct the call or choose another approach. Do not assume success.''))] @
      (if code = ''invalid_tool_input'' then [(u ''recoverable_input_error'', JBool True)] else []))"

subsection \<open>Risk of an effect\<close>

definition sensitive_fragments :: "pystr list" where
  "sensitive_fragments = map u [''password'', ''passwd'', ''secret'', ''token'', ''api_key'', ''apikey'',
     ''authorization'', ''cookie'', ''credential'', ''private_key'']"

definition resource_keys :: "pystr list" where
  "resource_keys = map u [''path'', ''url'', ''target'', ''selector'', ''name'', ''id'', ''destination'',
     ''repository'', ''branch'', ''recipient'', ''channel'']"

text \<open>\<^verbatim>\<open>fragment in text\<close>\<close>

definition contains :: "pystr \<Rightarrow> pystr \<Rightarrow> bool" where
  "contains t w \<longleftrightarrow> list_ex (\<lambda>i. take (length w) (drop i t) = w) [0..<length t + 1]"

definition is_sensitive_key :: "(pystr \<Rightarrow> pystr) \<Rightarrow> pystr \<Rightarrow> bool" where
  "is_sensitive_key lower key =
     list_ex (contains (map (\<lambda>c. if c = 45 then 95 else c) (lower key))) sensitive_fragments"

text \<open>The value under \<open>key\<close>; an item of a list and the value itself have the empty key.\<close>

fun sanitize_value :: "(pystr \<Rightarrow> pystr) \<Rightarrow> pystr \<Rightarrow> json \<Rightarrow> json" where
  "sanitize_value lower key (JObj kvs) =
     (if key \<noteq> [] \<and> is_sensitive_key lower key then JStr (u ''[secret]'')
      else JObj (take 40 (map (\<lambda>(k, v). (k, sanitize_value lower k v)) kvs)))"
| "sanitize_value lower key (JArr vs) =
     (if key \<noteq> [] \<and> is_sensitive_key lower key then JStr (u ''[secret]'')
      else JArr (take 40 (map (sanitize_value lower []) vs)))"
| "sanitize_value lower key (JStr t) =
     (if key \<noteq> [] \<and> is_sensitive_key lower key then JStr (u ''[secret]'')
      else if take 9 t = u ''secret://'' then JStr t
      else JStr (if length t \<le> 240 then t else take 237 t @ u ''...''))"
| "sanitize_value lower key v =
     (if key \<noteq> [] \<and> is_sensitive_key lower key then JStr (u ''[secret]'') else v)"

datatype op_class = Destructive | External | Write | Read
datatype risk = Critical | High | Medium | Low

definition any_effect :: "(pystr \<Rightarrow> pystr) \<Rightarrow> pystr list \<Rightarrow> string list \<Rightarrow> bool" where
  "any_effect lower effects names = list_ex (\<lambda>e. lower e \<in> set (map u names)) effects"

definition operation_class :: "(pystr \<Rightarrow> pystr) \<Rightarrow> pystr list \<Rightarrow> op_class" where
  "operation_class lower effects =
     (if any_effect lower effects [''destructive'', ''delete'', ''purchase'', ''payment''] then Destructive
      else if any_effect lower effects [''external'', ''network'', ''export'', ''upload'', ''send'', ''publish'']
      then External
      else if any_effect lower effects [''write'', ''write-host'', ''execute'', ''process'', ''clipboard'',
        ''host-control'', ''privileged'', ''credential''] then Write
      else Read)"

definition risk_level :: "(pystr \<Rightarrow> pystr) \<Rightarrow> pystr list \<Rightarrow> risk" where
  "risk_level lower effects =
     (let category = operation_class lower effects in
      if category = Destructive \<or> any_effect lower effects [''privileged'', ''credential''] then Critical
      else if any_effect lower effects [''network'', ''send'', ''publish'', ''execute'', ''process'', ''host-control'']
      then High
      else if category = Write \<or> category = External then Medium
      else Low)"

definition resource_selector :: "(pystr \<Rightarrow> pystr) \<Rightarrow> (pystr \<times> json) list \<Rightarrow> json" where
  "resource_selector lower arguments =
     (let chosen = concat (map (\<lambda>k. case map_of arguments k of
            None \<Rightarrow> [] | Some v \<Rightarrow> if is_sensitive_key lower k then [] else [(k, sanitize_value lower k v)]) resource_keys)
      in if chosen = [] then JObj [] else JObj [(u ''arguments'', JObj chosen)])"

subsection \<open>Decisions\<close>

datatype effect = Allow | Deny | RequireApproval

text \<open>Effects by strictness: a denial outweighs a request for approval, which outweighs permission.\<close>

fun strictness :: "effect \<Rightarrow> nat" where
  "strictness Allow = 0"
| "strictness RequireApproval = 1"
| "strictness Deny = 2"

instantiation effect :: linorder
begin

definition less_eq_effect :: "effect \<Rightarrow> effect \<Rightarrow> bool" where
  "less_eq_effect a b \<longleftrightarrow> strictness a \<le> strictness b"

definition less_effect :: "effect \<Rightarrow> effect \<Rightarrow> bool" where
  "less_effect a b \<longleftrightarrow> strictness a < strictness b"

instance
proof
  fix a b :: effect
  show "a \<le> b \<Longrightarrow> b \<le> a \<Longrightarrow> a = b"
    by (cases a; cases b) (simp_all add: less_eq_effect_def)
qed (auto simp: less_eq_effect_def less_effect_def)

end

text \<open>Of the lease and policy records, the fields that a decision reads.\<close>

record grant_lease =
  lease_id :: pystr
  lease_capabilities :: "pystr list"

record cap_policy =
  cp_id :: pystr
  cp_priority :: int
  cp_effect :: effect

datatype source = GrantLease | Policy | AiAuditor

text \<open>What the auditor contributes to the evidence: its decision, reason and evidence, or its failure.\<close>

datatype audit_note = NoAudit | Audited effect json json | AuditFailed

record decision =
  dc_effect :: effect
  dc_source :: source
  dc_capabilities :: "pystr list"
  dc_allowed :: "pystr list"
  dc_policies :: "pystr list"
  dc_leases :: "pystr list"
  dc_effects :: "(pystr \<times> effect) list"
  dc_audit :: audit_note

record audit_request =
  ar_run :: pystr
  ar_agent :: pystr
  ar_tool :: pystr
  ar_capabilities :: "pystr list"
  ar_effects :: "pystr list"
  ar_arguments :: json

text \<open>\<^verbatim>\<open>sorted(set(xs))\<close> and \<^verbatim>\<open>tuple(dict.fromkeys(xs))\<close>\<close>

definition sorted_set :: "pystr list \<Rightarrow> pystr list" where
  "sorted_set xs = sort (remdups xs)"

definition unique :: "pystr list \<Rightarrow> pystr list" where
  "unique xs = rev (remdups (rev xs))"

definition top_policies :: "cap_policy list \<Rightarrow> cap_policy list" where
  "top_policies ps = (case ps of [] \<Rightarrow> [] | p # _ \<Rightarrow> filter (\<lambda>q. cp_priority q = cp_priority p) ps)"

definition strictest :: "effect list \<Rightarrow> effect" where
  "strictest es = (if Deny \<in> set es then Deny else if RequireApproval \<in> set es then RequireApproval else Allow)"

definition capability_effect :: "cap_policy list \<Rightarrow> effect" where
  "capability_effect ps = (if ps = [] then RequireApproval else strictest (map cp_effect (top_policies ps)))"

text \<open>\<^verbatim>\<open>PolicyEffect(value)\<close>\<close>

definition read_effect :: "json \<Rightarrow> effect res" where
  "read_effect v =
     (if v = JStr (u ''allow'') then Inr Allow else if v = JStr (u ''deny'') then Inr Deny
      else if v = JStr (u ''require_approval'') then Inr RequireApproval else Inl ValueError)"

definition get_default :: "string \<Rightarrow> json \<Rightarrow> json \<Rightarrow> json res" where
  "get_default k d v =
     (case v of JObj kvs \<Rightarrow> Inr (case map_of kvs (u k) of None \<Rightarrow> d | Some x \<Rightarrow> x) | _ \<Rightarrow> Inl AttributeError)"

text \<open>
  The auditor's answer; any exception on the way asks for approval, except a cancellation, which is no
  \<^verbatim>\<open>Exception\<close> and goes on.
\<close>

definition audit :: "(audit_request \<Rightarrow> json res) \<Rightarrow> audit_request \<Rightarrow> (effect \<times> source \<times> audit_note) res" where
  "audit auditor request =
     (case bind_res (auditor request) (\<lambda>result.
             bind_res (bind_res (get_default ''decision'' (JStr (u ''require_approval'')) result) read_effect) (\<lambda>e.
             bind_res (get_default ''reason'' (JStr []) result) (\<lambda>reason.
             bind_res (get_default ''evidence'' (JObj []) result) (\<lambda>evidence. Inr (e, reason, evidence))))) of
        Inr (e, reason, evidence) \<Rightarrow> Inr (e, AiAuditor, Audited e reason evidence)
      | Inl err \<Rightarrow> if err = CancelledError then Inl CancelledError else Inr (RequireApproval, Policy, AuditFailed))"

definition evaluate ::
    "(pystr \<Rightarrow> pystr) \<Rightarrow> grant_lease list \<Rightarrow> (pystr \<Rightarrow> cap_policy list) \<Rightarrow> (audit_request \<Rightarrow> json res) option \<Rightarrow>
     pystr \<Rightarrow> pystr \<Rightarrow> pystr \<Rightarrow> pystr list \<Rightarrow> pystr list \<Rightarrow> json \<Rightarrow> decision res" where
  "evaluate lower leases policies auditor run_id agent_key tool_name capabilities effects arguments =
     (let leased = filter (\<lambda>c. c \<in> set capabilities) (concat (map lease_capabilities leases));
          unresolved = sorted_set (filter (\<lambda>c. c \<notin> set leased) capabilities);
          lease_ids = map lease_id leases
      in if unresolved = [] then
           Inr \<lparr>dc_effect = Allow, dc_source = GrantLease, dc_capabilities = capabilities,
            dc_allowed = sorted_set leased, dc_policies = [], dc_leases = lease_ids, dc_effects = [],
            dc_audit = NoAudit\<rparr>
         else
           (let matched = concat (map (\<lambda>c. top_policies (policies c)) unresolved);
                by_capability = map (\<lambda>c. (c, capability_effect (policies c))) unresolved;
                effect = strictest (map snd by_capability)
            in bind_res
                 (case auditor of
                    Some f \<Rightarrow> if effect = RequireApproval then audit f \<lparr>ar_run = run_id, ar_agent = agent_key,
                         ar_tool = tool_name, ar_capabilities = unresolved, ar_effects = effects,
                         ar_arguments = sanitize_value lower [] arguments\<rparr>
                       else Inr (effect, Policy, NoAudit)
                  | None \<Rightarrow> Inr (effect, Policy, NoAudit))
                 (\<lambda>(effect, source, note).
               Inr \<lparr>dc_effect = effect, dc_source = source, dc_capabilities = capabilities,
                dc_allowed = sorted_set (leased @ (if effect = Allow then unresolved else [])),
                dc_policies = unique (map cp_id matched), dc_leases = lease_ids,
                dc_effects = by_capability, dc_audit = note\<rparr>)))"

end
