(* ===== verification/GuardProperties.thy ===== *)
theory GuardProperties
  imports AgentGuards ContextProperties
begin

section \<open>Properties of the tool guards\<close>

text \<open>
  When a tool cycle counts as repeated, and that decisions on tool calls fail closed.
\<close>

subsection \<open>Repeated cycles\<close>

text \<open>The reference: the last \<open>k * p\<close> steps have period \<open>p\<close>.\<close>

definition periodic_tail :: "'a list \<Rightarrow> nat \<Rightarrow> nat \<Rightarrow> bool" where
  "periodic_tail xs k p \<longleftrightarrow> k * p \<le> length xs \<and>
     (\<forall>i. length xs - k * p \<le> i \<longrightarrow> i + p < length xs \<longrightarrow> xs ! i = xs ! (i + p))"

lemma concat_replicate_nth:
  "length zs = p \<Longrightarrow> j < k * p \<Longrightarrow> concat (replicate k zs) ! j = zs ! (j mod p)"
  by (induction k arbitrary: j) (auto simp: nth_append mod_if le_mod_geq)

lemma concat_replicate_length: "length (concat (replicate k zs)) = k * length zs"
  by (simp add: length_concat sum_list_replicate)

lemma periodic_steps:
  "\<forall>i. i + p < length ys \<longrightarrow> ys ! i = ys ! (i + p) \<Longrightarrow> i + m * p < length ys \<Longrightarrow> ys ! i = ys ! (i + m * p)"
proof (induction m arbitrary: i)
  case (Suc m)
  then show ?case using Suc.IH [of "i + p"] by (simp add: ac_simps)
qed simp

lemma periodic_replicate:
  assumes "length ys = k * p" and "0 < p" and "\<forall>i. i + p < length ys \<longrightarrow> ys ! i = ys ! (i + p)"
  shows "ys = concat (replicate k (drop (length ys - p) ys))"
proof (rule nth_equalityI)
  let ?zs = "drop (length ys - p) ys"
  show len: "length ys = length (concat (replicate k ?zs))"
    using assms(1) by (cases k) (simp_all add: concat_replicate_length)
  fix i assume i: "i < length ys"
  then have k: "0 < k" using assms(1) by (cases k) simp_all
  have q: "i div p < k" using i assms(1,2) by (simp add: less_mult_imp_div_less)
  then have "i div p \<le> k - 1" by simp
  then obtain d where d: "k - 1 = i div p + d" using le_Suc_ex by blast
  have e: "i + (k - 1 - i div p) * p = (k - 1) * p + i mod p"
    using div_mult_mod_eq [of i p] unfolding d by (simp add: add_mult_distrib)
  have "(k - 1) * p + i mod p < k * p"
    using k mod_less_divisor [OF assms(2), of i] by (cases k) simp_all
  then have "ys ! i = ys ! ((k - 1) * p + i mod p)"
    using periodic_steps [OF assms(3), of i "k - 1 - i div p"] e assms(1) by simp
  moreover have "?zs ! (i mod p) = ys ! ((k - 1) * p + i mod p)"
    using assms(1) k by (simp add: diff_mult_distrib)
  moreover have "concat (replicate k ?zs) ! i = ?zs ! (i mod p)"
    using i assms(1) k by (intro concat_replicate_nth) (cases k, simp_all)
  ultimately show "ys ! i = concat (replicate k ?zs) ! i" by simp
qed

lemma replicate_periodic:
  assumes "length zs = p" and "i + p < k * p"
  shows "concat (replicate k zs) ! i = concat (replicate k zs) ! (i + p)"
  using assms by (simp add: concat_replicate_nth)

lemma periodic_tail_iff:
  assumes "0 < p" and "0 < k" and "k * p \<le> length xs"
  shows "last_slice (p * k) xs = concat (replicate k (last_slice p xs)) \<longleftrightarrow> periodic_tail xs k p"
proof -
  define ys where "ys = drop (length xs - k * p) xs"
  have len: "length ys = k * p" using assms(3) by (simp add: ys_def)
  have slice: "last_slice (p * k) xs = ys" "last_slice p xs = drop (length ys - p) ys"
  proof -
    have "p \<le> k * p" using assms(2) by (cases k) simp_all
    then show "last_slice p xs = drop (length ys - p) ys"
      using assms(1,3) len by (simp add: last_slice_def ys_def)
    show "last_slice (p * k) xs = ys" using assms(1,2) by (simp add: last_slice_def ys_def mult.commute)
  qed
  have "periodic_tail xs k p \<longleftrightarrow> (\<forall>i. i + p < length ys \<longrightarrow> ys ! i = ys ! (i + p))"
  proof
    assume "periodic_tail xs k p"
    then show "\<forall>i. i + p < length ys \<longrightarrow> ys ! i = ys ! (i + p)"
      using assms(3) by (auto simp: periodic_tail_def ys_def add.assoc)
  next
    assume r: "\<forall>i. i + p < length ys \<longrightarrow> ys ! i = ys ! (i + p)"
    have "xs ! i = xs ! (i + p)" if "length xs - k * p \<le> i" "i + p < length xs" for i
      using r [rule_format, of "i - (length xs - k * p)"] that assms(3) by (simp add: ys_def)
    then show "periodic_tail xs k p" using assms(3) by (simp add: periodic_tail_def)
  qed
  moreover have "(\<forall>i. i + p < length ys \<longrightarrow> ys ! i = ys ! (i + p)) \<longleftrightarrow>
      ys = concat (replicate k (drop (length ys - p) ys))"
  proof
    assume e: "ys = concat (replicate k (drop (length ys - p) ys))"
    have "length (drop (length ys - p) ys) = p" using len assms(2) by (cases k) simp_all
    then show "\<forall>i. i + p < length ys \<longrightarrow> ys ! i = ys ! (i + p)"
      using replicate_periodic [of "drop (length ys - p) ys" p _ k] e len by metis
  qed (rule periodic_replicate [OF len assms(1)])
  ultimately show ?thesis by (simp add: slice)
qed


lemma cycle_loop_iff:
  assumes "0 < k" and "\<forall>p \<in> set periods. 0 < p"
  shows "cycle_loop periods k keys c =
    Inr (\<exists>p \<in> set periods. periodic_tail keys k p \<and> c = fst (keys ! (length keys - p)))"
  using assms(2)
proof (induction periods)
  case (Cons p periods)
  show ?case
  proof (cases "length keys < k * p")
    case True
    then have "\<not> periodic_tail keys k p" by (simp add: periodic_tail_def)
    then show ?thesis using True Cons by auto
  next
    case False
    then have le: "k * p \<le> length keys" and p: "0 < p" using Cons.prems by simp_all
    have "p \<le> length keys" using le assms(1) by (cases k) simp_all
    then have slice: "last_slice p keys = keys ! (length keys - p) # drop (Suc (length keys - p)) keys"
      using p by (simp add: last_slice_def Cons_nth_drop_Suc)
    obtain a b where ab: "keys ! (length keys - p) = (a, b)" by (cases "keys ! (length keys - p)") simp
    note iff = periodic_tail_iff [OF p assms(1) le]
    show ?thesis using False Cons iff by (auto simp: slice ab)
  qed
qed simp

text \<open>
  C40. \<open>repeats_cycle\<close> answers whether some period from 2 to the maximum is repeated in full at the
  end of the steps, by call and by output, with the new call at the beginning of the next round; any
  other argument or output counts as progress.
\<close>

theorem repeats_cycle_exact:
  assumes "0 < repetitions"
    and "map_res (step_key sha) (last_slice (repetitions * max_period) steps) = Inr keys"
    and "call_key sha name arguments = Inr c"
  shows "repeats_cycle sha steps name arguments repetitions max_period =
    Inr (\<exists>p \<in> {2..max_period}. periodic_tail keys repetitions p \<and> c = fst (keys ! (length keys - p)))"
proof -
  have periods: "set [2..<max_period + 1] = {2..max_period}" by (auto simp del: upt_Suc)
  then have "\<forall>p \<in> set [2..<max_period + 1]. 0 < p" by auto
  from cycle_loop_iff [OF assms(1) this, of keys c] show ?thesis
    unfolding repeats_cycle_def assms(2,3) bind_res_simps periods .
qed

definition sample_step :: "nat \<Rightarrow> run_step" where
  "sample_step c = \<lparr>step_tool = [c], step_input = JNull, step_output = JNull\<rparr>"

theorem repeats_cycle_exact_witness:
  "repeats_cycle (\<lambda>t. t) (map sample_step [97, 98, 97, 98, 97, 98]) [97] JNull 3 4 = Inr True \<and>
    repeats_cycle (\<lambda>t. t) (map sample_step [97, 98, 97, 98, 97, 98]) [98] JNull 3 4 = Inr False"
proof -
  let ?key = "\<lambda>c :: nat. (([c], u ''null''), (u ''output'', u ''null''))"
  let ?keys = "map ?key [97, 98, 97, 98, 97, 98]"
  have null: "encoded_length (u ''null'') = Inr 4" by (simp add: encoded_length_def u_def utf8_width_def)
  then have key: "call_key (\<lambda>t. t) n JNull = Inr (n, u ''null'')" for n
    by (simp add: call_key_def)
  have keys: "map_res (step_key (\<lambda>t. t)) (last_slice (3 * 4) (map sample_step [97, 98, 97, 98, 97, 98])) = Inr ?keys"
    by (simp add: last_slice_def step_key_def sample_step_def key)
  have yes: "periodic_tail ?keys 3 2"
    by (auto simp: periodic_tail_def less_Suc_eq nth_Cons' numeral_eq_Suc)
  have no: "\<not> periodic_tail ?keys 3 p" if "p \<in> {3..4}" for p
    using that by (simp add: periodic_tail_def)
  have range: "{2..4 :: nat} = insert 2 {3..4}" by auto
  have at2: "?keys ! (length ?keys - 2) = ?key 97" by (simp add: eval_nat_numeral)
  have "(\<exists>p \<in> {2..4}. periodic_tail ?keys 3 p \<and> ([97], u ''null'') = fst (?keys ! (length ?keys - p)))"
    unfolding range using yes at2 by (intro bexI [of _ 2]) (simp_all only: fst_conv insertI1)
  moreover have "\<not> (\<exists>p \<in> {2..4}. periodic_tail ?keys 3 p \<and> ([98], u ''null'') = fst (?keys ! (length ?keys - p)))"
    unfolding range using no at2 by auto
  ultimately show ?thesis
    using repeats_cycle_exact [OF _ keys key, of "[97]"] repeats_cycle_exact [OF _ keys key, of "[98]"] by simp
qed


subsection \<open>Decisions\<close>

definition leased :: "grant_lease list \<Rightarrow> pystr list \<Rightarrow> pystr set" where
  "leased leases capabilities = {c \<in> set capabilities. \<exists>l \<in> set leases. c \<in> set (lease_capabilities l)}"

lemma image_mem: "y \<in> f ` A \<longleftrightarrow> (\<exists>x \<in> A. f x = y)"
  by auto

lemma strictest_cases:
  "strictest es = Deny \<longleftrightarrow> Deny \<in> set es"
  "strictest es = Allow \<longleftrightarrow> set es \<subseteq> {Allow}"
  by (auto simp: strictest_def) (metis effect.exhaust)

lemma strictest_Max: "strictest es = Max (insert Allow (set es))"
proof (rule sym, rule Max_eqI)
  have le: "e \<le> Deny" "Allow \<le> e" "RequireApproval \<le> e \<or> e = Allow" "e \<le> RequireApproval \<or> e = Deny" for e
    by (cases e; simp add: less_eq_effect_def)+
  show "y \<le> strictest es" if "y \<in> insert Allow (set es)" for y
    using that le by (auto simp: strictest_def) (metis effect.exhaust order_refl)
  show "strictest es \<in> insert Allow (set es)" by (simp add: strictest_def)
qed simp

lemma capability_effect_cases:
  "capability_effect ps = Deny \<longleftrightarrow> (\<exists>p \<in> set (top_policies ps). cp_effect p = Deny)"
  "capability_effect ps = Allow \<longleftrightarrow> ps \<noteq> [] \<and> (\<forall>p \<in> set (top_policies ps). cp_effect p = Allow)"
proof -
  have "top_policies ps = []" if "ps = []" using that by (simp add: top_policies_def)
  then show "capability_effect ps = Deny \<longleftrightarrow> (\<exists>p \<in> set (top_policies ps). cp_effect p = Deny)"
    "capability_effect ps = Allow \<longleftrightarrow> ps \<noteq> [] \<and> (\<forall>p \<in> set (top_policies ps). cp_effect p = Allow)"
    by (auto simp: capability_effect_def strictest_cases image_mem)
qed

text \<open>What an allowing answer of the auditor is, and what failures of it lead to\<close>

definition answered_allow :: "(audit_request \<Rightarrow> json res) \<Rightarrow> audit_request \<Rightarrow> bool" where
  "answered_allow f r \<longleftrightarrow> (\<exists>kvs. f r = Inr (JObj kvs) \<and> map_of kvs (u ''decision'') = Some (JStr (u ''allow'')))"

lemma audit_allow: "audit f r = Inr (Allow, src, nt) \<Longrightarrow> src = AiAuditor \<and> answered_allow f r"
  by (auto simp: audit_def answered_allow_def bind_res_Inr_iff get_default_def read_effect_def
      split: sum.splits if_splits json.splits option.splits)

lemma audit_raises: "audit f r = Inl err \<Longrightarrow> err = CancelledError \<and> f r = Inl CancelledError"
  by (auto simp: audit_def bind_res_def get_default_def read_effect_def
      split: sum.splits if_splits json.splits option.splits)

text \<open>
  C38. Decisions on tool calls fail closed. A capability that is neither leased nor free of a deny
  among its matching policies of top priority makes the decision a denial, whatever the auditor
  says. A call is allowed only if every capability is leased, or every other one has policies and
  all of top priority allow it, or the auditor, asked about exactly the capabilities that are not leased,
  returned an object whose decision is \<open>allow\<close>: an auditor that raises, or returns anything else,
  never allows. The allowed capabilities are the leased ones, and all of them only with an
  allowing decision. There is no decision only when the auditor was asked and cancelled.
\<close>

theorem evaluate_fails_closed:
  assumes "evaluate lower leases policies auditor run_id agent_key tool_name capabilities effects arguments = res"
    and "request = \<lparr>ar_run = run_id, ar_agent = agent_key, ar_tool = tool_name,
      ar_capabilities = sorted_set (filter (\<lambda>c. c \<notin> leased leases capabilities) capabilities),
      ar_effects = effects, ar_arguments = sanitize_value lower [] arguments\<rparr>"
  shows "case res of
      Inl err \<Rightarrow> err = CancelledError \<and> (\<exists>f. auditor = Some f \<and> f request = Inl CancelledError)
    | Inr d \<Rightarrow>
       (\<forall>c \<in> set capabilities - leased leases capabilities.
         (\<exists>p \<in> set (top_policies (policies c)). cp_effect p = Deny) \<longrightarrow> dc_effect d = Deny) \<and>
       (dc_effect d = Allow \<longrightarrow> (\<forall>c \<in> set capabilities - leased leases capabilities.
         dc_source d = AiAuditor \<and> (\<exists>f. auditor = Some f \<and> answered_allow f request) \<or>
         policies c \<noteq> [] \<and> (\<forall>p \<in> set (top_policies (policies c)). cp_effect p = Allow))) \<and>
       set (dc_allowed d) = (if dc_effect d = Allow then set capabilities else leased leases capabilities)"
proof -
  define ls where "ls = filter (\<lambda>c. c \<in> set capabilities) (concat (map lease_capabilities leases))"
  define os where "os = sorted_set (filter (\<lambda>c. c \<notin> set ls) capabilities)"
  have ls: "set ls = leased leases capabilities" by (auto simp: leased_def ls_def)
  have "set os = set capabilities - set ls" by (auto simp: sorted_set_def os_def)
  then have os: "set os = set capabilities - leased leases capabilities" by (simp only: ls)
  have sub: "leased leases capabilities \<subseteq> set capabilities" by (auto simp: leased_def)
  have req: "request = \<lparr>ar_run = run_id, ar_agent = agent_key, ar_tool = tool_name, ar_capabilities = os,
      ar_effects = effects, ar_arguments = sanitize_value lower [] arguments\<rparr>"
    by (simp add: assms(2) os_def ls)
  note d = assms(1) [unfolded evaluate_def Let_def, folded ls_def, folded os_def, folded req]
  show ?thesis
  proof (cases "os = []")
    case True
    then have "set capabilities = leased leases capabilities" using os sub by auto
    then show ?thesis using True d ls by (auto simp: sorted_set_def)
  next
    case False
    define strict where "strict = strictest (map (\<lambda>c. capability_effect (policies c)) os)"
    have strict': "strictest (map snd (map (\<lambda>c. (c, capability_effect (policies c))) os)) = strict"
      by (simp add: strict_def comp_def)
    define outcome where "outcome = (case auditor of
         Some f \<Rightarrow> if strict = RequireApproval then audit f request else Inr (strict, Policy, NoAudit)
       | None \<Rightarrow> Inr (strict, Policy, NoAudit))"
    note d = d [unfolded strict', folded outcome_def]
    show ?thesis
    proof (cases outcome)
      case (Inl err)
      then show ?thesis using d False audit_raises
        by (auto simp: outcome_def split: option.splits if_splits)
    next
      case (Inr x)
      then obtain e src nt where o: "outcome = Inr (e, src, nt)" by (cases x) auto
      obtain dc where dc: "res = Inr dc" and fields: "dc_effect dc = e" "dc_source dc = src"
          "dc_allowed dc = sorted_set (ls @ (if e = Allow then os else []))"
        using d False o by auto
      have audited: "(e, src, nt) = (strict, Policy, NoAudit) \<or>
          strict = RequireApproval \<and> (\<exists>f. auditor = Some f \<and> audit f request = Inr (e, src, nt))"
        using o by (auto simp: outcome_def split: option.splits if_splits)
      have "set (dc_allowed dc) = (if dc_effect dc = Allow then set capabilities else leased leases capabilities)"
        using fields ls os sub by (auto simp: sorted_set_def)
      moreover have "dc_effect dc = Deny" if "c \<in> set os" "\<exists>p \<in> set (top_policies (policies c)). cp_effect p = Deny" for c
      proof -
        have "capability_effect (policies c) = Deny" using that(2) by (simp add: capability_effect_cases)
        then have "strict = Deny" using that(1) by (auto simp: strict_def strictest_cases image_mem)
        then show ?thesis using audited fields(1) by auto
      qed
      moreover have "src = AiAuditor \<and> (\<exists>f. auditor = Some f \<and> answered_allow f request) \<or>
          policies c \<noteq> [] \<and> (\<forall>p \<in> set (top_policies (policies c)). cp_effect p = Allow)"
        if "c \<in> set os" "e = Allow" for c
      proof (cases "strict = Allow")
        case True
        then have "capability_effect (policies c) = Allow" using that(1) by (auto simp: strict_def strictest_cases)
        then show ?thesis by (simp add: capability_effect_cases)
      next
        case False
        then show ?thesis using audited audit_allow that(2) by auto
      qed
      ultimately show ?thesis unfolding os [symmetric] dc using fields by auto
    qed
  qed
qed

definition sample_leases :: "grant_lease list" where
  "sample_leases = [\<lparr>lease_id = [1], lease_capabilities = [[65]]\<rparr>]"

definition sample_policies :: "pystr \<Rightarrow> cap_policy list" where
  "sample_policies c = (if c = [66] then [\<lparr>cp_id = [9], cp_priority = 5, cp_effect = Allow\<rparr>,
     \<lparr>cp_id = [8], cp_priority = 5, cp_effect = Deny\<rparr>, \<lparr>cp_id = [7], cp_priority = 1, cp_effect = Allow\<rparr>] else [])"

abbreviation sample_evaluate :: "(audit_request \<Rightarrow> json res) \<Rightarrow> decision res" where
  "sample_evaluate f \<equiv> evaluate (\<lambda>t. t) sample_leases sample_policies (Some f) [] [] [] [[65], [67]] [] (JObj [])"

text \<open>The auditor is asked about the second capability, and raises.\<close>

theorem evaluate_fails_closed_witness:
  "\<exists>d. sample_evaluate (\<lambda>_. Inl ValueError) = Inr d \<and> dc_effect d \<noteq> Allow \<and> set (dc_allowed d) = {[65]}"
proof -
  have leased: "leased sample_leases [[65], [67]] = {[65]}"
    by (auto simp: leased_def sample_leases_def)
  obtain res where r: "sample_evaluate (\<lambda>_. Inl ValueError) = res" by simp
  note closed = evaluate_fails_closed [OF r refl]
  obtain d where d: "res = Inr d" using closed by (cases res) auto
  have "[67] \<in> set [[65], [67]] - leased sample_leases [[65], [67]]" unfolding leased by simp
  moreover have "sample_policies [67] = []" by (simp add: sample_policies_def)
  ultimately have "dc_effect d \<noteq> Allow"
    using closed by (auto simp: d answered_allow_def)
  then show ?thesis using closed r d leased by auto
qed

end
