(* ===== verification/CheckpointProperties.thy ===== *)
theory CheckpointProperties
  imports CheckpointReplay AgentProperties
begin

section \<open>Properties of context checkpoints\<close>

text \<open>
  Properties of \<open>CheckpointReplay\<close>: the partition of a transcript loses nothing and keeps rounds of
  calls whole; a replayed checkpoint carries every user record it covers, so the coverage check
  never fails and no user message is lost; the bounds of the next summary request.
\<close>

subsection \<open>Partition\<close>

definition with_role :: "string \<Rightarrow> json \<Rightarrow> bool" where
  "with_role w m \<longleftrightarrow> role_is w m = Inr True"

abbreviation group_messages :: "group list \<Rightarrow> json list" where
  "group_messages gs \<equiv> concat (map gr_messages gs)"

lemma append_message_snoc: "append_message m (gs @ [g]) = gs @ [g\<lparr>gr_messages := gr_messages g @ [m]\<rparr>]"
  by (simp add: append_message_def)

lemma append_message_simps:
  assumes "gs \<noteq> []"
  shows "group_messages (append_message m gs) = group_messages gs @ [m]"
    "list_all (\<lambda>g. gr_run g = b) gs \<Longrightarrow> list_all (\<lambda>g. gr_run g = b) (append_message m gs)"
    "append_message m (hs @ gs) = hs @ append_message m gs"
proof -
  obtain fs g where "gs = fs @ [g]" using assms by (metis rev_exhaust)
  then show "group_messages (append_message m gs) = group_messages gs @ [m]"
    "list_all (\<lambda>g. gr_run g = b) gs \<Longrightarrow> list_all (\<lambda>g. gr_run g = b) (append_message m gs)"
    "append_message m (hs @ gs) = hs @ append_message m gs"
    using append_message_snoc [of m "hs @ fs" g] by (simp_all add: append_message_snoc)
qed

lemma history_groups_Inr:
  assumes "history_groups ms gs = Inr hs" and "list_all (\<lambda>g. gr_run g = False) gs"
  shows "group_messages hs = group_messages gs @ filter (\<lambda>m. \<not> with_role ''system'' m) ms \<and>
    list_all (\<lambda>g. gr_run g = False) hs"
  using assms
proof (induction ms arbitrary: gs)
  case (Cons m ms)
  obtain system where system: "role_is ''system'' m = Inr system"
    using Cons.prems(1) by (cases "role_is ''system'' m") auto
  show ?case
  proof (cases system)
    case True
    then show ?thesis using Cons system by (simp add: with_role_def)
  next
    case False
    then obtain user where user: "role_is ''user'' m = Inr user"
      using Cons.prems(1) system by (cases "role_is ''user'' m") auto
    obtain gs1 where gs1: "gs1 = (if gs = [] \<or> user then gs @ [\<lparr>gr_run = False, gr_messages = []\<rparr>] else gs)"
      by simp
    then have ne: "gs1 \<noteq> []" and hist: "list_all (\<lambda>g. gr_run g = False) gs1"
      and same: "group_messages gs1 = group_messages gs"
      using Cons.prems(2) by auto
    have rest: "history_groups ms (append_message m gs1) = Inr hs"
      using Cons.prems(1) system user False by (simp add: gs1)
    show ?thesis
      using Cons.IH [OF rest append_message_simps(2) [OF ne hist]] append_message_simps(1) [OF ne] same system False
      by (simp add: with_role_def)
  qed
qed simp

lemma run_groups_Inr:
  assumes "run_groups ms (hs @ rs) = Inr (Some gs)" and "list_all (\<lambda>g. gr_run g = True) rs" and "list_all (\<lambda>g. gr_run g = False) hs"
  shows "\<exists>rs'. gs = hs @ rs' \<and> list_all (\<lambda>g. gr_run g = True) rs' \<and> group_messages rs' = group_messages rs @ ms"
  using assms(1,2)
proof (induction ms arbitrary: rs)
  case (Cons m ms)
  obtain assistant where a: "role_is ''assistant'' m = Inr assistant"
    using Cons.prems(1) by (cases "role_is ''assistant'' m") auto
  show ?case
  proof (cases assistant)
    case True
    then show ?thesis using Cons.IH [of "rs @ [\<lparr>gr_run = True, gr_messages = [m]\<rparr>]"] Cons.prems a by simp
  next
    case False
    obtain tool where t: "role_is ''tool'' m = Inr tool"
      using Cons.prems(1) a False by (cases "role_is ''tool'' m") auto
    have l: "hs @ rs \<noteq> [] \<and> gr_run (last (hs @ rs))"
      and rest: "run_groups ms (append_message m (hs @ rs)) = Inr (Some gs)"
      using Cons.prems(1) a t False by (auto split: if_splits)
    have rs: "rs \<noteq> []" using l assms(3) by (cases rs) (auto simp: list_all_iff)
    then have "list_all (\<lambda>g. gr_run g = True) (append_message m rs)"
      using Cons.prems(2) append_message_simps(2) by blast
    with Cons.IH [of "append_message m rs"] rest rs show ?thesis by (simp add: append_message_simps)
  qed
qed auto

text \<open>The last user message and what follows it.\<close>

lemma last_user_spec:
  "last_user flags = 0 \<and> \<not> list_ex (\<lambda>b. b) flags \<or>
   last_user flags < length flags \<and> flags ! last_user flags \<and> \<not> list_ex (\<lambda>b. b) (drop (last_user flags + 1) flags)"
proof -
  let ?is = "filter (\<lambda>i. flags ! i) [0..<length flags]"
  show ?thesis
  proof (cases "?is" rule: rev_cases)
    case Nil
    then have "\<forall>i < length flags. \<not> flags ! i" by (auto simp: filter_empty_conv)
    then show ?thesis using Nil by (auto simp: last_user_def list_ex_length)
  next
    case (snoc js i)
    have "i \<in> set ?is" unfolding snoc by simp
    then have i: "i < length flags" "flags ! i" by simp_all
    have "\<not> flags ! k" if k: "i < k" "k < length flags" for k
    proof
      assume "flags ! k"
      then have "k \<in> set (js @ [i])" using k unfolding snoc [symmetric] by simp
      moreover have "sorted (js @ [i])" unfolding snoc [symmetric] by (simp add: sorted_wrt_filter)
      ultimately show False using k(1) by (auto simp: sorted_append)
    qed
    then have "\<not> list_ex (\<lambda>b. b) (drop (i + 1) flags)" by (auto simp: list_ex_length)
    then show ?thesis using i snoc by (simp add: last_user_def)
  qed
qed

lemma flagged_filter:
  "map_res (role_is w) ms = Inr flags \<Longrightarrow> map fst (filter snd (zip ms flags)) = filter (with_role w) ms"
  "map_res (role_is w) ms = Inr flags \<Longrightarrow>
    map fst (filter (\<lambda>(m, s). \<not> s) (zip ms flags)) = filter (\<lambda>m. \<not> with_role w m) ms"
  by (induction ms arbitrary: flags) (auto simp: bind_res_Inr_iff with_role_def)

lemma flags_with_role: "map_res (role_is w) ms = Inr flags \<Longrightarrow> flags = map (with_role w) ms"
  by (induction ms arbitrary: flags) (auto simp: bind_res_Inr_iff with_role_def)

lemma any_res_False: "any_res f xs = Inr False \<longleftrightarrow> list_all (\<lambda>x. f x = Inr False) xs"
proof (induction xs)
  case (Cons x xs)
  then show ?case by (cases "f x") auto
qed simp

lemma roles_exclude: "with_role ''user'' m \<Longrightarrow> \<not> with_role ''system'' m"
  by (auto simp: with_role_def role_is_def bind_res_Inr_iff u_def)

text \<open>A round of calls: what \<open>complete_round\<close> accepts.\<close>

definition answered :: "json list \<Rightarrow> bool" where
  "answered ms \<longleftrightarrow> (\<exists>first results calls ids. ms = first # results \<and>
     json_get ''tool_calls'' first = Inr (JArr calls) \<and> map_res (json_get ''id'') calls = Inr ids \<and>
     ids \<noteq> [] \<and> distinct ids \<and> map_res (json_get ''tool_call_id'') results = Inr ids)"

lemma complete_round_answered: "complete_round g = Inr True \<Longrightarrow> answered (gr_messages g)"
proof -
  assume a: "complete_round g = Inr True"
  then obtain first results calls ids where g: "gr_messages g = first # results"
    "json_get ''tool_calls'' first = Inr calls" "call_ids calls = Inr (Some ids)" "ids \<noteq> []" "distinct ids"
    "map_res (json_get ''tool_call_id'') results = Inr ids"
    by (auto simp: complete_round_def bind_res_Inr_iff split: list.splits option.splits if_splits)
  moreover obtain cs where "calls = JArr cs" "map_res (json_get ''id'') cs = Inr ids"
    using g(3,4) by (cases calls) (auto simp: bind_res_Inr_iff split: if_splits)
  ultimately show ?thesis unfolding answered_def by blast
qed

lemma partition_Inr:
  assumes "partition_messages messages n = Inr (Some p)"
  shows "\<exists>history current. current = last_user (map (with_role ''user'') (take n messages)) \<and>
    pt_systems p = filter (with_role ''system'') (take n messages) \<and>
    pt_pinned p = filter (\<lambda>m. \<not> with_role ''system'' m) (drop current (take n messages)) \<and>
    group_messages history = filter (\<lambda>m. \<not> with_role ''system'' m) (take current (take n messages)) \<and>
    list_all (\<lambda>g. gr_run g = False) history \<and>
    run_groups (drop n messages) history = Inr (Some (pt_groups p)) \<and>
    (\<forall>g \<in> set (pt_groups p). gr_run g \<longrightarrow> complete_round g = Inr True)"
proof -
  let ?base = "take n messages"
  let ?broken = "any_res (\<lambda>g. if gr_run g then bind_res (complete_round g) (\<lambda>b. Inr (\<not> b)) else Inr False)"
  obtain users sys history where users: "map_res (role_is ''user'') ?base = Inr users"
    and sys: "map_res (role_is ''system'') ?base = Inr sys"
    and history: "history_groups (take (last_user users) ?base) [] = Inr history"
    and run: "run_groups (drop n messages) history = Inr (Some (pt_groups p))"
    and broken: "?broken (pt_groups p) = Inr False"
    and systems: "pt_systems p = map fst (filter snd (zip ?base sys))"
    and pinned: "pt_pinned p = map fst (filter (\<lambda>(m, s). \<not> s) (drop (last_user users) (zip ?base sys)))"
    using assms unfolding partition_messages_def Let_def bind_res_Inr_iff
    by (auto simp: bind_res_Inr_iff split: if_splits option.splits)
  let ?current = "last_user users"
  have u: "users = map (with_role ''user'') ?base" using users by (rule flags_with_role)
  have "map_res (role_is ''system'') (drop ?current ?base) = Inr (drop ?current sys)"
    using list_all2_dropI [of _ ?base sys ?current] sys by (simp add: map_res_Inr_iff)
  then have "pt_pinned p = filter (\<lambda>m. \<not> with_role ''system'' m) (drop ?current ?base)"
    using pinned by (simp add: drop_zip flagged_filter)
  moreover have "pt_systems p = filter (with_role ''system'') ?base" using systems sys by (simp add: flagged_filter)
  moreover have "\<forall>g \<in> set (pt_groups p). gr_run g \<longrightarrow> complete_round g = Inr True"
    using broken by (auto simp: any_res_False list_all_iff bind_res_Inr_iff split: if_splits)
  ultimately show ?thesis using history_groups_Inr [OF history] run u by auto
qed

lemma partition_keeps_messages':
  assumes "partition_messages messages n = Inr (Some p)"
  shows "\<exists>history run. pt_groups p = history @ run \<and>
    pt_systems p = filter (with_role ''system'') (take n messages) \<and>
    group_messages history @ pt_pinned p = filter (\<lambda>m. \<not> with_role ''system'' m) (take n messages) \<and>
    group_messages run = drop n messages \<and>
    list_all (\<lambda>g. \<not> gr_run g) history \<and> list_all (\<lambda>g. gr_run g \<and> answered (gr_messages g)) run \<and>
    (list_ex (with_role ''user'') (take n messages) \<longrightarrow>
      (\<exists>m ms. pt_pinned p = m # ms \<and> with_role ''user'' m \<and> \<not> list_ex (with_role ''user'') ms))"
proof -
  let ?base = "take n messages"
  let ?other = "\<lambda>m. \<not> with_role ''system'' m"
  obtain history current where c: "current = last_user (map (with_role ''user'') ?base)"
    and systems: "pt_systems p = filter (with_role ''system'') ?base"
    and pinned: "pt_pinned p = filter ?other (drop current ?base)"
    and before: "group_messages history = filter ?other (take current ?base)"
    and hist: "list_all (\<lambda>g. gr_run g = False) history"
    and run: "run_groups (drop n messages) (history @ []) = Inr (Some (pt_groups p))"
    and complete: "\<forall>g \<in> set (pt_groups p). gr_run g \<longrightarrow> complete_round g = Inr True"
    using partition_Inr [OF assms] by auto
  obtain run where r: "pt_groups p = history @ run" "list_all (\<lambda>g. gr_run g = True) run"
    "group_messages run = drop n messages"
    using run_groups_Inr [OF run _ hist] by auto
  have "filter ?other ?base = filter ?other (take current ?base) @ filter ?other (drop current ?base)"
    by (metis append_take_drop_id filter_append)
  then have all: "group_messages history @ pt_pinned p = filter ?other ?base" using pinned before by simp
  have rounds: "list_all (\<lambda>g. gr_run g \<and> answered (gr_messages g)) run"
    using r complete complete_round_answered by (auto simp: list_all_iff)
  have input: "\<exists>m ms. pt_pinned p = m # ms \<and> with_role ''user'' m \<and> \<not> list_ex (with_role ''user'') ms"
    if "list_ex (with_role ''user'') ?base"
  proof -
    have "current < length ?base \<and> with_role ''user'' (?base ! current) \<and>
        \<not> list_ex (with_role ''user'') (drop (current + 1) ?base)"
      using last_user_spec [of "map (with_role ''user'') ?base"] that c
      by (auto simp: list_ex_iff drop_map)
    then show ?thesis
      using pinned roles_exclude by (auto simp: Cons_nth_drop_Suc [symmetric] list_ex_iff)
  qed
  show ?thesis using r all systems rounds input hist by (auto simp: list_all_iff)
qed

text \<open>
  C34. Partitioning a transcript loses nothing: the system messages of the base, its history in
  groups, the pinned messages and the groups of the run hold every message once, each in its
  order. The pinned messages start with the last user message. Every group of the run is an
  assistant message with its calls and exactly their results, in order.
\<close>

theorem partition_keeps_messages:
  assumes "partition_messages messages n = Inr (Some p)"
  shows "\<exists>history run. pt_groups p = history @ run \<and>
    pt_systems p = filter (with_role ''system'') (take n messages) \<and>
    group_messages history @ pt_pinned p = filter (\<lambda>m. \<not> with_role ''system'' m) (take n messages) \<and>
    group_messages run = drop n messages \<and>
    list_all (\<lambda>g. \<not> gr_run g) history \<and> list_all (\<lambda>g. gr_run g \<and> answered (gr_messages g)) run \<and>
    (list_ex (with_role ''user'') (take n messages) \<longrightarrow>
      (\<exists>m ms. pt_pinned p = m # ms \<and> with_role ''user'' m \<and> \<not> list_ex (with_role ''user'') ms))"
  using assms by (rule partition_keeps_messages')

subsection \<open>Replay\<close>

lemma obj_keys: "obj kvs = JObj kvs' \<Longrightarrow> distinct (map fst kvs')"
proof -
  have "distinct (map fst d) \<Longrightarrow> distinct (map fst (fold (\<lambda>(k, v). dict_set k v) kvs d))" for d
    by (induction kvs arbitrary: d) auto
  from this [of "[]"] show "obj kvs = JObj kvs' \<Longrightarrow> distinct (map fst kvs')" by (auto simp: obj_def)
qed

lemma parse_scalar_no_object: "parse_scalar s \<noteq> Some (JObj kvs, r)"
  by (auto simp: parse_scalar_def first_some_def literal_def parse_number_def Let_def split: option.splits if_splits)

lemma loads_keys:
  assumes "loads t = Inr (JObj kvs)"
  shows "distinct (map fst kvs)"
proof -
  have parsed: "parse_value n s = Some (JObj kvs, r) \<Longrightarrow> distinct (map fst kvs)" for n s r
    using parse_scalar_no_object
    by (cases n) (auto simp: obj_keys split: list.splits if_splits)
  obtain v r where r: "parse_value (2 * length t + 1) (skip_ws t) = Some (v, r)"
    using assms unfolding loads_def by (cases "parse_value (2 * length t + 1) (skip_ws t)") auto
  then have "v = JObj kvs" using assms unfolding loads_def r by (simp split: if_splits)
  then show ?thesis using parsed r by blast
qed

lemma good_items_ok: "good_items v \<Longrightarrow> json_ok v"
proof (induction v rule: good_items.induct)
  case (1 items)
  have "json_ok i" if "(case i of JStr t \<Rightarrow> strip_white t \<noteq> [] \<and> length t \<le> 1000 | _ \<Rightarrow> False)" for i
    using that by (cases i) simp_all
  with 1 show ?case by (auto simp: list_all_iff)
qed simp_all

lemma read_summary_Inr:
  assumes "read_summary output = Inr v"
  shows "\<exists>t kvs. loads t = Inr (JObj kvs) \<and> v = JObj kvs \<and> list_all (\<lambda>(k, v). good_items v) kvs"
proof -
  obtain content where c: "(case content of
       JStr t \<Rightarrow>
         bind_res (encoded_length t) (\<lambda>size.
         if size > 8192 then Inl ValueError
         else bind_res (loads t) (\<lambda>v.
           (case v of
              JObj kvs \<Rightarrow>
                if set (map fst kvs) = set summary_fields \<and> list_all (\<lambda>(k, v). good_items v) kvs \<and>
                   list_ex (\<lambda>(k, v). truthy v) kvs
                then Inr v else Inl ValueError
            | _ \<Rightarrow> Inl ValueError)))
     | _ \<Rightarrow> Inl ValueError) = Inr v"
    using assms unfolding read_summary_def bind_res_Inr_iff by (auto split: if_splits)
  then obtain t where t: "content = JStr t" by (cases content) auto
  obtain w where w: "loads t = Inr w" using c t by (auto simp: bind_res_Inr_iff split: if_splits)
  then obtain kvs where "w = JObj kvs" using c t by (cases w) (auto simp: bind_res_Inr_iff split: if_splits)
  then show ?thesis using c t w by (auto simp: bind_res_Inr_iff split: if_splits)
qed

lemma step_summary_ok:
  assumes "step_summary output = Some v"
  shows "json_ok v"
proof -
  obtain t kvs where "loads t = Inr (JObj kvs)" "v = JObj kvs" "list_all (\<lambda>(k, v). good_items v) kvs"
    using assms read_summary_Inr by (auto simp: step_summary_def split: sum.splits)
  then show ?thesis using loads_keys good_items_ok by (auto simp: list_all_iff)
qed

lemma in_set_enumerate_snd: "(i, x) \<in> set (enumerate k xs) \<Longrightarrow> x \<in> set xs"
  by (auto simp: in_set_enumerate_eq)

lemma list_all2_result: "list_all2 P xs ys \<Longrightarrow> y \<in> set ys \<Longrightarrow> \<exists>x \<in> set xs. P x y"
  by (induction rule: list_all2_induct) auto

lemma requirement_ok: "requirement sha i j m = Inr r \<Longrightarrow> json_ok m \<Longrightarrow> json_ok r"
  by (auto simp: requirement_def bind_res_Inr_iff u_def)

lemma requirements_ok:
  assumes "protected_requirements sha gs = Inr rs" and "list_all json_ok (group_messages gs)"
  shows "list_all json_ok rs"
proof -
  obtain rss where rss: "list_all2 (\<lambda>x y. group_records sha x = Inr y) (enumerate 0 gs) rss" "rs = concat rss"
    using assms(1) by (auto simp: protected_requirements_def bind_res_Inr_iff map_res_Inr_iff)
  have "list_all json_ok r" if r: "r \<in> set rss" for r
  proof -
    obtain i g where g: "(i, g) \<in> set (enumerate 0 gs)" "group_records sha (i, g) = Inr r"
      using list_all2_result [OF rss(1) r] by auto
    obtain rs' where rs': "list_all2 (\<lambda>x y. user_record sha i x = Inr y) (enumerate 0 (gr_messages g)) rs'" "r = concat rs'"
      using g(2) by (auto simp: group_records_def bind_res_Inr_iff map_res_Inr_iff)
    have "list_all json_ok x" if x: "x \<in> set rs'" for x
    proof -
      obtain j m where m: "(j, m) \<in> set (enumerate 0 (gr_messages g))" "user_record sha i (j, m) = Inr x"
        using list_all2_result [OF rs'(1) x] by auto
      have "json_ok m" using assms(2) g(1) m(1) by (auto simp: list_all_iff dest: in_set_enumerate_snd)
      then show ?thesis using m(2) by (auto simp: user_record_def bind_res_Inr_iff requirement_ok split: if_splits)
    qed
    then show ?thesis using rs'(2) by (auto simp: list_all_iff)
  qed
  then show ?thesis using rss(2) by (auto simp: list_all_iff)
qed

lemma json_item_sorted:
  "distinct (map fst kvs) \<Longrightarrow> json_item k (sorted_json (JObj kvs)) =
    (case map_of kvs (u k) of None \<Rightarrow> Inl KeyError | Some v \<Rightarrow> Inr (sorted_json v))"
  by (simp add: map_of_sorted split: option.split)

lemma memory_content_ok:
  "json_ok summary \<Longrightarrow> list_all json_ok reqs \<Longrightarrow> json_ok (memory_content step_id summary reader reqs)"
  by (simp add: memory_content_def u_def)

lemma memory_part_simps:
  assumes "json_ok summary" and "list_all json_ok reqs"
  shows "memory_part ''verbatim_user_records'' (memory_message step_id summary reader reqs) =
      Inr (sorted_json (JArr reqs))"
    "memory_part ''summary'' (memory_message step_id summary reader reqs) = Inr (sorted_json summary)"
proof -
  let ?m = "memory_message step_id summary reader reqs"
  have c: "json_item ''content'' ?m = Inr (JStr (canonical (memory_content step_id summary reader reqs)))"
    by (simp add: memory_message_def u_def)
  have l: "loads (canonical (memory_content step_id summary reader reqs)) =
      Inr (sorted_json (memory_content step_id summary reader reqs))"
    by (rule loads_canonical [OF memory_content_ok [OF assms]])
  have part: "memory_part k ?m = json_item k (sorted_json (memory_content step_id summary reader reqs))" for k
    by (simp add: memory_part_def c l)
  have d: "distinct (map u [''type'', ''notice'', ''summary'', ''verbatim_user_records'', ''source''])"
    by (simp add: u_def)
  show "memory_part ''verbatim_user_records'' ?m = Inr (sorted_json (JArr reqs))"
    "memory_part ''summary'' ?m = Inr (sorted_json summary)"
    unfolding part using d by (simp_all add: memory_content_def json_item_sorted del: sorted_json.simps)
qed

text \<open>What a replay keeps: the memory is that of the last accepted checkpoint.\<close>

definition replay_sound :: "(pystr \<Rightarrow> pystr) \<Rightarrow> pystr \<Rightarrow> group list \<Rightarrow> durable_step list \<Rightarrow> replayed \<Rightarrow> bool" where
  "replay_sound sha reader groups steps r \<longleftrightarrow> rp_covered r \<le> length groups \<and>
     (case (rp_memory r, rp_previous r) of
        (None, None) \<Rightarrow> rp_covered r = 0
      | (Some m, Some s) \<Rightarrow> s \<in> set steps \<and> st_status s = Completed \<and> 0 < rp_covered r \<and>
          (\<exists>summary reqs. step_summary (st_output s) = Some summary \<and>
             protected_requirements sha (take (rp_covered r) groups) = Inr reqs \<and>
             m = memory_message (st_id s) summary reader reqs)
      | _ \<Rightarrow> False)"

lemma read_checkpoint_Some:
  assumes "read_checkpoint sha reader run_id anchor groups covered s = Inr (Some (count, m))"
  shows "covered < count \<and> count \<le> length groups \<and>
    (\<exists>summary reqs. step_summary (st_output s) = Some summary \<and>
       protected_requirements sha (take count groups) = Inr reqs \<and>
       m = memory_message (st_id s) summary reader reqs)"
proof -
  obtain v where v: "(case v of
         JInt c \<Rightarrow> if int covered < c \<and> c \<le> int (length groups)
                  then checkpoint_memory sha reader run_id groups s c (step_meta s) else Inr None
       | _ \<Rightarrow> Inr None) = Inr (Some (count, m))"
    using assms unfolding read_checkpoint_def Let_def bind_res_Inr_iff by (auto simp: bind_res_Inr_iff split: if_splits)
  obtain c where c: "int covered < c" "c \<le> int (length groups)"
    "checkpoint_memory sha reader run_id groups s c (step_meta s) = Inr (Some (count, m))"
    using v by (cases v) (auto split: if_splits)
  have "count = nat c \<and> (\<exists>summary reqs. step_summary (st_output s) = Some summary \<and>
      protected_requirements sha (take (nat c) groups) = Inr reqs \<and> m = memory_message (st_id s) summary reader reqs)"
    using c(3) unfolding checkpoint_memory_def Let_def bind_res_Inr_iff
    by (auto simp: bind_res_Inr_iff split: if_splits option.splits)
  then show ?thesis using c by auto
qed

lemma replay_sound_rejected [simp]:
  "replay_sound sha reader groups steps (r\<lparr>rp_rejected := ids\<rparr>) = replay_sound sha reader groups steps r"
  by (cases r) (simp add: replay_sound_def split: option.split)

lemma replay_soundD:
  assumes "replay_sound sha reader groups steps r" and "rp_covered r \<noteq> 0"
  shows "\<exists>(s :: durable_step) summary reqs. rp_memory r = Some (memory_message (st_id s) summary reader reqs) \<and>
    step_summary (st_output s) = Some summary \<and> protected_requirements sha (take (rp_covered r) groups) = Inr reqs"
proof -
  obtain m where m: "rp_memory r = Some m"
    using assms by (cases "rp_memory r") (auto simp: replay_sound_def split: option.splits)
  obtain s where s: "rp_previous r = Some s"
    using assms m by (cases "rp_previous r") (auto simp: replay_sound_def)
  obtain summary reqs where "m = memory_message (st_id s) summary reader reqs"
    "step_summary (st_output s) = Some summary" "protected_requirements sha (take (rp_covered r) groups) = Inr reqs"
    using assms m s by (auto simp: replay_sound_def)
  then show ?thesis using m by (intro exI [of _ s] exI [of _ summary] exI [of _ reqs]) simp
qed

lemma replay_keeps:
  assumes "replay sha reader run_id anchor groups ss r = Inr r'" and "replay_sound sha reader groups steps r"
    and "set ss \<subseteq> set steps"
  shows "replay_sound sha reader groups steps r' \<and> rp_covered r \<le> rp_covered r'"
  using assms
proof (induction ss arbitrary: r)
  case (Cons s ss)
  show ?case
  proof (cases "st_status s = Completed")
    case True
    obtain x where x: "read_checkpoint sha reader run_id anchor groups (rp_covered r) s = Inr x"
      using Cons.prems(1) True by (auto simp: bind_res_Inr_iff)
    show ?thesis
    proof (cases x)
      case None
      then show ?thesis
        using Cons.IH [of "r\<lparr>rp_rejected := rp_rejected r @ [st_id s]\<rparr>"] Cons.prems True x
        by simp
    next
      case (Some cm)
      obtain count m where cm: "cm = (count, m)" by (cases cm)
      note read = read_checkpoint_Some [OF x [unfolded Some cm]]
      have "replay_sound sha reader groups steps (r\<lparr>rp_covered := count, rp_memory := Some m, rp_previous := Some s\<rparr>)"
        using read True Cons.prems(3) by (simp add: replay_sound_def)
      then show ?thesis
        using Cons.IH [of "r\<lparr>rp_covered := count, rp_memory := Some m, rp_previous := Some s\<rparr>"] Cons.prems True x Some cm read
        by simp
    qed
  qed (use Cons in simp)
qed simp

lemma replay_checkpoints_sound:
  assumes "replay_checkpoints sha reader run_id anchor groups steps = Inr r"
  shows "replay_sound sha reader groups (filter is_checkpoint steps) r"
proof -
  have "replay_sound sha reader groups (filter is_checkpoint steps) no_checkpoint"
    by (simp add: replay_sound_def no_checkpoint_def)
  then show ?thesis using replay_keeps assms by (auto simp: replay_checkpoints_def)
qed

text \<open>Sorting the keys again changes nothing.\<close>

lemma sorted_json_idem: "sorted_json (sorted_json v) = sorted_json v"
proof (induction v rule: sorted_json.induct)
  case (2 kvs)
  let ?f = "\<lambda>(k, v). (k, sorted_json v)" and ?kvs = "sort_key fst (map (\<lambda>(k, v). (k, sorted_json v)) kvs)"
  have "map ?f ?kvs = ?kvs" using 2 by (intro map_idI) auto
  moreover have "sort_key fst ?kvs = ?kvs" by (rule sort_key_id_if_sorted) simp
  ultimately show ?case by simp
qed auto

lemma has_nan_sorted: "has_nan (sorted_json v) = has_nan v"
proof (induction v rule: sorted_json.induct)
  case (1 vs)
  then show ?case by (simp add: list_ex_iff)
next
  case (2 kvs)
  have "list_ex (\<lambda>(k, v). has_nan v) (map (\<lambda>(k, v). (k, sorted_json v)) kvs) = list_ex (\<lambda>(k, v). has_nan v) kvs"
    using 2 by (force simp: list_ex_iff)
  then show ?case by (simp add: list_ex_iff)
qed simp_all


subsection \<open>What a prepared request shows\<close>

lemma list_all2_source: "list_all2 P xs ys \<Longrightarrow> x \<in> set xs \<Longrightarrow> \<exists>y \<in> set ys. P x y"
  by (induction rule: list_all2_induct) auto

lemma in_enumerate: "x \<in> set xs \<Longrightarrow> \<exists>i. (i, x) \<in> set (enumerate k xs)"
  by (induction xs arbitrary: k) fastforce+

lemma protected_has:
  assumes "protected_requirements sha gs = Inr rs" and "m \<in> set (group_messages gs)" and "with_role ''user'' m"
  shows "\<exists>r \<in> set rs. \<exists>i j d. r = JObj [(u ''source_group'', JInt i), (u ''source_message'', JInt j),
    (u ''sha256'', JStr d), (u ''message'', m)]"
proof -
  obtain rss where rss: "list_all2 (\<lambda>x y. group_records sha x = Inr y) (enumerate 0 gs) rss" "rs = concat rss"
    using assms(1) by (auto simp: protected_requirements_def bind_res_Inr_iff map_res_Inr_iff)
  obtain i g where g: "(i, g) \<in> set (enumerate 0 gs)" "m \<in> set (gr_messages g)"
    using assms(2) in_enumerate by fastforce
  obtain rs1 where rs1: "rs1 \<in> set rss" "group_records sha (i, g) = Inr rs1"
    using list_all2_source [OF rss(1) g(1)] by blast
  obtain rs2 where rs2: "list_all2 (\<lambda>x y. user_record sha i x = Inr y) (enumerate 0 (gr_messages g)) rs2" "rs1 = concat rs2"
    using rs1(2) by (auto simp: group_records_def bind_res_Inr_iff map_res_Inr_iff)
  obtain j where "(j, m) \<in> set (enumerate 0 (gr_messages g))" using in_enumerate [OF g(2)] by blast
  from list_all2_source [OF rs2(1) this] obtain x where x: "x \<in> set rs2" "user_record sha i (j, m) = Inr x"
    by blast
  from x(2) assms(3) obtain d where d:
    "x = [JObj [(u ''source_group'', JInt (int i)), (u ''source_message'', JInt (int j)), (u ''sha256'', JStr d), (u ''message'', m)]]"
    by (auto simp: user_record_def with_role_def requirement_def bind_res_Inr_iff)
  have "hd x \<in> set rs1" using x(1) rs2(2) d by force
  then have "hd x \<in> set rs" using rs1(1) rss(2) by auto
  then show ?thesis using d by auto
qed

lemma prepare_checkpoint_Inr:
  assumes "prepare_checkpoint sha request n steps max_bytes reader run_id state force allow = Inr (projected, audit, call)"
    and "map_of request (u ''messages'') = Some (JArr messages)"
  shows "projected = request \<and> call = None \<or>
    (\<exists>p anchor r. partition_messages messages n = Inr (Some p) \<and>
       replay_checkpoints sha reader run_id anchor (pt_groups p) steps = Inr r \<and>
       projected = project request p r state \<and> replay_audit sha p r state = Inr audit \<and>
       (call = None \<or> rejected_last steps r = Inr False \<and>
          summary_wanted steps projected max_bytes force allow = Inr True \<and>
          next_summary sha request run_id max_bytes force anchor steps p r projected = Inr call))"
  using assms unfolding prepare_checkpoint_def Let_def
  by (auto simp: bind_res_Inr_iff message_list_def split: if_splits option.splits)

lemma in_group_messages_split:
  "x \<in> set (group_messages gs) \<longleftrightarrow> x \<in> set (group_messages (take k gs)) \<or>
     x \<in> set (group_messages (filter (\<lambda>g. \<not> gr_run g) (drop k gs))) \<or>
     x \<in> set (group_messages (filter gr_run (drop k gs)))"
proof -
  have "x \<in> set (group_messages gs) \<longleftrightarrow>
      x \<in> set (group_messages (take k gs)) \<or> x \<in> set (group_messages (drop k gs))"
    by (metis Un_iff append_take_drop_id concat_append map_append set_append)
  then show ?thesis by auto
qed

text \<open>A user record in a message of the request: the message as it was, up to the order of its keys.\<close>

definition recorded :: "json \<Rightarrow> json \<Rightarrow> bool" where
  "recorded m w \<longleftrightarrow> (\<exists>rs r. memory_part ''verbatim_user_records'' w = Inr (JArr rs) \<and> r \<in> set rs \<and>
     json_item ''message'' r = Inr (sorted_json m))"

lemma covered_user_recorded:
  assumes "replay_checkpoints sha reader run_id anchor groups steps = Inr r"
    and "list_all json_ok (group_messages groups)"
    and "m \<in> set (group_messages (take (rp_covered r) groups))" and "with_role ''user'' m"
  shows "\<exists>w. rp_memory r = Some w \<and> recorded m w"
proof -
  have sound: "replay_sound sha reader groups (filter is_checkpoint steps) r"
    by (rule replay_checkpoints_sound [OF assms(1)])
  have "rp_covered r \<noteq> 0" using assms(3) by (auto simp: in_set_conv_nth)
  then obtain s :: durable_step and summary reqs where w: "rp_memory r = Some (memory_message (st_id s) summary reader reqs)"
      "step_summary (st_output s) = Some summary" "protected_requirements sha (take (rp_covered r) groups) = Inr reqs"
    using replay_soundD [OF sound] by blast
  let ?w = "memory_message (st_id s) summary reader reqs"
  have ok: "list_all json_ok (group_messages (take (rp_covered r) groups))"
    using assms(2) by (auto simp: list_all_iff dest: in_set_takeD)
  obtain x i j d where x: "x \<in> set reqs" "x = JObj [(u ''source_group'', JInt i), (u ''source_message'', JInt j),
      (u ''sha256'', JStr d), (u ''message'', m)]"
    using protected_has [OF w(3) assms(3,4)] by blast
  have "json_item ''message'' (sorted_json x) = Inr (sorted_json m)"
    unfolding x(2) by (subst json_item_sorted) (simp_all add: u_def)
  moreover have "memory_part ''verbatim_user_records'' ?w = Inr (JArr (map sorted_json reqs))"
    using memory_part_simps(1) [OF step_summary_ok [OF w(2)] requirements_ok [OF w(3) ok]] by simp
  ultimately show ?thesis using w(1) x(1) unfolding recorded_def by auto
qed

text \<open>What the request shows once the transcript is partitioned.\<close>

lemma rendered_keeps:
  assumes part: "partition_messages messages n = Inr (Some p)"
    and replay: "replay_checkpoints sha reader run_id anchor (pt_groups p) steps = Inr r"
    and ok: "list_all json_ok messages"
  shows "(\<forall>m \<in> set messages. with_role ''user'' m \<longrightarrow>
      m \<in> set (render_messages p r) \<or> (\<exists>w \<in> set (render_messages p r). recorded m w)) \<and>
    (\<forall>m \<in> set (take n messages). with_role ''system'' m \<longrightarrow> m \<in> set (render_messages p r)) \<and>
    (\<forall>pre m ms. take n messages = pre @ m # ms \<and> with_role ''user'' m \<and> \<not> list_ex (with_role ''user'') ms \<longrightarrow>
      m \<in> set (render_messages p r))"
proof -
  obtain history run where groups: "pt_groups p = history @ run"
    and systems: "pt_systems p = filter (with_role ''system'') (take n messages)"
    and base: "group_messages history @ pt_pinned p = filter (\<lambda>m. \<not> with_role ''system'' m) (take n messages)"
    and rest: "group_messages run = drop n messages"
    and input: "list_ex (with_role ''user'') (take n messages) \<longrightarrow>
      (\<exists>m ms. pt_pinned p = m # ms \<and> with_role ''user'' m \<and> \<not> list_ex (with_role ''user'') ms)"
    using partition_keeps_messages' [OF part] by blast
  let ?shown = "set (render_messages p r)" and ?gs = "pt_groups p" and ?k = "rp_covered r"
  have base_set: "set (group_messages history) \<union> set (pt_pinned p) = {m \<in> set (take n messages). \<not> with_role ''system'' m}"
    using arg_cong [OF base, of set] by auto
  have all: "set messages = set (take n messages) \<union> set (drop n messages)" by (metis append_take_drop_id set_append)
  have ok_groups: "list_all json_ok (group_messages ?gs)"
    using ok base_set groups rest all by (auto simp: list_all_iff)
  have pinned: "x \<in> set (pt_pinned p) \<Longrightarrow> x \<in> ?shown" for x by (simp add: render_messages_def Let_def)
  have memory: "rp_memory r = Some w \<Longrightarrow> w \<in> ?shown" for w by (simp add: render_messages_def Let_def)
  have uncovered: "x \<in> set (group_messages ?gs) \<Longrightarrow> x \<in> set (group_messages (take ?k ?gs)) \<or> x \<in> ?shown" for x
    using in_group_messages_split [of x ?gs ?k] by (auto simp: render_messages_def Let_def)
  have user: "m \<in> ?shown \<or> (\<exists>w \<in> ?shown. recorded m w)" if "m \<in> set messages" and m: "with_role ''user'' m" for m
  proof -
    have "m \<in> set (pt_pinned p) \<or> m \<in> set (group_messages ?gs)"
      using that roles_exclude base_set all rest groups by auto
    then show ?thesis
      using pinned uncovered covered_user_recorded [OF replay ok_groups _ m] memory by blast
  qed
  have last: "m \<in> ?shown" if m: "take n messages = pre @ m # ms" "with_role ''user'' m" "\<not> list_ex (with_role ''user'') ms"
    for pre m ms
  proof -
    obtain m' ms' where p: "pt_pinned p = m' # ms'" "with_role ''user'' m'" "\<not> list_ex (with_role ''user'') ms'"
      using input m by auto
    have "filter (with_role ''user'') (filter (\<lambda>m. \<not> with_role ''system'' m) (take n messages)) = filter (with_role ''user'') (take n messages)"
      using roles_exclude by (auto intro: filter_cong)
    moreover have "filter (with_role ''user'') (take n messages) = filter (with_role ''user'') pre @ [m]"
      using m by (simp add: list_ex_iff filter_empty_conv)
    moreover have "filter (with_role ''user'') (group_messages history @ pt_pinned p) =
        filter (with_role ''user'') (group_messages history) @ [m']"
      using p by (simp add: list_ex_iff filter_empty_conv)
    ultimately have "filter (with_role ''user'') (group_messages history) @ [m'] = filter (with_role ''user'') pre @ [m]"
      by (simp only: base)
    then show ?thesis using p(1) pinned by simp
  qed
  have "\<forall>m \<in> set (take n messages). with_role ''system'' m \<longrightarrow> m \<in> ?shown"
    using systems by (simp add: render_messages_def Let_def)
  then show ?thesis using user last by blast
qed

text \<open>
  C33. Preparing a checkpoint never loses a user message: in the request it returns every user
  message of the transcript stands as it was or, if a summary covers it, is quoted in full in the
  memory beside the summary. All system messages of the base and its last user message stand as
  they were.
\<close>

theorem no_user_message_lost:
  assumes "prepare_checkpoint sha request n steps max_bytes reader run_id state force allow = Inr (projected, audit, call)"
    and "map_of request (u ''messages'') = Some (JArr messages)" and "list_all json_ok messages"
  shows "\<exists>shown. map_of projected (u ''messages'') = Some (JArr shown) \<and>
    (\<forall>m \<in> set messages. with_role ''user'' m \<longrightarrow> m \<in> set shown \<or> (\<exists>w \<in> set shown. recorded m w)) \<and>
    (\<forall>m \<in> set (take n messages). with_role ''system'' m \<longrightarrow> m \<in> set shown) \<and>
    (\<forall>pre m ms. take n messages = pre @ m # ms \<and> with_role ''user'' m \<and> \<not> list_ex (with_role ''user'') ms \<longrightarrow>
      m \<in> set shown)"
proof (cases "projected = request")
  case True
  have "m \<in> set messages" if "take n messages = pre @ m # ms" for pre m ms
    using that by (metis in_set_conv_decomp in_set_takeD)
  then show ?thesis using assms(2) True by (auto dest: in_set_takeD)
next
  case False
  obtain p anchor r where p: "partition_messages messages n = Inr (Some p)"
    and r: "replay_checkpoints sha reader run_id anchor (pt_groups p) steps = Inr r"
    and proj: "projected = project request p r state"
    using prepare_checkpoint_Inr [OF assms(1,2)] False by blast
  obtain extra where "map_of projected (u ''messages'') = Some (JArr (render_messages p r @ extra))"
    using proj by (simp add: project_def)
  then show ?thesis using rendered_keeps [OF p r assms(3)] by (intro exI [of _ "render_messages p r @ extra"]) auto
qed

subsection \<open>The next summary request\<close>

lemma select_batch_Some:
  assumes "select_batch sha request run_id max_bytes anchor steps p r counts sel = Inr (Some b)"
    and "sel = None \<or> sel = Some b0 \<and> Q b0"
    and "\<And>b. \<lbrakk>bt_count b \<in> set counts; \<not> list_ex (\<lambda>s. is_checkpoint s \<and> st_action_key s = bt_key b) steps;
      \<exists>t n. encode_json (JObj (bt_request b)) = Inr (t, n) \<and> 100 * n \<le> 85 * max_bytes;
      \<exists>t k. encode_json (groups_json (drop (rp_covered r) (take (bt_count b) (pt_groups p)))) = Inr (t, k) \<and> 2048 \<le> k;
      batch_meta sha anchor (pt_groups p) (bt_count b) = Inr (bt_meta b);
      \<exists>d. digest sha (JObj (bt_meta b)) = Inr d \<and> bt_key b = checkpoint_prefix @ d;
      \<exists>source. batch_source sha p r (bt_count b) = Inr source \<and>
        bt_request b = summary_request request run_id source (bt_key b) (bt_meta b)\<rbrakk> \<Longrightarrow> Q b"
  shows "Q b"
  using assms
proof (induction counts arbitrary: sel b0)
  case (Cons count counts)
  obtain source info d where src: "batch_source sha p r count = Inr source"
    and info: "batch_meta sha anchor (pt_groups p) count = Inr info"
    and d: "digest sha (JObj info) = Inr d"
    using Cons.prems(1) by (auto simp: bind_res_Inr_iff)
  let ?key = "checkpoint_prefix @ d"
  let ?req = "summary_request request run_id source ?key info"
  let ?b = "\<lparr>bt_count = count, bt_key = ?key, bt_request = ?req, bt_meta = info\<rparr>"
  show ?case
  proof (cases "list_ex (\<lambda>s. is_checkpoint s \<and> st_action_key s = ?key) steps")
    case True
    then have "select_batch sha request run_id max_bytes anchor steps p r counts sel = Inr (Some b)"
      using Cons.prems(1) src info d by (simp add: Let_def)
    then show ?thesis by (rule Cons.IH [OF _ Cons.prems(2)]) (rule Cons.prems(3), simp_all)
  next
    case False
    obtain t n where n: "encode_json (JObj ?req) = Inr (t, n)"
      using Cons.prems(1) src info d False by (auto simp: Let_def bind_res_Inr_iff)
    show ?thesis
    proof (cases "100 * n > 85 * max_bytes")
      case True
      then have "sel = Some b" using Cons.prems(1) src info d False n by (simp add: Let_def)
      then show ?thesis using Cons.prems(2) by auto
    next
      case fits: False
      obtain t' k where k: "encode_json (groups_json (drop (rp_covered r) (take count (pt_groups p)))) = Inr (t', k)"
        and rest: "select_batch sha request run_id max_bytes anchor steps p r counts
          (if k \<ge> 2048 then Some ?b else sel) = Inr (Some b)"
        using Cons.prems(1) src info d False n fits by (auto simp: Let_def bind_res_Inr_iff)
      show ?thesis
      proof (cases "k \<ge> 2048")
        case True
        have "Q ?b" by (rule Cons.prems(3)) (use True False n fits k src info d in auto)
        then show ?thesis
          using rest True by (intro Cons.IH [of "Some ?b" ?b]) (simp, simp, rule Cons.prems(3), simp_all)
      next
        case False
        then show ?thesis using rest by (intro Cons.IH [OF _ Cons.prems(2)]) (simp, rule Cons.prems(3), simp_all)
      qed
    qed
  qed
qed auto

text \<open>
  C37. A summary is requested only under pressure or by force, for fewer than eight earlier
  checkpoints, never twice for the same prefix of the transcript, and never right after a rejected
  one; it covers more groups than the checkpoint before and leaves out the two newest, its source
  has at least 2048 bytes and the request keeps within 85 percent of the budget.
\<close>

theorem summary_call_bounded:
  assumes "prepare_checkpoint sha request n steps max_bytes reader run_id state force allow = Inr (projected, audit, Some call)"
    and "map_of request (u ''messages'') = Some (JArr messages)"
  shows "allow \<and> length (filter is_checkpoint steps) < 8 \<and>
    (force \<or> (\<exists>t k. encode_json (JObj projected) = Inr (t, k) \<and> 3 * max_bytes < 4 * k)) \<and>
    (\<exists>t k. encode_json (JObj (mc_request call)) = Inr (t, k) \<and> 100 * k \<le> 85 * max_bytes) \<and>
    (\<forall>s \<in> set steps. is_checkpoint s \<longrightarrow> st_action_key s \<noteq> mc_call_id call) \<and>
    (\<exists>p anchor r count info d. partition_messages messages n = Inr (Some p) \<and>
       replay_checkpoints sha reader run_id anchor (pt_groups p) steps = Inr r \<and> rejected_last steps r = Inr False \<and>
       rp_covered r < count \<and> count + 2 \<le> length (pt_groups p) \<and>
       batch_meta sha anchor (pt_groups p) count = Inr info \<and> map_of (mc_request call) checkpoint_key = Some (JObj info) \<and>
       digest sha (JObj info) = Inr d \<and> mc_call_id call = checkpoint_prefix @ d \<and>
       (\<exists>t k. encode_json (groups_json (drop (rp_covered r) (take count (pt_groups p)))) = Inr (t, k) \<and> 2048 \<le> k))"
proof -
  obtain p anchor r where p: "partition_messages messages n = Inr (Some p)"
    and r: "replay_checkpoints sha reader run_id anchor (pt_groups p) steps = Inr r"
    and stuck: "rejected_last steps r = Inr False"
    and wanted: "summary_wanted steps projected max_bytes force allow = Inr True"
    and call: "next_summary sha request run_id max_bytes force anchor steps p r projected = Inr (Some call)"
    using prepare_checkpoint_Inr [OF assms] by blast
  obtain b k stop where b: "select_batch sha request run_id max_bytes anchor steps p r [rp_covered r + 1..<stop + 1] None = Inr (Some b)"
    and stop: "compactable_end sha (pt_groups p) (rp_covered r) k max_bytes run_id encode_group force = Inr stop"
    and c: "batch_call sha b = Inr call"
    using call by (auto simp: next_summary_def bind_res_Inr_iff split: option.splits)
  have sel: "bt_count b \<in> set [rp_covered r + 1..<stop + 1] \<and>
      \<not> list_ex (\<lambda>s. is_checkpoint s \<and> st_action_key s = bt_key b) steps \<and>
      (\<exists>t n. encode_json (JObj (bt_request b)) = Inr (t, n) \<and> 100 * n \<le> 85 * max_bytes) \<and>
      (\<exists>t k. encode_json (groups_json (drop (rp_covered r) (take (bt_count b) (pt_groups p)))) = Inr (t, k) \<and> 2048 \<le> k) \<and>
      batch_meta sha anchor (pt_groups p) (bt_count b) = Inr (bt_meta b) \<and>
      (\<exists>d. digest sha (JObj (bt_meta b)) = Inr d \<and> bt_key b = checkpoint_prefix @ d) \<and>
      (\<exists>source. bt_request b = summary_request request run_id source (bt_key b) (bt_meta b))"
    by (rule select_batch_Some [OF b]) auto
  have range: "rp_covered r < bt_count b" "bt_count b + 2 \<le> length (pt_groups p)"
    using sel compactable_end_bounds' [OF stop] by auto
  have call_eq: "mc_call_id call = bt_key b" "mc_request call = bt_request b"
    using c by (auto simp: batch_call_def bind_res_Inr_iff)
  have "map_of (bt_request b) checkpoint_key = Some (JObj (bt_meta b))"
    using sel by (auto simp: summary_request_def checkpoint_key_def u_def)
  moreover have "allow \<and> length (filter is_checkpoint steps) < 8 \<and>
      (force \<or> (\<exists>t k. encode_json (JObj projected) = Inr (t, k) \<and> 3 * max_bytes < 4 * k))"
    using wanted by (auto simp: summary_wanted_def bind_res_Inr_iff split: if_splits)
  moreover obtain d where "digest sha (JObj (bt_meta b)) = Inr d" "bt_key b = checkpoint_prefix @ d" using sel by blast
  ultimately show ?thesis using p r stuck sel range unfolding call_eq list_ex_iff by blast
qed

end
