(* ===== verification/CheckpointAcceptance.thy ===== *)
theory CheckpointAcceptance
  imports CheckpointProperties
begin

section \<open>When a checkpoint is accepted\<close>

text \<open>
  Bounds on the bytes of a rendered JSON value, the condition under which the adapter of the
  context engine accepts a memory in the place of groups, and with both: a summary that was
  requested and answered well is replayed on the next call. The concrete inputs of the witnesses
  for checkpoints are here as well.
\<close>

subsection \<open>Bytes of a rendered value\<close>

definition text_size :: "pystr \<Rightarrow> int" where
  "text_size t = sum_list (map utf8_width t)"

lemma text_size_simps [simp]:
  "text_size [] = 0" "text_size (c # t) = utf8_width c + text_size t" "text_size (s @ t) = text_size s + text_size t"
  by (simp_all add: text_size_def)

lemma utf8_width_bounds: "1 \<le> utf8_width c" "utf8_width c \<le> 4" "c < 128 \<Longrightarrow> utf8_width c = 1"
  by (simp_all add: utf8_width_def)

lemma text_size_bounds: "int (length t) \<le> text_size t" "text_size t \<le> 4 * int (length t)" "0 \<le> text_size t"
proof -
  show *: "int (length t) \<le> text_size t"
  proof (induction t)
    case (Cons c t)
    then show ?case using utf8_width_bounds(1) [of c] by simp
  qed simp
  show "text_size t \<le> 4 * int (length t)"
  proof (induction t)
    case (Cons c t)
    then show ?case using utf8_width_bounds(2) [of c] by simp
  qed simp
  show "0 \<le> text_size t" using * by simp
qed

lemma text_size_u [simp]: "text_size (u s) \<le> 4 * int (length s)"
  using text_size_bounds(2) [of "u s"] by simp

lemma escape_size: "utf8_width c \<le> text_size (escape c)" "text_size (escape c) \<le> 6"
proof -
  have d: "d < 16 \<Longrightarrow> utf8_width (hex_digit d) = 1" for d by (simp add: utf8_width_def hex_digit_def)
  have "utf8_width c \<le> text_size (escape c) \<and> text_size (escape c) \<le> 6"
    using utf8_width_bounds(1,2) [of c] d [of "c div 16"] d [of "c mod 16"]
    by (auto simp: escape_def utf8_width_bounds(3))
  then show "utf8_width c \<le> text_size (escape c)" "text_size (escape c) \<le> 6" by simp_all
qed

lemma quote_size: "text_size t + 2 \<le> text_size (quote t)" "text_size (quote t) \<le> 6 * int (length t) + 2"
proof -
  have "text_size t \<le> text_size (concat (map escape t)) \<and> text_size (concat (map escape t)) \<le> 6 * int (length t)"
  proof (induction t)
    case (Cons c t)
    then show ?case using escape_size [of c] by simp
  qed simp
  then show "text_size t + 2 \<le> text_size (quote t)" "text_size (quote t) \<le> 6 * int (length t) + 2"
    by (simp_all add: quote_def utf8_width_bounds(3))
qed

lemma join_size:
  "sum_list (map text_size ts) \<le> text_size (join 44 ts)"
  "text_size (join 44 ts) \<le> sum_list (map (\<lambda>t. text_size t + 1) ts)"
proof -
  have "sum_list (map text_size ts) \<le> text_size (join 44 ts) \<and>
      text_size (join 44 ts) \<le> sum_list (map (\<lambda>t. text_size t + 1) ts)"
    by (induction "44 :: nat" ts rule: join.induct) (auto simp: utf8_width_bounds(3))
  then show "sum_list (map text_size ts) \<le> text_size (join 44 ts)"
    "text_size (join 44 ts) \<le> sum_list (map (\<lambda>t. text_size t + 1) ts)" by simp_all
qed

text \<open>Bounds that are computed on the value, without rendering it\<close>

fun low :: "json \<Rightarrow> int" where
  "low (JStr t) = int (length t)"
| "low (JArr vs) = sum_list (map low vs)"
| "low (JObj kvs) = sum_list (map (\<lambda>(k, v). low v) kvs)"
| "low v = 0"

fun high :: "json \<Rightarrow> int" where
  "high JNull = 16"
| "high (JBool b) = 20"
| "high (JInt i) = 4 * int (length (show_int i))"
| "high (JFloat t) = 4 * int (length t)"
| "high (JStr t) = 6 * int (length t) + 2"
| "high (JArr vs) = 2 + sum_list (map (\<lambda>v. high v + 1) vs)"
| "high (JObj kvs) = 2 + sum_list (map (\<lambda>(k, v). 6 * int (length k) + high v + 4) kvs)"

lemma render_size: "low v \<le> text_size (render v) \<and> text_size (render v) \<le> high v"
proof (induction v)
  case (JInt i)
  then show ?case using text_size_bounds(3) [of "u (show_int i)"] text_size_u [of "show_int i"] by simp
next
  case (JFloat t)
  then show ?case using text_size_bounds [of t] by simp
next
  case (JStr t)
  then show ?case using quote_size [of t] text_size_bounds(1) [of t] by simp
next
  case (JArr vs)
  have "sum_list (map low vs) \<le> sum_list (map (\<lambda>v. text_size (render v)) vs)"
    "sum_list (map (\<lambda>v. text_size (render v) + 1) vs) \<le> sum_list (map (\<lambda>v. high v + 1) vs)"
    using JArr by (intro sum_list_mono; simp)+
  then show ?case using join_size [of "map render vs"] by (simp add: utf8_width_bounds(3) comp_def)
next
  case (JObj kvs)
  let ?r = "\<lambda>(k, v). quote k @ 58 # render v"
  have IH: "low v \<le> text_size (render v) \<and> text_size (render v) \<le> high v" if "(k, v) \<in> set kvs" for k v
    using JObj [of "(k, v)" v] that by (simp add: prod_set_simps)
  have "sum_list (map (\<lambda>(k, v). low v) kvs) \<le> sum_list (map (\<lambda>x. text_size (?r x)) kvs)"
  proof (rule sum_list_mono, clarify)
    fix k v assume "(k, v) \<in> set kvs"
    from IH [OF this] show "low v \<le> text_size (quote k @ 58 # render v)"
      using text_size_bounds(3) [of "quote k"] by (simp add: utf8_width_bounds(3))
  qed
  moreover have "sum_list (map (\<lambda>x. text_size (?r x) + 1) kvs) \<le>
      sum_list (map (\<lambda>(k, v). 6 * int (length k) + high v + 4) kvs)"
  proof (rule sum_list_mono, clarify)
    fix k v assume "(k, v) \<in> set kvs"
    from IH [OF this] show "text_size (quote k @ 58 # render v) + 1 \<le> 6 * int (length k) + high v + 4"
      using quote_size(2) [of k] by (simp add: utf8_width_bounds(3))
  qed
  ultimately show ?case using join_size [of "map ?r kvs"] by (simp add: utf8_width_bounds(3) comp_def)
next
  case (JBool b)
  then show ?case using text_size_u [of "''true''"] text_size_u [of "''false''"] text_size_bounds(3) [of "u ''true''"]
      text_size_bounds(3) [of "u ''false''"] by simp
next
  case JNull
  then show ?case using text_size_u [of "''null''"] text_size_bounds(3) [of "u ''null''"] by simp
qed

lemma sum_list_sort: "sum_list (map f (sort_key g xs)) = sum_list (map (f :: 'a \<Rightarrow> int) xs)"
proof -
  have "sum_list (map f (insort_key g x ys)) = f x + sum_list (map f ys)" for x ys
    by (induction ys) auto
  then show ?thesis by (induction xs) auto
qed

lemma sorted_size: "low (sorted_json v) = low v" "high (sorted_json v) = high v"
proof -
  have "low (sorted_json v) = low v \<and> high (sorted_json v) = high v"
  proof (induction v rule: sorted_json.induct)
    case (1 vs)
    then show ?case by (simp add: comp_def cong: map_cong)
  next
    case (2 kvs)
    have "map (\<lambda>(k, v). low v) (map (\<lambda>(k, v). (k, sorted_json v)) kvs) = map (\<lambda>(k, v). low v) kvs"
      "map (\<lambda>(k, v). 6 * int (length k) + high v + 4) (map (\<lambda>(k, v). (k, sorted_json v)) kvs) =
        map (\<lambda>(k, v). 6 * int (length k) + high v + 4) kvs"
      using 2 by auto
    then show ?case by (simp add: sum_list_sort del: map_map)
  qed auto
  then show "low (sorted_json v) = low v" "high (sorted_json v) = high v" by simp_all
qed

lemma scalar_length: "list_all scalar t \<Longrightarrow> encoded_length t = Inr (text_size t)"
  by (auto simp: encoded_length_def text_size_def list_ex_iff list_all_iff scalar_def)

lemma encode_json_bounds:
  assumes "encodable v"
  shows "\<exists>k. encode_json v = Inr (canonical v, k) \<and> low v \<le> k \<and> k \<le> high v"
  using scalar_length [OF canonical_scalar [OF assms]] render_size [of "sorted_json v"]
  by (simp add: encode_json_def canonical_def sorted_size)

subsection \<open>Validation of a memory by the context engine\<close>

lemma balanced_pending:
  "(\<And>n q. n \<in> set ns \<Longrightarrow> balance_node n q = Inr q) \<Longrightarrow> pending_after q ns = Inr q"
  "(\<And>n q. n \<in> set ns \<Longrightarrow> balance_node n q = Inr q) \<Longrightarrow> cuts_from q ns = Inr (replicate (length ns) (q = []))"
  by (induction ns arbitrary: q) simp_all

lemma check_summary_text:
  assumes "strip_white t \<noteq> []" and "encoded_length t = Inr k"
  shows "check_summary x (message i (JObj [(u ''role'', JStr (u ''assistant'')), (u ''content'', JStr t)]) False)
    (round_meter c) = (if k < pr_cost x then Inr () else Inl SummaryError)"
proof -
  let ?kvs = "[(u ''role'', JStr (u ''assistant'')), (u ''content'', JStr t)]"
  have ok: "json_ok (JObj ?kvs)" by simp
  have item: "json_item ''content'' (sorted_json (JObj ?kvs)) = Inr (JStr t)"
    by (subst json_item_sorted) simp_all
  have cost: "round_cost (message i (JObj ?kvs) False) = Inr k"
    unfolding round_cost_def body_message [OF ok] by (simp add: item assms(2) del: sorted_json.simps(2))
  moreover have "nd_pinned (message i (JObj ?kvs) False) = False" by (simp add: message_def)
  ultimately show ?thesis
    using assms(1) by (auto simp: check_summary_def body_get_message [OF ok] is_text_def round_meter_def)
qed

lemma group_nodes_distinct: "distinct (map nd_id (map (group_node encode k) (enumerate 0 gs)))"
proof -
  have "map nd_id (map (group_node encode k) (enumerate 0 gs)) = map (\<lambda>i. u (show_int (int i))) [0..<length gs]"
    by (rule nth_equalityI) (simp_all add: nth_enumerate_eq group_node_def message_def)
  moreover have "inj_on (\<lambda>i. u (show_int (int i))) A" for A by (rule inj_onI) (simp add: show_int_inj)
  ultimately show ?thesis by (simp add: distinct_map)
qed

lemma group_costs:
  assumes "map_res (\<lambda>g. encoded_length (encode g)) gs = Inr ks"
  shows "map_res round_cost (map (group_node encode n) (enumerate i gs)) = Inr ks"
  using assms
proof (induction gs arbitrary: i ks)
  case (Cons g gs)
  obtain k ks' where k: "encoded_length (encode g) = Inr k" "map_res (\<lambda>g. encoded_length (encode g)) gs = Inr ks'"
    "ks = k # ks'"
    using Cons.prems by (auto simp: bind_res_Inr_iff)
  have "map_res round_cost (map (group_node encode n) (enumerate (Suc i) gs)) = Inr ks'" by (rule Cons.IH [OF k(2)])
  with k show ?case by (simp add: round_cost_group)
qed simp

lemma group_costs_nonneg:
  "map_res (\<lambda>g. encoded_length (encode g)) gs = Inr ks \<Longrightarrow> list_all (\<lambda>k. 0 \<le> k) ks"
  by (induction gs arbitrary: ks) (auto simp: bind_res_Inr_iff dest: encoded_length_nonneg)

text \<open>The surface of the groups, and the span that covers the first \<open>count\<close> of them\<close>

definition groups_nodes :: "('g \<Rightarrow> pystr) \<Rightarrow> 'g list \<Rightarrow> node list" where
  "groups_nodes encode gs = map (group_node encode (length gs)) (enumerate 0 gs)"

lemma groups_nodes_nth:
  "length (groups_nodes encode gs) = length gs"
  "i < length gs \<Longrightarrow> groups_nodes encode gs ! i = group_node encode (length gs) (i, gs ! i)"
  by (simp_all add: groups_nodes_def nth_enumerate_eq)

lemma groups_nodes_surface:
  "groups_surface gs run_id encode = Inr \<lparr>sf_session = run_id, sf_nodes = groups_nodes encode gs\<rparr>"
  using group_nodes_distinct [of encode "length gs" gs] by (simp add: groups_surface_def mk_surface_def groups_nodes_def)

lemma groups_nodes_balance: "m \<in> set (groups_nodes encode gs) \<Longrightarrow> balance_node m q = Inr q"
  by (auto simp: groups_nodes_def group_balance)

lemma groups_nodes_fresh: "u ''checkpoint'' \<notin> nd_id ` set (groups_nodes encode gs)"
proof
  assume "u ''checkpoint'' \<in> nd_id ` set (groups_nodes encode gs)"
  then obtain m where m: "m \<in> set (groups_nodes encode gs)" "nd_id m = u ''checkpoint''" by auto
  obtain i where "i < length gs" "m = groups_nodes encode gs ! i"
    using m(1) unfolding in_set_conv_nth groups_nodes_nth(1) by blast
  then have "nd_id m = u (show_int (int i))"
    using groups_nodes_nth(2) [of i gs encode] by (simp add: group_node_def message_def)
  moreover have "hd (u ''checkpoint'') = 99" by (simp add: u_def)
  ultimately show False using int_hd(2) [of "int i"] m(2) by force
qed

text \<open>The last two groups are pinned, so a span is refused exactly when it reaches them.\<close>

lemma groups_pinned:
  assumes "0 < count" and "count \<le> length gs"
  shows "map_res (\<lambda>n. if nd_pinned n then Inr True else has_role ''system'' n) (take count (groups_nodes encode gs)) =
      Inr (map nd_pinned (take count (groups_nodes encode gs)))"
    and "True \<in> set (map nd_pinned (take count (groups_nodes encode gs))) \<longleftrightarrow> \<not> count + 2 \<le> length gs"
proof -
  let ?ns = "groups_nodes encode gs"
  have p: "nd_pinned (?ns ! i) \<longleftrightarrow> length gs \<le> i + 2" "has_role ''system'' (?ns ! i) = Inr False" if "i < length gs" for i
    using groups_nodes_nth(2) [OF that, of encode] by (simp_all add: group_node_simps)
  have "list_all2 (\<lambda>m b. (if nd_pinned m then Inr True else has_role ''system'' m) = Inr b)
      (take count ?ns) (map nd_pinned (take count ?ns))"
    using p(2) assms by (auto simp: list_all2_conv_all_nth groups_nodes_nth(1))
  then show "map_res (\<lambda>n. if nd_pinned n then Inr True else has_role ''system'' n) (take count ?ns) =
      Inr (map nd_pinned (take count ?ns))" unfolding map_res_Inr_iff .
  have "True \<in> set (map nd_pinned (take count ?ns)) \<longleftrightarrow> (\<exists>i < count. nd_pinned (?ns ! i))"
    using assms by (force simp: in_set_conv_nth groups_nodes_nth(1))
  also have "\<dots> \<longleftrightarrow> (\<exists>i < count. length gs \<le> i + 2)" using p(1) assms by auto
  also have "\<dots> \<longleftrightarrow> length gs \<le> (count - 1) + 2"
    using assms by (auto intro: exI [of _ "count - 1"])
  finally show "True \<in> set (map nd_pinned (take count ?ns)) \<longleftrightarrow> \<not> count + 2 \<le> length gs" using assms by auto
qed

lemma groups_prepared:
  assumes ks: "map_res (\<lambda>g. encoded_length (encode g)) gs = Inr ks"
    and scalars: "\<forall>g \<in> set gs. list_all scalar (encode g)"
    and count: "0 < count" "count \<le> length gs" and r: "byte_route 524288 = Inr r"
    and s: "s = \<lparr>sf_session = run_id, sf_nodes = groups_nodes encode gs\<rparr>"
  shows "if count + 2 \<le> length gs
    then \<exists>x. prepare_range sha s r (round_meter 0) 0 (int count) = Inr x \<and>
      pr_source x = take count (sf_nodes s) \<and> pr_session x = run_id \<and> pr_before x = [] \<and>
      pr_after x = map nd_id (drop count (sf_nodes s)) \<and> pr_cost x = sum_list (take count ks)
    else prepare_range sha s r (round_meter 0) 0 (int count) = Inl ValueError"
proof -
  let ?ns = "groups_nodes encode gs"
  have neg: "\<not> list_ex (\<lambda>v. v < 0) ks" using group_costs_nonneg [OF ks] by (auto simp: list_all_iff list_ex_iff)
  have "costs s r (round_meter 0) = Inr (ks, sum_list ks)"
    using group_costs [OF ks] neg r by (auto simp: costs_def round_meter_def s groups_nodes_def byte_route_def mk_route_def)
  moreover have "balanced_cuts s = Inr (replicate (Suc (length gs)) True)"
    using balanced_pending(2) [of ?ns "[]"] groups_nodes_balance [of _ encode gs]
    by (simp add: balanced_cuts_def s groups_nodes_nth(1))
  moreover have "list_all scalar (nd_json m)" if "m \<in> set ?ns" for m
    using that scalars unfolding groups_nodes_def
    by (auto simp: group_node_def message_def u_scalar_all dest!: in_set_enumerate_snd intro!: canonical_scalar)
  then have "encodable (JArr (map (\<lambda>n. JStr (nd_json n)) (take count ?ns)))"
    by (auto simp: list_all_iff dest: in_set_takeD)
  then obtain k' where "encoded_length (canonical (JArr (map (\<lambda>n. JStr (nd_json n)) (take count ?ns)))) = Inr k'"
    using encoded_canonical by blast
  moreover have "length ?ns = length gs" "slice 0 count ?ns = take count ?ns" by (simp_all add: groups_nodes_nth(1) slice_def)
  ultimately show ?thesis
    using count groups_pinned [OF count, of encode]
    by (auto simp: s prepare_range_def span_def Let_def slice_def set_replicate_conv_if simp del: set_map)
qed

text \<open>
  A memory that is plain text passes exactly when it is cheaper than the groups it covers and the
  last two groups are not among them.
\<close>

lemma validates_text:
  assumes ks: "map_res (\<lambda>g. encoded_length (encode g)) gs = Inr ks"
    and scalars: "\<forall>g \<in> set gs. list_all scalar (encode g)"
    and count: "0 < count" "count \<le> length gs"
    and t: "strip_white t \<noteq> []" "encoded_length t = Inr k"
  shows "validates_replacement sha gs (int count)
    (JObj [(u ''role'', JStr (u ''assistant'')), (u ''content'', JStr t)]) run_id encode =
    Inr (count + 2 \<le> length gs \<and> k < sum_list (take count ks))"
proof -
  let ?ns = "groups_nodes encode gs"
  let ?s = "\<lparr>sf_session = run_id, sf_nodes = ?ns\<rparr>"
  let ?c = "message (u ''checkpoint'') (JObj [(u ''role'', JStr (u ''assistant'')), (u ''content'', JStr t)]) False"
  obtain r where r: "byte_route 524288 = Inr r" by (simp add: byte_route_def mk_route_def)
  note range = groups_prepared [OF ks scalars count r refl, of sha run_id]
  show ?thesis
  proof (cases "count + 2 \<le> length gs")
    case False
    then show ?thesis using range by (simp add: validates_replacement_def groups_nodes_surface r)
  next
    case True
    then obtain x where x: "prepare_range sha ?s r (round_meter 0) 0 (int count) = Inr x"
      "pr_source x = take count ?ns" "pr_session x = run_id" "pr_before x = []"
      "pr_after x = map nd_id (drop count ?ns)" "pr_cost x = sum_list (take count ks)" using range by auto
    have ids: "distinct (map nd_id ?ns)" using group_nodes_distinct [of encode "length gs" gs] by (simp add: groups_nodes_def)
    have bal: "m \<in> set (take count ?ns) \<union> set (drop count ?ns) \<Longrightarrow> balance_node m q = Inr q" for m q
      using groups_nodes_balance [of m encode gs q] by (auto dest: in_set_takeD in_set_dropD)
    have "fits x ?s [] (drop count ?ns)"
      using x count balanced_pending [of "take count ?ns" "[]"] balanced_pending(2) [of "drop count ?ns" "[]"] bal
        groups_nodes_nth(1) [of encode gs] by (auto simp: fits_def)
    then have "replacement x ?s ?c (round_meter 0) =
        bind_res (check_summary x ?c (round_meter 0)) (\<lambda>_. mk_surface run_id ([] @ [?c] @ drop count ?ns))"
      using replacement_at [of ?s x "[]" "drop count ?ns" ?c "round_meter 0"] ids by simp
    moreover have "mk_surface run_id ([] @ [?c] @ drop count ?ns) = Inr \<lparr>sf_session = run_id, sf_nodes = ?c # drop count ?ns\<rparr>"
      using groups_nodes_fresh [of encode gs] ids distinct_drop [of "map nd_id ?ns" count]
      by (auto simp: mk_surface_def message_def drop_map dest: in_set_dropD)
    ultimately show ?thesis
      using True x check_summary_text [OF t, of x "u ''checkpoint''" 0]
      by (simp add: validates_replacement_def groups_nodes_surface r)
  qed
qed

subsection \<open>From the request of a summary to its replay\<close>

text \<open>Groups whose messages can be encoded.\<close>

definition plain_groups :: "group list \<Rightarrow> bool" where
  "plain_groups gs \<longleftrightarrow> list_all encodable (group_messages gs) \<and> list_all json_ok (group_messages gs)"

lemma encode_group_bounds:
  assumes "list_all encodable (gr_messages g)"
  shows "encodable (group_json g)" "list_all scalar (encode_group g)"
    "\<exists>k. encoded_length (encode_group g) = Inr k \<and> low (group_json g) \<le> k \<and> k \<le> high (group_json g)"
proof -
  show e: "encodable (group_json g)" using assms by (simp add: group_json_def u_scalar_all)
  show "list_all scalar (encode_group g)" unfolding encode_group_def by (rule canonical_scalar [OF e])
  show "\<exists>k. encoded_length (encode_group g) = Inr k \<and> low (group_json g) \<le> k \<and> k \<le> high (group_json g)"
    using encode_json_bounds [OF e] by (auto simp: encode_json_def encode_group_def bind_res_Inr_iff)
qed

lemma encode_plain: "encodable v \<Longrightarrow> encode_json v = Inr (canonical v, text_size (canonical v))"
  using scalar_length [OF canonical_scalar] by (simp add: encode_json_def)

lemma group_lengths:
  assumes "list_all encodable (group_messages gs)"
  shows "map_res (\<lambda>g. encoded_length (encode_group g)) gs = Inr (map (\<lambda>g. text_size (encode_group g)) gs)"
  using assms
proof (induction gs)
  case (Cons g gs)
  then show ?case using scalar_length [OF encode_group_bounds(2) [of g]] by simp
qed simp

lemma groups_size:
  "text_size (canonical (groups_json gs)) \<le> sum_list (map (\<lambda>g. text_size (encode_group g)) gs) + int (length gs) + 2"
proof -
  have "map render (map sorted_json (map group_json gs)) = map encode_group gs"
    by (simp add: encode_group_def canonical_def)
  then have "canonical (groups_json gs) = 91 # join 44 (map encode_group gs) @ [93]"
    by (simp add: groups_json_def canonical_def comp_def del: map_map)
  then show ?thesis using join_size(2) [of "map encode_group gs"]
    by (simp add: utf8_width_bounds(3) comp_def sum_list_addf sum_list_triv)
qed

lemma strip_white_nonempty: "c \<in> set t \<Longrightarrow> \<not> is_white c \<Longrightarrow> strip_white t \<noteq> []"
proof -
  have keep: "c \<in> set t \<Longrightarrow> \<not> P c \<Longrightarrow> c \<in> set (dropWhile P t)" for P :: "nat \<Rightarrow> bool" and t
    by (induction t) auto
  assume "c \<in> set t" "\<not> is_white c"
  then have "c \<in> set (strip_white t)" unfolding strip_white_def set_rev by (intro keep) (simp_all add: keep)
  then show "strip_white t \<noteq> []" by auto
qed

lemma memory_size:
  "text_size (canonical (memory_content i summary reader reqs)) < text_size (canonical (memory_message i summary reader reqs))"
proof -
  let ?t = "canonical (memory_content i summary reader reqs)"
  have "text_size (quote ?t) \<le> text_size (canonical (memory_message i summary reader reqs))"
  proof -
    have "u ''content'' \<le> u ''role''" "\<not> u ''role'' \<le> u ''content''" by (simp_all add: u_def)
    then have "canonical (memory_message i summary reader reqs) =
        123 # quote (u ''content'') @ 58 # quote ?t @ 44 # quote (u ''role'') @ 58 # quote (u ''assistant'') @ [125]"
      by (simp add: memory_message_def canonical_def)
    then show ?thesis using text_size_bounds(3) by (simp add: utf8_width_bounds(3))
  qed
  then show ?thesis using quote_size(1) [of ?t] by simp
qed

lemma groups_encodable: "list_all encodable (group_messages gs) \<Longrightarrow> encodable (groups_json gs)"
  by (induction gs) (auto simp: groups_json_def group_json_def u_scalar_all)

lemma answered_summary_replayed:
  assumes info: "batch_meta sha anchor groups j = Inr info" "map_of (st_input s) checkpoint_key = Some (JObj info)"
    and summary: "step_summary (st_output s) = Some summary"
    and reqs: "protected_requirements sha (take j groups) = Inr reqs"
    and j: "covered < j" "j \<le> length groups"
    and unicode: "list_all encodable (group_messages (groups @ later))" "encodable (memory_content (st_id s) summary reader reqs)"
    and size: "encode_json (memory_message (st_id s) summary reader reqs) = Inr (mt, k)"
      "encode_json (groups_json (take j groups)) = Inr (gt, l)"
    and cheap: "cheap \<longleftrightarrow> text_size (canonical (memory_content (st_id s) summary reader reqs)) <
      sum_list (map (\<lambda>g. text_size (encode_group g)) (take j groups))"
  shows "read_checkpoint sha reader run_id anchor (groups @ later) covered s =
      Inr (if k + 512 < l \<and> cheap \<and> j + 2 \<le> length (groups @ later)
        then Some (j, memory_message (st_id s) summary reader reqs) else None) \<and>
    (k + 512 < l \<and> j \<le> 511 \<longrightarrow> cheap)"
proof (intro conjI impI)
  let ?m = "memory_message (st_id s) summary reader reqs" and ?gs = "groups @ later"
  let ?t = "canonical (memory_content (st_id s) summary reader reqs)"
  let ?ks = "map (\<lambda>g. text_size (encode_group g)) ?gs"
  have m_enc: "encodable ?m" using canonical_scalar [OF unicode(2)] by (simp add: memory_message_def u_scalar_all)
  have take_enc: "encodable (groups_json (take j groups))"
    using unicode(1) by (intro groups_encodable) (auto simp: list_all_iff dest: in_set_takeD)
  have k: "k = text_size (canonical ?m)" using encode_plain [OF m_enc] size(1) by simp
  have l: "l = text_size (canonical (groups_json (take j groups)))" using encode_plain [OF take_enc] size(2) by simp
  show cheap if "k + 512 < l \<and> j \<le> 511"
    using groups_size [of "take j groups"] memory_size [of "st_id s" summary reader reqs] j(2) that k
    by (simp add: l cheap)
  have scalars: "\<forall>g \<in> set ?gs. list_all scalar (encode_group g)"
    using unicode(1) by (intro ballI encode_group_bounds(2)) (auto simp: list_all_iff)
  have words: "strip_white ?t \<noteq> []"
    by (rule strip_white_nonempty [of 123]) (simp_all add: canonical_def memory_content_def is_white_def)
  have valid: "validates_replacement sha ?gs (int j) ?m run_id encode_group = Inr (j + 2 \<le> length ?gs \<and> cheap)"
    unfolding memory_message_def cheap
    using validates_text [OF group_lengths [OF unicode(1)] scalars _ _ words scalar_length [OF canonical_scalar [OF unicode(2)]]] j
    by (simp add: take_map)
  obtain source wanted where d: "digest sha (groups_json (take j groups)) = Inr source"
    "digest sha (JArr reqs) = Inr wanted"
    "info = [(u ''policy'', JStr checkpoint_policy), (u ''anchor_sha256'', JStr anchor),
       (u ''source_sha256'', JStr source), (u ''covered_groups'', JInt (int j)), (u ''requirements_sha256'', JStr wanted)]"
    using info(1) reqs by (auto simp: batch_meta_def bind_res_Inr_iff)
  have step: "step_meta s = JObj info" using info(2) by (simp add: step_meta_def)
  have "checkpoint_memory sha reader run_id ?gs s (int j) (JObj info) =
      Inr (if k + 512 < l \<and> cheap \<and> j + 2 \<le> length ?gs then Some (j, ?m) else None)"
    using d reqs summary size valid j(2) by (auto simp: checkpoint_memory_def Let_def)
  then show "read_checkpoint sha reader run_id anchor ?gs covered s =
      Inr (if k + 512 < l \<and> cheap \<and> j + 2 \<le> length ?gs then Some (j, ?m) else None)"
    using j by (simp add: read_checkpoint_def step d(3) Let_def)
qed

text \<open>
  C36. The round trip of a checkpoint: a completed step that carries what the request of a summary
  recorded about a prefix of the groups, and that answered it with a valid summary, is accepted on a later call, and
  its memory covers the prefix, exactly when it saves more than the 512 bytes that the code asks for, its text
  is cheaper than the covered groups one by one, and at least two groups follow the prefix, whatever they
  are; otherwise it is passed over. The first condition implies the second for up to 511 groups. All
  text, of the memory and of all groups, is well-formed Unicode.
\<close>

theorem answered_summary_is_replayed:
  assumes info: "batch_meta sha anchor groups j = Inr info" "map_of (st_input s) checkpoint_key = Some (JObj info)"
    and summary: "step_summary (st_output s) = Some summary"
    and reqs: "protected_requirements sha (take j groups) = Inr reqs"
    and j: "covered < j" "j \<le> length groups"
    and unicode: "list_all encodable (group_messages (groups @ later))" "encodable (memory_content (st_id s) summary reader reqs)"
    and size: "encode_json (memory_message (st_id s) summary reader reqs) = Inr (mt, k)"
      "encode_json (groups_json (take j groups)) = Inr (gt, l)"
    and cheap: "cheap \<longleftrightarrow> text_size (canonical (memory_content (st_id s) summary reader reqs)) <
      sum_list (map (\<lambda>g. text_size (encode_group g)) (take j groups))"
  shows "read_checkpoint sha reader run_id anchor (groups @ later) covered s =
      Inr (if k + 512 < l \<and> cheap \<and> j + 2 \<le> length (groups @ later)
        then Some (j, memory_message (st_id s) summary reader reqs) else None) \<and>
    (k + 512 < l \<and> j \<le> 511 \<longrightarrow> cheap)"
  using assms by (rule answered_summary_replayed)

subsection \<open>A sample transcript\<close>

definition long_answer :: pystr where
  "long_answer = replicate 50000 120"

definition chat :: "string \<Rightarrow> pystr \<Rightarrow> json" where
  "chat role t = JObj [(u ''role'', JStr (u role)), (u ''content'', JStr t)]"

definition early_groups :: "group list" where
  "early_groups = [\<lparr>gr_run = False, gr_messages = [chat ''user'' (u ''paint it blue''), chat ''assistant'' long_answer]\<rparr>]"

definition later_groups :: "group list" where
  "later_groups = [\<lparr>gr_run = False, gr_messages = [chat ''user'' (u ''b'')]\<rparr>,
     \<lparr>gr_run = False, gr_messages = [chat ''user'' (u ''c'')]\<rparr>]"

definition kept_summary :: json where
  "kept_summary = JObj (map (\<lambda>k. (k, JArr [JStr (u ''blue'')])) summary_fields)"

definition kept_info :: request where
  "kept_info = [(u ''policy'', JStr checkpoint_policy), (u ''anchor_sha256'', JStr []),
     (u ''source_sha256'', JStr []), (u ''covered_groups'', JInt 1), (u ''requirements_sha256'', JStr [])]"

definition kept_step :: durable_step where
  "kept_step = \<lparr>st_id = u ''s1'', st_kind = u ''model'', st_action_key = checkpoint_prefix, st_status = Completed,
     st_sequence = 1, st_tool_name = JNull, st_input = [(checkpoint_key, JObj kept_info)],
     st_output = JObj [(u ''choices'', JArr [JObj [(u ''finish_reason'', JStr (u ''stop'')),
       (u ''message'', JObj [(u ''content'', JStr (canonical kept_summary))])]])],
     st_error = JNull\<rparr>"

definition kept_record :: json where
  "kept_record = JObj [(u ''source_group'', JInt 0), (u ''source_message'', JInt 0), (u ''sha256'', JStr []),
     (u ''message'', chat ''user'' (u ''paint it blue''))]"

abbreviation no_sha :: "pystr \<Rightarrow> pystr" where
  "no_sha \<equiv> \<lambda>_. []"

lemma long_answer: "length long_answer = 50000" "list_all scalar long_answer"
  by (simp_all add: long_answer_def list_all_iff scalar_def)

lemma no_digest: "encodable v \<Longrightarrow> digest no_sha v = Inr []"
  by (simp add: digest_def encode_plain)

lemma chat_encodable: "list_all scalar t \<Longrightarrow> encodable (chat r t)" "json_ok (chat r t)"
  by (simp_all add: chat_def u_scalar_all)

lemma chat_role: "role_is w (chat r t) = Inr (r = w)"
  by (simp add: chat_def role_is_def)

lemma sample_encodable: "list_all encodable (group_messages (early_groups @ later_groups))"
  by (simp add: early_groups_def later_groups_def chat_encodable u_scalar_all long_answer)

lemma kept_summary_read: "step_summary (st_output kept_step) = Some (sorted_json kept_summary)"
proof -
  have ok: "json_ok kept_summary" by (simp add: kept_summary_def summary_fields_def)
  have e: "encodable kept_summary" by (simp add: kept_summary_def summary_fields_def u_scalar_all)
  have "high kept_summary \<le> 8192" by (simp add: kept_summary_def summary_fields_def)
  then have size: "encoded_length (canonical kept_summary) = Inr (text_size (canonical kept_summary))"
    "text_size (canonical kept_summary) \<le> 8192"
    using scalar_length [OF canonical_scalar [OF e]] render_size [of "sorted_json kept_summary"]
    by (simp_all add: canonical_def sorted_size)
  obtain kvs where "kvs = sort_key fst (map (\<lambda>k. (k, JArr [JStr (u ''blue'')])) summary_fields)" by simp
  then have "sorted_json kept_summary = JObj kvs" and set: "set kvs = (\<lambda>k. (k, JArr [JStr (u ''blue'')])) ` set summary_fields"
    by (simp_all add: kept_summary_def comp_def del: sort_key_simps)
  moreover have "strip_white (u ''blue'') \<noteq> []"
    by (rule strip_white_nonempty [of 98]) (simp_all add: u_def is_white_def)
  then have "list_all (\<lambda>(k, v). good_items v) kvs" by (auto simp: list_all_iff set)
  moreover have "list_ex (\<lambda>(k, v). truthy v) kvs" by (auto simp: list_ex_iff set summary_fields_def)
  moreover have "set (map fst kvs) = set summary_fields" by (simp add: set image_image)
  ultimately obtain kvs where kvs: "sorted_json kept_summary = JObj kvs" "set (map fst kvs) = set summary_fields"
    "list_all (\<lambda>(k, v). good_items v) kvs" "list_ex (\<lambda>(k, v). truthy v) kvs" by blast
  then show ?thesis
    using size by (simp add: step_summary_def read_summary_def kept_step_def first_item_def loads_canonical [OF ok])
qed

lemma kept_requirements: "protected_requirements no_sha early_groups = Inr [kept_record]"
  by (simp add: protected_requirements_def early_groups_def group_records_def user_record_def chat_role
      requirement_def no_digest chat_encodable u_scalar_all kept_record_def)

lemma kept_info: "batch_meta no_sha [] early_groups 1 = Inr kept_info"
proof -
  have "digest no_sha (groups_json early_groups) = Inr []" using sample_encodable by (intro no_digest groups_encodable) simp
  moreover have "digest no_sha (JArr [kept_record]) = Inr []"
    by (rule no_digest) (simp add: kept_record_def u_scalar_all chat_encodable)
  ultimately show ?thesis
    using kept_requirements by (simp add: batch_meta_def kept_info_def early_groups_def)
qed

lemma kept_memory:
  "encodable (memory_content (u ''s1'') (sorted_json kept_summary) (u ''read'') [kept_record])"
  "high (memory_message (u ''s1'') (sorted_json kept_summary) (u ''read'') [kept_record]) + 512 < 50000"
proof -
  let ?c = "memory_content (u ''s1'') (sorted_json kept_summary) (u ''read'') [kept_record]"
  have s: "encodable (sorted_json kept_summary)" "high (sorted_json kept_summary) \<le> 600"
    unfolding sorted_size by (intro encodable_sorted) (simp_all add: kept_summary_def summary_fields_def u_scalar_all)
  have p: "list_all scalar checkpoint_policy" "length checkpoint_policy = 21"
    by (simp_all add: checkpoint_policy_def u_scalar_all)
  show "encodable ?c" using s(1) p by (simp add: memory_content_def u_scalar_all kept_record_def chat_encodable)
  have "high ?c \<le> 6000"
    using s(2) p by (simp add: memory_content_def kept_record_def chat_def show_int_def show_nat.simps)
  then have "int (length (canonical ?c)) \<le> 6000"
    using render_size [of "sorted_json ?c"] text_size_bounds(1) [of "canonical ?c"] by (simp add: canonical_def sorted_size)
  then show "high (memory_message (u ''s1'') (sorted_json kept_summary) (u ''read'') [kept_record]) + 512 < 50000"
    by (simp add: memory_message_def)
qed

lemma kept_sizes:
  "\<exists>k l. encode_json (memory_message (u ''s1'') (sorted_json kept_summary) (u ''read'') [kept_record]) =
      Inr (canonical (memory_message (u ''s1'') (sorted_json kept_summary) (u ''read'') [kept_record]), k) \<and>
    encode_json (groups_json early_groups) = Inr (canonical (groups_json early_groups), l) \<and> k + 512 < l"
proof -
  have "encodable (memory_message (u ''s1'') (sorted_json kept_summary) (u ''read'') [kept_record])"
    using canonical_scalar [OF kept_memory(1)] by (simp add: memory_message_def u_scalar_all)
  from encode_json_bounds [OF this] obtain k where k:
    "encode_json (memory_message (u ''s1'') (sorted_json kept_summary) (u ''read'') [kept_record]) =
      Inr (canonical (memory_message (u ''s1'') (sorted_json kept_summary) (u ''read'') [kept_record]), k)"
    "k \<le> high (memory_message (u ''s1'') (sorted_json kept_summary) (u ''read'') [kept_record])" by blast
  have "encodable (groups_json early_groups)" using sample_encodable by (intro groups_encodable) simp
  from encode_json_bounds [OF this] obtain l where l:
    "encode_json (groups_json early_groups) = Inr (canonical (groups_json early_groups), l)"
    "low (groups_json early_groups) \<le> l" by blast
  have "50000 \<le> low (groups_json early_groups)"
    by (simp add: groups_json_def group_json_def early_groups_def chat_def long_answer)
  with k l kept_memory(2) show ?thesis by (intro exI [of _ k] exI [of _ l]) simp
qed

lemma kept_replayed:
  "read_checkpoint no_sha (u ''read'') (u ''run'') [] (early_groups @ later_groups) 0 kept_step =
    Inr (Some (1, memory_message (u ''s1'') (sorted_json kept_summary) (u ''read'') [kept_record]))"
proof -
  obtain k l where size: "encode_json (memory_message (u ''s1'') (sorted_json kept_summary) (u ''read'') [kept_record]) =
      Inr (canonical (memory_message (u ''s1'') (sorted_json kept_summary) (u ''read'') [kept_record]), k)"
    "encode_json (groups_json early_groups) = Inr (canonical (groups_json early_groups), l)" "k + 512 < l"
    using kept_sizes by blast
  have id: "st_id kept_step = u ''s1''" "map_of (st_input kept_step) checkpoint_key = Some (JObj kept_info)"
    by (simp_all add: kept_step_def)
  have one: "take 1 early_groups = early_groups" "length early_groups = 1" "length later_groups = 2"
    by (simp_all add: early_groups_def later_groups_def)
  show ?thesis
    using answered_summary_replayed [OF kept_info id(2) kept_summary_read _ _ _ _ _ _ _ refl, where covered = 0 and later = later_groups
        and reqs = "[kept_record]" and reader = "u ''read''" and k = k and l = l] sample_encodable kept_memory(1) size
    by (auto simp: one id(1) kept_requirements)
qed

definition sample_transcript :: "json list" where
  "sample_transcript = [chat ''system'' (u ''be brief''), chat ''user'' (u ''paint it blue''), chat ''assistant'' long_answer,
     chat ''user'' (u ''b''), chat ''user'' (u ''c''), chat ''user'' (u ''d'')]"

definition transcript_parts :: partition_ where
  "transcript_parts = \<lparr>pt_systems = [chat ''system'' (u ''be brief'')], pt_pinned = [chat ''user'' (u ''d'')],
     pt_groups = early_groups @ later_groups\<rparr>"

definition transcript_request :: request where
  "transcript_request = [(u ''model'', JStr (u ''m'')), (u ''messages'', JArr sample_transcript)]"

lemma transcript_partition: "partition_messages sample_transcript 6 = Inr (Some transcript_parts)"
proof -
  have rich: "rich_content (chat r t) = Inr False" for r t by (simp add: rich_content_def chat_def)
  have last: "last_user [False, True, False, True, True, True] = 5"
    by (simp add: last_user_def upt_rec eval_nat_numeral)
  show ?thesis
    by (simp add: partition_messages_def sample_transcript_def rich chat_role last transcript_parts_def
        early_groups_def later_groups_def append_message_def eval_nat_numeral)
qed

lemma transcript_ok: "list_all json_ok sample_transcript" "map_of transcript_request (u ''messages'') = Some (JArr sample_transcript)"
  by (simp_all add: sample_transcript_def transcript_request_def chat_encodable)

abbreviation kept_memory_message :: json where
  "kept_memory_message \<equiv> memory_message (u ''s1'') (sorted_json kept_summary) (u ''read'') [kept_record]"

definition kept_replay :: replayed where
  "kept_replay = \<lparr>rp_covered = 1, rp_memory = Some kept_memory_message, rp_previous = Some kept_step, rp_rejected = []\<rparr>"

lemma kept_replay:
  "replay_checkpoints no_sha (u ''read'') (u ''run'') [] (early_groups @ later_groups) [kept_step] = Inr kept_replay"
proof -
  have "is_checkpoint kept_step" "st_status kept_step = Completed" by (simp_all add: is_checkpoint_def kept_step_def)
  then show ?thesis using kept_replayed
    by (simp add: replay_checkpoints_def no_checkpoint_def kept_replay_def)
qed

theorem partition_keeps_messages_witness:
  "partition_messages sample_transcript 6 = Inr (Some transcript_parts) \<and>
   (\<exists>history run. early_groups @ later_groups = history @ run \<and> group_messages run = [] \<and>
      list_all (\<lambda>g. \<not> gr_run g) history \<and>
      (\<exists>m ms. pt_pinned transcript_parts = m # ms \<and> with_role ''user'' m))"
  using partition_keeps_messages [OF transcript_partition] transcript_partition
  by (auto simp: transcript_parts_def sample_transcript_def with_role_def chat_role)


theorem answered_summary_is_replayed_witness:
  "read_checkpoint no_sha (u ''read'') (u ''run'') [] (early_groups @ later_groups) 0 kept_step =
    Inr (Some (1, kept_memory_message))"
proof -
  obtain k l where size: "encode_json kept_memory_message = Inr (canonical kept_memory_message, k)"
    "encode_json (groups_json early_groups) = Inr (canonical (groups_json early_groups), l)" "k + 512 < l"
    using kept_sizes by blast
  have id: "st_id kept_step = u ''s1''" "map_of (st_input kept_step) checkpoint_key = Some (JObj kept_info)"
    by (simp_all add: kept_step_def)
  have one: "take 1 early_groups = early_groups" "length early_groups = 1" "length later_groups = 2"
    by (simp_all add: early_groups_def later_groups_def)
  show ?thesis
    using answered_summary_is_replayed [OF kept_info id(2) kept_summary_read _ _ _ _ _ _ _ refl, where covered = 0 and later = later_groups
        and reqs = "[kept_record]" and reader = "u ''read''" and k = k and l = l] sample_encodable kept_memory(1) size
    by (auto simp: one id(1) kept_requirements)
qed

text \<open>The request with the checkpoint replayed and no further summary wanted.\<close>

lemma kept_audit: "\<exists>audit. replay_audit no_sha transcript_parts kept_replay None = Inr audit"
proof -
  have s: "json_ok (sorted_json kept_summary)" "list_all json_ok [kept_record]"
    by (rule sorted_json_ok) (simp_all add: kept_summary_def summary_fields_def kept_record_def chat_encodable)
  have "memory_records kept_replay = Inr (sorted_json (JArr [kept_record]))"
    using memory_part_simps(1) [OF s] by (simp add: memory_records_def kept_replay_def del: sorted_json.simps)
  moreover have "take (rp_covered kept_replay) (pt_groups transcript_parts) = early_groups"
    by (simp add: kept_replay_def transcript_parts_def early_groups_def)
  moreover have "digest no_sha (JArr [kept_record]) = Inr []"
    by (rule no_digest) (simp add: kept_record_def u_scalar_all chat_encodable)
  ultimately show ?thesis
    using kept_requirements sorted_json_idem [of "JArr [kept_record]"] has_nan_sorted [of "JArr [kept_record]"]
    by (simp add: replay_audit_def same_json_def kept_record_def chat_def del: sorted_json.simps)
qed

lemma anchor_digest: "digest no_sha (JArr [JArr (pt_systems transcript_parts), JArr (pt_pinned transcript_parts), JStr (u ''m'')]) = Inr []"
  by (rule no_digest) (simp add: transcript_parts_def u_scalar_all chat_encodable)

lemma transcript_message_list:
  "bind_res (json_item ''messages'' (JObj transcript_request)) message_list = Inr sample_transcript"
  "json_get ''model'' (JObj transcript_request) = Inr (JStr (u ''m''))"
  by (simp_all add: transcript_request_def message_list_def)

lemma kept_prepare:
  "\<exists>audit. prepare_checkpoint no_sha transcript_request 6 [kept_step] 1000000 (u ''read'') (u ''run'') None False False =
    Inr (project transcript_request transcript_parts kept_replay None, audit, None)"
proof -
  obtain audit where audit: "replay_audit no_sha transcript_parts kept_replay None = Inr audit"
    using kept_audit by blast
  have groups: "pt_groups transcript_parts = early_groups @ later_groups" by (simp add: transcript_parts_def)
  have "rejected_last [kept_step] kept_replay = Inr False" by (simp add: rejected_last_def kept_replay_def)
  then have "prepare_checkpoint no_sha transcript_request 6 [kept_step] 1000000 (u ''read'') (u ''run'') None False False =
      Inr (project transcript_request transcript_parts kept_replay None, audit, None)"
    using transcript_message_list transcript_partition anchor_digest kept_replay audit
    by (simp add: prepare_checkpoint_def groups summary_wanted_def)
  then show ?thesis by blast
qed

theorem no_user_message_lost_witness:
  "\<exists>projected audit. prepare_checkpoint no_sha transcript_request 6 [kept_step] 1000000 (u ''read'') (u ''run'') None False False =
      Inr (projected, audit, None) \<and>
    (\<exists>shown. map_of projected (u ''messages'') = Some (JArr shown) \<and>
      (chat ''user'' (u ''paint it blue'') \<in> set shown \<or>
       (\<exists>w \<in> set shown. recorded (chat ''user'' (u ''paint it blue'')) w)))"
proof -
  obtain audit where run: "prepare_checkpoint no_sha transcript_request 6 [kept_step] 1000000 (u ''read'') (u ''run'') None False False =
    Inr (project transcript_request transcript_parts kept_replay None, audit, None)" using kept_prepare by blast
  have "chat ''user'' (u ''paint it blue'') \<in> set sample_transcript" "with_role ''user'' (chat ''user'' (u ''paint it blue''))"
    by (simp_all add: sample_transcript_def with_role_def chat_role)
  then show ?thesis using no_user_message_lost [OF run transcript_ok(2,1)] run by blast
qed

text \<open>With more than two groups, all small enough to encode, a forced compaction always finds work.\<close>

lemma forced_end:
  assumes "map_res (\<lambda>g. encoded_length (encode g)) gs = Inr ks" and "length gs = 3" and "2 \<le> max_bytes"
    and small: "\<forall>g \<in> set gs. list_all scalar (encode g)"
  shows "compactable_end sha gs 0 n max_bytes run_id encode True = Inr 1"
proof -
  obtain a b c where gs: "gs = [a, b, c]" using assms(2) by (auto simp: length_Suc_conv eval_nat_numeral)
  obtain ka kb kc where ks: "ks = [ka, kb, kc]" using assms(1) by (auto simp: gs bind_res_Inr_iff)
  let ?n = "\<lambda>i g. group_node encode 3 (i, g)"
  obtain ns where ns: "ns = [?n 0 a, ?n 1 b, ?n 2 c]" by simp
  have nodes: "map (group_node encode (length gs)) (enumerate 0 gs) = ns"
    by (simp add: gs ns eval_nat_numeral)
  let ?s = "\<lparr>sf_session = run_id, sf_nodes = ns\<rparr>"
  have surf: "groups_surface gs run_id encode = Inr ?s"
    using group_nodes_distinct [of encode "length gs" gs] by (simp add: groups_surface_def mk_surface_def nodes)
  obtain r where r: "byte_route max_bytes = Inr r" "rt_unit r = ''utf8_bytes''"
    using assms(3) by (auto simp: byte_route_def mk_route_def)
  have nonneg: "0 \<le> ka" "0 \<le> kb" "0 \<le> kc" using group_costs_nonneg [OF assms(1)] by (simp_all add: ks)
  have costs: "map_res round_cost ns = Inr [ka, kb, kc]"
    using group_costs [OF assms(1), of "length gs" 0] unfolding nodes ks .
  let ?m = "round_meter (max 0 (n - (ka + (kb + kc))))"
  have c: "costs ?s r ?m = Inr ([ka, kb, kc], ka + (kb + kc) + max 0 (n - (ka + (kb + kc))))"
    using nonneg r(2) costs by (simp add: costs_def round_meter_def)
  have cuts: "balanced_cuts ?s = Inr [True, True, True, True]"
    by (simp add: balanced_cuts_def ns group_balance)
  have head: "skip_head ns = Inr 0" by (simp add: ns group_node_simps)
  have pin: "first_pinned ns 0 2 = 1" by (simp add: first_pinned_def ns group_node_simps upt_rec eval_nat_numeral)
  have "encodable (JArr (map (\<lambda>n. JStr (nd_json n)) (slice 0 1 ns)))"
    using small by (simp add: slice_def ns gs group_node_def message_def canonical_scalar u_scalar_all)
  from encoded_canonical [OF this] obtain x where x: "span sha ?s r [ka, kb, kc] 0 1 = Inr x" "length (pr_source x) = 1"
    by (auto simp: span_def Let_def slice_def ns)
  have "length ns = 3" by (simp add: ns)
  then have "prepare sha ?s r ?m round_policy ''manual'' = Inr (Some x)"
    using c cuts head pin x(1) nonneg by (simp add: prepare_def eval_nat_numeral)
  moreover have "check_policy round_policy = Inr ()"
    by (simp add: check_policy_def round_policy_def default_policy_def)
  ultimately show ?thesis
    using assms(2,3) surf r(1) costs x(2) by (simp add: compactable_end_def)
qed

lemma no_replay: "replay_checkpoints no_sha (u ''read'') (u ''run'') [] gs [] = Inr no_checkpoint"
  by (simp add: replay_checkpoints_def)

lemma fresh_source:
  "\<exists>source. batch_source no_sha transcript_parts no_checkpoint 1 = Inr source \<and> encodable source \<and> high source \<le> 700000"
proof -
  have "take 1 (early_groups @ later_groups) = early_groups" by (simp add: early_groups_def)
  moreover have "encodable (groups_json early_groups)" using sample_encodable by (intro groups_encodable) simp
  moreover have "high (groups_json early_groups) \<le> 300500"
    by (simp add: groups_json_def group_json_def early_groups_def chat_def long_answer)
  ultimately show ?thesis
    using kept_requirements
    by (simp add: batch_source_def transcript_parts_def no_checkpoint_def option_json_def u_scalar_all chat_encodable kept_record_def)
      (simp add: chat_def show_int_def show_nat.simps)
qed

lemma fresh_batch:
  "\<exists>b call. select_batch no_sha transcript_request (u ''run'') 10000000 [] [] transcript_parts no_checkpoint [1] None = Inr (Some b) \<and>
    batch_call no_sha b = Inr call"
proof -
  obtain source where source: "batch_source no_sha transcript_parts no_checkpoint 1 = Inr source" "encodable source" "high source \<le> 700000"
    using fresh_source by blast
  have groups: "pt_groups transcript_parts = early_groups @ later_groups" by (simp add: transcript_parts_def)
  have one: "take 1 (early_groups @ later_groups) = take 1 early_groups" "take 1 early_groups = early_groups"
    by (simp_all add: early_groups_def)
  have info: "batch_meta no_sha [] (pt_groups transcript_parts) 1 = Inr kept_info"
    using kept_info unfolding groups batch_meta_def one .
  have p: "list_all scalar checkpoint_policy" "length checkpoint_policy = 21"
    "list_all scalar checkpoint_prefix" "length checkpoint_prefix = 19"
    "list_all scalar checkpoint_key" "length checkpoint_key = 26"
    by (simp_all add: checkpoint_policy_def checkpoint_prefix_def checkpoint_key_def u_scalar_all)
  have i: "encodable (JObj kept_info)" "high (JObj kept_info) \<le> 1000"
    by (simp_all add: kept_info_def p u_scalar_all show_int_def show_nat.simps)
  have inst: "list_all scalar instruction" "length instruction \<le> 1000"
    by (simp_all add: instruction_def u_scalar_all)
  let ?req = "summary_request transcript_request (u ''run'') source checkpoint_prefix kept_info"
  have "int (length (canonical source)) \<le> 700000"
    using render_size [of "sorted_json source"] text_size_bounds(1) [of "canonical source"] source(3)
    by (simp add: canonical_def sorted_size)
  then have req: "encodable (JObj ?req)" "high (JObj ?req) \<le> 8000000"
    using canonical_scalar [OF source(2)] i inst p
    by (simp_all add: summary_request_def transcript_request_def u_scalar_all show_int_def show_nat.simps)
  obtain n where n: "encode_json (JObj ?req) = Inr (canonical (JObj ?req), n)" "n \<le> 8000000"
    using encode_json_bounds [OF req(1)] req(2) by auto
  have "encodable (groups_json early_groups)" using sample_encodable by (intro groups_encodable) simp
  from encode_json_bounds [OF this] obtain k where k: "encode_json (groups_json early_groups) = Inr (canonical (groups_json early_groups), k)"
    "low (groups_json early_groups) \<le> k" by blast
  have "50000 \<le> low (groups_json early_groups)"
    by (simp add: groups_json_def group_json_def early_groups_def chat_def long_answer)
  moreover have first: "take (Suc 0) early_groups = early_groups" "length early_groups = Suc 0"
    by (simp_all add: early_groups_def)
  moreover have zero: "rp_covered no_checkpoint = 0" by (simp add: no_checkpoint_def)
  ultimately have "select_batch no_sha transcript_request (u ''run'') 10000000 [] [] transcript_parts no_checkpoint [1] None =
      Inr (Some \<lparr>bt_count = 1, bt_key = checkpoint_prefix, bt_request = ?req, bt_meta = kept_info\<rparr>)"
    using source(1) info i(1) n k first by (simp add: no_digest Let_def groups one zero)
  then show ?thesis using n(1) by (simp add: batch_call_def)
qed

theorem summary_call_bounded_witness:
  "\<exists>projected audit call.
    prepare_checkpoint no_sha transcript_request 6 [] 10000000 (u ''read'') (u ''run'') None True True =
      Inr (projected, audit, Some call) \<and>
    (\<exists>t k. encode_json (JObj (mc_request call)) = Inr (t, k) \<and> 100 * k \<le> 85 * 10000000)"
proof -
  have groups: "pt_groups transcript_parts = early_groups @ later_groups" by (simp add: transcript_parts_def)
  obtain audit where audit: "replay_audit no_sha transcript_parts no_checkpoint None = Inr audit"
  proof -
    have "digest no_sha (JArr []) = Inr []" by (rule no_digest) simp
    then show ?thesis
      using that by (simp add: replay_audit_def no_checkpoint_def protected_requirements_def memory_records_def same_json_def)
  qed
  let ?proj = "project transcript_request transcript_parts no_checkpoint None"
  have "encodable (JObj ?proj)"
    by (simp add: project_def transcript_request_def render_messages_def transcript_parts_def no_checkpoint_def Let_def
        early_groups_def later_groups_def chat_encodable u_scalar_all long_answer)
  then obtain n where n: "encode_json (JObj ?proj) = Inr (canonical (JObj ?proj), n)" using encode_plain by blast
  have stop: "compactable_end no_sha (pt_groups transcript_parts) 0 n 10000000 (u ''run'') encode_group True = Inr 1"
    unfolding groups
    by (rule forced_end [OF group_lengths [OF sample_encodable]])
      (use sample_encodable encode_group_bounds(2) in \<open>auto simp: early_groups_def later_groups_def\<close>)
  obtain b call where b: "select_batch no_sha transcript_request (u ''run'') 10000000 [] [] transcript_parts no_checkpoint [1] None = Inr (Some b)"
    "batch_call no_sha b = Inr call" using fresh_batch by blast
  have wanted: "rejected_last [] no_checkpoint = Inr False" "summary_wanted [] ?proj 10000000 True True = Inr True"
    by (simp_all add: rejected_last_def summary_wanted_def)
  have zero: "rp_covered no_checkpoint = 0" by (simp add: no_checkpoint_def)
  have run: "prepare_checkpoint no_sha transcript_request 6 [] 10000000 (u ''read'') (u ''run'') None True True =
      Inr (?proj, audit, Some call)"
    using transcript_message_list transcript_partition anchor_digest no_replay audit wanted n stop b
    by (simp add: prepare_checkpoint_def groups next_summary_def zero)
  from summary_call_bounded [OF run transcript_ok(2)] run show ?thesis by blast
qed

end
