(* ===== verification/EnginePool.thy ===== *)
theory EnginePool
  imports JsonText "HOL-Library.Product_Lexorder"
begin

section \<open>The pool of model engines\<close>

text \<open>
  \<^verbatim>\<open>EnginePool\<close> of \<^verbatim>\<open>src/omlx/engine_pool.py\<close>: which models are known, which of them have an engine
  loaded, the leases of running requests, the choice of a model to evict and the release of its
  memory. Every method that takes the pool's lock is one atomic step. Engines are what the pool
  asks of them: their class, whether they have a tokenizer, what their activity probe answers.
  Clocks and memory gauges are parameters.
\<close>

subsection \<open>Engines and entries\<close>

text \<open>The classes of engines; subclasses of the text and vision engines by their names.\<close>

datatype engine_class = Embedding | Reranker | Stt | Tts | Sts | DFlash | Batched string | Vlm string

text \<open>\<open>has_active_requests\<close> may be missing, answer, or raise.\<close>

datatype activity_probe = NoProbe | Reports bool | ProbeFails

text \<open>\<open>eg_scheduler\<close>: is any of its queues non-empty, if a scheduler can be reached.\<close>

record engine =
  eg_uid :: nat
  eg_class :: engine_class
  eg_tokenizer :: bool
  eg_probe :: activity_probe
  eg_scheduler :: "bool option"

fun is_vlm :: "engine_class \<Rightarrow> bool" where
  "is_vlm (Vlm _) = True"
| "is_vlm _ = False"

fun is_llm :: "engine_class \<Rightarrow> bool" where
  "is_llm (Vlm _) = True"
| "is_llm (Batched _) = True"
| "is_llm DFlash = True"
| "is_llm _ = False"

type_synonym signature = "(string \<times> pystr) list"

record cache_moe =
  cm_tier :: "string option"
  cm_engine :: string

text \<open>\<open>en_uid\<close> is the identity of the entry object.\<close>

record engine_entry =
  en_uid :: nat
  en_path :: pystr
  en_model_type :: string
  en_engine_type :: string
  en_size :: int
  en_text_size :: int
  en_actual :: "int option"
  en_config_type :: string
  en_moe :: "cache_moe option"
  en_engine :: "engine option"
  en_last_access :: rat
  en_loading :: bool
  en_loading_started :: "rat option"
  en_pinned :: bool
  en_abort_loading :: bool
  en_in_use :: int
  en_abort_requested :: bool
  en_pending :: "string option"
  en_signature :: "signature option"
  en_load_failed :: bool
  en_failure_at :: "rat option"

record engine_pool =
  ep_entries :: "(pystr, engine_entry) dict"
  ep_memory :: int
  ep_seconds_per_gb :: "rat option"
  ep_observations :: nat
  ep_suppress_ttl :: bool
  ep_releases :: "pystr list"
  ep_next :: nat

subsection \<open>Lookups\<close>

definition get_entry :: "pystr \<Rightarrow> engine_pool \<Rightarrow> engine_entry option" where
  "get_entry mid s = map_of (ep_entries s) mid"

definition upd_entry :: "pystr \<Rightarrow> (engine_entry \<Rightarrow> engine_entry) \<Rightarrow> engine_pool \<Rightarrow> engine_pool" where
  "upd_entry mid f s = (case get_entry mid s of
     None \<Rightarrow> s | Some e \<Rightarrow> s\<lparr>ep_entries := dict_set mid (f e) (ep_entries s)\<rparr>)"

definition items :: "engine_pool \<Rightarrow> (pystr \<times> engine_entry) list" where
  "items s = map (\<lambda>mid. (mid, the (get_entry mid s))) (map fst (ep_entries s))"

definition is_loaded :: "engine_entry \<Rightarrow> bool" where
  "is_loaded e \<longleftrightarrow> en_engine e \<noteq> None"

definition model_ids :: "engine_pool \<Rightarrow> pystr list" where
  "model_ids s = map fst (ep_entries s)"

definition loaded_model_ids :: "engine_pool \<Rightarrow> pystr list" where
  "loaded_model_ids s = map fst (filter (\<lambda>(_, e). is_loaded e) (ep_entries s))"

definition loaded_model_count :: "engine_pool \<Rightarrow> nat" where
  "loaded_model_count s = length (filter is_loaded (map snd (ep_entries s)))"

definition set_model_pinned :: "pystr \<Rightarrow> bool \<Rightarrow> (engine_pool, bool) method_st" where
  "set_model_pinned mid pinned s = (case get_entry mid s of
     None \<Rightarrow> (Inr False, s)
   | Some _ \<Rightarrow> (Inr True, upd_entry mid (\<lambda>e. e\<lparr>en_pinned := pinned\<rparr>) s))"

definition is_abort_requested :: "pystr option \<Rightarrow> engine_pool \<Rightarrow> bool" where
  "is_abort_requested mid s = (case Option.bind mid (\<lambda>m. get_entry m s) of
     None \<Rightarrow> False | Some e \<Rightarrow> en_abort_requested e)"

subsection \<open>Names\<close>

text \<open>\<open>lower\<close> is \<^verbatim>\<open>str.lower\<close>, which depends on the Unicode tables.\<close>

definition case_insensitive_match :: "(pystr \<Rightarrow> pystr) \<Rightarrow> engine_pool \<Rightarrow> pystr \<Rightarrow> pystr option" where
  "case_insensitive_match lower s name = find (\<lambda>mid. lower mid = lower name) (model_ids s)"

text \<open>What is asked of the settings manager: the source of a profile, and the aliases in order.\<close>

record name_settings =
  ns_profile :: "pystr \<Rightarrow> pystr option"
  ns_aliases :: "(pystr \<times> pystr option) list"

definition alias_match :: "name_settings option \<Rightarrow> pystr \<Rightarrow> pystr option" where
  "alias_match settings name = (case settings of None \<Rightarrow> None
   | Some ns \<Rightarrow> map_option fst (find (\<lambda>(_, a). a = Some name \<and> name \<noteq> []) (ns_aliases ns)))"

definition strip_provider :: "pystr \<Rightarrow> pystr option" where
  "strip_provider name = (if 47 \<in> set name then Some (tl (dropWhile (\<lambda>c. c \<noteq> 47) name)) else None)"

definition first_match :: "pystr option list \<Rightarrow> pystr option" where
  "first_match xs = (case find (\<lambda>x. x \<noteq> None) xs of None \<Rightarrow> None | Some x \<Rightarrow> x)"

definition resolve_model_id :: "(pystr \<Rightarrow> pystr) \<Rightarrow> name_settings option \<Rightarrow> engine_pool \<Rightarrow> pystr \<Rightarrow> pystr" where
  "resolve_model_id lower settings s name =
     (let known = (\<lambda>n. if n \<in> set (model_ids s) then Some n else case_insensitive_match lower s n) in
      case first_match
        ([known name, Option.bind settings (\<lambda>ns. ns_profile ns name), alias_match settings name] @
         (case strip_provider name of None \<Rightarrow> [] | Some n \<Rightarrow> [known n, alias_match settings n])) of
        None \<Rightarrow> name | Some n \<Rightarrow> n)"

subsection \<open>Activity and eviction candidates\<close>

definition has_active_requests :: "engine_entry \<Rightarrow> bool" where
  "has_active_requests e = (case en_engine e of None \<Rightarrow> False
   | Some g \<Rightarrow> (case eg_probe g of NoProbe \<Rightarrow> False | Reports b \<Rightarrow> b | ProbeFails \<Rightarrow> True))"

definition is_busy :: "engine_entry \<Rightarrow> bool" where
  "is_busy e \<longleftrightarrow> en_in_use e > 0 \<or> has_active_requests e"

definition has_reason :: "engine_entry \<Rightarrow> bool" where
  "has_reason e \<longleftrightarrow> (case en_pending e of None \<Rightarrow> False | Some r \<Rightarrow> r \<noteq> [])"

definition evictable :: "engine_entry \<Rightarrow> bool" where
  "evictable e \<longleftrightarrow> is_loaded e \<and> \<not> en_pinned e \<and> \<not> en_in_use e > 0 \<and> \<not> has_active_requests e"

definition pending_ready :: "engine_entry \<Rightarrow> bool" where
  "pending_ready e \<longleftrightarrow> has_reason e \<and> is_loaded e \<and> \<not> en_loading e \<and> \<not> en_pinned e \<and> \<not> is_busy e"

definition idle_for_prefill :: "engine_entry \<Rightarrow> bool" where
  "idle_for_prefill e \<longleftrightarrow> (case en_engine e of None \<Rightarrow> False
   | Some g \<Rightarrow> \<not> en_pinned e \<and> \<not> en_loading e \<and> \<not> en_in_use e > 0 \<and> \<not> has_active_requests e \<and>
       (case eg_scheduler g of None \<Rightarrow> True | Some queued \<Rightarrow> \<not> queued))"

text \<open>\<^verbatim>\<open>candidates.sort()\<close> orders by the last access, then by the name.\<close>

definition least_recent :: "(pystr \<Rightarrow> engine_entry \<Rightarrow> bool) \<Rightarrow> engine_pool \<Rightarrow> pystr option" where
  "least_recent P s =
     (case sort (map (\<lambda>(mid, e). (en_last_access e, mid)) (filter (\<lambda>(mid, e). P mid e) (items s))) of
        [] \<Rightarrow> None | (_, mid) # _ \<Rightarrow> Some mid)"

definition find_lru_victim :: "engine_pool \<Rightarrow> pystr option" where
  "find_lru_victim = least_recent (\<lambda>_. evictable)"

definition find_pending_unload_ready :: "engine_pool \<Rightarrow> pystr option" where
  "find_pending_unload_ready = least_recent (\<lambda>_. pending_ready)"

definition find_prefill_victim :: "pystr \<Rightarrow> engine_pool \<Rightarrow> pystr option" where
  "find_prefill_victim excluded = least_recent (\<lambda>mid e. mid \<noteq> excluded \<and> idle_for_prefill e)"

subsection \<open>Unloading\<close>

text \<open>True when another entry is serving or loading.\<close>

definition other_entries_serving :: "pystr \<Rightarrow> engine_pool \<Rightarrow> bool" where
  "other_entries_serving mid s \<longleftrightarrow> list_ex (\<lambda>(m, e). m \<noteq> mid \<and>
     (en_loading e \<or> is_loaded e \<and> (en_in_use e > 0 \<or> has_active_requests e))) (items s)"

datatype settle_outcome = Settled | Indeterminate | TimedOut

text \<open>The settle_memory barrier: at most ten readings of the memory gauge.\<close>

fun settle_memory :: "(nat \<Rightarrow> int) \<Rightarrow> int \<Rightarrow> int \<Rightarrow> bool \<Rightarrow> nat list \<Rightarrow> settle_outcome" where
  "settle_memory active before expected serving [] = TimedOut"
| "settle_memory active before expected serving (i # is) =
     (if before - active i \<ge> expected then Settled
      else if serving then Indeterminate
      else settle_memory active before expected serving is)"

definition min_expected_freed :: "int \<Rightarrow> int" where
  "min_expected_freed n = max 0 (n - max (2 * 1024 ^ 3) (n * 5 div 100))"

text \<open>
  Where a cancellation (or a failure of the executor) can stop an unload: before the engine is
  dropped, or in the settle_memory barrier behind it. \<open>un_active\<close> are the readings of the memory gauge.
\<close>

datatype unload_cut = Uncut | CutStopping | CutSettling

record unload_run =
  un_cut :: unload_cut
  un_before :: int
  un_active :: "nat \<Rightarrow> int"

definition drop_engine :: "engine_entry \<Rightarrow> engine_entry" where
  "drop_engine e = e\<lparr>en_engine := None, en_last_access := 0, en_actual := None, en_abort_requested := False,
     en_pending := None, en_signature := None\<rparr>"

definition unload_engine :: "unload_run \<Rightarrow> pystr \<Rightarrow> (engine_pool, settle_outcome option) method_st" where
  "unload_engine r mid s = (case get_entry mid s of
     None \<Rightarrow> (Inr None, s)
   | Some e \<Rightarrow>
       if \<not> is_loaded e then (Inr None, s)
       else if un_cut r = CutStopping then (Inl CancelledError, s)
       else (let t = upd_entry mid drop_engine s in
         if un_cut r = CutSettling then (Inl CancelledError, t)
         else (Inr (Some (settle_memory (un_active r) (un_before r) (min_expected_freed (en_size e))
                 (other_entries_serving mid t) [0..<10])),
               t\<lparr>ep_memory := ep_memory t - en_size e\<rparr>)))"

definition unload :: "unload_run \<Rightarrow> pystr \<Rightarrow> (engine_pool, unit) method_st" where
  "unload r mid = bind_st (unload_engine r mid) (\<lambda>_. ret ())"

text \<open>Pending unloads: marked under pressure, carried out when the last lease is gone.\<close>

definition mark_pending_unload :: "pystr \<Rightarrow> string \<Rightarrow> bool \<Rightarrow> (engine_pool, bool) method_st" where
  "mark_pending_unload mid reason abort s = (case get_entry mid s of
     None \<Rightarrow> (Inr False, s)
   | Some e \<Rightarrow>
       if \<not> is_loaded e \<or> en_loading e \<or> en_pinned e then (Inr False, s)
       else (Inr True, upd_entry mid (\<lambda>e. e\<lparr>en_pending := Some reason,
               en_abort_requested := (if abort then True else en_abort_requested e)\<rparr>) s))"

definition unload_pending_if_idle :: "unload_run \<Rightarrow> pystr \<Rightarrow> (engine_pool, bool) method_st" where
  "unload_pending_if_idle r mid s = (case get_entry mid s of
     None \<Rightarrow> (Inr False, s)
   | Some e \<Rightarrow>
       if pending_ready e
       then bind_st (modify (upd_entry mid (\<lambda>e. e\<lparr>en_pending := None, en_abort_requested := False\<rparr>)))
              (\<lambda>_. bind_st (unload r mid) (\<lambda>_. ret True)) s
       else (Inr False, s))"

definition release_lease :: "unload_run \<Rightarrow> pystr \<Rightarrow> (engine_pool, unit) method_st" where
  "release_lease r mid =
     bind_st (modify (upd_entry mid (\<lambda>e. if en_in_use e > 0 then e\<lparr>en_in_use := en_in_use e - 1\<rparr> else e)))
       (\<lambda>_. bind_st (unload_pending_if_idle r mid) (\<lambda>_. ret ()))"

text \<open>
  A release runs as a task of its own, so that it survives the cancellation of the request:
  \<open>release_engine\<close> creates it, \<open>run_release\<close> is the task getting the lock.
\<close>

definition release_engine :: "pystr \<Rightarrow> engine_pool \<Rightarrow> engine_pool" where
  "release_engine mid s = s\<lparr>ep_releases := ep_releases s @ [mid]\<rparr>"

definition run_release :: "unload_run \<Rightarrow> pystr \<Rightarrow> (engine_pool, unit) method_st" where
  "run_release r mid s =
     (if mid \<in> set (ep_releases s) then release_lease r mid (s\<lparr>ep_releases := remove1 mid (ep_releases s)\<rparr>)
      else (Inr (), s))"

definition unload_if_idle_unpinned :: "unload_run \<Rightarrow> rat \<Rightarrow> pystr \<Rightarrow> (engine_pool, bool) method_st" where
  "unload_if_idle_unpinned r now mid s = (case get_entry mid s of
     None \<Rightarrow> (Inr False, s)
   | Some e \<Rightarrow>
       if \<not> is_loaded e \<or> en_loading e \<or> en_pinned e \<or> en_in_use e > 0 then (Inr False, s)
       else if has_active_requests e then (Inr False, upd_entry mid (\<lambda>e. e\<lparr>en_last_access := now\<rparr>) s)
       else bind_st (unload r mid) (\<lambda>_. ret True) s)"

subsection \<open>Idle timeouts\<close>

text \<open>Here the probe is called as it is, without the guard of \<open>has_active_requests\<close>.\<close>

definition probe_active :: "engine_entry \<Rightarrow> bool res" where
  "probe_active e = (case en_engine e of None \<Rightarrow> Inl AttributeError
   | Some g \<Rightarrow> (case eg_probe g of NoProbe \<Rightarrow> Inl AttributeError | ProbeFails \<Rightarrow> Inl RuntimeError
       | Reports b \<Rightarrow> Inr (b \<or> en_in_use e > 0)))"

definition check_ttl_entry ::
    "unload_run \<Rightarrow> (pystr \<Rightarrow> rat option) \<Rightarrow> rat option \<Rightarrow> rat \<Rightarrow> pystr \<Rightarrow> (engine_pool, bool) method_st" where
  "check_ttl_entry r ttl idle_timeout now mid s = (case get_entry mid s of
     None \<Rightarrow> (Inr False, s)
   | Some e \<Rightarrow>
       if \<not> is_loaded e \<or> en_loading e \<or> en_pinned e then (Inr False, s)
       else (case (case ttl mid of None \<Rightarrow> idle_timeout | Some t \<Rightarrow> Some t) of
          None \<Rightarrow> (Inr False, s)
        | Some t \<Rightarrow>
            if now - en_last_access e < t then (Inr False, s)
            else (case probe_active e of
               Inl err \<Rightarrow> (Inl err, s)
             | Inr True \<Rightarrow> (Inr False, upd_entry mid (\<lambda>e. e\<lparr>en_last_access := now\<rparr>) s)
             | Inr False \<Rightarrow> bind_st (unload r mid) (\<lambda>_. ret True) s)))"

fun check_ttl_entries ::
    "(pystr \<Rightarrow> unload_run) \<Rightarrow> (pystr \<Rightarrow> rat option) \<Rightarrow> rat option \<Rightarrow> rat \<Rightarrow> pystr list \<Rightarrow>
      (engine_pool, pystr list) method_st" where
  "check_ttl_entries r ttl idle_timeout now [] = ret []"
| "check_ttl_entries r ttl idle_timeout now (mid # mids) =
     bind_st (check_ttl_entry (r mid) ttl idle_timeout now mid) (\<lambda>gone.
     bind_st (check_ttl_entries r ttl idle_timeout now mids) (\<lambda>expired.
     ret (if gone then mid # expired else expired)))"

definition check_ttl_expirations ::
    "(pystr \<Rightarrow> unload_run) \<Rightarrow> (pystr \<Rightarrow> rat option) \<Rightarrow> rat option \<Rightarrow> rat \<Rightarrow> (engine_pool, pystr list) method_st" where
  "check_ttl_expirations r ttl idle_timeout now s =
     (if ep_suppress_ttl s then (Inr [], s) else check_ttl_entries r ttl idle_timeout now (model_ids s) s)"

end
