(* ===== verification/EngineLoad.thy ===== *)
theory EngineLoad
  imports EnginePool
begin

section \<open>Loading engines\<close>

text \<open>
  \<^verbatim>\<open>get_engine\<close>, \<^verbatim>\<open>_load_engine\<close> and the evictions before a load of \<^verbatim>\<open>src/omlx/engine_pool.py\<close>, with
  discovery and shutdown. What the pool cannot decide itself is in the record of a run: readings of
  clocks and memory gauges, which engine classes start, whether the enforcer asked to abort the
  load, what unlocked code did to the registry meanwhile, and where a cancellation came. Engines
  that are made ready for a start (process-wide scope policies) and texts of messages are left out.
\<close>

subsection \<open>Sizes\<close>

record load_settings =
  ls_mode :: string
  ls_tier :: "string option"
  ls_dflash :: bool
  ls_draft :: "pystr option"

text \<open>The memory profile of a mixture-of-experts checkpoint, read from its files\<close>

record moe_profile =
  mp_full :: int
  mp_recommended :: string
  mp_tiers :: "(string \<times> int) list"

text \<open>
  \<open>sz_scope_env\<close>: the environment names a scope and a store; \<open>sz_deepseek\<close>, \<open>sz_qwen\<close> and
  \<open>sz_estimate\<close> are what the files of the model say.
\<close>

record size_readings =
  sz_scope_env :: bool
  sz_deepseek :: "moe_profile option"
  sz_qwen :: "moe_profile option"
  sz_estimate :: int

definition truthy_text :: "string option \<Rightarrow> bool" where
  "truthy_text t \<longleftrightarrow> t \<noteq> None \<and> t \<noteq> Some []"

definition requested_tier :: "string option \<Rightarrow> string option \<Rightarrow> string" where
  "requested_tier wanted installed =
     (if wanted \<notin> {None, Some ''auto''} then the wanted
      else if truthy_text installed then the installed
      else if truthy_text wanted then the wanted else ''auto'')"

definition tier_size :: "moe_profile option \<Rightarrow> string \<Rightarrow> int option" where
  "tier_size profile tier = (case profile of None \<Rightarrow> None
   | Some p \<Rightarrow> map_of (mp_tiers p) (if tier = ''auto'' then mp_recommended p else tier))"

definition is_deepseek :: "engine_entry \<Rightarrow> bool" where
  "is_deepseek e \<longleftrightarrow> take 11 (en_config_type e) = ''deepseek_v4''"

definition qwen_moe_engine :: "engine_entry \<Rightarrow> bool" where
  "qwen_moe_engine e \<longleftrightarrow> en_config_type e = ''qwen3_5_moe'' \<and>
     (case en_moe e of None \<Rightarrow> False
      | Some m \<Rightarrow> cm_engine m \<in> {''qwen3.6-flesh'', ''qwen3.6-arena'', ''qwen3.6-tiered''})"

text \<open>The size a model will have once loaded, when the settings choose it.\<close>

definition chosen_size :: "load_settings \<Rightarrow> size_readings \<Rightarrow> engine_entry \<Rightarrow> int option" where
  "chosen_size ls z e =
     (if (en_moe e \<noteq> None \<or> is_deepseek e \<and> sz_scope_env z) \<and> ls_mode ls = ''full''
      then Some (case sz_deepseek z of Some p \<Rightarrow> mp_full p | None \<Rightarrow> sz_estimate z)
      else if is_deepseek e \<and> (en_moe e \<noteq> None \<or> sz_scope_env z)
      then tier_size (sz_deepseek z) (requested_tier (ls_tier ls) (Option.bind (en_moe e) cm_tier))
      else if qwen_moe_engine e
      then tier_size (sz_qwen z) (requested_tier (ls_tier ls) (Option.bind (en_moe e) cm_tier))
      else None)"

text \<open>The size the load is admitted by, and the size it will be booked with.\<close>

definition admission_sizes :: "bool \<Rightarrow> load_settings \<Rightarrow> size_readings \<Rightarrow> engine_entry \<Rightarrow> int \<times> int" where
  "admission_sizes force_lm ls z e =
     (let booked = (case chosen_size ls z e of None \<Rightarrow> en_size e | Some n \<Rightarrow> n)
      in (if en_text_size e \<noteq> 0 \<and> (force_lm \<or> en_engine_type e = ''batched'') then en_text_size e else booked,
          booked))"

subsection \<open>Admission\<close>

text \<open>A callback of the enforcer: not wired, raising, or a number\<close>

definition callback_value :: "int res option \<Rightarrow> int" where
  "callback_value c = (case c of Some (Inr n) \<Rightarrow> n | _ \<Rightarrow> 0)"

text \<open>
  \<open>ad_active\<close> and \<open>ad_footprint\<close> are the readings of each round, \<open>ad_unload\<close> how the unload of each
  round goes, \<open>ad_committed\<close> the last reading before a refusal.
\<close>

record admission_run =
  ad_ceiling :: "int res option"
  ad_fallback :: "int res option"
  ad_soft :: "int res option"
  ad_active :: "nat \<Rightarrow> int"
  ad_footprint :: "nat \<Rightarrow> int"
  ad_committed :: int
  ad_unload :: "nat \<Rightarrow> unload_run"

definition ceiling_of :: "admission_run \<Rightarrow> int \<times> bool" where
  "ceiling_of a =
     (let limit = callback_value (ad_ceiling a) in
      if limit \<le> 0 then (callback_value (ad_fallback a), callback_value (ad_fallback a) > 0)
      else (limit, False))"

definition evict_target :: "admission_run \<Rightarrow> int \<Rightarrow> int" where
  "evict_target a limit =
     (let soft = callback_value (ad_soft a) in if soft > 0 then min soft limit else limit)"

definition current_memory :: "admission_run \<Rightarrow> nat \<Rightarrow> engine_pool \<Rightarrow> int" where
  "current_memory a i s = max (ad_active a i) (max (ad_footprint a i) (ep_memory s))"

text \<open>Nothing is left to evict: admit, or refuse.\<close>

definition last_resort :: "admission_run \<Rightarrow> int \<Rightarrow> int \<Rightarrow> bool \<Rightarrow> nat \<Rightarrow> bool \<Rightarrow> (engine_pool, unit) method_st" where
  "last_resort a bytes limit best_effort i evicted s =
     (if current_memory a i s + bytes \<le> limit then (Inr (), s)
      else if evicted \<and> max (ad_committed a) (ep_memory s) + bytes \<le> limit then (Inr (), s)
      else if best_effort then (Inr (), s)
      else (Inl (if bytes > limit then ModelTooLargeError else InsufficientMemoryError), s))"

text \<open>Every round unloads a loaded model, so there are no more rounds than loaded models.\<close>

lemma least_recent_found:
  assumes "least_recent P s = Some mid"
  shows "\<exists>e. get_entry mid s = Some e \<and> P mid e"
proof -
  let ?cs = "map (\<lambda>(mid, e). (en_last_access e, mid)) (filter (\<lambda>(mid, e). P mid e) (items s))"
  obtain t ts where "sort ?cs = (t, mid) # ts"
    using assms by (auto simp: least_recent_def split: list.splits prod.splits)
  then have "(t, mid) \<in> set ?cs" by (metis list.set_intros(1) set_sort)
  then obtain e where "(mid, e) \<in> set (items s)" "P mid e" by auto
  then show ?thesis by (auto simp: items_def model_ids_def get_entry_def dest!: weak_map_of_SomeI)
qed

lemma loaded_count_drop:
  assumes "get_entry mid s = Some e" and "is_loaded e"
  shows "loaded_model_count s = Suc (loaded_model_count (upd_entry mid drop_engine s))"
proof -
  have "map_of d mid = Some e \<Longrightarrow>
      length (filter is_loaded (map snd d)) = Suc (length (filter is_loaded (map snd (dict_set mid (drop_engine e) d))))" for d
    using assms(2) by (induction d) (auto simp: is_loaded_def drop_engine_def)
  then show ?thesis
    using assms(1) by (simp add: get_entry_def loaded_model_count_def upd_entry_def)
qed

function admission_loop ::
    "admission_run \<Rightarrow> int \<Rightarrow> int \<Rightarrow> int \<Rightarrow> bool \<Rightarrow> nat \<Rightarrow> bool \<Rightarrow> (engine_pool, unit) method_st" where
  "admission_loop a bytes limit target best_effort i evicted s =
     (if current_memory a i s + bytes \<le> target then (Inr (), s)
      else (case find_lru_victim s of
        None \<Rightarrow> last_resort a bytes limit best_effort i evicted s
      | Some victim \<Rightarrow>
          (case unload (ad_unload a i) victim s of
             (Inl err, t) \<Rightarrow> (Inl err, t)
           | (Inr _, t) \<Rightarrow> admission_loop a bytes limit target best_effort (i + 1) True t)))"
  by pat_completeness auto
termination
proof (relation "measure (\<lambda>(a, b, c, t, e, i, v, s). loaded_model_count s)", goal_cases)
  case (2 a bytes limit target best_effort i evicted s victim r t x)
  obtain e where e: "get_entry victim s = Some e" "is_loaded e"
    using least_recent_found 2(2) by (fastforce simp: find_lru_victim_def evictable_def)
  then show ?case using 2 loaded_count_drop [OF e]
    by (auto simp: unload_def unload_engine_def bind_st_def ret_def Let_def loaded_model_count_def split: if_splits)
qed simp

declare admission_loop.simps [simp del]

subsection \<open>Which engine is built\<close>

definition ascii_lower :: "string \<Rightarrow> string" where
  "ascii_lower t = map (\<lambda>c. if 65 \<le> (of_char c :: nat) \<and> (of_char c :: nat) \<le> 90
     then char_of (of_char c + 32 :: nat) else c) t"

definition is_diffusion :: "engine_entry \<Rightarrow> bool" where
  "is_diffusion e \<longleftrightarrow>
     map (\<lambda>c. if c = CHR ''-'' then CHR ''_'' else c) (ascii_lower (en_config_type e)) = ''diffusion_gemma''"

text \<open>The variables of the environment that choose an engine class\<close>

record class_env =
  ce_scope :: bool
  ce_glm5 :: bool
  ce_qwen4 :: bool

definition batched_class :: "class_env \<Rightarrow> load_settings \<Rightarrow> engine_entry \<Rightarrow> engine_class" where
  "batched_class env ls e =
     Batched (if is_deepseek e
       then (if ls_mode ls \<noteq> ''full'' \<and> (en_moe e \<noteq> None \<or> ce_scope env)
             then ''DeepseekV4FleshEngine'' else ''BatchedEngine'')
       else if qwen_moe_engine e \<and> ls_mode ls \<noteq> ''full''
       then (case en_moe e of None \<Rightarrow> ''BatchedEngine''
         | Some m \<Rightarrow> if cm_engine m = ''qwen3.6-arena'' then ''Qwen36ArenaEngine''
             else if cm_engine m = ''qwen3.6-tiered'' then ''Qwen36TieredEngine'' else ''Qwen36FleshEngine'')
       else ''BatchedEngine'')"

definition vlm_class :: "class_env \<Rightarrow> load_settings \<Rightarrow> engine_entry \<Rightarrow> engine_class" where
  "vlm_class env ls e =
     Vlm (if en_config_type e = ''glm5_next'' \<and> ce_glm5 env then ''Glm5DynamicVLMEngine''
       else if en_config_type e = ''qwen4_exp'' \<and> ce_qwen4 env then ''Qwen4DynamicVLMEngine''
       else if en_config_type e = ''qwen3_5_moe'' \<and> ls_mode ls \<noteq> ''full'' \<and> en_moe e \<noteq> None
       then ''Qwen36DynamicVLMEngine'' else ''VLMBatchedEngine'')"

definition effective_type :: "bool \<Rightarrow> engine_entry \<Rightarrow> string" where
  "effective_type force_lm e = (if force_lm \<and> en_engine_type e = ''vlm'' then ''batched'' else en_engine_type e)"

definition natural_class :: "bool \<Rightarrow> class_env \<Rightarrow> load_settings \<Rightarrow> engine_entry \<Rightarrow> engine_class" where
  "natural_class force_lm env ls e =
     (let t = effective_type force_lm e in
      if t = ''embedding'' then Embedding else if t = ''reranker'' then Reranker
      else if t = ''vlm'' then vlm_class env ls e
      else if en_engine_type e = ''audio_stt'' then Stt else if en_engine_type e = ''audio_tts'' then Tts
      else if en_engine_type e = ''audio_sts'' then Sts else batched_class env ls e)"

definition wants_dflash :: "load_settings \<Rightarrow> engine_entry \<Rightarrow> bool" where
  "wants_dflash ls e \<longleftrightarrow> ls_dflash ls \<and> ls_draft ls \<noteq> None \<and> ls_draft ls \<noteq> Some [] \<and> \<not> is_diffusion e"

subsection \<open>Starting an engine\<close>

text \<open>The entry object itself, if the registry still has it\<close>

definition still_registered :: "pystr \<Rightarrow> nat \<Rightarrow> engine_pool \<Rightarrow> bool" where
  "still_registered mid uid s \<longleftrightarrow> map_option en_uid (get_entry mid s) = Some uid"

definition upd_object :: "pystr \<Rightarrow> nat \<Rightarrow> (engine_entry \<Rightarrow> engine_entry) \<Rightarrow> engine_pool \<Rightarrow> engine_pool" where
  "upd_object mid uid f s = (if still_registered mid uid s then upd_entry mid f s else s)"

datatype load_cut = Unbroken | CutStarting | CutAttached

text \<open>
  \<open>ld_start\<close>: does an engine of a class start; \<open>ld_abort\<close>: the enforcer asked to abort meanwhile;
  \<open>ld_waiting\<close> and \<open>ld_env\<close>: what unlocked code did to the pool while the engine was starting, and while the
  loaded engine was being finished;
  \<open>ld_fails\<close>: finishing raised.
\<close>

record load_run =
  ld_now :: rat
  ld_started :: rat
  ld_elapsed :: rat
  ld_before :: int
  ld_after :: int
  ld_settings :: load_settings
  ld_classes :: class_env
  ld_dflash_ready :: bool
  ld_start :: "engine_class \<Rightarrow> engine option"
  ld_unload :: "nat \<Rightarrow> unload_run"
  ld_abort :: bool
  ld_waiting :: "engine_pool \<Rightarrow> engine_pool"
  ld_cut :: load_cut
  ld_env :: "engine_pool \<Rightarrow> engine_pool"
  ld_fails :: bool
  ld_signature :: "signature option"

definition dflash_conflict :: "engine_entry \<Rightarrow> bool res" where
  "dflash_conflict e =
     (if en_loading e \<or> en_in_use e > 0 then Inr True
      else (case en_engine e of None \<Rightarrow> Inr False
        | Some g \<Rightarrow> (case eg_probe g of
            ProbeFails \<Rightarrow> Inl RuntimeError
          | Reports True \<Rightarrow> Inr True
          | _ \<Rightarrow> Inr (en_pinned e))))"

definition other_dflash :: "pystr \<Rightarrow> engine_pool \<Rightarrow> (pystr \<times> engine_entry) list" where
  "other_dflash mid s = filter (\<lambda>(m, e). m \<noteq> mid \<and> map_option eg_class (en_engine e) = Some DFlash) (items s)"

definition unload_other_dflash :: "(nat \<Rightarrow> unload_run) \<Rightarrow> pystr \<Rightarrow> (engine_pool, unit) method_st" where
  "unload_other_dflash r mid s =
     (case map_res (\<lambda>(_, e). dflash_conflict e) (other_dflash mid s) of
        Inl err \<Rightarrow> (Inl err, s)
      | Inr blocked \<Rightarrow>
          if True \<in> set blocked then (Inl RuntimeError, s)
          else for_each (enumerate 0 (map fst (other_dflash mid s))) (\<lambda>(i, m). unload (r i) m) s)"

definition try_start :: "load_run \<Rightarrow> engine_class \<Rightarrow> (engine_pool, engine) method_st" where
  "try_start r c = (case ld_start r c of None \<Rightarrow> raise_st RuntimeError | Some g \<Rightarrow> ret g)"

text \<open>The engine type of the entry object when the start has failed: it may have been overridden meanwhile.\<close>

definition type_now :: "pystr \<Rightarrow> engine_entry \<Rightarrow> engine_pool \<Rightarrow> string" where
  "type_now mid e s = (case get_entry mid s of
     Some x \<Rightarrow> if en_uid x = en_uid e then en_engine_type x else en_engine_type e
   | None \<Rightarrow> en_engine_type e)"

definition start_engine :: "load_run \<Rightarrow> bool \<Rightarrow> pystr \<Rightarrow> engine_entry \<Rightarrow> (engine_pool, engine) method_st" where
  "start_engine r force_lm mid e =
     (let first = (if wants_dflash (ld_settings r) e \<and> ld_dflash_ready r then DFlash
                   else natural_class force_lm (ld_classes r) (ld_settings r) e);
          batched = batched_class (ld_classes r) (ld_settings r) e
      in bind_st (if first = DFlash then unload_other_dflash (ld_unload r) mid else ret ()) (\<lambda>_.
         bind_st (modify (ld_waiting r)) (\<lambda>_.
         if ld_cut r = CutStarting then raise_st CancelledError
         else (case ld_start r first of
            Some g \<Rightarrow> ret g
          | None \<Rightarrow>
              if first = DFlash
              then try_start r (if effective_type force_lm e = ''vlm'' then Vlm ''VLMBatchedEngine'' else batched)
              else bind_st (gets (type_now mid e)) (\<lambda>type.
                if force_lm \<and> type = ''vlm'' then try_start r (Vlm ''VLMBatchedEngine'')
                else if type = ''vlm''
                then bind_st (try_start r batched) (\<lambda>g.
                     bind_st (modify (upd_object mid (en_uid e)
                       (\<lambda>e. e\<lparr>en_model_type := ''llm'', en_engine_type := ''batched''\<rparr>))) (\<lambda>_. ret g))
                else raise_st RuntimeError)))))"

definition validate_ready :: "engine option \<Rightarrow> unit res" where
  "validate_ready g = (case g of None \<Rightarrow> Inl ModelLoadingError
   | Some g \<Rightarrow> if is_llm (eg_class g) \<and> \<not> eg_tokenizer g then Inl ModelLoadingError else Inr ())"

definition abort_asked :: "pystr \<Rightarrow> engine_pool \<Rightarrow> bool" where
  "abort_asked mid s = (case get_entry mid s of None \<Rightarrow> False | Some e \<Rightarrow> en_abort_loading e)"

text \<open>Up to the point where the engine is ready to be attached\<close>

definition start_stage :: "load_run \<Rightarrow> bool \<Rightarrow> pystr \<Rightarrow> engine_entry \<Rightarrow> (engine_pool, engine) method_st" where
  "start_stage r force_lm mid e =
     bind_st (modify (upd_entry mid (\<lambda>e. if ld_abort r then e\<lparr>en_abort_loading := True\<rparr> else e))) (\<lambda>_.
     bind_st (start_engine r force_lm mid e) (\<lambda>g.
     bind_st (gets (abort_asked mid)) (\<lambda>abort.
     if abort then raise_st ModelLoadingError
     else (case validate_ready (Some g) of Inl err \<Rightarrow> raise_st err | Inr _ \<Rightarrow> ret g))))"

subsection \<open>Attaching it\<close>

definition clear_load_failure :: "engine_entry \<Rightarrow> engine_entry" where
  "clear_load_failure e = e\<lparr>en_load_failed := False, en_failure_at := None\<rparr>"

definition mark_load_failure :: "rat \<Rightarrow> engine_entry \<Rightarrow> engine_entry" where
  "mark_load_failure now e = e\<lparr>en_load_failed := True, en_failure_at := Some now\<rparr>"

definition attach :: "load_run \<Rightarrow> pystr \<Rightarrow> engine \<Rightarrow> engine_entry \<Rightarrow> engine_pool \<Rightarrow> engine_pool" where
  "attach r mid g e s =
     (upd_object mid (en_uid e) (\<lambda>e. clear_load_failure (e\<lparr>en_engine := Some g, en_last_access := ld_now r\<rparr>)) s)
       \<lparr>ep_memory := ep_memory s + en_size e\<rparr>"

definition observed_size :: "load_run \<Rightarrow> int \<Rightarrow> int" where
  "observed_size r bytes = (let delta = max 0 (ld_after r - ld_before r) in if delta \<noteq> 0 then delta else bytes)"

text \<open>From the attached engine to the end of the load; \<open>True\<close> with the error: the entry was detached.\<close>

definition tail_stage :: "load_run \<Rightarrow> pystr \<Rightarrow> engine_entry \<Rightarrow> engine_pool \<Rightarrow> (py_error \<times> bool) option \<times> engine_pool" where
  "tail_stage r mid e s =
     (let s = ld_env r s in
      if ld_cut r = CutAttached then (Some (CancelledError, False), s)
      else (let s = upd_object mid (en_uid e) (\<lambda>e. e\<lparr>en_signature := ld_signature r\<rparr>) s in
        if ld_fails r then (Some (RuntimeError, False), s)
        else (let s = upd_object mid (en_uid e) (\<lambda>x. x\<lparr>en_actual := Some (observed_size r (en_size e))\<rparr>) s in
          if still_registered mid (en_uid e) s then (None, s)
          else (Some (ModelLoadingError, True), s\<lparr>ep_memory := max 0 (ep_memory s - en_size e)\<rparr>))))"

subsection \<open>The whole load\<close>

definition load_speed :: "load_run \<Rightarrow> int \<Rightarrow> engine_pool \<Rightarrow> engine_pool" where
  "load_speed r bytes s =
     (let elapsed = max 0 (ld_elapsed r); sample = elapsed / (of_int bytes / 1024 ^ 3) in
      if bytes > 0 \<and> elapsed > 0
      then s\<lparr>ep_seconds_per_gb := Some (case ep_seconds_per_gb s of None \<Rightarrow> sample
                | Some x \<Rightarrow> x * (9 / 10) + sample * (1 / 10)),
             ep_observations := ep_observations s + 1\<rparr>
      else s)"

definition end_load :: "load_run \<Rightarrow> bool \<Rightarrow> pystr \<Rightarrow> engine_entry \<Rightarrow> engine_pool \<Rightarrow> engine_pool" where
  "end_load r completed mid e s =
     upd_object mid (en_uid e) (\<lambda>e. e\<lparr>en_loading := False, en_loading_started := None, en_abort_loading := False\<rparr>)
       (if completed then load_speed r (en_size e) s else s)"

text \<open>The handler of \<^verbatim>\<open>except Exception\<close>: it keeps the failure, unless the load was aborted or detached.\<close>

definition failed_load :: "load_run \<Rightarrow> pystr \<Rightarrow> engine_entry \<Rightarrow> py_error \<Rightarrow> bool \<Rightarrow> engine_pool \<Rightarrow> py_error \<times> engine_pool" where
  "failed_load r mid e err detached s =
     (if err = CancelledError then (err, s)
      else if \<not> abort_asked mid s \<and> \<not> detached
      then (ModelUnavailableError, upd_object mid (en_uid e) (mark_load_failure (ld_now r)) s)
      else (err, s))"

definition load_engine :: "load_run \<Rightarrow> bool \<Rightarrow> pystr \<Rightarrow> (engine_pool, unit) method_st" where
  "load_engine r force_lm mid s = (case get_entry mid s of
     None \<Rightarrow> (Inl KeyError, s)
   | Some e \<Rightarrow>
       if en_loading e then (Inl ModelLoadingError, s)
       else (let s = upd_entry mid (\<lambda>e. e\<lparr>en_loading := True, en_loading_started := Some (ld_started r),
                       en_abort_loading := False\<rparr>) s in
         (case start_stage r force_lm mid e s of
            (Inl err, s) \<Rightarrow>
              (case failed_load r mid e err False s of (err, s) \<Rightarrow> (Inl err, end_load r False mid e s))
          | (Inr g, s) \<Rightarrow>
              (case tail_stage r mid e (attach r mid g e s) of
                 (None, s) \<Rightarrow> (Inr (), end_load r True mid e s)
               | (Some (err, detached), s) \<Rightarrow>
                   (case failed_load r mid e err detached s of
                      (err, s) \<Rightarrow> (Inl err, end_load r True mid e s))))))"

end
