(* ===== verification/EngineOps.thy ===== *)
theory EngineOps
  imports EngineLoad
begin

section \<open>The operations of the pool\<close>

text \<open>
  \<^verbatim>\<open>get_engine\<close> with its lease, eviction for a prefill, discovery, preloading, shutdown, and the
  unloads that the admin routes start without the pool's lock, of \<^verbatim>\<open>src/omlx/engine_pool.py\<close>.
\<close>

definition init_pool :: engine_pool where
  "init_pool = \<lparr>ep_entries = [], ep_memory = 0, ep_seconds_per_gb = None, ep_observations = 0,
     ep_suppress_ttl = False, ep_releases = [], ep_next = 0\<rparr>"

subsection \<open>Getting an engine\<close>

text \<open>
  \<open>gr_runtime\<close>: runtime settings were given; \<open>gr_expected\<close>: the signature of the settings;
  \<open>gr_path\<close>: the directory of the model and its configuration file exist.
\<close>

record get_run =
  gr_expected :: "signature option"
  gr_runtime :: bool
  gr_now :: rat
  gr_path :: bool
  gr_settings :: load_settings
  gr_sizes :: size_readings
  gr_variant_unload :: unload_run
  gr_lm_unload :: unload_run
  gr_admission :: admission_run
  gr_load :: load_run

definition variant_changed :: "get_run \<Rightarrow> engine_entry \<Rightarrow> bool" where
  "variant_changed r e \<longleftrightarrow>
     gr_expected r \<noteq> None \<and> en_signature e \<noteq> None \<and> en_signature e \<noteq> gr_expected r \<or>
     gr_runtime r \<and> en_signature e = None"

definition on_entry :: "pystr \<Rightarrow> (engine_entry \<Rightarrow> (engine_pool, 'a) method_st) \<Rightarrow> (engine_pool, 'a) method_st" where
  "on_entry mid f s = (case get_entry mid s of None \<Rightarrow> (Inl KeyError, s) | Some e \<Rightarrow> f e s)"

text \<open>An engine that has to be built anew is unloaded, unless it is busy; the answer: was it?\<close>

definition reload_if :: "(engine_entry \<Rightarrow> bool) \<Rightarrow> unload_run \<Rightarrow> pystr \<Rightarrow> (engine_pool, bool) method_st" where
  "reload_if P r mid = on_entry mid (\<lambda>e.
     if is_loaded e \<and> P e
     then (if is_busy e then raise_st ModelBusyError else bind_st (unload r mid) (\<lambda>_. ret True))
     else ret False)"

definition needs_lm :: "bool \<Rightarrow> engine_entry \<Rightarrow> bool" where
  "needs_lm force_lm e \<longleftrightarrow> force_lm \<and> (case en_engine e of None \<Rightarrow> False | Some g \<Rightarrow> is_vlm (eg_class g))"

definition take_lease :: "bool \<Rightarrow> engine_entry \<Rightarrow> engine_entry" where
  "take_lease lease e = (if lease then e\<lparr>en_in_use := en_in_use e + 1\<rparr> else e)"

text \<open>An engine that is loaded already\<close>

definition use_loaded :: "get_run \<Rightarrow> bool \<Rightarrow> pystr \<Rightarrow> (engine_pool, engine) method_st" where
  "use_loaded r lease mid = on_entry mid (\<lambda>e.
     case validate_ready (en_engine e) of
       Inl err \<Rightarrow> raise_st err
     | Inr _ \<Rightarrow>
         bind_st (modify (upd_entry mid (\<lambda>e. take_lease lease (e\<lparr>
           en_signature := (if en_signature e = None then gr_expected r else en_signature e),
           en_last_access := gr_now r\<rparr>))))
         (\<lambda>_. ret (the (en_engine e))))"

definition check_path :: "bool \<Rightarrow> pystr \<Rightarrow> (engine_pool, unit) method_st" where
  "check_path exists mid = on_entry mid (\<lambda>e.
     if exists then ret ()
     else bind_st (modify (\<lambda>s. if is_loaded e then s else s\<lparr>ep_entries := dict_del mid (ep_entries s)\<rparr>))
            (\<lambda>_. raise_st ModelNotFoundError))"

definition check_failed :: "pystr \<Rightarrow> (engine_pool, unit) method_st" where
  "check_failed mid = on_entry mid (\<lambda>e. if en_load_failed e then raise_st ModelUnavailableError else ret ())"

text \<open>Room is made for the model, or it is refused. Without a limit, everything is admitted.\<close>

definition admit :: "get_run \<Rightarrow> bool \<Rightarrow> bool \<Rightarrow> pystr \<Rightarrow> (engine_pool, unit) method_st" where
  "admit r force_lm unloaded mid = on_entry mid (\<lambda>e.
     case admission_sizes force_lm (gr_settings r) (gr_sizes r) e of (bytes, booked) \<Rightarrow>
     case ceiling_of (gr_admission r) of (limit, best_effort) \<Rightarrow>
       bind_st (modify (upd_entry mid (\<lambda>e. e\<lparr>en_size := booked\<rparr>))) (\<lambda>_.
       if limit > 0
       then admission_loop (gr_admission r) bytes limit (evict_target (gr_admission r) limit) best_effort 0 unloaded
       else ret ()))"

definition hand_out :: "bool \<Rightarrow> pystr \<Rightarrow> (engine_pool, engine) method_st" where
  "hand_out lease mid = on_entry mid (\<lambda>e.
     case validate_ready (en_engine e) of
       Inl err \<Rightarrow> raise_st err
     | Inr _ \<Rightarrow> bind_st (modify (upd_entry mid (take_lease lease))) (\<lambda>_. ret (the (en_engine e))))"

definition load_anew :: "get_run \<Rightarrow> bool \<Rightarrow> bool \<Rightarrow> bool \<Rightarrow> pystr \<Rightarrow> (engine_pool, engine) method_st" where
  "load_anew r force_lm lease unloaded mid =
     bind_st (check_path (gr_path r) mid) (\<lambda>_.
     bind_st (check_failed mid) (\<lambda>_.
     bind_st (admit r force_lm unloaded mid) (\<lambda>_.
     bind_st (load_engine (gr_load r) force_lm mid) (\<lambda>_.
     hand_out lease mid))))"

definition get_engine :: "get_run \<Rightarrow> bool \<Rightarrow> bool \<Rightarrow> pystr \<Rightarrow> (engine_pool, engine) method_st" where
  "get_engine r force_lm lease mid s =
     (if get_entry mid s = None then (Inl ModelNotFoundError, s)
      else bind_st (reload_if (variant_changed r) (gr_variant_unload r) mid) (\<lambda>changed.
           bind_st (reload_if (needs_lm force_lm) (gr_lm_unload r) mid) (\<lambda>as_lm.
           on_entry mid (\<lambda>e. if is_loaded e then use_loaded r lease mid
             else load_anew r force_lm lease (changed \<or> as_lm) mid))) s)"

subsection \<open>Room for a prefill\<close>

text \<open>
  \<open>pr_active\<close> and \<open>pr_footprint\<close> are the readings of each round. Returning pooled buffers to the
  system is tried once and changes the readings only.
\<close>

record prefill_run =
  pr_target :: int
  pr_predicted :: int
  pr_active :: "nat \<Rightarrow> int"
  pr_footprint :: "nat \<Rightarrow> int"
  pr_unload :: "nat \<Rightarrow> unload_run"

function prefill_loop :: "prefill_run \<Rightarrow> pystr \<Rightarrow> nat \<Rightarrow> bool \<Rightarrow> bool \<Rightarrow> (engine_pool, bool) method_st" where
  "prefill_loop r excluded i evicted reclaimed s =
     (if max (pr_active r i) (max (pr_footprint r i) (ep_memory s)) + pr_predicted r \<le> pr_target r
      then (Inr (evicted \<or> reclaimed), s)
      else (case find_prefill_victim excluded s of
        None \<Rightarrow> if reclaimed then (Inr evicted, s) else prefill_loop r excluded (i + 1) evicted True s
      | Some victim \<Rightarrow>
          (case unload (pr_unload r i) victim s of
             (Inl err, t) \<Rightarrow> (Inl err, t)
           | (Inr _, t) \<Rightarrow> prefill_loop r excluded (i + 1) True reclaimed t)))"
  by pat_completeness auto
termination
proof (relation "measures [\<lambda>(r, x, i, v, c, s). loaded_model_count s, \<lambda>(r, x, i, v, c, s). if c then 0 else 1]",
    goal_cases)
  case (3 r excluded i evicted reclaimed s victim b t x)
  obtain e where e: "get_entry victim s = Some e" "is_loaded e"
    using least_recent_found 3(2) by (fastforce simp: find_prefill_victim_def idle_for_prefill_def is_loaded_def)
  then show ?case using 3 loaded_count_drop [OF e]
    by (auto simp: unload_def unload_engine_def bind_st_def ret_def Let_def loaded_model_count_def split: if_splits)
qed simp_all

declare prefill_loop.simps [simp del]

definition evict_idle_for_prefill :: "prefill_run \<Rightarrow> pystr \<Rightarrow> (engine_pool, bool) method_st" where
  "evict_idle_for_prefill r excluded =
     (if pr_target r \<le> 0 \<or> pr_predicted r \<le> 0 then ret False else prefill_loop r excluded 0 False False)"

subsection \<open>The registry\<close>

text \<open>What discovery reports of a model, as far as the pool looks at it\<close>

record model_info =
  mi_path :: pystr
  mi_model_type :: string
  mi_engine_type :: string
  mi_size :: int
  mi_text_size :: int
  mi_config_type :: string
  mi_moe :: "cache_moe option"

definition fresh_entry :: "nat \<Rightarrow> bool \<Rightarrow> model_info \<Rightarrow> engine_entry" where
  "fresh_entry uid pinned info = \<lparr>en_uid = uid, en_path = mi_path info, en_model_type = mi_model_type info,
     en_engine_type = mi_engine_type info, en_size = mi_size info, en_text_size = mi_text_size info,
     en_actual = None, en_config_type = mi_config_type info, en_moe = mi_moe info, en_engine = None,
     en_last_access = 0, en_loading = False, en_loading_started = None, en_pinned = pinned,
     en_abort_loading = False, en_in_use = 0, en_abort_requested = False, en_pending = None,
     en_signature = None, en_load_failed = False, en_failure_at = None\<rparr>"

definition in_flight :: "engine_entry \<Rightarrow> bool" where
  "in_flight e \<longleftrightarrow> is_loaded e \<or> en_loading e"

definition discover_one :: "pystr set \<Rightarrow> pystr \<times> model_info \<Rightarrow> engine_pool \<Rightarrow> engine_pool" where
  "discover_one pinned = (\<lambda>(mid, info) s. case get_entry mid s of
     Some e \<Rightarrow> if in_flight e then upd_entry mid (\<lambda>e. e\<lparr>en_pinned := (mid \<in> pinned)\<rparr>) s
       else s\<lparr>ep_entries := dict_set mid (fresh_entry (ep_next s) (mid \<in> pinned) info) (ep_entries s),
              ep_next := ep_next s + 1\<rparr>
   | None \<Rightarrow> s\<lparr>ep_entries := dict_set mid (fresh_entry (ep_next s) (mid \<in> pinned) info) (ep_entries s),
              ep_next := ep_next s + 1\<rparr>)"

definition discover_models :: "(pystr, model_info) dict \<Rightarrow> pystr set \<Rightarrow> engine_pool \<Rightarrow> engine_pool" where
  "discover_models discovered pinned s =
     (let t = fold (discover_one pinned) discovered s in
      t\<lparr>ep_entries := filter (\<lambda>(mid, e). mid \<in> set (map fst discovered) \<or> in_flight e) (ep_entries t)\<rparr>)"

definition engine_of_type :: "string \<Rightarrow> string" where
  "engine_of_type t =
     (if t \<in> {''vlm'', ''embedding'', ''reranker'', ''audio_stt'', ''audio_tts'', ''audio_sts''} then t else ''batched'')"

definition override_type :: "string option \<Rightarrow> engine_entry \<Rightarrow> engine_entry" where
  "override_type wanted e = (case wanted of None \<Rightarrow> e
   | Some t \<Rightarrow> if t = [] then e else e\<lparr>en_model_type := t, en_engine_type := engine_of_type t\<rparr>)"

definition apply_settings_overrides :: "(pystr \<Rightarrow> string option) \<Rightarrow> engine_pool \<Rightarrow> engine_pool" where
  "apply_settings_overrides override s =
     s\<lparr>ep_entries := map (\<lambda>(mid, e). (mid, override_type (override mid) e)) (ep_entries s)\<rparr>"

subsection \<open>Start and end of the server\<close>

text \<open>\<^verbatim>\<open>except Exception\<close>: everything but a cancellation is logged and forgotten.\<close>

definition swallow :: "(engine_pool, 'a) method_st \<Rightarrow> (engine_pool, unit) method_st" where
  "swallow m s = (case m s of (Inl err, t) \<Rightarrow> (if err = CancelledError then Inl err else Inr (), t) | (Inr _, t) \<Rightarrow> (Inr (), t))"

definition preload_pinned_models :: "(pystr \<Rightarrow> get_run) \<Rightarrow> (engine_pool, unit) method_st" where
  "preload_pinned_models r s =
     for_each (map fst (filter (\<lambda>(_, e). en_pinned e) (ep_entries s)))
       (\<lambda>mid. swallow (get_engine (r mid) False False mid)) s"

text \<open>\<open>drain_releases\<close>: every release that was started is waited for.\<close>

definition drain_releases :: "(nat \<Rightarrow> unload_run) \<Rightarrow> (engine_pool, unit) method_st" where
  "drain_releases r s = for_each (enumerate 0 (ep_releases s))
     (\<lambda>(i, mid) s. case run_release (r i) mid s of (_, t) \<Rightarrow> (Inr (), t)) s"

definition shutdown_pool :: "(nat \<Rightarrow> unload_run) \<Rightarrow> (pystr \<Rightarrow> unload_run) \<Rightarrow> (engine_pool, unit) method_st" where
  "shutdown_pool released r =
     bind_st (drain_releases released) (\<lambda>_ s. for_each (model_ids s) (\<lambda>mid. swallow (unload (r mid) mid)) s)"

subsection \<open>Unloads without the lock\<close>

text \<open>
  The admin and server routes, the benchmarks and the model tool call \<open>unload_engine\<close> without
  the lock. Its first half looks the entry up and stops the engine, which suspends; the second half
  drops the engine of the entry object it found and takes its bytes off the books.
\<close>

definition begin_unload :: "pystr \<Rightarrow> engine_pool \<Rightarrow> (pystr \<times> engine_entry) option" where
  "begin_unload mid s = (case get_entry mid s of None \<Rightarrow> None
     | Some e \<Rightarrow> if is_loaded e then Some (mid, e) else None)"

definition finish_unload :: "pystr \<times> engine_entry \<Rightarrow> engine_pool \<Rightarrow> engine_pool" where
  "finish_unload = (\<lambda>(mid, e) s.
     (let n = (if still_registered mid (en_uid e) s then en_size (the (get_entry mid s)) else en_size e)
      in (upd_object mid (en_uid e) drop_engine s)\<lparr>ep_memory := ep_memory s - n\<rparr>))"

text \<open>The end of the deletion of a model\<close>

definition forget_model :: "pystr \<Rightarrow> engine_pool \<Rightarrow> engine_pool" where
  "forget_model mid s = s\<lparr>ep_entries := dict_del mid (ep_entries s)\<rparr>"

end
