(* ===== verification/EngineSignature.thy ===== *)
theory EngineSignature
  imports EngineOps
begin

section \<open>The signature of an engine's settings\<close>

text \<open>
  \<^verbatim>\<open>_engine_runtime_signature\<close> of \<^verbatim>\<open>src/omlx/engine_pool.py\<close>: what of the settings decides how an
  engine is built. \<open>get_engine\<close> rebuilds a loaded engine when the signature of the settings
  it is asked for differs from the one it was built with. \<^verbatim>\<open>repr\<close>, \<^verbatim>\<open>json.dumps\<close> and \<^verbatim>\<open>int\<close> of a
  number or text are parameters.
\<close>

type_synonym settings = "(string \<times> json) list"

record python_text =
  pt_repr :: "json \<Rightarrow> pystr"
  pt_dumps :: "json \<Rightarrow> pystr"
  pt_int :: "json \<Rightarrow> int option"

definition canonical_signature_value :: "python_text \<Rightarrow> json \<Rightarrow> pystr" where
  "canonical_signature_value p v =
     (case v of JArr _ \<Rightarrow> pt_dumps p v | JObj _ \<Rightarrow> pt_dumps p v | _ \<Rightarrow> pt_repr p v)"

text \<open>\<^verbatim>\<open>data.get(key, default)\<close>\<close>

definition setting_or :: "json \<Rightarrow> string \<Rightarrow> settings \<Rightarrow> json" where
  "setting_or d k data = (case map_of data k of None \<Rightarrow> d | Some v \<Rightarrow> v)"

abbreviation setting :: "string \<Rightarrow> settings \<Rightarrow> json" where
  "setting \<equiv> setting_or JNull"

definition flag :: "string \<Rightarrow> settings \<Rightarrow> bool" where
  "flag k data = truthy (setting k data)"

definition has_value :: "string \<Rightarrow> settings \<Rightarrow> bool" where
  "has_value k data \<longleftrightarrow> setting k data \<noteq> JNull \<and> setting k data \<noteq> JStr []"

definition index_cache_freq :: "python_text \<Rightarrow> settings \<Rightarrow> json" where
  "index_cache_freq p data =
     (case (case setting ''index_cache_freq'' data of
         JInt i \<Rightarrow> Some i | JBool b \<Rightarrow> Some (if b then 1 else 0)
       | JFloat t \<Rightarrow> pt_int p (JFloat t) | JStr t \<Rightarrow> pt_int p (JStr t) | _ \<Rightarrow> None) of
        None \<Rightarrow> JNull | Some i \<Rightarrow> if i \<ge> 2 then JInt i else JNull)"

definition or_text :: "string \<Rightarrow> json \<Rightarrow> json" where
  "or_text t v = (if truthy v then v else JStr (u t))"

subsection \<open>The parts of the signature\<close>

type_synonym sig_values = "(string \<times> json) list"

definition base_part :: "python_text \<Rightarrow> settings \<Rightarrow> sig_values" where
  "base_part p data =
     [(''trust_remote_code'', JBool (flag ''trust_remote_code'' data)),
      (''index_cache_freq'', index_cache_freq p data),
      (''mtp_enabled'', JBool (flag ''mtp_enabled'' data))]"

definition moe_part :: "engine_entry option \<Rightarrow> settings \<Rightarrow> sig_values" where
  "moe_part entry data = (case entry of None \<Rightarrow> []
   | Some e \<Rightarrow> if is_deepseek e \<or> qwen_moe_engine e
       then [(''moe_execution_mode'', or_text ''cached'' (setting ''moe_execution_mode'' data)),
             (''cache_moe_memory_tier'', or_text ''auto'' (setting ''cache_moe_memory_tier'' data))]
       else [])"

definition turboquant_part :: "settings \<Rightarrow> sig_values" where
  "turboquant_part data =
     (''turboquant_kv_enabled'', JBool (flag ''turboquant_kv_enabled'' data)) #
     (if flag ''turboquant_kv_enabled'' data
      then [(''turboquant_kv_bits'', setting_or (JInt 4) ''turboquant_kv_bits'' data),
            (''turboquant_skip_last'', setting_or (JBool True) ''turboquant_skip_last'' data)]
      else [])"

definition specprefill_active :: "settings \<Rightarrow> bool" where
  "specprefill_active data \<longleftrightarrow> flag ''specprefill_enabled'' data \<and> has_value ''specprefill_draft_model'' data"

definition specprefill_part :: "settings \<Rightarrow> sig_values" where
  "specprefill_part data =
     (''specprefill_enabled'', JBool (specprefill_active data)) #
     (if specprefill_active data
      then [(''specprefill_draft_model'', setting ''specprefill_draft_model'' data),
            (''specprefill_keep_pct'', setting_or (JFloat (u ''0.2'')) ''specprefill_keep_pct'' data),
            (''specprefill_threshold'', setting ''specprefill_threshold'' data)]
      else [])"

definition dflash_active :: "engine_entry option \<Rightarrow> settings \<Rightarrow> bool" where
  "dflash_active entry data \<longleftrightarrow> flag ''dflash_enabled'' data \<and> has_value ''dflash_draft_model'' data \<and>
     \<not> (case entry of None \<Rightarrow> False | Some e \<Rightarrow> is_diffusion e)"

definition dflash_quant :: "settings \<Rightarrow> sig_values" where
  "dflash_quant data =
     (''dflash_draft_quant_enabled'', JBool (flag ''dflash_draft_quant_enabled'' data)) #
     (if flag ''dflash_draft_quant_enabled'' data
      then [(''dflash_draft_quant_weight_bits'', setting_or (JInt 4) ''dflash_draft_quant_weight_bits'' data),
            (''dflash_draft_quant_activation_bits'', setting_or (JInt 16) ''dflash_draft_quant_activation_bits'' data),
            (''dflash_draft_quant_group_size'', setting_or (JInt 64) ''dflash_draft_quant_group_size'' data)]
      else [])"

definition dflash_caches :: "settings \<Rightarrow> sig_values" where
  "dflash_caches data =
     [(''dflash_max_ctx'', setting ''dflash_max_ctx'' data),
      (''dflash_in_memory_cache'', setting_or (JBool True) ''dflash_in_memory_cache'' data),
      (''dflash_in_memory_cache_max_entries'', setting_or (JInt 4) ''dflash_in_memory_cache_max_entries'' data),
      (''dflash_in_memory_cache_max_bytes'', setting ''dflash_in_memory_cache_max_bytes'' data),
      (''dflash_ssd_cache'', JBool (flag ''dflash_ssd_cache'' data))] @
     (if flag ''dflash_ssd_cache'' data
      then [(''dflash_ssd_cache_max_bytes'', setting ''dflash_ssd_cache_max_bytes'' data)] else []) @
     [(''dflash_draft_window_size'', setting ''dflash_draft_window_size'' data),
      (''dflash_draft_sink_size'', setting ''dflash_draft_sink_size'' data),
      (''dflash_verify_mode'', setting ''dflash_verify_mode'' data)]"

definition dflash_part :: "engine_entry option \<Rightarrow> settings \<Rightarrow> sig_values" where
  "dflash_part entry data =
     (''dflash_enabled'', JBool (dflash_active entry data)) #
     (if dflash_active entry data
      then (''dflash_draft_model'', setting ''dflash_draft_model'' data) # dflash_quant data @ dflash_caches data
      else [])"

definition vlm_mtp_active :: "settings \<Rightarrow> bool" where
  "vlm_mtp_active data \<longleftrightarrow> flag ''vlm_mtp_enabled'' data \<and> has_value ''vlm_mtp_draft_model'' data"

definition vlm_mtp_part :: "settings \<Rightarrow> sig_values" where
  "vlm_mtp_part data =
     (''vlm_mtp_enabled'', JBool (vlm_mtp_active data)) #
     (if vlm_mtp_active data
      then [(''vlm_mtp_draft_model'', setting ''vlm_mtp_draft_model'' data),
            (''vlm_mtp_draft_block_size'', setting ''vlm_mtp_draft_block_size'' data)]
      else [])"

definition signature_values :: "python_text \<Rightarrow> engine_entry option \<Rightarrow> settings \<Rightarrow> sig_values" where
  "signature_values p entry data =
     base_part p data @ moe_part entry data @ turboquant_part data @ specprefill_part data @
     dflash_part entry data @ vlm_mtp_part data"

text \<open>\<open>given\<close> are the settings of this request, \<open>kept\<close> those of the settings manager.\<close>

definition engine_runtime_signature ::
    "python_text \<Rightarrow> settings option \<Rightarrow> settings option \<Rightarrow> pystr \<Rightarrow> engine_pool \<Rightarrow> signature option" where
  "engine_runtime_signature p given kept mid s =
     (case (if given = None then kept else given) of
        None \<Rightarrow> None
      | Some data \<Rightarrow> Some (map (\<lambda>(k, v). (k, canonical_signature_value p v))
          (signature_values p (get_entry mid s) data)))"

end
