(* ===== verification/EngineInvariant.thy ===== *)
theory EngineInvariant
  imports EngineSignature
begin

section \<open>What the operations of the pool keep\<close>

text \<open>
  A property of pools that survives the small changes the operations are made of survives the
  operations. The locale \<open>pool_property\<close> states those changes as assumptions and proves this once; it is
  interpreted for the consistency of the pool, for an engine with a lease, and for a pinned engine.
\<close>

subsection \<open>Small changes\<close>

definition slot_ok :: "engine_entry \<Rightarrow> bool" where
  "slot_ok e \<longleftrightarrow> 0 \<le> en_in_use e \<and>
     (\<not> is_loaded e \<longrightarrow> en_pending e = None \<and> \<not> en_abort_requested e \<and> en_signature e = None \<and> en_actual e = None)"

text \<open>A change of an entry that leaves its engine, its pin and its booked bytes alone\<close>

definition gentle :: "engine_entry \<Rightarrow> engine_entry \<Rightarrow> bool" where
  "gentle e e' \<longleftrightarrow> en_uid e' = en_uid e \<and> en_engine e' = en_engine e \<and> en_pinned e' = en_pinned e \<and>
     (is_loaded e \<longrightarrow> en_size e' = en_size e) \<and> en_in_use e \<le> en_in_use e' \<and> (slot_ok e \<longrightarrow> slot_ok e')"

definition drop_lease :: "engine_entry \<Rightarrow> engine_entry" where
  "drop_lease e = (if en_in_use e > 0 then e\<lparr>en_in_use := en_in_use e - 1\<rparr> else e)"

text \<open>
  What the steps may do: \<open>al_unload\<close> how an unload may go, \<open>al_reload\<close> the models that may be unpinned, or
  rebuilt although they are pinned, \<open>al_release\<close> the models whose leases may end, \<open>al_force\<close> the models that
  may be unloaded by force or deleted, \<open>al_race\<close> those of which unlocked unloads may even overlap with
  other unloads, loads and deletions.
\<close>

record allowed =
  al_unload :: "unload_run \<Rightarrow> bool"
  al_reload :: "pystr set"
  al_release :: "pystr set"
  al_force :: "pystr set"
  al_race :: "pystr set"

text \<open>
  What runs without the lock while model \<open>mid\<close> is being loaded: calls that leave engines alone, and forced
  unloads and deletions of other models
\<close>

inductive unlocked :: "allowed \<Rightarrow> pystr \<Rightarrow> (engine_pool \<Rightarrow> engine_pool) \<Rightarrow> bool" for A mid where
  quiet_id: "unlocked A mid (\<lambda>s. s)"
| quiet_pin: "unlocked A mid f \<Longrightarrow> b \<or> m \<in> al_reload A \<Longrightarrow> unlocked A mid (\<lambda>s. snd (set_model_pinned m b (f s)))"
| quiet_mark: "unlocked A mid f \<Longrightarrow> unlocked A mid (\<lambda>s. snd (mark_pending_unload m reason abort (f s)))"
| quiet_discover: "unlocked A mid f \<Longrightarrow> - al_reload A \<subseteq> pinned \<Longrightarrow> unlocked A mid (\<lambda>s. discover_models found pinned (f s))"
| quiet_override: "unlocked A mid f \<Longrightarrow> unlocked A mid (\<lambda>s. apply_settings_overrides override (f s))"
| quiet_release: "unlocked A mid f \<Longrightarrow> unlocked A mid (\<lambda>s. release_engine m (f s))"
| quiet_force: "unlocked A mid f \<Longrightarrow> al_unload A r \<Longrightarrow> m \<in> al_force A - {mid} \<Longrightarrow> unlocked A mid (\<lambda>s. snd (unload r m (f s)))"
| quiet_race: "unlocked A mid f \<Longrightarrow> m \<in> al_race A - {mid} \<Longrightarrow> unlocked A mid (\<lambda>s. finish_unload (m, e) (f s))"
| quiet_forget: "unlocked A mid f \<Longrightarrow> m \<in> al_race A - {mid} \<Longrightarrow> unlocked A mid (\<lambda>s. forget_model m (f s))"

definition load_ok :: "allowed \<Rightarrow> pystr \<Rightarrow> load_run \<Rightarrow> bool" where
  "load_ok A mid r \<longleftrightarrow> unlocked A mid (ld_waiting r) \<and> unlocked A mid (ld_env r) \<and> (\<forall>i. al_unload A (ld_unload r i))"

definition get_ok :: "allowed \<Rightarrow> pystr \<Rightarrow> get_run \<Rightarrow> bool" where
  "get_ok A mid r \<longleftrightarrow> load_ok A mid (gr_load r) \<and> al_unload A (gr_variant_unload r) \<and> al_unload A (gr_lm_unload r) \<and>
     (\<forall>i. al_unload A (ad_unload (gr_admission r) i))"

text \<open>The engine of the model, if it has one, is the one that is asked for.\<close>

definition as_loaded :: "get_run \<Rightarrow> bool \<Rightarrow> pystr \<Rightarrow> engine_pool \<Rightarrow> bool" where
  "as_loaded r force_lm mid s \<longleftrightarrow> (case get_entry mid s of None \<Rightarrow> True
     | Some e \<Rightarrow> is_loaded e \<longrightarrow> \<not> variant_changed r e \<and> \<not> needs_lm force_lm e)"

text \<open>
  The steps of the pool: its methods under the lock, and what runs without it; a forced unload (the
  routes that unload a model call \<open>unload_engine\<close> whatever the model does) and the end of a deletion are steps
  of their own, and so is the second half of an unlocked unload that began earlier.
\<close>

inductive pool_step :: "allowed \<Rightarrow> engine_pool \<Rightarrow> engine_pool \<Rightarrow> bool" for A s where
  step_get: "get_ok A mid r \<Longrightarrow> mid \<in> al_reload A \<or> as_loaded r force_lm mid s \<Longrightarrow> pool_step A s (snd (get_engine r force_lm lease mid s))"
| step_release: "al_unload A r \<Longrightarrow> mid \<in> al_release A \<Longrightarrow> pool_step A s (snd (run_release r mid s))"
| step_idle: "al_unload A r \<Longrightarrow> pool_step A s (snd (unload_if_idle_unpinned r now mid s))"
| step_pending: "al_unload A r \<Longrightarrow> pool_step A s (snd (unload_pending_if_idle r mid s))"
| step_ttl: "(\<And>m. al_unload A (run m)) \<Longrightarrow> pool_step A s (snd (check_ttl_expirations run ttl timeout now s))"
| step_prefill: "(\<And>i. al_unload A (pr_unload r i)) \<Longrightarrow> pool_step A s (snd (evict_idle_for_prefill r mid s))"
| step_preload: "(\<And>m. get_ok A m (how m)) \<Longrightarrow> (\<And>m e. m \<in> al_reload A \<or> \<not> variant_changed (how m) e) \<Longrightarrow>
    pool_step A s (snd (preload_pinned_models how s))"
| step_force: "al_unload A r \<Longrightarrow> mid \<in> al_force A \<Longrightarrow> pool_step A s (snd (unload r mid s))"
| step_race: "mid \<in> al_race A \<Longrightarrow> pool_step A s (finish_unload (mid, e) s)"
| step_forget: "mid \<in> al_race A \<or> (\<forall>e. get_entry mid s = Some e \<longrightarrow> \<not> is_loaded e) \<Longrightarrow> mid \<in> al_force A \<Longrightarrow>
    pool_step A s (forget_model mid s)"
| step_quiet: "unlocked A mid f \<Longrightarrow> pool_step A s (f s)"

abbreviation pool_steps :: "allowed \<Rightarrow> engine_pool \<Rightarrow> engine_pool \<Rightarrow> bool" where
  "pool_steps A \<equiv> (pool_step A)\<^sup>*\<^sup>*"

subsection \<open>Lookups after updates\<close>

lemma get_upd [simp]:
  "get_entry m (upd_entry mid f s) = (if m = mid then map_option f (get_entry mid s) else get_entry m s)"
  by (auto simp: get_entry_def upd_entry_def split: option.split)

lemma get_entry_frame [simp]:
  "get_entry m (s\<lparr>ep_memory := x\<rparr>) = get_entry m s" "get_entry m (s\<lparr>ep_seconds_per_gb := y\<rparr>) = get_entry m s"
  "get_entry m (s\<lparr>ep_observations := n\<rparr>) = get_entry m s" "get_entry m (s\<lparr>ep_releases := rs\<rparr>) = get_entry m s"
  "get_entry m (s\<lparr>ep_next := k\<rparr>) = get_entry m s"
  by (simp_all add: get_entry_def)

lemma upd_entry_fields [simp]:
  "ep_memory (upd_entry mid f s) = ep_memory s" "ep_next (upd_entry mid f s) = ep_next s"
  "ep_releases (upd_entry mid f s) = ep_releases s"
  by (auto simp: upd_entry_def split: option.split)

lemma upd_entry_cong:
  "(\<And>e. get_entry mid s = Some e \<Longrightarrow> f e = g e) \<Longrightarrow> upd_entry mid f s = upd_entry mid g s"
  by (auto simp: upd_entry_def split: option.split)

lemma upd_entry_absent [simp]: "get_entry mid s = None \<Longrightarrow> upd_entry mid f s = s"
  by (simp add: upd_entry_def)

lemma upd_object_eq: "upd_object mid uid f s = upd_entry mid (\<lambda>e. if en_uid e = uid then f e else e) s"
proof (cases "get_entry mid s")
  case (Some e)
  have "dict_set mid e (ep_entries s) = ep_entries s"
    using Some by (simp add: get_entry_def update_triv)
  then show ?thesis using Some by (auto simp: upd_object_def still_registered_def upd_entry_def)
qed (simp add: upd_object_def still_registered_def)

lemma drop_engine_fields [simp]:
  "en_uid (drop_engine e) = en_uid e" "en_engine (drop_engine e) = None" "en_pinned (drop_engine e) = en_pinned e"
  "en_in_use (drop_engine e) = en_in_use e" "en_size (drop_engine e) = en_size e" "\<not> is_loaded (drop_engine e)"
  "en_loading (drop_engine e) = en_loading e"
  by (simp_all add: drop_engine_def is_loaded_def)

text \<open>An unload leaves the pool as it was, or drops the engine; its bytes may stay on the books.\<close>

lemma unload_effect:
  "snd (unload r mid s) =
    (case get_entry mid s of None \<Rightarrow> s
     | Some e \<Rightarrow> if \<not> is_loaded e \<or> un_cut r = CutStopping then s
         else if un_cut r = CutSettling then upd_entry mid drop_engine s
         else (upd_entry mid drop_engine s)\<lparr>ep_memory := ep_memory s - en_size e\<rparr>)"
  by (auto simp: unload_def bind_st_def ret_def unload_engine_def Let_def split: option.split)

lemma unload_others: "m \<noteq> mid \<Longrightarrow> get_entry m (snd (unload r mid s)) = get_entry m s"
  by (auto simp: unload_effect split: option.split)

lemma unload_entry:
  "get_entry m (snd (unload r mid s)) = get_entry m s \<or>
   (\<exists>e. m = mid \<and> get_entry mid s = Some e \<and> is_loaded e \<and> get_entry m (snd (unload r mid s)) = Some (drop_engine e))"
  by (auto simp: unload_effect split: option.split)

lemma least_recent_loaded: "find_lru_victim s = Some mid \<Longrightarrow> \<exists>e. get_entry mid s = Some e \<and> evictable e"
  "find_prefill_victim x s = Some mid \<Longrightarrow> \<exists>e. get_entry mid s = Some e \<and> mid \<noteq> x \<and> evictable e"
  unfolding find_lru_victim_def find_prefill_victim_def
  by (auto dest!: least_recent_found simp: idle_for_prefill_def evictable_def is_loaded_def split: option.splits)

lemma keeps_bind_if:
  "keeps m I \<Longrightarrow> (\<And>s x s'. I s \<Longrightarrow> m s = (Inr x, s') \<Longrightarrow> I s' \<Longrightarrow> I (snd (f x s'))) \<Longrightarrow> keeps (bind_st m f) I"
  unfolding keeps_def bind_st_def by (auto split: prod.split sum.split)

lemma keeps_on_entry [keeps_rules]:
  "(\<And>e s. I s \<Longrightarrow> get_entry mid s = Some e \<Longrightarrow> I (snd (f e s))) \<Longrightarrow> keeps (on_entry mid f) I"
  by (auto simp: keeps_def on_entry_def split: option.split)

text \<open>After an unload of an engine that may go, every other one that may go still may.\<close>

definition calm :: "pystr \<Rightarrow> engine_pool \<Rightarrow> bool" where
  "calm mid s \<longleftrightarrow> (\<forall>e. get_entry mid s = Some e \<longrightarrow> is_loaded e \<longrightarrow> evictable e)"

lemma calm_unload: "calm m s \<Longrightarrow> calm m (snd (unload r mid s))"
  using unload_entry [of m r mid s] by (auto simp: calm_def)

lemma gentleI:
  "en_uid e' = en_uid e \<Longrightarrow> en_engine e' = en_engine e \<Longrightarrow> en_pinned e' = en_pinned e \<Longrightarrow>
    (is_loaded e \<Longrightarrow> en_size e' = en_size e) \<Longrightarrow> en_in_use e \<le> en_in_use e' \<Longrightarrow>
    (slot_ok e \<Longrightarrow> slot_ok e') \<Longrightarrow> gentle e e'"
  by (simp add: gentle_def)

lemma admission_loop_rule:
  "(\<And>i v s. J s \<Longrightarrow> find_lru_victim s = Some v \<Longrightarrow> J (snd (unload (ad_unload a i) v s))) \<Longrightarrow> J s \<Longrightarrow>
    J (snd (admission_loop a bytes limit target best i evicted s))"
proof (induction a bytes limit target best i evicted s rule: admission_loop.induct)
  case (1 a bytes limit target best i evicted s)
  note v = 1(2) [OF 1(3)]
  show ?case
  proof (cases "current_memory a i s + bytes \<le> target")
    case True
    then show ?thesis using 1(3) by (simp add: admission_loop.simps [of a bytes])
  next
    case room: False
    show ?thesis
    proof (cases "find_lru_victim s")
      case None
      then show ?thesis using room 1(3)
        by (simp add: admission_loop.simps [of a bytes] last_resort_def)
    next
      case (Some w)
      obtain x t where u: "unload (ad_unload a i) w s = (x, t)" by fastforce
      then have "J t" using v [OF Some, of i] by simp
      show ?thesis
      proof (cases x)
        case (Inr y)
        have "J (snd (admission_loop a bytes limit target best (i + 1) True t))"
          using 1(1) [OF room Some u [symmetric] Inr] 1(2) \<open>J t\<close> by blast
        then show ?thesis using room Some u Inr by (simp add: admission_loop.simps [of a bytes])
      qed (use room Some u \<open>J t\<close> in \<open>simp add: admission_loop.simps [of a bytes]\<close>)
    qed
  qed
qed

subsection \<open>The interface\<close>

locale pool_property =
  fixes I :: "engine_pool \<Rightarrow> bool" and A :: allowed
  assumes keys: "I s \<Longrightarrow> dict_ok (ep_entries s)"
    and gentle_upd: "I s \<Longrightarrow> get_entry mid s = Some e \<Longrightarrow> gentle e (f e) \<Longrightarrow> I (upd_entry mid f s)"
    and pin_upd: "I s \<Longrightarrow> b \<or> mid \<in> al_reload A \<Longrightarrow> I (upd_entry mid (\<lambda>e. e\<lparr>en_pinned := b\<rparr>) s)"
    and release_upd: "I s \<Longrightarrow> mid \<in> al_release A \<Longrightarrow> I (upd_entry mid drop_lease s)"
    and unload_upd: "I s \<Longrightarrow> al_unload A r \<Longrightarrow> get_entry mid s = Some e \<Longrightarrow> is_loaded e \<Longrightarrow> \<not> is_busy e \<Longrightarrow>
      \<not> en_pinned e \<or> mid \<in> al_reload A \<Longrightarrow> I (snd (unload r mid s))"
    and attach_upd: "I s \<Longrightarrow> get_entry mid s = Some e \<Longrightarrow> \<not> is_loaded e \<Longrightarrow> en_size e' = en_size e \<Longrightarrow>
      en_uid e' = en_uid e \<Longrightarrow> I (attach l mid g e' s)"
    and fresh_upd: "I s \<Longrightarrow> (\<And>e. get_entry mid s = Some e \<Longrightarrow> \<not> is_loaded e) \<Longrightarrow>
      I (s\<lparr>ep_entries := dict_set mid (fresh_entry (ep_next s) b info) (ep_entries s), ep_next := ep_next s + 1\<rparr>)"
    and forget_upd: "I s \<Longrightarrow> (\<And>mid e. (mid, e) \<in> set (ep_entries s) \<Longrightarrow> \<not> P mid e \<Longrightarrow> \<not> is_loaded e) \<Longrightarrow>
      I (s\<lparr>ep_entries := filter (\<lambda>(mid, e). P mid e) (ep_entries s)\<rparr>)"
    and override_upd: "I s \<Longrightarrow> (\<And>mid e. (mid, e) \<in> set (ep_entries s) \<Longrightarrow> gentle e (F mid e)) \<Longrightarrow>
      I (s\<lparr>ep_entries := map (\<lambda>(mid, e). (mid, F mid e)) (ep_entries s)\<rparr>)"
    and frame_upd: "I s \<Longrightarrow> I (s\<lparr>ep_seconds_per_gb := x, ep_observations := n\<rparr>)" "I s \<Longrightarrow> I (s\<lparr>ep_releases := rs\<rparr>)"
    and force_upd: "I s \<Longrightarrow> al_unload A r \<Longrightarrow> mid \<in> al_force A \<Longrightarrow> I (snd (unload r mid s))"
    and race_upd: "I s \<Longrightarrow> mid \<in> al_race A \<Longrightarrow> I (finish_unload (mid, e) s)"
      "I s \<Longrightarrow> mid \<in> al_race A \<Longrightarrow> I (forget_model mid s)"
begin

text \<open>Changes of entries\<close>

lemma gentle_always: "I s \<Longrightarrow> (\<And>e. gentle e (f e)) \<Longrightarrow> I (upd_entry mid f s)"
  by (cases "get_entry mid s") (auto intro: gentle_upd)

lemma gentle_object: "I s \<Longrightarrow> (\<And>e. gentle e (f e)) \<Longrightarrow> I (upd_object mid uid f s)"
  by (auto simp: upd_object_def intro: gentle_always)

lemma unload_evictable:
  "I s \<Longrightarrow> al_unload A r \<Longrightarrow> get_entry mid s = Some e \<Longrightarrow> evictable e \<Longrightarrow> I (snd (unload r mid s))"
  by (rule unload_upd) (auto simp: evictable_def is_busy_def)

lemma unload_calm:
  assumes "I s" and "al_unload A r" and "calm mid s"
  shows "I (snd (unload r mid s))"
proof (cases "\<exists>e. get_entry mid s = Some e \<and> is_loaded e")
  case True
  then show ?thesis using assms unload_evictable by (fastforce simp: calm_def)
next
  case False
  then have "snd (unload r mid s) = s" by (auto simp: unload_effect split: option.split)
  then show ?thesis using assms(1) by simp
qed

lemma unload_victim: "I s \<Longrightarrow> al_unload A r \<Longrightarrow> find_lru_victim s = Some v \<Longrightarrow> I (snd (unload r v s))"
  "I s \<Longrightarrow> al_unload A r \<Longrightarrow> find_prefill_victim x s = Some v \<Longrightarrow> I (snd (unload r v s))"
  by (auto dest!: least_recent_loaded intro: unload_evictable)

text \<open>The loops\<close>

lemma admission_loop_keeps:
  "(\<And>i. al_unload A (ad_unload a i)) \<Longrightarrow> I s \<Longrightarrow> I (snd (admission_loop a bytes limit target best i evicted s))"
  by (rule admission_loop_rule) (auto intro: unload_victim)

lemma prefill_loop_keeps:
  "(\<And>i. al_unload A (pr_unload r i)) \<Longrightarrow> I s \<Longrightarrow> I (snd (prefill_loop r x i evicted reclaimed s))"
proof (induction r x i evicted reclaimed s rule: prefill_loop.induct)
  case (1 r x i evicted reclaimed s)
  have v: "I (snd (unload (pr_unload r i) v s))" if "find_prefill_victim x s = Some v" for v
    using unload_victim(2) 1(3,4) that by blast
  show ?case
  proof (cases "max (pr_active r i) (max (pr_footprint r i) (ep_memory s)) + pr_predicted r \<le> pr_target r")
    case True
    then show ?thesis using 1(4) by (simp add: prefill_loop.simps [of r])
  next
    case room: False
    show ?thesis
    proof (cases "find_prefill_victim x s")
      case None
      then show ?thesis using room 1(1) [OF room None] 1(3,4)
        by (simp add: prefill_loop.simps [of r])
    next
      case (Some w)
      obtain y t where u: "unload (pr_unload r i) w s = (y, t)" by fastforce
      then have "I t" using v [OF Some] by simp
      then show ?thesis using room Some u 1(2) [OF room Some u [symmetric]] 1(3)
        by (cases y) (simp_all add: prefill_loop.simps [of r])
    qed
  qed
qed

lemma dflash_loop_keeps:
  "(\<And>i. al_unload A (r i)) \<Longrightarrow> I s \<Longrightarrow> (\<And>m. m \<in> set ms \<Longrightarrow> calm m s) \<Longrightarrow>
    I (snd (for_each (enumerate k ms) (\<lambda>(i, m). unload (r i) m) s))"
proof (induction ms arbitrary: k s)
  case (Cons m ms)
  obtain x t where u: "unload (r k) m s = (x, t)" by fastforce
  have t: "t = snd (unload (r k) m s)" using u by simp
  have "I t" unfolding t using Cons.prems by (intro unload_calm) simp_all
  moreover have "calm m' t" if "m' \<in> set ms" for m'
    unfolding t using Cons.prems(3) that by (intro calm_unload) simp
  ultimately have "I (snd (for_each (enumerate (Suc k) ms) (\<lambda>(i, m). unload (r i) m) t))"
    using Cons.IH Cons.prems(1) by blast
  then show ?case using u \<open>I t\<close> by (cases x) (simp_all add: bind_st_def)
qed (simp add: ret_def)

end

subsection \<open>During a load\<close>

text \<open>The entry waits for its engine; the entry has its engine and is still loading.\<close>

definition awaiting :: "pystr \<Rightarrow> nat \<Rightarrow> int \<Rightarrow> engine_pool \<Rightarrow> bool" where
  "awaiting mid uid n s \<longleftrightarrow>
     (\<exists>e. get_entry mid s = Some e \<and> en_uid e = uid \<and> en_size e = n \<and> \<not> is_loaded e \<and> en_loading e)"

definition attached :: "pystr \<Rightarrow> nat \<Rightarrow> engine \<Rightarrow> engine_pool \<Rightarrow> bool" where
  "attached mid uid g s \<longleftrightarrow>
     (\<exists>e. get_entry mid s = Some e \<and> en_uid e = uid \<and> en_engine e = Some g \<and> en_loading e \<and> \<not> en_abort_loading e \<and> \<not> en_load_failed e)"

lemma awaiting_unload: "awaiting mid uid n s \<Longrightarrow> awaiting mid uid n (snd (unload r m s))"
  using unload_entry [of mid r m s] by (auto simp: awaiting_def)

lemma keeps_awaiting_unload [keeps_rules]: "keeps (unload r m) (awaiting mid uid n)"
  by (rule keepsI) (rule awaiting_unload)

lemma keeps_option [keeps_rules]:
  "keeps m J \<Longrightarrow> (\<And>x. keeps (f x) J) \<Longrightarrow> keeps (case v of None \<Rightarrow> m | Some x \<Rightarrow> f x) J"
  by (cases v) simp_all

lemma keeps_try_start [keeps_rules]: "keeps (try_start r c) J"
  by (simp add: keeps_def try_start_def raise_st_def ret_def split: option.split)

text \<open>Edits of the entry while it loads\<close>

definition light :: "(engine_entry \<Rightarrow> engine_entry) \<Rightarrow> bool" where
  "light f \<longleftrightarrow> (\<forall>e. gentle e (f e) \<and> en_size (f e) = en_size e \<and> en_loading (f e) = en_loading e)"

lemma light_types: "light (\<lambda>e. e\<lparr>en_model_type := m, en_engine_type := t\<rparr>)"
  and light_abort: "light (\<lambda>e. if b then e\<lparr>en_abort_loading := True\<rparr> else e)"
  by (simp_all add: light_def gentle_def slot_ok_def is_loaded_def)

lemma light_object: "light f \<Longrightarrow> light (\<lambda>e. if en_uid e = uid then f e else e)"
  by (simp add: light_def gentle_def)

definition stage_keeps :: "load_run \<Rightarrow> pystr \<Rightarrow> (engine_pool \<Rightarrow> bool) \<Rightarrow> bool" where
  "stage_keeps r mid J \<longleftrightarrow>
     (\<forall>f. light f \<longrightarrow> keeps (modify (upd_entry mid f)) J) \<and> keeps (modify (ld_waiting r)) J \<and> keeps (unload_other_dflash (ld_unload r) mid) J"

lemma keeps_start_parts:
  assumes "\<And>m t. keeps (modify (upd_object mid (en_uid e) (\<lambda>e. e\<lparr>en_model_type := m, en_engine_type := t\<rparr>))) J"
    and "keeps (modify (ld_waiting r)) J" and "keeps (unload_other_dflash (ld_unload r) mid) J"
  shows "keeps (start_engine r force_lm mid e) J"
  unfolding start_engine_def Let_def
  by (intro keeps_option keeps_bind keeps_if keeps_raise keeps_ret keeps_gets keeps_try_start assms)

lemma keeps_start_engine:
  assumes "stage_keeps r mid J"
  shows "keeps (start_engine r force_lm mid e) J"
proof (rule keeps_start_parts)
  fix m t
  have "upd_object mid (en_uid e) (\<lambda>e. e\<lparr>en_model_type := m, en_engine_type := t\<rparr>) =
      upd_entry mid (\<lambda>x. if en_uid x = en_uid e then x\<lparr>en_model_type := m, en_engine_type := t\<rparr> else x)"
    by (rule ext) (rule upd_object_eq)
  moreover have "keeps (modify (upd_entry mid (\<lambda>x. if en_uid x = en_uid e
      then x\<lparr>en_model_type := m, en_engine_type := t\<rparr> else x))) J"
    using assms light_object [OF light_types] unfolding stage_keeps_def by blast
  ultimately show "keeps (modify (upd_object mid (en_uid e) (\<lambda>e. e\<lparr>en_model_type := m, en_engine_type := t\<rparr>))) J"
    by argo
qed (use assms in \<open>simp_all add: stage_keeps_def\<close>)

lemma keeps_start_stage:
  assumes "stage_keeps r mid J"
  shows "keeps (start_stage r force_lm mid e) J"
proof -
  have "keeps (modify (upd_entry mid (\<lambda>e. if ld_abort r then e\<lparr>en_abort_loading := True\<rparr> else e))) J"
    using assms light_abort by (auto simp: stage_keeps_def)
  moreover have "keeps (if abort then raise_st err1 else case validate_ready g of Inl err \<Rightarrow> raise_st err | Inr _ \<Rightarrow> ret g') J"
    for abort err1 g and g' :: engine
    by (cases "validate_ready g") (simp_all add: keeps_ret keeps_raise)
  ultimately show ?thesis unfolding start_stage_def
    by (intro keeps_bind keeps_gets keeps_start_engine assms)
qed

text \<open>Discovery and the other unlocked calls leave the entry of a loaded or loading model in place.\<close>

lemma get_discover_one:
  "get_entry m (discover_one pinned (mid, info) s) =
    (if m \<noteq> mid then get_entry m s
     else case get_entry mid s of
       Some e \<Rightarrow> Some (if in_flight e then e\<lparr>en_pinned := (mid \<in> pinned)\<rparr> else fresh_entry (ep_next s) (mid \<in> pinned) info)
     | None \<Rightarrow> Some (fresh_entry (ep_next s) (mid \<in> pinned) info))"
  by (auto simp: discover_one_def get_entry_def [of _ "_\<lparr>ep_entries := _, ep_next := _\<rparr>"] split: option.split)
    (simp_all add: get_entry_def)

lemma override_type_fields [simp]:
  "en_uid (override_type w e) = en_uid e" "en_engine (override_type w e) = en_engine e"
  "en_loading (override_type w e) = en_loading e" "en_abort_loading (override_type w e) = en_abort_loading e"
  "en_load_failed (override_type w e) = en_load_failed e" "en_pinned (override_type w e) = en_pinned e"
  "en_in_use (override_type w e) = en_in_use e" "en_size (override_type w e) = en_size e"
  "is_loaded (override_type w e) = is_loaded e" "slot_ok (override_type w e) = slot_ok e"
  by (auto simp: override_type_def is_loaded_def slot_ok_def split: option.split)

lemma get_override [simp]:
  "get_entry m (apply_settings_overrides override s) = map_option (override_type (override m)) (get_entry m s)"
proof -
  have "map_of (map (\<lambda>(m, e). (m, override_type (override m) e)) d) m = map_option (override_type (override m)) (map_of d m)" for d
    by (induction d) auto
  then show ?thesis by (simp add: apply_settings_overrides_def get_entry_def)
qed

lemma set_pinned_state:
  "snd (set_model_pinned mid b s) = upd_entry mid (\<lambda>e. e\<lparr>en_pinned := b\<rparr>) s"
  by (auto simp: set_model_pinned_def split: option.split)

lemma mark_state:
  "snd (mark_pending_unload mid reason abort s) =
    upd_entry mid (\<lambda>e. if is_loaded e \<and> \<not> en_loading e \<and> \<not> en_pinned e
      then e\<lparr>en_pending := Some reason, en_abort_requested := (if abort then True else en_abort_requested e)\<rparr> else e) s"
proof (cases "get_entry mid s")
  case (Some e)
  have "dict_set mid e (ep_entries s) = ep_entries s"
    using Some by (simp add: get_entry_def update_triv)
  then show ?thesis using Some by (auto simp: mark_pending_unload_def upd_entry_def)
qed (simp add: mark_pending_unload_def)

lemma fold_all: "(\<And>x s. I s \<Longrightarrow> I (f x s)) \<Longrightarrow> I s \<Longrightarrow> I (fold f xs s)"
  by (induction xs arbitrary: s) auto

definition core :: "engine_entry \<Rightarrow> nat \<times> engine option \<times> int \<times> bool \<times> bool \<times> bool" where
  "core e = (en_uid e, en_engine e, en_size e, en_loading e, en_abort_loading e, en_load_failed e)"

definition has_core :: "pystr \<Rightarrow> nat \<times> engine option \<times> int \<times> bool \<times> bool \<times> bool \<Rightarrow> engine_pool \<Rightarrow> bool" where
  "has_core mid c s \<longleftrightarrow> (\<exists>e. get_entry mid s = Some e \<and> core e = c \<and> in_flight e)"

lemma has_core_upd:
  assumes "has_core mid c s" and f: "\<And>e. core (f e) = core e"
  shows "has_core mid c (upd_entry m f s)"
proof -
  have "in_flight (f e) = in_flight e" for e using f [of e] by (auto simp: core_def in_flight_def is_loaded_def)
  then show ?thesis using assms by (auto simp: has_core_def)
qed

lemma discover_core: "has_core mid c s \<Longrightarrow> has_core mid c (discover_models found pinned s)"
proof -
  assume s: "has_core mid c s"
  have one: "has_core mid c (discover_one pinned x s)" if "has_core mid c s" for x s
    using that by (cases x) (auto simp: has_core_def core_def get_discover_one in_flight_def is_loaded_def)
  have "has_core mid c (fold (discover_one pinned) found s)"
    by (rule fold_all [where I = "has_core mid c", OF one s])
  then obtain e where e: "map_of (ep_entries (fold (discover_one pinned) found s)) mid = Some e"
      "core e = c" "in_flight e"
    unfolding has_core_def get_entry_def by blast
  then have "map_of (ep_entries (discover_models found pinned s)) mid = Some e"
    unfolding discover_models_def Let_def by (simp add: map_of_filter_in [OF e(1)])
  then show ?thesis using e unfolding has_core_def get_entry_def by blast
qed

lemma finish_others: "m \<noteq> mid \<Longrightarrow> get_entry m (finish_unload (mid, e) s) = get_entry m s"
  by (simp add: finish_unload_def Let_def upd_object_eq)

lemma forget_others: "m \<noteq> mid \<Longrightarrow> get_entry m (forget_model mid s) = get_entry m s"
  by (simp add: forget_model_def get_entry_def)

lemma unlocked_core: "unlocked A mid f \<Longrightarrow> has_core mid c s \<Longrightarrow> has_core mid c (f s)"
proof (induction rule: unlocked.induct)
  case (quiet_discover f pinned found)
  then show ?case by (simp add: discover_core)
next
  case (quiet_override f override)
  then show ?case by (auto simp: has_core_def core_def in_flight_def)
next
  case (quiet_release f m)
  then show ?case by (simp add: has_core_def release_engine_def)
next
  case (quiet_force f r m)
  then show ?case by (auto simp: has_core_def unload_others)
next
  case (quiet_race f m e)
  then show ?case by (auto simp: has_core_def finish_others)
next
  case (quiet_forget f m)
  then show ?case by (auto simp: has_core_def forget_others)
qed (simp_all add: set_pinned_state mark_state has_core_upd core_def)

lemma quiet_attached: "unlocked A mid f \<Longrightarrow> attached mid uid g s \<Longrightarrow> attached mid uid g (f s)"
proof -
  assume f: "unlocked A mid f" and "attached mid uid g s"
  then obtain e where "get_entry mid s = Some e" "en_uid e = uid" "en_engine e = Some g" "en_loading e"
      "\<not> en_abort_loading e" "\<not> en_load_failed e" by (auto simp: attached_def)
  then have "has_core mid (uid, Some g, en_size e, True, False, False) s"
    by (simp add: has_core_def core_def in_flight_def)
  from unlocked_core [OF f this] show ?thesis by (auto simp: has_core_def core_def attached_def)
qed

lemma quiet_awaiting: "unlocked A mid f \<Longrightarrow> awaiting mid uid n s \<Longrightarrow> awaiting mid uid n (f s)"
proof -
  assume f: "unlocked A mid f" and "awaiting mid uid n s"
  then obtain e where "get_entry mid s = Some e" "en_uid e = uid" "en_engine e = None" "en_loading e" "en_size e = n"
    by (auto simp: awaiting_def is_loaded_def)
  then have "has_core mid (uid, None, n, True, en_abort_loading e, en_load_failed e) s"
    by (simp add: has_core_def core_def in_flight_def)
  from unlocked_core [OF f this] show ?thesis by (auto simp: has_core_def core_def awaiting_def is_loaded_def)
qed

lemma start_stage_awaiting: "unlocked A mid (ld_waiting r) \<Longrightarrow> keeps (start_stage r force_lm mid e) (awaiting mid uid n)"
proof (rule keeps_start_stage, unfold stage_keeps_def, intro conjI allI impI)
  assume w: "unlocked A mid (ld_waiting r)"
  show "keeps (modify (ld_waiting r)) (awaiting mid uid n)"
    by (rule keeps_modify) (rule quiet_awaiting [OF w])
  show "keeps (modify (upd_entry mid f)) (awaiting mid uid n)" if "light f" for f
    using that by (intro keeps_modify) (fastforce simp: awaiting_def light_def gentle_def is_loaded_def)
  show "keeps (unload_other_dflash (ld_unload r) mid) (awaiting mid uid n)"
  proof (rule keepsI)
    fix s assume s: "awaiting mid uid n s"
    have "keeps (for_each (enumerate 0 ms) (\<lambda>(i, m). unload (ld_unload r i) m)) (awaiting mid uid n)" for ms
      by (rule keeps_for_each) (auto intro: keeps_awaiting_unload)
    then show "awaiting mid uid n (snd (unload_other_dflash (ld_unload r) mid s))"
      using s by (auto simp: unload_other_dflash_def dest: keepsD split: sum.split)
  qed
qed

subsection \<open>The operations\<close>

lemma dflash_calm:
  assumes "dflash_conflict e = Inr False" and "is_loaded e"
  shows "evictable e"
  using assms by (auto simp: dflash_conflict_def evictable_def is_loaded_def has_active_requests_def
      split: option.splits activity_probe.splits bool.splits if_splits)

lemma items_get: "(m, e) \<in> set (items s) \<Longrightarrow> get_entry m s = Some e"
proof -
  assume "(m, e) \<in> set (items s)"
  then have "e = the (get_entry m s)" "m \<in> fst ` set (ep_entries s)"
    by (auto simp: items_def)
  then show ?thesis by (cases "get_entry m s") (auto simp: get_entry_def map_of_eq_None_iff)
qed

lemma other_dflash_calm:
  assumes "map_res (\<lambda>(_, e). dflash_conflict e) (other_dflash mid s) = Inr blocked"
    and "True \<notin> set blocked" and "m \<in> fst ` set (other_dflash mid s)"
  shows "calm m s"
proof -
  obtain e where e: "(m, e) \<in> set (other_dflash mid s)" using assms(3) by auto
  then obtain i where i: "i < length (other_dflash mid s)" "other_dflash mid s ! i = (m, e)"
    by (auto simp: in_set_conv_nth)
  have l: "list_all2 (\<lambda>x y. (case x of (_, e) \<Rightarrow> dflash_conflict e) = Inr y) (other_dflash mid s) blocked"
    using assms(1) by (simp add: map_res_Inr_iff)
  then have "dflash_conflict e = Inr (blocked ! i)" using i by (auto dest: list_all2_nthD)
  moreover have "blocked ! i \<in> set blocked" using l i(1) by (simp add: list_all2_lengthD)
  ultimately have "dflash_conflict e = Inr False" using assms(2) by (cases "blocked ! i") auto
  moreover have "get_entry m s = Some e" using e by (auto simp: other_dflash_def intro: items_get)
  ultimately show ?thesis by (auto simp: calm_def intro: dflash_calm)
qed

context pool_property
begin

lemma other_dflash_keeps:
  "(\<And>i. al_unload A (ld_unload r i)) \<Longrightarrow> keeps (unload_other_dflash (ld_unload r) mid) I"
proof (rule keepsI)
  fix s assume r: "\<And>i. al_unload A (ld_unload r i)" and s: "I s"
  show "I (snd (unload_other_dflash (ld_unload r) mid s))"
  proof (cases "map_res (\<lambda>(_, e). dflash_conflict e) (other_dflash mid s)")
    case (Inl err)
    then show ?thesis using s by (simp add: unload_other_dflash_def)
  next
    case (Inr blocked)
    show ?thesis
    proof (cases "True \<in> set blocked")
      case False
      then have "calm m s" if "m \<in> set (map fst (other_dflash mid s))" for m
        using other_dflash_calm [OF Inr] that by simp
      then have "I (snd (for_each (enumerate 0 (map fst (other_dflash mid s))) (\<lambda>(i, m). unload (ld_unload r i) m) s))"
        by (rule dflash_loop_keeps [OF r s])
      then show ?thesis using Inr False by (simp add: unload_other_dflash_def)
    qed (use s Inr in \<open>simp add: unload_other_dflash_def\<close>)
  qed
qed

lemma discover_keeps:
  assumes s: "I s" and "- al_reload A \<subseteq> pinned"
  shows "I (discover_models found pinned s)"
proof -
  have one: "I (discover_one pinned x s)" if s: "I s" for x s
  proof (cases x)
    case (Pair mid info)
    have "mid \<in> pinned \<or> mid \<in> al_reload A" using assms(2) by blast
    then show ?thesis
      using pin_upd [OF s, of "mid \<in> pinned" mid] fresh_upd [OF s, of mid "mid \<in> pinned" info] Pair
      by (auto simp: discover_one_def in_flight_def split: option.split)
  qed
  have "I (fold (discover_one pinned) found s)"
    by (rule fold_all [where I = I, OF one s])
  from forget_upd [OF this, of "\<lambda>mid e. mid \<in> set (map fst found) \<or> in_flight e"]
  show ?thesis by (simp add: discover_models_def Let_def in_flight_def)
qed

lemma quiet_keeps: "unlocked A mid f \<Longrightarrow> I s \<Longrightarrow> I (f s)"
proof (induction rule: unlocked.induct)
  case (quiet_pin f b m)
  then show ?case by (simp add: set_pinned_state pin_upd)
next
  case (quiet_mark f m reason abort)
  then show ?case unfolding mark_state by (intro gentle_always) (auto simp: gentle_def slot_ok_def is_loaded_def)
next
  case (quiet_discover f pinned found)
  then show ?case by (simp add: discover_keeps)
next
  case (quiet_override f override)
  then show ?case unfolding apply_settings_overrides_def
    by (intro override_upd) (auto simp: gentle_def)
next
  case (quiet_release f m)
  then show ?case by (simp add: release_engine_def frame_upd)
qed (simp_all add: force_upd race_upd)

lemma start_stage_keeps: "load_ok A mid r \<Longrightarrow> keeps (start_stage r force_lm mid e) I"
proof (rule keeps_start_stage, unfold stage_keeps_def, intro conjI allI impI)
  assume r: "load_ok A mid r"
  show "keeps (modify (upd_entry mid f)) I" if "light f" for f
    using that by (intro keeps_modify) (simp add: light_def gentle_always)
  show "keeps (modify (ld_waiting r)) I"
    by (rule keeps_modify) (use r in \<open>auto simp: load_ok_def intro: quiet_keeps\<close>)
  show "keeps (unload_other_dflash (ld_unload r) mid) I"
    by (rule other_dflash_keeps) (use r in \<open>simp add: load_ok_def\<close>)
qed

end

subsection \<open>The load\<close>

lemma attach_attached:
  "awaiting mid (en_uid e) n s \<Longrightarrow> \<not> abort_asked mid s \<Longrightarrow> attached mid (en_uid e) g (attach r mid g e s)"
  by (auto simp: awaiting_def attached_def attach_def clear_load_failure_def abort_asked_def upd_object_eq)

lemma start_stage_not_aborted:
  "start_stage r force_lm mid e s = (Inr g, t) \<Longrightarrow> \<not> abort_asked mid t \<and> validate_ready (Some g) = Inr ()"
  by (auto simp: start_stage_def bind_st_def gets_def ret_def raise_st_def split: prod.splits sum.splits if_splits)

lemma attached_object:
  "attached mid uid g s \<Longrightarrow> (\<And>e. en_uid (f e) = en_uid e \<and> en_engine (f e) = en_engine e \<and> en_loading (f e) = en_loading e \<and>
      en_abort_loading (f e) = en_abort_loading e \<and> en_load_failed (f e) = en_load_failed e) \<Longrightarrow>
    attached mid uid g (upd_object mid uid' f s)"
  by (cases "get_entry mid s") (auto simp: attached_def upd_object_eq)

lemma attached_registered: "attached mid uid g s \<Longrightarrow> still_registered mid uid s"
  by (auto simp: attached_def still_registered_def)

lemma failed_load_state:
  "snd (failed_load r mid e err d s) = s \<or> snd (failed_load r mid e err d s) = upd_object mid (en_uid e) (mark_load_failure (ld_now r)) s"
  by (simp add: failed_load_def)

text \<open>The second half of a load, while nothing but unlocked code runs beside it: the entry is never lost.\<close>

lemma tail_attached:
  assumes "unlocked A mid (ld_env r)" and "attached mid (en_uid e) g s"
  shows "attached mid (en_uid e) g (snd (tail_stage r mid e s)) \<and>
    (\<forall>err d. fst (tail_stage r mid e s) = Some (err, d) \<longrightarrow> \<not> d)"
proof -
  let ?s1 = "ld_env r s"
  let ?s2 = "upd_object mid (en_uid e) (\<lambda>e. e\<lparr>en_signature := ld_signature r\<rparr>) ?s1"
  let ?s3 = "upd_object mid (en_uid e) (\<lambda>x. x\<lparr>en_actual := Some (observed_size r (en_size e))\<rparr>) ?s2"
  have 1: "attached mid (en_uid e) g ?s1" using assms by (rule quiet_attached)
  then have 2: "attached mid (en_uid e) g ?s2" by (rule attached_object) simp
  then have 3: "attached mid (en_uid e) g ?s3" by (rule attached_object) simp
  show ?thesis using 1 2 3 attached_registered [OF 3] by (simp add: tail_stage_def Let_def)
qed

context pool_property
begin

lemma end_load_keeps: "I s \<Longrightarrow> I (end_load r done mid e s)"
  by (auto simp: end_load_def load_speed_def Let_def gentle_def slot_ok_def is_loaded_def intro!: gentle_object frame_upd)

lemma failed_load_keeps: "I s \<Longrightarrow> I (snd (failed_load r mid e err d s))"
  using failed_load_state [of r mid e err d s]
  by (auto simp: mark_load_failure_def gentle_def slot_ok_def is_loaded_def intro!: gentle_object)

lemma object_keeps:
  assumes "I s" and "attached mid uid g s"
    and "\<And>e. is_loaded e \<Longrightarrow> gentle e (f e)"
  shows "I (upd_object mid uid f s)"
proof -
  obtain e where "get_entry mid s = Some e" "is_loaded e" "en_uid e = uid"
    using assms(2) by (auto simp: attached_def is_loaded_def)
  then show ?thesis using assms(1,3) by (auto simp: upd_object_def intro: gentle_upd)
qed

lemma tail_keeps:
  assumes r: "load_ok A mid r" and s: "I s" and a: "attached mid (en_uid e) g s"
  shows "I (snd (tail_stage r mid e s))"
proof -
  let ?s1 = "ld_env r s"
  let ?s2 = "upd_object mid (en_uid e) (\<lambda>e. e\<lparr>en_signature := ld_signature r\<rparr>) ?s1"
  let ?s3 = "upd_object mid (en_uid e) (\<lambda>x. x\<lparr>en_actual := Some (observed_size r (en_size e))\<rparr>) ?s2"
  have q: "unlocked A mid (ld_env r)" using r by (simp add: load_ok_def)
  have 1: "I ?s1" "attached mid (en_uid e) g ?s1"
    using quiet_keeps [OF q s] quiet_attached [OF q a] by simp_all
  have 2: "I ?s2" "attached mid (en_uid e) g ?s2"
    by (rule object_keeps [OF 1], simp add: gentle_def slot_ok_def is_loaded_def)
      (rule attached_object [OF 1(2)], simp)
  have 3: "I ?s3" "attached mid (en_uid e) g ?s3"
    by (rule object_keeps [OF 2], simp add: gentle_def slot_ok_def is_loaded_def)
      (rule attached_object [OF 2(2)], simp)
  show ?thesis using 1 2 3 attached_registered [OF 3(2)] by (simp add: tail_stage_def Let_def)
qed

lemma load_engine_keeps:
  assumes r: "load_ok A mid r" and s: "I s" and e: "\<And>e. get_entry mid s = Some e \<Longrightarrow> \<not> is_loaded e"
  shows "I (snd (load_engine r force_lm mid s))"
proof (cases "\<exists>e. get_entry mid s = Some e \<and> \<not> en_loading e")
  case False
  then show ?thesis using s by (auto simp: load_engine_def split: option.split)
next
  case True
  then obtain e where e: "get_entry mid s = Some e" "\<not> is_loaded e" "\<not> en_loading e" using e by blast
  let ?s1 = "upd_entry mid (\<lambda>e. e\<lparr>en_loading := True, en_loading_started := Some (ld_started r), en_abort_loading := False\<rparr>) s"
  obtain x s2 where st: "start_stage r force_lm mid e ?s1 = (x, s2)" by fastforce
  have 1: "I ?s1" "awaiting mid (en_uid e) (en_size e) ?s1"
    using s e by (auto simp: gentle_def slot_ok_def is_loaded_def awaiting_def intro!: gentle_always)
  have w: "unlocked A mid (ld_waiting r)" using r by (simp add: load_ok_def)
  from 1 have 2: "I s2" "awaiting mid (en_uid e) (en_size e) s2"
    using keepsD [OF start_stage_keeps [OF r] 1(1)] keepsD [OF start_stage_awaiting [OF w] 1(2)] st by (metis snd_conv)+
  show ?thesis
  proof (cases x)
    case (Inl err)
    then show ?thesis using e st failed_load_keeps [OF 2(1)]
      by (auto simp: load_engine_def Let_def intro: end_load_keeps split: prod.split) (metis end_load_keeps snd_conv)
  next
    case (Inr g)
    obtain e2 where e2: "get_entry mid s2 = Some e2" "\<not> is_loaded e2" "en_size e = en_size e2" "en_uid e = en_uid e2"
      using 2(2) by (auto simp: awaiting_def)
    have 3: "I (attach r mid g e s2)" "attached mid (en_uid e) g (attach r mid g e s2)"
      using attach_upd [OF 2(1) e2] attach_attached [OF 2(2)] start_stage_not_aborted [of r force_lm mid e ?s1 g s2] st Inr
      by simp_all
    obtain y s4 where tl: "tail_stage r mid e (attach r mid g e s2) = (y, s4)" by fastforce
    have "I s4" using tail_keeps [OF r 3] tl by simp
    then show ?thesis using e st Inr tl failed_load_keeps [of s4]
      by (auto simp: load_engine_def Let_def intro: end_load_keeps split: prod.split option.split)
        (metis end_load_keeps snd_conv)
  qed
qed

end

subsection \<open>All steps\<close>

lemma snd_bind_ret [simp]: "snd (bind_st m (\<lambda>_. ret x) s) = snd (m s)"
  by (auto simp: bind_st_def ret_def split: prod.split sum.split)

lemma snd_prims [simp]: "snd (ret x s) = s" "snd (raise_st e s) = s" "snd (modify f s) = f s" "snd (gets h s) = s"
  by (simp_all add: ret_def raise_st_def modify_def gets_def)

lemma on_entry_at: "get_entry mid s = Some e \<Longrightarrow> on_entry mid f s = f e s"
  by (simp add: on_entry_def)

text \<open>A model that is not loaded stays so while others are unloaded for it.\<close>

lemma admit_unloaded:
  assumes "get_entry mid s = Some e" and "\<not> is_loaded e"
  shows "\<forall>e. get_entry mid (snd (admit r force_lm unloaded mid s)) = Some e \<longrightarrow> \<not> is_loaded e"
proof -
  obtain bytes booked where b: "admission_sizes force_lm (gr_settings r) (gr_sizes r) e = (bytes, booked)" by fastforce
  obtain limit best where l: "ceiling_of (gr_admission r) = (limit, best)" by fastforce
  let ?J = "\<lambda>s. \<forall>e. get_entry mid s = Some e \<longrightarrow> \<not> is_loaded e"
  have u: "?J (snd (unload x v s))" if "?J s" for x v s
    using that unload_entry [of mid x v s] by auto
  have *: "?J (snd (admission_loop (gr_admission r) b li ta be i ev s))" if "?J s" for b li ta be i ev s
    by (rule admission_loop_rule [where J = ?J, OF u that])
  have "?J (upd_entry mid (\<lambda>e. e\<lparr>en_size := booked\<rparr>) s)" using assms by (auto simp: is_loaded_def)
  then show ?thesis
    using * [of "upd_entry mid (\<lambda>e. e\<lparr>en_size := booked\<rparr>) s"] by (simp add: admit_def on_entry_at [OF assms(1)] b l)
qed

context pool_property
begin

lemma reload_keeps: "al_unload A r \<Longrightarrow> mid \<in> al_reload A \<Longrightarrow> keeps (reload_if P r mid) I"
  unfolding reload_if_def by (intro keeps_on_entry) (auto intro: unload_upd)

lemma use_loaded_keeps: "keeps (use_loaded r lease mid) I"
  unfolding use_loaded_def
proof (rule keeps_on_entry)
  fix e s assume "I s" "get_entry mid s = Some e"
  moreover have "gentle e (take_lease lease (e\<lparr>en_signature := sg, en_last_access := t\<rparr>))" if "is_loaded e" for sg t
    using that by (auto simp: gentle_def slot_ok_def take_lease_def is_loaded_def)
  ultimately show "I (snd ((case validate_ready (en_engine e) of Inl err \<Rightarrow> raise_st err
      | Inr _ \<Rightarrow> bind_st (modify (upd_entry mid (\<lambda>e. take_lease lease (e\<lparr>
           en_signature := (if en_signature e = None then gr_expected r else en_signature e),
           en_last_access := gr_now r\<rparr>)))) (\<lambda>_. ret (the (en_engine e)))) s))"
    by (auto simp: validate_ready_def is_loaded_def split: option.split intro: gentle_upd)
qed

lemma forget_unloaded:
  assumes s: "I s" and "\<And>e. get_entry mid s = Some e \<Longrightarrow> \<not> is_loaded e"
  shows "I (forget_model mid s)"
proof -
  have "\<not> is_loaded e" if "(mid, e) \<in> set (ep_entries s)" for e
    using that keys [OF s] assms(2) by (auto simp: get_entry_def dest: map_of_is_SomeI)
  then have "I (s\<lparr>ep_entries := filter (\<lambda>(m, e). m \<noteq> mid) (ep_entries s)\<rparr>)"
    by (intro forget_upd [OF s]) auto
  moreover have "dict_del mid d = filter (\<lambda>(m, e). m \<noteq> mid) d" for d :: "(pystr, engine_entry) dict"
    by (auto simp: AList.delete_eq intro!: filter_cong)
  ultimately show ?thesis by (simp add: forget_model_def)
qed

lemma check_path_keeps: "keeps (check_path b mid) I"
  unfolding check_path_def
proof (rule keeps_on_entry)
  fix e s assume s: "I s" "get_entry mid s = Some e"
  have "I (s\<lparr>ep_entries := dict_del mid (ep_entries s)\<rparr>)" if "\<not> is_loaded e"
    using forget_unloaded [OF s(1), of mid] s(2) that by (simp add: forget_model_def)
  then show "I (snd ((if b then ret () else bind_st (modify (\<lambda>s. if is_loaded e then s
      else s\<lparr>ep_entries := dict_del mid (ep_entries s)\<rparr>)) (\<lambda>_. raise_st ModelNotFoundError)) s))"
    using s by (auto simp: raise_st_def)
qed

lemma check_failed_keeps: "keeps (check_failed mid) I"
  unfolding check_failed_def by (intro keeps_on_entry) auto

lemma admit_keeps:
  assumes "\<And>i. al_unload A (ad_unload (gr_admission r) i)" and s: "I s"
    and e: "get_entry mid s = Some e" "\<not> is_loaded e"
  shows "I (snd (admit r force_lm unloaded mid s))"
proof -
  obtain bytes booked where b: "admission_sizes force_lm (gr_settings r) (gr_sizes r) e = (bytes, booked)" by fastforce
  obtain limit best where l: "ceiling_of (gr_admission r) = (limit, best)" by fastforce
  have "I (upd_entry mid (\<lambda>e. e\<lparr>en_size := booked\<rparr>) s)"
    using s e by (intro gentle_upd) (auto simp: gentle_def slot_ok_def is_loaded_def)
  then show ?thesis
    using assms(1) by (auto simp: admit_def on_entry_at [OF e(1)] b l intro!: admission_loop_keeps)
qed

lemma hand_out_keeps: "keeps (hand_out lease mid) I"
  unfolding hand_out_def
  by (intro keeps_on_entry)
    (auto simp: gentle_def slot_ok_def take_lease_def is_loaded_def split: sum.split intro!: gentle_always)

lemma load_anew_keeps:
  assumes r: "get_ok A mid r" and s: "I s" and e: "get_entry mid s = Some e" "\<not> is_loaded e"
  shows "I (snd (load_anew r force_lm lease unloaded mid s))"
proof -
  let ?J = "\<lambda>s. I s \<and> (\<forall>e. get_entry mid s = Some e \<longrightarrow> \<not> is_loaded e)"
  have a: "\<And>i. al_unload A (ad_unload (gr_admission r) i)" and l: "load_ok A mid (gr_load r)"
    using r by (simp_all add: get_ok_def)
  have "keeps (check_path (gr_path r) mid) ?J"
  proof (rule keepsI)
    fix s assume "?J s"
    then show "?J (snd (check_path (gr_path r) mid s))"
      using keepsD [OF check_path_keeps, of s "gr_path r" mid]
      by (auto simp: check_path_def on_entry_def raise_st_def get_entry_def split: option.splits if_splits)
  qed
  moreover have "keeps (check_failed mid) ?J"
    by (auto simp: keeps_def check_failed_def on_entry_def split: option.splits)
  moreover have "keeps (admit r force_lm unloaded mid) ?J"
  proof (rule keepsI)
    fix s assume s: "?J s"
    show "?J (snd (admit r force_lm unloaded mid s))"
    proof (cases "get_entry mid s")
      case (Some e)
      then show ?thesis using s admit_keeps [OF a _ Some] admit_unloaded [OF Some] by blast
    qed (use s in \<open>simp add: admit_def on_entry_def\<close>)
  qed
  ultimately have "keeps (bind_st (check_path (gr_path r) mid) (\<lambda>_. bind_st (check_failed mid) (\<lambda>_.
      admit r force_lm unloaded mid))) ?J"
    by (intro keeps_bind)
  from keepsD [OF this, of s] s e
  have "?J (snd (bind_st (check_path (gr_path r) mid) (\<lambda>_. bind_st (check_failed mid) (\<lambda>_.
      admit r force_lm unloaded mid)) s))" by simp
  then have 1: "?J (snd (bind_st (check_path (gr_path r) mid) (\<lambda>_. bind_st (check_failed mid) (\<lambda>_.
      admit r force_lm unloaded mid)) s))" .
  have assoc: "load_anew r force_lm lease unloaded mid s =
      bind_st (bind_st (check_path (gr_path r) mid) (\<lambda>_. bind_st (check_failed mid) (\<lambda>_. admit r force_lm unloaded mid)))
        (\<lambda>_. bind_st (load_engine (gr_load r) force_lm mid) (\<lambda>_. hand_out lease mid)) s"
    by (auto simp: load_anew_def bind_st_def split: prod.split sum.split)
  have "I (snd (bind_st (load_engine (gr_load r) force_lm mid) (\<lambda>_. hand_out lease mid) t))" if "?J t" for t
  proof -
    have "I (snd (load_engine (gr_load r) force_lm mid t))" using that by (intro load_engine_keeps [OF l]) auto
    then show ?thesis
      using keepsD [OF hand_out_keeps] by (auto simp: bind_st_def split: prod.split sum.split)
  qed
  then show ?thesis
    using 1 unfolding assoc bind_st_def [of "bind_st _ _" _ s] by (auto split: prod.splits sum.splits)
qed

lemma after_reload_keeps:
  assumes r: "get_ok A mid r"
  shows "keeps (on_entry mid (\<lambda>e. if is_loaded e then use_loaded r lease mid
    else load_anew r force_lm lease unloaded mid)) I"
  using keepsD [OF use_loaded_keeps] load_anew_keeps [OF r] by (intro keeps_on_entry) auto

lemma get_engine_keeps:
  assumes r: "get_ok A mid r" and mid: "mid \<in> al_reload A \<or> as_loaded r force_lm mid s" and s: "I s"
  shows "I (snd (get_engine r force_lm lease mid s))"
proof (cases "mid \<in> al_reload A")
  case True
  then have "keeps (bind_st (reload_if (variant_changed r) (gr_variant_unload r) mid) (\<lambda>changed.
           bind_st (reload_if (needs_lm force_lm) (gr_lm_unload r) mid) (\<lambda>as_lm.
           on_entry mid (\<lambda>e. if is_loaded e then use_loaded r lease mid
             else load_anew r force_lm lease (changed \<or> as_lm) mid)))) I"
    using r by (intro keeps_bind reload_keeps after_reload_keeps) (simp_all add: get_ok_def)
  from keepsD [OF this s] show ?thesis using s by (simp add: get_engine_def)
next
  case False
  have "reload_if (variant_changed r) (gr_variant_unload r) mid s = (Inr False, s)"
      "reload_if (needs_lm force_lm) (gr_lm_unload r) mid s = (Inr False, s)"
    if "get_entry mid s = Some e" for e
    using False mid that by (auto simp: as_loaded_def reload_if_def on_entry_def ret_def)
  then show ?thesis
    using s keepsD [OF after_reload_keeps [OF r] s, of lease force_lm "False \<or> False"]
    by (auto simp: get_engine_def bind_st_def)
qed

lemma pending_keeps: "al_unload A r \<Longrightarrow> keeps (unload_pending_if_idle r mid) I"
proof (rule keepsI)
  fix s assume r: "al_unload A r" and s: "I s"
  show "I (snd (unload_pending_if_idle r mid s))"
  proof (cases "\<exists>e. get_entry mid s = Some e \<and> pending_ready e")
    case True
    then obtain e where e: "get_entry mid s = Some e" "pending_ready e" by blast
    let ?t = "upd_entry mid (\<lambda>e. e\<lparr>en_pending := None, en_abort_requested := False\<rparr>) s"
    have "I ?t" using s by (intro gentle_always) (auto simp: gentle_def slot_ok_def is_loaded_def)
    then have "I (snd (unload r mid ?t))"
      using r e by (intro unload_evictable) (auto simp: pending_ready_def evictable_def is_busy_def is_loaded_def
          has_active_requests_def)
    then show ?thesis using e by (simp add: unload_pending_if_idle_def)
  next
    case False
    then show ?thesis using s by (auto simp: unload_pending_if_idle_def split: option.split)
  qed
qed

lemma release_keeps: "al_unload A r \<Longrightarrow> mid \<in> al_release A \<Longrightarrow> keeps (run_release r mid) I"
proof (rule keepsI)
  fix s assume r: "al_unload A r" "mid \<in> al_release A" and s: "I s"
  have "keeps (release_lease r mid) I"
    unfolding release_lease_def
    using r by (intro keeps_bind keeps_ret pending_keeps keeps_modify) (simp_all add: release_upd flip: drop_lease_def)
  then show "I (snd (run_release r mid s))"
    using s frame_upd(2) [OF s] by (auto simp: run_release_def dest: keepsD)
qed

lemma idle_keeps: "al_unload A r \<Longrightarrow> keeps (unload_if_idle_unpinned r now mid) I"
proof (rule keepsI)
  fix s assume r: "al_unload A r" and s: "I s"
  have "I (upd_entry mid (\<lambda>e. e\<lparr>en_last_access := now\<rparr>) s)"
    using s by (intro gentle_always) (auto simp: gentle_def slot_ok_def is_loaded_def)
  then show "I (snd (unload_if_idle_unpinned r now mid s))"
    using s r unload_evictable [OF s r, of mid]
    by (auto simp: unload_if_idle_unpinned_def evictable_def split: option.split)
qed

lemma ttl_entry_keeps: "al_unload A r \<Longrightarrow> keeps (check_ttl_entry r ttl timeout now mid) I"
proof (rule keepsI)
  fix s assume r: "al_unload A r" and s: "I s"
  have 1: "I (upd_entry mid (\<lambda>e. e\<lparr>en_last_access := now\<rparr>) s)"
    using s by (intro gentle_always) (auto simp: gentle_def slot_ok_def is_loaded_def)
  have 2: "I (snd (unload r mid s))"
    if "get_entry mid s = Some e" "is_loaded e" "\<not> en_pinned e" "probe_active e = Inr False" for e
    using that by (intro unload_evictable [OF s r]) (auto simp: evictable_def probe_active_def has_active_requests_def
        split: option.splits activity_probe.splits)
  show "I (snd (check_ttl_entry r ttl timeout now mid s))"
  proof (cases "get_entry mid s")
    case (Some e)
    then show ?thesis using s 1 2
      by (cases "probe_active e") (auto simp: check_ttl_entry_def split: option.split bool.split)
  qed (use s in \<open>simp add: check_ttl_entry_def\<close>)
qed

lemma ttl_keeps: "(\<And>m. al_unload A (run m)) \<Longrightarrow> keeps (check_ttl_expirations run ttl timeout now) I"
proof -
  assume r: "\<And>m. al_unload A (run m)"
  have "keeps (check_ttl_entries run ttl timeout now mids) I" for mids
    by (induction mids) (auto intro!: keeps_bind keeps_ret ttl_entry_keeps r)
  then show ?thesis by (simp add: keeps_def check_ttl_expirations_def)
qed

lemma prefill_keeps: "(\<And>i. al_unload A (pr_unload r i)) \<Longrightarrow> keeps (evict_idle_for_prefill r mid) I"
  unfolding evict_idle_for_prefill_def
  by (intro keeps_if keeps_ret) (rule keepsI, rule prefill_loop_keeps)

lemma swallow_keeps: "keeps m I \<Longrightarrow> keeps (swallow m) I"
  by (fastforce simp: keeps_def swallow_def split: prod.split sum.split)

lemma preload_keeps:
  "(\<And>m. get_ok A m (how m)) \<Longrightarrow> (\<And>m e. m \<in> al_reload A \<or> \<not> variant_changed (how m) e) \<Longrightarrow>
    keeps (preload_pinned_models how) I"
proof (rule keepsI)
  fix s assume h: "\<And>m. get_ok A m (how m)" "\<And>m e. m \<in> al_reload A \<or> \<not> variant_changed (how m) e" and s: "I s"
  have "mid \<in> al_reload A \<or> as_loaded (how mid) False mid t" for mid t
    using h(2) [of mid] by (auto simp: as_loaded_def needs_lm_def split: option.split)
  then have "keeps (swallow (get_engine (how mid) False False mid)) I" for mid
    by (intro swallow_keeps keepsI get_engine_keeps h(1))
  then have "keeps (for_each mids (\<lambda>mid. swallow (get_engine (how mid) False False mid))) I" for mids
    by (rule keeps_for_each)
  then show "I (snd (preload_pinned_models how s))"
    unfolding preload_pinned_models_def by (rule keepsD) (rule s)
qed

theorem step_keeps:
  assumes "pool_step A s t" and s: "I s"
  shows "I t"
  using assms(1)
proof cases
  case (step_get r mid force_lm lease)
  show ?thesis unfolding step_get(1) by (rule get_engine_keeps [OF step_get(2,3) s])
next
  case (step_release r mid)
  show ?thesis unfolding step_release(1) by (rule keepsD [OF release_keeps [OF step_release(2,3)] s])
next
  case (step_idle r now mid)
  show ?thesis unfolding step_idle(1) by (rule keepsD [OF idle_keeps [OF step_idle(2)] s])
next
  case (step_pending r mid)
  show ?thesis unfolding step_pending(1) by (rule keepsD [OF pending_keeps [OF step_pending(2)] s])
next
  case (step_ttl run ttl timeout now)
  show ?thesis unfolding step_ttl(1) by (rule keepsD [OF ttl_keeps [OF step_ttl(2)] s])
next
  case (step_prefill r mid)
  show ?thesis unfolding step_prefill(1) by (rule keepsD [OF prefill_keeps [OF step_prefill(2)] s])
next
  case (step_preload how)
  show ?thesis unfolding step_preload(1) by (rule keepsD [OF preload_keeps [OF step_preload(2,3)] s])
next
  case (step_force r mid)
  then show ?thesis using force_upd [OF s] by simp
next
  case (step_race mid e)
  then show ?thesis using race_upd(1) [OF s] by simp
next
  case (step_forget mid)
  then show ?thesis using forget_unloaded [OF s] race_upd(2) [OF s] by blast
next
  case (step_quiet mid f)
  show ?thesis unfolding step_quiet(1) by (rule quiet_keeps [OF step_quiet(2) s])
qed

theorem steps_keep: "pool_steps A s t \<Longrightarrow> I s \<Longrightarrow> I t"
  by (induction rule: rtranclp_induct) (auto intro: step_keeps)

end

end
