(* ===== verification/EngineSafety.thy ===== *)
theory EngineSafety
  imports EngineInvariant
begin

section \<open>Invariants of the engine pool\<close>

text \<open>
  The interface \<open>pool_property\<close> is interpreted for the consistency of the registry with the bytes on the
  books, and, through the contract \<open>held_entry\<close>, for an engine that a request has leased and for a
  pinned engine.
\<close>

subsection \<open>The books\<close>

definition entry_bytes :: "engine_entry \<Rightarrow> int" where
  "entry_bytes e = (if is_loaded e then en_size e else 0)"

definition loaded_bytes :: "engine_pool \<Rightarrow> int" where
  "loaded_bytes s = sum_list (map (\<lambda>(_, e). entry_bytes e) (ep_entries s))"

definition pool_ok :: "engine_pool \<Rightarrow> bool" where
  "pool_ok s \<longleftrightarrow> dict_ok (ep_entries s) \<and> (\<forall>(mid, e) \<in> set (ep_entries s). slot_ok e \<and> en_uid e < ep_next s) \<and>
     ep_memory s = loaded_bytes s"

definition settling :: allowed where
  "settling = \<lparr>al_unload = \<lambda>r. un_cut r \<noteq> CutSettling, al_reload = UNIV, al_release = UNIV,
     al_force = UNIV, al_race = {}\<rparr>"

lemma bytes_update:
  assumes "dict_ok d" and "map_of d k = Some (e :: engine_entry)"
  shows "sum_list (map (\<lambda>(_, e). entry_bytes e) (dict_set k e' d)) =
    sum_list (map (\<lambda>(_, e). entry_bytes e) d) - entry_bytes e + entry_bytes e'"
  using assms by (induction d) (auto split: if_splits)

lemma bytes_filter:
  "(\<And>mid e. (mid, e) \<in> set d \<Longrightarrow> \<not> P mid e \<Longrightarrow> \<not> is_loaded e) \<Longrightarrow>
    sum_list (map (\<lambda>(_, e). entry_bytes e) (filter (\<lambda>(mid, e). P mid e) d)) = sum_list (map (\<lambda>(_, e). entry_bytes e) d)"
proof (induction d)
  case (Cons x d)
  obtain mid e where x: "x = (mid, e)" by fastforce
  have "sum_list (map (\<lambda>(_, e). entry_bytes e) (filter (\<lambda>(mid, e). P mid e) d)) = sum_list (map (\<lambda>(_, e). entry_bytes e) d)"
    by (rule Cons.IH) (use Cons.prems in auto)
  moreover have "\<not> is_loaded e" if "\<not> P mid e" using Cons.prems [of mid e] that x by simp
  ultimately show ?case using x by (simp add: entry_bytes_def)
qed simp

lemma bytes_map:
  "(\<And>mid e. (mid, e) \<in> set d \<Longrightarrow> gentle e (F mid e)) \<Longrightarrow>
    sum_list (map (\<lambda>(_, e). entry_bytes e) (map (\<lambda>(mid, e). (mid, F mid e)) d)) = sum_list (map (\<lambda>(_, e). entry_bytes e) d)"
proof (induction d)
  case (Cons x d)
  obtain mid e where x: "x = (mid, e)" by fastforce
  have "sum_list (map (\<lambda>(_, e). entry_bytes e) (map (\<lambda>(mid, e). (mid, F mid e)) d)) = sum_list (map (\<lambda>(_, e). entry_bytes e) d)"
    by (rule Cons.IH) (use Cons.prems in auto)
  moreover have "entry_bytes (F mid e) = entry_bytes e"
    using Cons.prems [of mid e] x by (simp add: entry_bytes_def gentle_def is_loaded_def)
  ultimately show ?case using x by simp
qed simp

lemma set_update: "(m, x) \<in> set (dict_set k v d) \<Longrightarrow> (m, x) \<in> set d \<or> m = k \<and> x = v"
  by (induction d) (auto split: if_splits)

lemma pool_ok_upd:
  assumes s: "pool_ok s" and e: "get_entry mid s = Some e"
    and f: "slot_ok e \<Longrightarrow> slot_ok (f e)" "en_uid (f e) = en_uid e"
    and n: "n = ep_memory s - entry_bytes e + entry_bytes (f e)"
  shows "pool_ok ((upd_entry mid f s)\<lparr>ep_memory := n\<rparr>)"
proof -
  have m: "map_of (ep_entries s) mid = Some e" using e by (simp add: get_entry_def)
  then have "(mid, e) \<in> set (ep_entries s)" by (rule map_of_SomeD)
  with s have "slot_ok e" "en_uid e < ep_next s" by (auto simp: pool_ok_def)
  with s m f show ?thesis
    by (auto simp: pool_ok_def upd_entry_def e loaded_bytes_def bytes_update n dest!: set_update)
qed

lemma pool_ok_upd_same:
  assumes s: "pool_ok s" and "get_entry mid s = Some e" and "slot_ok e \<Longrightarrow> slot_ok (f e)"
    and "en_uid (f e) = en_uid e" and "entry_bytes (f e) = entry_bytes e"
  shows "pool_ok (upd_entry mid f s)"
proof -
  have "(upd_entry mid f s)\<lparr>ep_memory := ep_memory s\<rparr> = upd_entry mid f s"
    by (simp add: upd_entry_def split: option.split)
  moreover have "pool_ok ((upd_entry mid f s)\<lparr>ep_memory := ep_memory s\<rparr>)"
    by (rule pool_ok_upd [OF assms(1,2)]) (simp_all add: assms(3-))
  ultimately show ?thesis by argo
qed

lemma pool_ok_entry: "pool_ok s \<Longrightarrow> get_entry mid s = Some e \<Longrightarrow> slot_ok e"
  by (auto simp: pool_ok_def get_entry_def dest!: map_of_SomeD)

lemma pool_ok_unload:
  assumes s: "pool_ok s" and "un_cut r \<noteq> CutSettling"
  shows "pool_ok (snd (unload r mid s))"
proof (cases "get_entry mid s")
  case (Some e)
  have "slot_ok (drop_engine e)" using pool_ok_entry [OF s Some]
    by (simp add: slot_ok_def) (simp add: drop_engine_def)
  then have "pool_ok ((upd_entry mid drop_engine s)\<lparr>ep_memory := ep_memory s - en_size e\<rparr>)" if "is_loaded e"
    using that by (intro pool_ok_upd [OF s Some]) (simp_all add: entry_bytes_def)
  then show ?thesis using s assms(2) Some by (auto simp: unload_effect)
qed (use s in \<open>simp add: unload_effect\<close>)

interpretation books: pool_property pool_ok settling
proof
  fix s :: engine_pool and mid P F x n rs
  assume s: "pool_ok s"
  show "dict_ok (ep_entries s)" using s by (simp add: pool_ok_def)
  show "pool_ok (upd_entry mid f s)" if "get_entry mid s = Some e" "gentle e (f e)" for f e
    using that by (intro pool_ok_upd_same [OF s]) (auto simp: gentle_def entry_bytes_def is_loaded_def)
  show "pool_ok (upd_entry mid (\<lambda>e. e\<lparr>en_pinned := b\<rparr>) s)" for b
    using s by (cases "get_entry mid s")
      (auto intro!: pool_ok_upd_same simp: entry_bytes_def slot_ok_def is_loaded_def)
  show "pool_ok (upd_entry mid drop_lease s)"
    using s by (cases "get_entry mid s")
      (auto intro!: pool_ok_upd_same simp: entry_bytes_def slot_ok_def is_loaded_def drop_lease_def)
  show "pool_ok (snd (unload r mid s))" if "al_unload settling r" for r
    using that s by (intro pool_ok_unload) (simp_all add: settling_def)
  show "pool_ok (attach l mid g e' s)" if "get_entry mid s = Some e" "\<not> is_loaded e" "en_size e' = en_size e" "en_uid e' = en_uid e" for l g e e'
    unfolding attach_def upd_object_eq
    using that by (intro pool_ok_upd [OF s])
      (auto simp: entry_bytes_def slot_ok_def is_loaded_def clear_load_failure_def)
  show "pool_ok (s\<lparr>ep_entries := dict_set mid (fresh_entry (ep_next s) b info) (ep_entries s), ep_next := ep_next s + 1\<rparr>)"
    if "\<And>e. get_entry mid s = Some e \<Longrightarrow> \<not> is_loaded e" for b info
  proof -
    have "slot_ok (fresh_entry (ep_next s) b info)" "entry_bytes (fresh_entry (ep_next s) b info) = 0"
        "en_uid (fresh_entry (ep_next s) b info) = ep_next s"
      by (simp_all add: slot_ok_def entry_bytes_def fresh_entry_def is_loaded_def)
    moreover have "sum_list (map (\<lambda>(_, e). entry_bytes e) (dict_set mid (fresh_entry (ep_next s) b info) (ep_entries s))) =
        loaded_bytes s"
    proof (cases "get_entry mid s")
      case None
      then show ?thesis using calculation(2)
        by (simp add: loaded_bytes_def get_entry_def dict_set_absent)
    next
      case (Some e)
      then have "entry_bytes e = 0" using that by (simp add: entry_bytes_def)
      then show ?thesis using Some s calculation(2)
        by (simp add: loaded_bytes_def get_entry_def pool_ok_def bytes_update)
    qed
    ultimately show ?thesis using s
      by (fastforce simp: pool_ok_def loaded_bytes_def dest!: set_update)
  qed
  show "pool_ok (s\<lparr>ep_entries := filter (\<lambda>(mid, e). P mid e) (ep_entries s)\<rparr>)"
    if "\<And>mid e. (mid, e) \<in> set (ep_entries s) \<Longrightarrow> \<not> P mid e \<Longrightarrow> \<not> is_loaded e"
  proof -
    have "sum_list (map (\<lambda>(_, e). entry_bytes e) (filter (\<lambda>(mid, e). P mid e) (ep_entries s))) = loaded_bytes s"
      using that by (simp add: bytes_filter loaded_bytes_def)
    then show ?thesis using s that
      by (auto simp: pool_ok_def loaded_bytes_def intro!: distinct_map_filter)
  qed
  show "pool_ok (s\<lparr>ep_entries := map (\<lambda>(mid, e). (mid, F mid e)) (ep_entries s)\<rparr>)"
    if "\<And>mid e. (mid, e) \<in> set (ep_entries s) \<Longrightarrow> gentle e (F mid e)"
  proof -
    have "sum_list (map (\<lambda>(_, e). entry_bytes e) (map (\<lambda>(mid, e). (mid, F mid e)) (ep_entries s))) = loaded_bytes s"
      unfolding loaded_bytes_def using that by (rule bytes_map)
    moreover have "map fst (map (\<lambda>(mid, e). (mid, F mid e)) (ep_entries s)) = map fst (ep_entries s)" by auto
    moreover have "slot_ok (F mid e) \<and> en_uid (F mid e) < ep_next s" if "(mid, e) \<in> set (ep_entries s)" for mid e
      using that \<open>\<And>mid e. (mid, e) \<in> set (ep_entries s) \<Longrightarrow> gentle e (F mid e)\<close> [OF that] s
      by (auto simp: pool_ok_def gentle_def)
    ultimately show ?thesis using s
      by (auto simp: pool_ok_def loaded_bytes_def simp del: map_map)
  qed
  show "pool_ok (s\<lparr>ep_seconds_per_gb := x, ep_observations := n\<rparr>)" "pool_ok (s\<lparr>ep_releases := rs\<rparr>)"
    using s by (simp_all add: pool_ok_def loaded_bytes_def)
  show "pool_ok (snd (unload r mid s))" if "al_unload settling r" for r
    using that s by (intro pool_ok_unload) (simp_all add: settling_def)
qed (simp_all add: settling_def)

text \<open>Calls of the pool: its steps, forced unloads and deletions included, and the shutdown\<close>

inductive pool_call :: "engine_pool \<Rightarrow> engine_pool \<Rightarrow> bool" for s where
  call_step: "pool_step settling s t \<Longrightarrow> pool_call s t"
| call_shutdown: "(\<And>i. un_cut (released i) \<noteq> CutSettling) \<Longrightarrow> (\<And>m. un_cut (run m) \<noteq> CutSettling) \<Longrightarrow>
    pool_call s (snd (shutdown_pool released run s))"

lemma pool_ok_init: "pool_ok init_pool"
  by (simp add: pool_ok_def init_pool_def loaded_bytes_def)

lemma keeps_pool_ok_unload: "un_cut r \<noteq> CutSettling \<Longrightarrow> keeps (unload r mid) pool_ok"
  by (rule keepsI) (rule pool_ok_unload)

lemma pool_ok_shutdown:
  assumes "\<And>i. un_cut (released i) \<noteq> CutSettling" and "\<And>m. un_cut (run m) \<noteq> CutSettling" and s: "pool_ok s"
  shows "pool_ok (snd (shutdown_pool released run s))"
proof -
  have "keeps (\<lambda>s. case run_release (released i) mid s of (_, t) \<Rightarrow> (Inr (), t)) pool_ok" for i mid
  proof (rule keepsI)
    fix s assume "pool_ok s"
    then have "pool_ok (snd (run_release (released i) mid s))"
      using assms(1) by (intro keepsD [OF books.release_keeps]) (simp_all add: settling_def)
    then show "pool_ok (snd (case run_release (released i) mid s of (_, t) \<Rightarrow> (Inr (), t)))"
      by (cases "run_release (released i) mid s") simp
  qed
  then have "keeps (for_each rs (\<lambda>(i, mid) s. case run_release (released i) mid s of (_, t) \<Rightarrow> (Inr (), t))) pool_ok" for rs
    by (intro keeps_for_each) (auto split: prod.split)
  then have 1: "keeps (drain_releases released) pool_ok"
    unfolding keeps_def drain_releases_def by blast
  have "keeps (for_each mids (\<lambda>mid. swallow (unload (run mid) mid))) pool_ok" for mids
    by (rule keeps_for_each) (intro books.swallow_keeps keeps_pool_ok_unload assms)
  then have 2: "keeps (\<lambda>s. for_each (model_ids s) (\<lambda>mid. swallow (unload (run mid) mid)) s) pool_ok"
    unfolding keeps_def by blast
  show ?thesis unfolding shutdown_pool_def by (rule keepsD [OF keeps_bind [OF 1 2] s])
qed

lemma pool_call_ok: "pool_call s t \<Longrightarrow> pool_ok s \<Longrightarrow> pool_ok t"
proof (induction rule: pool_call.induct)
  case (call_step t)
  then show ?case by (rule books.step_keeps)
next
  case (call_shutdown released run)
  then show ?case by (intro pool_ok_shutdown)
qed

lemma pool_calls_ok: "pool_call\<^sup>*\<^sup>* s t \<Longrightarrow> pool_ok s \<Longrightarrow> pool_ok t"
  by (induction rule: rtranclp_induct) (auto intro: pool_call_ok)

subsection \<open>Engines that stay\<close>

text \<open>
  A property \<open>Q\<close> of the entry of a model that only a loaded entry has, and that allows no eviction, is
  kept by the steps: this is the second contract, from which the first one follows.
\<close>

definition holds :: "pystr \<Rightarrow> (engine_entry \<Rightarrow> bool) \<Rightarrow> engine_pool \<Rightarrow> bool" where
  "holds mid Q s \<longleftrightarrow> dict_ok (ep_entries s) \<and> (\<exists>e. get_entry mid s = Some e \<and> Q e)"

lemma upd_dict_ok: "dict_ok (ep_entries s) \<Longrightarrow> dict_ok (ep_entries (upd_entry m f s))"
  by (simp add: upd_entry_def split: option.split)

locale held_entry =
  fixes mid :: pystr and Q :: "engine_entry \<Rightarrow> bool" and A :: allowed
  assumes held_loaded: "Q e \<Longrightarrow> is_loaded e"
    and held_gentle: "Q e \<Longrightarrow> gentle e e' \<Longrightarrow> Q e'"
    and held_pin: "Q e \<Longrightarrow> b \<or> mid \<in> al_reload A \<Longrightarrow> Q (e\<lparr>en_pinned := b\<rparr>)"
    and held_release: "Q e \<Longrightarrow> mid \<in> al_release A \<Longrightarrow> Q (drop_lease e)"
    and held_busy: "Q e \<Longrightarrow> \<not> is_busy e \<Longrightarrow> en_pinned e \<and> mid \<notin> al_reload A"
    and held_unforced: "mid \<notin> al_force A" "mid \<notin> al_race A"
begin

lemma holds_upd:
  "holds mid Q s \<Longrightarrow> (\<And>e. m = mid \<Longrightarrow> get_entry mid s = Some e \<Longrightarrow> Q e \<Longrightarrow> Q (f e)) \<Longrightarrow> holds mid Q (upd_entry m f s)"
  by (auto simp: holds_def upd_dict_ok)

lemma holds_unload_other:
  assumes s: "holds mid Q s" and "m \<noteq> mid"
  shows "holds mid Q (snd (unload r m s))"
proof -
  have "dict_ok (ep_entries (snd (unload r m s)))"
    using s by (auto simp: unload_effect holds_def upd_entry_def split: option.split)
  then show ?thesis using assms by (auto simp: holds_def unload_others)
qed

lemma holds_unload:
  assumes s: "holds mid Q s" and e: "get_entry m s = Some e" "\<not> is_busy e" "\<not> en_pinned e \<or> m \<in> al_reload A"
  shows "holds mid Q (snd (unload r m s))"
proof -
  have "m \<noteq> mid" using s e held_busy by (auto simp: holds_def)
  with s show ?thesis by (rule holds_unload_other)
qed

end

sublocale held_entry \<subseteq> pool_property "holds mid Q" A
proof
  fix s :: engine_pool and m P F x n rs
  assume s: "holds mid Q s"
  show "dict_ok (ep_entries s)" using s by (simp add: holds_def)
  show "holds mid Q (upd_entry m f s)" if "get_entry m s = Some e" "gentle e (f e)" for f e
    using that held_gentle by (intro holds_upd [OF s]) auto
  show "holds mid Q (upd_entry m (\<lambda>e. e\<lparr>en_pinned := b\<rparr>) s)" if "b \<or> m \<in> al_reload A" for b
    using that held_pin by (intro holds_upd [OF s]) auto
  show "holds mid Q (upd_entry m drop_lease s)" if "m \<in> al_release A"
    using that held_release by (intro holds_upd [OF s]) auto
  show "holds mid Q (snd (unload r m s))"
    if "get_entry m s = Some e" "\<not> is_busy e" "\<not> en_pinned e \<or> m \<in> al_reload A" for r e
    using that by (rule holds_unload [OF s])
  show "holds mid Q (attach l m g e' s)" if "get_entry m s = Some e" "\<not> is_loaded e" for l g e e'
  proof -
    have "m \<noteq> mid" using s that held_loaded by (auto simp: holds_def)
    then have "holds mid Q (upd_object m (en_uid e') (\<lambda>e. clear_load_failure (e\<lparr>en_engine := Some g, en_last_access := ld_now l\<rparr>)) s)"
      unfolding upd_object_eq by (intro holds_upd [OF s]) simp
    then show ?thesis by (simp add: attach_def holds_def)
  qed
  show "holds mid Q (s\<lparr>ep_entries := dict_set m (fresh_entry (ep_next s) b info) (ep_entries s), ep_next := ep_next s + 1\<rparr>)"
    if "\<And>e. get_entry m s = Some e \<Longrightarrow> \<not> is_loaded e" for b info
  proof -
    have "m \<noteq> mid" using s that held_loaded by (auto simp: holds_def)
    then show ?thesis using s by (auto simp: holds_def get_entry_def)
  qed
  show "holds mid Q (s\<lparr>ep_entries := filter (\<lambda>(mid, e). P mid e) (ep_entries s)\<rparr>)"
    if "\<And>mid e. (mid, e) \<in> set (ep_entries s) \<Longrightarrow> \<not> P mid e \<Longrightarrow> \<not> is_loaded e"
  proof -
    obtain e where e: "map_of (ep_entries s) mid = Some e" "Q e" using s by (auto simp: holds_def get_entry_def)
    then have "P mid e" using that [of mid e] held_loaded [of e] by (auto dest: map_of_SomeD)
    then have "map_of (filter (\<lambda>(mid, e). P mid e) (ep_entries s)) mid = Some e"
      by (rule map_of_filter_in [OF e(1)])
    then show ?thesis using s e(2) by (auto simp: holds_def get_entry_def intro!: distinct_map_filter)
  qed
  show "holds mid Q (s\<lparr>ep_entries := map (\<lambda>(mid, e). (mid, F mid e)) (ep_entries s)\<rparr>)"
    if "\<And>mid e. (mid, e) \<in> set (ep_entries s) \<Longrightarrow> gentle e (F mid e)"
  proof -
    have "map_of (map (\<lambda>(mid, e). (mid, F mid e)) d) mid = map_option (F mid) (map_of d mid)" for d
      by (induction d) auto
    moreover obtain e where e: "map_of (ep_entries s) mid = Some e" "Q e" using s by (auto simp: holds_def get_entry_def)
    moreover have "Q (F mid e)" using that [of mid e] held_gentle e by (auto dest: map_of_SomeD)
    moreover have "map fst (map (\<lambda>(mid, e). (mid, F mid e)) (ep_entries s)) = map fst (ep_entries s)" by auto
    ultimately show ?thesis using s by (simp add: holds_def get_entry_def del: map_map)
  qed
  show "holds mid Q (s\<lparr>ep_seconds_per_gb := x, ep_observations := n\<rparr>)" "holds mid Q (s\<lparr>ep_releases := rs\<rparr>)"
    using s unfolding holds_def get_entry_def by (simp_all del: map_of_eq_Some_iff)
  show "holds mid Q (snd (unload r m s))" if "m \<in> al_force A" for r
    using that held_unforced by (intro holds_unload_other [OF s]) auto
  have "dict_ok (ep_entries (finish_unload (m, e) s))" "dict_ok (ep_entries (forget_model m s))" for e
    using s upd_dict_ok by (simp_all add: holds_def finish_unload_def Let_def upd_object_eq forget_model_def)
  then show "holds mid Q (finish_unload (m, e) s)" "holds mid Q (forget_model m s)" if "m \<in> al_race A" for e
    using that held_unforced s finish_others [of mid m] forget_others [of mid m] by (cases "m = mid"; simp add: holds_def)+
qed

text \<open>An engine with at least \<open>n\<close> leases, while no lease on it is given back; a pinned engine\<close>

definition leased :: "nat \<Rightarrow> engine \<Rightarrow> int \<Rightarrow> engine_entry \<Rightarrow> bool" where
  "leased uid g n e \<longleftrightarrow> en_uid e = uid \<and> en_engine e = Some g \<and> 0 < n \<and> n \<le> en_in_use e"

definition between_releases :: "pystr \<Rightarrow> allowed" where
  "between_releases mid = \<lparr>al_unload = \<lambda>_. True, al_reload = UNIV, al_release = - {mid},
     al_force = - {mid}, al_race = - {mid}\<rparr>"

interpretation lease: held_entry mid "leased uid g n" "between_releases mid" for mid uid g n
  by unfold_locales (auto simp: leased_def between_releases_def is_loaded_def gentle_def is_busy_def drop_lease_def)

definition pinned_with :: "nat \<Rightarrow> engine \<Rightarrow> engine_entry \<Rightarrow> bool" where
  "pinned_with uid g e \<longleftrightarrow> en_uid e = uid \<and> en_engine e = Some g \<and> en_pinned e"

definition keeping_pin :: "pystr \<Rightarrow> allowed" where
  "keeping_pin mid = \<lparr>al_unload = \<lambda>_. True, al_reload = - {mid}, al_release = UNIV,
     al_force = - {mid}, al_race = - {mid}\<rparr>"

interpretation pin: held_entry mid "pinned_with uid g" "keeping_pin mid" for mid uid g
  by unfold_locales (auto simp: pinned_with_def keeping_pin_def is_loaded_def gentle_def drop_lease_def)

end
