(* ===== verification/EngineProperties.thy ===== *)
theory EngineProperties
  imports EngineSafety
begin

section \<open>Properties of the engine pool\<close>

text \<open>
  The books, leases and pins over every sequence of steps; the victim of an eviction, admission, the
  load and the leases one by one; and what racing and cancelled unloads do to the books.
\<close>

subsection \<open>A sample pool\<close>

definition sample_info :: model_info where
  "sample_info = \<lparr>mi_path = [], mi_model_type = ''llm'', mi_engine_type = ''batched'', mi_size = 100, mi_text_size = 0,
     mi_config_type = ''llama'', mi_moe = None\<rparr>"

definition sample_engine :: engine where
  "sample_engine = \<lparr>eg_uid = 1, eg_class = Batched ''BatchedEngine'', eg_tokenizer = True, eg_probe = Reports False,
     eg_scheduler = None\<rparr>"

definition sample_unload :: unload_run where
  "sample_unload = \<lparr>un_cut = Uncut, un_before = 0, un_active = (\<lambda>_. 0)\<rparr>"

definition sample_settings :: load_settings where
  "sample_settings = \<lparr>ls_mode = ''cached'', ls_tier = None, ls_dflash = False, ls_draft = None\<rparr>"

definition sample_load :: load_run where
  "sample_load = \<lparr>ld_now = 5, ld_started = 3, ld_elapsed = 2, ld_before = 0, ld_after = 90, ld_settings = sample_settings,
     ld_classes = \<lparr>ce_scope = False, ce_glm5 = False, ce_qwen4 = False\<rparr>, ld_dflash_ready = False,
     ld_start = (\<lambda>_. Some sample_engine), ld_unload = (\<lambda>_. sample_unload), ld_abort = False, ld_waiting = (\<lambda>s. s), ld_cut = Unbroken,
     ld_env = (\<lambda>s. s), ld_fails = False, ld_signature = None\<rparr>"

definition sample_admission :: admission_run where
  "sample_admission = \<lparr>ad_ceiling = Some (Inr 150), ad_fallback = None, ad_soft = None, ad_active = (\<lambda>_. 0),
     ad_footprint = (\<lambda>_. 0), ad_committed = 0, ad_unload = (\<lambda>_. sample_unload)\<rparr>"

definition sample_get :: get_run where
  "sample_get = \<lparr>gr_expected = None, gr_runtime = False, gr_now = 7, gr_path = True, gr_settings = sample_settings,
     gr_sizes = \<lparr>sz_scope_env = False, sz_deepseek = None, sz_qwen = None, sz_estimate = 0\<rparr>,
     gr_variant_unload = sample_unload, gr_lm_unload = sample_unload, gr_admission = sample_admission,
     gr_load = sample_load\<rparr>"

definition sample_entry :: engine_entry where
  "sample_entry = (fresh_entry 0 False sample_info)\<lparr>en_engine := Some sample_engine, en_last_access := 5,
     en_actual := Some 90, en_in_use := 1\<rparr>"

definition sample_found :: engine_pool where
  "sample_found = discover_models [([97], sample_info)] {} init_pool"

definition sample_pool :: engine_pool where
  "sample_pool = init_pool\<lparr>ep_entries := [([97], sample_entry)], ep_memory := 100, ep_seconds_per_gb := Some (2 / (100 / 1024 ^ 3)),
     ep_observations := 1, ep_next := 1\<rparr>"

lemmas sample_run_defs = sample_get_def sample_admission_def sample_load_def sample_settings_def sample_unload_def
  sample_engine_def sample_info_def fresh_entry_def

lemma sample_found_eq:
  "sample_found = init_pool\<lparr>ep_entries := [([97], fresh_entry 0 False sample_info)], ep_next := 1\<rparr>"
  by (simp add: sample_found_def discover_models_def discover_one_def init_pool_def get_entry_def Let_def)

lemma sample_get_eq: "get_engine sample_get False True [97] sample_found = (Inr sample_engine, sample_pool)"
  by (simp add: sample_found_eq sample_pool_def sample_entry_def sample_run_defs init_pool_def get_engine_def
      reload_if_def on_entry_def get_entry_def is_loaded_def ret_def bind_st_def load_anew_def check_path_def
      check_failed_def admit_def admission_sizes_def chosen_size_def is_deepseek_def qwen_moe_engine_def
      ceiling_of_def callback_value_def evict_target_def modify_def upd_entry_def admission_loop.simps
      current_memory_def load_engine_def start_stage_def start_engine_def wants_dflash_def natural_class_def
      effective_type_def batched_class_def Let_def gets_def abort_asked_def validate_ready_def is_llm.simps
      type_now_def attach_def clear_load_failure_def tail_stage_def upd_object_eq still_registered_def observed_size_def
      end_load_def load_speed_def hand_out_def take_lease_def)

lemma sample_get_ok: "get_ok A mid sample_get" if "\<And>r. un_cut r = Uncut \<Longrightarrow> al_unload A r"
  using that by (simp add: get_ok_def load_ok_def sample_run_defs quiet_id)

lemma sample_reachable: "pool_call\<^sup>*\<^sup>* init_pool sample_pool"
proof -
  have "pool_step settling init_pool sample_found"
    unfolding sample_found_def
    by (rule step_quiet) (rule quiet_discover [OF quiet_id], simp add: settling_def)
  moreover have "pool_step settling sample_found (snd (get_engine sample_get False True [97] sample_found))"
    by (rule step_get) (simp_all add: sample_get_ok settling_def)
  ultimately show ?thesis
    unfolding sample_get_eq by (auto intro: call_step rtranclp.intros)
qed

subsection \<open>The books\<close>

text \<open>
  C18. In every pool reached by its steps, by forced unloads and deletions of models and by the
  shutdown, every model is registered once, the tracked memory is exactly the sum of the booked sizes of the
  loaded models, no lease count is negative, and a model that is not loaded has no pending unload,
  no abort request and no signature left over. Three things are left out, each of which breaks the sum (see
  the last section of EngineGuarantees): an unload cancelled in its settle barrier, an unlocked
  unload that overlaps another unload or load of the same model, and a deletion during a load.
\<close>

theorem reachable_pool_books:
  assumes "pool_call\<^sup>*\<^sup>* init_pool s"
  shows "dict_ok (ep_entries s) \<and> ep_memory s = loaded_bytes s \<and>
    (\<forall>mid e. get_entry mid s = Some e \<longrightarrow> 0 \<le> en_in_use e \<and>
      (\<not> is_loaded e \<longrightarrow> en_pending e = None \<and> \<not> en_abort_requested e \<and> en_signature e = None))"
proof -
  have "pool_ok s" using assms pool_ok_init by (rule pool_calls_ok)
  then show ?thesis by (auto simp: pool_ok_def slot_ok_def get_entry_def dest!: map_of_SomeD)
qed

lemma reachable_pool_books_witness:
  "ep_memory sample_pool = loaded_bytes sample_pool \<and> loaded_bytes sample_pool = 100"
  using reachable_pool_books [OF sample_reachable] by (simp add: sample_pool_def)

subsection \<open>Leases and pins\<close>

text \<open>
  C19. The engine of a request is never evicted: while a model has leases and none is given back, its
  engine is neither replaced nor dropped by loads of other models with their evictions, idle
  timeouts, prefill evictions, pending unloads, discovery, cancelled unloads, and forced,
  overlapping and deleting unloads of other models, in any order, also during loads; and when one of several leases
  is given back, the engine stays as well. What does drop a leased engine, and is left out: a forced unload
  or deletion of this very model, and the shutdown.
\<close>

theorem leased_engine_stays:
  assumes "dict_ok (ep_entries s)" and "get_entry mid s = Some e" and "en_engine e = Some g" and "0 < en_in_use e"
  shows "(pool_steps (between_releases mid) s t \<longrightarrow>
      (\<exists>e'. get_entry mid t = Some e' \<and> en_uid e' = en_uid e \<and> en_engine e' = Some g \<and> en_in_use e \<le> en_in_use e')) \<and>
    (1 < en_in_use e \<longrightarrow> (\<exists>e'. get_entry mid (snd (run_release r mid s)) = Some e' \<and> en_engine e' = Some g \<and>
      en_in_use e - 1 \<le> en_in_use e'))"
proof (intro conjI impI)
  assume steps: "pool_steps (between_releases mid) s t"
  have "holds mid (leased (en_uid e) g (en_in_use e)) s" using assms by (simp add: holds_def leased_def)
  with steps have "holds mid (leased (en_uid e) g (en_in_use e)) t" by (rule lease.steps_keep)
  then show "\<exists>e'. get_entry mid t = Some e' \<and> en_uid e' = en_uid e \<and> en_engine e' = Some g \<and> en_in_use e \<le> en_in_use e'"
    by (auto simp: holds_def leased_def)
next
  assume "1 < en_in_use e"
  with assms show "\<exists>e'. get_entry mid (snd (run_release r mid s)) = Some e' \<and> en_engine e' = Some g \<and>
      en_in_use e - 1 \<le> en_in_use e'"
    by (simp add: run_release_def release_lease_def unload_pending_if_idle_def pending_ready_def is_busy_def)
qed

lemma leased_engine_stays_witness:
  "\<exists>e. get_entry [97] (snd (check_ttl_expirations (\<lambda>_. sample_unload) (\<lambda>_. None) (Some 1) 100 sample_pool)) = Some e \<and>
    en_engine e = Some sample_engine"
proof -
  have "pool_steps (between_releases [97]) sample_pool
      (snd (check_ttl_expirations (\<lambda>_. sample_unload) (\<lambda>_. None) (Some 1) 100 sample_pool))"
    by (intro r_into_rtranclp step_ttl) (simp add: between_releases_def)
  then show ?thesis
    using leased_engine_stays [of sample_pool "[97]" sample_entry sample_engine]
    by (fastforce simp: sample_pool_def sample_entry_def get_entry_def)
qed

text \<open>
  C20. A pinned engine stays, whether it is in use or not, through the same steps as in C19 and the
  release of its leases, as long as the model is not unpinned, no variant of it is asked for that
  has to be built anew (nor preloaded with settings that could), it is not itself unloaded by force or deleted, and the pool is not shut down.
\<close>

theorem pinned_engine_stays:
  assumes "dict_ok (ep_entries s)" and "get_entry mid s = Some e" and "en_engine e = Some g" and "en_pinned e"
    and "pool_steps (keeping_pin mid) s t"
  shows "\<exists>e'. get_entry mid t = Some e' \<and> en_uid e' = en_uid e \<and> en_engine e' = Some g \<and> en_pinned e'"
proof -
  have "holds mid (pinned_with (en_uid e) g) s" using assms(1-4) by (simp add: holds_def pinned_with_def)
  with assms(5) have "holds mid (pinned_with (en_uid e) g) t" by (rule pin.steps_keep)
  then show ?thesis by (auto simp: holds_def pinned_with_def)
qed

definition pinned_sample :: engine_pool where
  "pinned_sample = upd_entry [97] (\<lambda>e. e\<lparr>en_pinned := True, en_in_use := 0\<rparr>) sample_pool"

lemma pinned_engine_stays_witness:
  "\<exists>e. get_entry [97] (snd (check_ttl_expirations (\<lambda>_. sample_unload) (\<lambda>_. None) (Some 1) 100 pinned_sample)) = Some e \<and>
    en_engine e = Some sample_engine"
proof -
  have "pool_steps (keeping_pin [97]) pinned_sample
      (snd (check_ttl_expirations (\<lambda>_. sample_unload) (\<lambda>_. None) (Some 1) 100 pinned_sample))"
    by (intro r_into_rtranclp step_ttl) (simp add: keeping_pin_def)
  then show ?thesis
    using pinned_engine_stays [of pinned_sample "[97]" "sample_entry\<lparr>en_pinned := True, en_in_use := 0\<rparr>" sample_engine]
    by (fastforce simp: pinned_sample_def sample_pool_def sample_entry_def get_entry_def upd_entry_def)
qed

subsection \<open>Evictions\<close>

lemma items_iff: "(m, e) \<in> set (items s) \<longleftrightarrow> get_entry m s = Some e"
proof
  assume "get_entry m s = Some e"
  then have "m \<in> fst ` set (ep_entries s)" "e = the (get_entry m s)"
    by (auto simp: get_entry_def dest!: map_of_SomeD intro: rev_image_eqI)
  then show "(m, e) \<in> set (items s)" by (auto simp: items_def)
qed (rule items_get)

lemma least_recent_iff:
  "least_recent P s = Some mid \<longleftrightarrow>
    (\<exists>e. get_entry mid s = Some e \<and> P mid e \<and>
      (\<forall>m e'. get_entry m s = Some e' \<and> P m e' \<longrightarrow> (en_last_access e, mid) \<le> (en_last_access e', m)))"
proof -
  let ?cs = "map (\<lambda>(mid, e). (en_last_access e, mid)) (filter (\<lambda>(mid, e). P mid e) (items s))"
  have mem: "(t, m) \<in> set ?cs \<longleftrightarrow> (\<exists>e. get_entry m s = Some e \<and> P m e \<and> t = en_last_access e)" for t m
    by (force simp: items_iff)
  have least: "x \<in> set ?cs \<and> (\<forall>y \<in> set ?cs. x \<le> y)" if "sort ?cs = x # xs" for x xs
  proof -
    have "set ?cs = set (x # xs)" using that set_sort [of "\<lambda>x. x" ?cs] by simp
    moreover have "sorted (x # xs)" using that sorted_sort [of ?cs] by simp
    ultimately show ?thesis by auto
  qed
  show ?thesis
  proof
    assume "least_recent P s = Some mid"
    then obtain t ts where "sort ?cs = (t, mid) # ts"
      by (auto simp: least_recent_def split: list.splits prod.splits)
    from least [OF this] show "\<exists>e. get_entry mid s = Some e \<and> P mid e \<and>
        (\<forall>m e'. get_entry m s = Some e' \<and> P m e' \<longrightarrow> (en_last_access e, mid) \<le> (en_last_access e', m))"
      unfolding mem Ball_def split_paired_All by blast
  next
    assume "\<exists>e. get_entry mid s = Some e \<and> P mid e \<and>
        (\<forall>m e'. get_entry m s = Some e' \<and> P m e' \<longrightarrow> (en_last_access e, mid) \<le> (en_last_access e', m))"
    then obtain e where e: "get_entry mid s = Some e" "P mid e"
        "\<And>m e'. get_entry m s = Some e' \<Longrightarrow> P m e' \<Longrightarrow> (en_last_access e, mid) \<le> (en_last_access e', m)"
      by blast
    have 1: "(en_last_access e, mid) \<in> set ?cs" unfolding mem using e(1,2) by blast
    have 2: "(en_last_access e, mid) \<le> y" if y: "y \<in> set ?cs" for y
    proof (cases y)
      case (Pair t m)
      show ?thesis using y e(3) unfolding Pair mem by blast
    qed
    obtain y xs where y: "sort ?cs = y # xs" using 1 by (metis list.exhaust list.set(1) equals0D set_sort)
    have "y = (en_last_access e, mid)" using least [OF y] 1 2 [of y] by (blast intro: order_antisym)
    then show "least_recent P s = Some mid" using y by (simp add: least_recent_def)
  qed
qed

lemma least_recent_None_iff: "least_recent P s = None \<longleftrightarrow> (\<forall>m e. get_entry m s = Some e \<longrightarrow> \<not> P m e)"
proof -
  let ?cs = "map (\<lambda>(mid, e). (en_last_access e, mid)) (filter (\<lambda>(mid, e). P mid e) (items s))"
  have "least_recent P s = None \<longleftrightarrow> sort ?cs = []"
    by (cases "sort ?cs") (simp_all add: least_recent_def case_prod_beta)
  also have "\<dots> \<longleftrightarrow> set ?cs = {}" by (metis set_empty set_sort)
  also have "\<dots> \<longleftrightarrow> (\<forall>m e. get_entry m s = Some e \<longrightarrow> \<not> P m e)"
    by (auto simp: filter_empty_conv items_iff)
  finally show ?thesis .
qed

text \<open>
  The victim of an eviction is exactly the least recently used model (the first by name among
  equals) of those that are loaded, not pinned, not leased and without active requests; there is none
  exactly when no model is of this kind.
\<close>

theorem find_lru_victim_exact:
  "(find_lru_victim s = Some mid \<longleftrightarrow>
     (\<exists>e. get_entry mid s = Some e \<and> evictable e \<and>
       (\<forall>m e'. get_entry m s = Some e' \<and> evictable e' \<longrightarrow> (en_last_access e, mid) \<le> (en_last_access e', m)))) \<and>
   (find_lru_victim s = None \<longleftrightarrow> (\<nexists>m e. get_entry m s = Some e \<and> evictable e))"
  unfolding find_lru_victim_def least_recent_iff least_recent_None_iff by blast

lemma find_lru_victim_exact_witness:
  "find_lru_victim sample_pool = None \<and>
   find_lru_victim (sample_pool\<lparr>ep_entries := [([98], sample_entry\<lparr>en_in_use := 0\<rparr>), ([97], sample_entry\<lparr>en_in_use := 0\<rparr>)]\<rparr>) = Some [97]"
proof -
  let ?e = "sample_entry\<lparr>en_in_use := 0\<rparr>"
  let ?s = "sample_pool\<lparr>ep_entries := [([98], ?e), ([97], ?e)]\<rparr>"
  have e: "evictable ?e" "\<not> evictable sample_entry"
    by (simp_all add: evictable_def sample_entry_def sample_engine_def is_loaded_def has_active_requests_def fresh_entry_def)
  have g: "get_entry m ?s = (if m = [98] \<or> m = [97] then Some ?e else None)" for m
    by (simp add: get_entry_def)
  have "find_lru_victim ?s = Some [97]"
    using find_lru_victim_exact [of ?s "[97]"] e(1) unfolding g by auto
  moreover have "find_lru_victim sample_pool = None"
    using find_lru_victim_exact [of sample_pool "[]"] e(2) by (auto simp: sample_pool_def get_entry_def split: if_splits)
  ultimately show ?thesis by simp
qed

subsection \<open>Admission\<close>

text \<open>A round of the loop unloads exactly one model, unless its unload is cancelled.\<close>

lemma eviction_round:
  assumes "find_lru_victim s = Some v" and "unload r v s = (x, t)"
  shows "case x of Inl err \<Rightarrow> err = CancelledError \<and> un_cut r \<noteq> Uncut
    | Inr _ \<Rightarrow> loaded_model_count s = Suc (loaded_model_count t)"
proof -
  obtain e where e: "get_entry v s = Some e" "is_loaded e"
    using least_recent_loaded(1) [OF assms(1)] by (auto simp: evictable_def)
  show ?thesis using assms(2) e loaded_count_drop [OF e]
    by (auto simp: unload_def bind_st_def unload_engine_def ret_def Let_def loaded_model_count_def
        split: option.splits if_splits)
qed

lemma admission_loop_count:
  "loaded_model_count (snd (admission_loop a bytes limit target best_effort i evicted s)) \<le> loaded_model_count s"
proof (rule admission_loop_rule [where J = "\<lambda>t. loaded_model_count t \<le> loaded_model_count s"])
  fix j v u
  assume u: "loaded_model_count u \<le> loaded_model_count s" "find_lru_victim u = Some v"
  obtain e where e: "get_entry v u = Some e" "is_loaded e"
    using least_recent_loaded(1) [OF u(2)] by (auto simp: evictable_def)
  show "loaded_model_count (snd (unload (ad_unload a j) v u)) \<le> loaded_model_count s"
    using u(1) loaded_count_drop [OF e] e by (auto simp: unload_effect loaded_model_count_def)
qed simp

lemma admission_outcome':
  assumes "admission_loop a bytes limit target best_effort i evicted s = (res, t)" and "target \<le> limit"
    and "k = i + (loaded_model_count s - loaded_model_count t)"
    and "freed \<longleftrightarrow> evicted \<or> loaded_model_count t < loaded_model_count s"
  shows "(case res of
      Inr _ \<Rightarrow> current_memory a k t + bytes \<le> target \<or>
        find_lru_victim t = None \<and>
        (current_memory a k t + bytes \<le> limit \<or>
         freed \<and> max (ad_committed a) (ep_memory t) + bytes \<le> limit \<or> best_effort)
    | Inl err \<Rightarrow> err = CancelledError \<and> (\<exists>j. un_cut (ad_unload a j) \<noteq> Uncut) \<or>
        \<not> best_effort \<and> find_lru_victim t = None \<and> limit < current_memory a k t + bytes \<and>
        (freed \<longrightarrow> limit < max (ad_committed a) (ep_memory t) + bytes) \<and>
        err = (if bytes > limit then ModelTooLargeError else InsufficientMemoryError)) \<and>
    (res = Inr () \<and> \<not> best_effort \<longrightarrow> ep_memory t + bytes \<le> limit) \<and>
    (current_memory a i s + bytes \<le> target \<longrightarrow> res = Inr () \<and> t = s)"
  using assms
proof (induction a bytes limit target best_effort i evicted s arbitrary: k freed rule: admission_loop.induct)
  case (1 a bytes limit target best i evicted s)
  have m: "ep_memory s \<le> current_memory a j s" for j by (simp add: current_memory_def)
  show ?case
  proof (cases "current_memory a i s + bytes \<le> target")
    case True
    then show ?thesis using 1(2-5) m [of i] by (auto simp: admission_loop.simps [of a bytes])
  next
    case room: False
    show ?thesis
    proof (cases "find_lru_victim s")
      case None
      then have "last_resort a bytes limit best i evicted s = (res, t)"
        using room 1(2) by (simp add: admission_loop.simps [of a bytes])
      then show ?thesis using room None m [of i] 1(4,5)
        by (auto simp: last_resort_def not_le split: if_splits)
    next
      case (Some w)
      obtain x u where u: "unload (ad_unload a i) w s = (x, u)" by fastforce
      note round = eviction_round [OF Some u]
      show ?thesis
      proof (cases x)
        case (Inl err)
        then show ?thesis using room Some u round 1(2) by (auto simp: admission_loop.simps [of a bytes])
      next
        case (Inr y)
        have l: "admission_loop a bytes limit target best (i + 1) True u = (res, t)"
          using room Some u Inr 1(2) by (simp add: admission_loop.simps [of a bytes])
        have c: "loaded_model_count s = Suc (loaded_model_count u)" using round Inr by simp
        moreover have le: "loaded_model_count t \<le> loaded_model_count u"
          using admission_loop_count [of a bytes limit target best "i + 1" True u] l by simp
        ultimately have k: "k = i + 1 + (loaded_model_count u - loaded_model_count t)" "freed"
          using 1(4,5) by simp_all
        show ?thesis using room k 1(1) [OF room Some u [symmetric] Inr l 1(3) k(1), of freed] by simp
      qed
    qed
  qed
qed

text \<open>
  C21. What admission decides. The memory that counts is the largest of the tracked memory and the two
  gauges, read anew in each round, so after \<open>k - i\<close> evictions the gauges are those of round \<open>k\<close>. A model is admitted
  when it fits under the target; otherwise only when nothing is left to evict, and then when it
  fits under the hard limit, or fits by the committed reading after models were evicted, or when the guard is
  off (best effort), which admits anything; with the guard on, the tracked memory and the
  bytes are within the limit. It is refused only with the guard on, when nothing is left to evict
  and none of these fits, with the error that tells whether the model alone is too large (or
  because an unload was cancelled). A model that fits under the target at once evicts nothing.
\<close>

theorem admission_outcome:
  assumes "admission_loop a bytes limit target best_effort i evicted s = (res, t)" and "target \<le> limit"
    and "k = i + (loaded_model_count s - loaded_model_count t)"
    and "freed \<longleftrightarrow> evicted \<or> loaded_model_count t < loaded_model_count s"
  shows "(case res of
      Inr _ \<Rightarrow> current_memory a k t + bytes \<le> target \<or>
        find_lru_victim t = None \<and>
        (current_memory a k t + bytes \<le> limit \<or>
         freed \<and> max (ad_committed a) (ep_memory t) + bytes \<le> limit \<or> best_effort)
    | Inl err \<Rightarrow> err = CancelledError \<and> (\<exists>j. un_cut (ad_unload a j) \<noteq> Uncut) \<or>
        \<not> best_effort \<and> find_lru_victim t = None \<and> limit < current_memory a k t + bytes \<and>
        (freed \<longrightarrow> limit < max (ad_committed a) (ep_memory t) + bytes) \<and>
        err = (if bytes > limit then ModelTooLargeError else InsufficientMemoryError)) \<and>
    (res = Inr () \<and> \<not> best_effort \<longrightarrow> ep_memory t + bytes \<le> limit) \<and>
    (current_memory a i s + bytes \<le> target \<longrightarrow> res = Inr () \<and> t = s)"
  by (rule admission_outcome' [OF assms])

lemma admission_outcome_witness:
  "fst (admission_loop sample_admission 60 150 150 False 0 False sample_pool) = Inl InsufficientMemoryError \<and>
    find_lru_victim sample_pool = None"
proof -
  have v: "find_lru_victim sample_pool = None"
    using find_lru_victim_exact_witness by simp
  have m: "ep_memory sample_pool = 100" by (simp add: sample_pool_def)
  obtain res t where r: "admission_loop sample_admission 60 150 150 False 0 False sample_pool = (res, t)" by fastforce
  have "res = Inl InsufficientMemoryError"
    using r v by (simp add: admission_loop.simps last_resort_def current_memory_def
        sample_admission_def m)
  with admission_outcome [OF r _ refl refl] v r show ?thesis by auto
qed

subsection \<open>The load\<close>

lemma snd_end_load: "get_entry mid (end_load r done mid e s) =
    map_option (\<lambda>x. if en_uid x = en_uid e
      then x\<lparr>en_loading := False, en_loading_started := None, en_abort_loading := False\<rparr> else x) (get_entry mid s)"
  by (simp add: end_load_def upd_object_eq load_speed_def Let_def)

lemma end_load_entry:
  assumes "get_entry mid s = Some x" and "en_uid x = en_uid e"
  shows "get_entry mid (end_load r done mid e s) =
      Some (x\<lparr>en_loading := False, en_loading_started := None, en_abort_loading := False\<rparr>)"
    and "get_entry mid (end_load r done mid e (upd_object mid (en_uid e) (mark_load_failure now) s)) =
      Some ((mark_load_failure now x)\<lparr>en_loading := False, en_loading_started := None, en_abort_loading := False\<rparr>)"
  using assms by (simp_all add: snd_end_load upd_object_eq mark_load_failure_def)

lemma start_engine_starts:
  "start_engine r force_lm mid e s = (Inr g, t) \<Longrightarrow> \<exists>c. ld_start r c = Some g"
  by (auto simp: start_engine_def try_start_def Let_def bind_st_def ret_def raise_st_def modify_def
      split: prod.splits sum.splits if_splits option.splits)

lemma start_stage_starts:
  assumes "start_stage r force_lm mid e s = (Inr g, t)"
  shows "\<exists>c. ld_start r c = Some g"
proof -
  obtain u s' where "start_engine r force_lm mid e u = (Inr g, s')"
    using assms by (auto simp: start_stage_def bind_st_def gets_def ret_def raise_st_def modify_def
        split: prod.splits sum.splits if_splits)
  then show ?thesis by (rule start_engine_starts)
qed

text \<open>While the engine is started, the abort flag is set by the enforcer only.\<close>

definition load_flags :: "pystr \<Rightarrow> nat \<Rightarrow> bool \<Rightarrow> bool \<Rightarrow> engine_pool \<Rightarrow> bool" where
  "load_flags mid uid abort failed s \<longleftrightarrow> (\<exists>e. get_entry mid s = Some e \<and> en_uid e = uid \<and> \<not> is_loaded e \<and>
     en_loading e \<and>
     en_abort_loading e = abort \<and> en_load_failed e = failed)"

lemma load_flags_unload: "load_flags mid uid a f s \<Longrightarrow> load_flags mid uid a f (snd (unload r m s))"
  using unload_entry [of mid r m s] by (auto simp: load_flags_def)

lemma load_flags_core: "load_flags mid uid a f s \<longleftrightarrow> (\<exists>n. has_core mid (uid, None, n, True, a, f) s)"
  by (auto simp: load_flags_def has_core_def core_def in_flight_def is_loaded_def)

lemma load_flags_waiting: "unlocked A mid w \<Longrightarrow> load_flags mid uid a f s \<Longrightarrow> load_flags mid uid a f (w s)"
  by (auto simp: load_flags_core intro: unlocked_core)

lemma start_engine_flags:
  assumes w: "unlocked A mid (ld_waiting r)"
  shows "keeps (start_engine r force_lm mid e) (load_flags mid uid a f)"
proof (rule keeps_start_parts)
  show "keeps (modify (upd_object mid (en_uid e) (\<lambda>e. e\<lparr>en_model_type := m, en_engine_type := t\<rparr>))) (load_flags mid uid a f)" for m t
    unfolding load_flags_core
  proof (rule keeps_modify, elim exE)
    fix s n assume s: "has_core mid (uid, None, n, True, a, f) s"
    have "has_core mid (uid, None, n, True, a, f) (upd_object mid (en_uid e) (\<lambda>e. e\<lparr>en_model_type := m, en_engine_type := t\<rparr>) s)"
      unfolding upd_object_eq by (rule has_core_upd [OF s]) (simp add: core_def)
    then show "\<exists>n. has_core mid (uid, None, n, True, a, f)
        (upd_object mid (en_uid e) (\<lambda>e. e\<lparr>en_model_type := m, en_engine_type := t\<rparr>) s)" by blast
  qed
  show "keeps (modify (ld_waiting r)) (load_flags mid uid a f)"
    by (rule keeps_modify) (rule load_flags_waiting [OF w])
  have loop: "keeps (for_each (enumerate 0 ms) (\<lambda>(i, m). unload (ld_unload r i) m)) (load_flags mid uid a f)" for ms
    by (rule keeps_for_each) (auto intro: keepsI load_flags_unload)
  show "keeps (unload_other_dflash (ld_unload r) mid) (load_flags mid uid a f)"
    by (rule keepsI) (auto simp: unload_other_dflash_def dest: keepsD [OF loop] split: sum.split)
qed

lemma start_stage_flags:
  assumes w: "unlocked A mid (ld_waiting r)" and s: "load_flags mid uid False f s" and st: "start_stage r force_lm mid e s = (x, t)"
  shows "load_flags mid uid (ld_abort r) f t"
proof -
  let ?s = "upd_entry mid (\<lambda>e. if ld_abort r then e\<lparr>en_abort_loading := True\<rparr> else e) s"
  have "load_flags mid uid (ld_abort r) f ?s"
    using s by (cases "ld_abort r") (auto simp: load_flags_def is_loaded_def)
  then have "load_flags mid uid (ld_abort r) f (snd (start_engine r force_lm mid e ?s))"
    by (rule keepsD [OF start_engine_flags [OF w]])
  moreover have "t = snd (start_engine r force_lm mid e ?s)"
    using st by (auto simp: start_stage_def bind_st_def gets_def ret_def raise_st_def modify_def
        split: prod.splits sum.splits if_splits)
  ultimately show ?thesis by simp
qed

text \<open>
  C23. How a load ends, while unlocked calls run beside it that leave its own engine alone (discovery and the
  unload and deletion of other models among them), while the engine starts and after it is attached: the
  entry object is still the registered one and is not loading any more, on every path. The
  load succeeds only if the engine that was started is attached, ready, and no abort was asked for. If it
  raises, a cancellation or a requested abort leaves no new failure on the entry; any other error
  is kept and reported as unavailable.
\<close>

theorem load_engine_outcome:
  assumes env: "unlocked A mid (ld_waiting r)" "unlocked A mid (ld_env r)"
    and e: "get_entry mid s = Some e" "\<not> is_loaded e" "\<not> en_loading e"
    and load: "load_engine r force_lm mid s = (res, t)"
  shows "\<exists>e'. get_entry mid t = Some e' \<and> en_uid e' = en_uid e \<and> \<not> en_loading e' \<and> \<not> en_abort_loading e' \<and>
    (case res of
       Inr _ \<Rightarrow> \<not> ld_abort r \<and> (\<exists>c g. ld_start r c = Some g \<and> validate_ready (Some g) = Inr () \<and> en_engine e' = Some g)
     | Inl err \<Rightarrow> if err = CancelledError \<or> ld_abort r then en_load_failed e' \<longrightarrow> en_load_failed e
         else err = ModelUnavailableError \<and> en_load_failed e')"
proof -
  let ?s1 = "upd_entry mid (\<lambda>e. e\<lparr>en_loading := True, en_loading_started := Some (ld_started r), en_abort_loading := False\<rparr>) s"
  obtain x s2 where st: "start_stage r force_lm mid e ?s1 = (x, s2)" by fastforce
  have "load_flags mid (en_uid e) False (en_load_failed e) ?s1" using e by (auto simp: load_flags_def is_loaded_def)
  then have fl: "load_flags mid (en_uid e) (ld_abort r) (en_load_failed e) s2" using st by (rule start_stage_flags [OF env(1)])
  have "awaiting mid (en_uid e) (en_size e) ?s1" using e by (auto simp: awaiting_def is_loaded_def)
  then have aw: "awaiting mid (en_uid e) (en_size e) s2" using keepsD [OF start_stage_awaiting [OF env(1)]] st by (metis snd_conv)
  show ?thesis
  proof (cases x)
    case (Inl err)
    obtain err' s3 where f: "failed_load r mid e err False s2 = (err', s3)" by fastforce
    have "t = end_load r False mid e s3" "res = Inl err'"
      using load e st Inl f by (simp_all add: load_engine_def Let_def)
    moreover obtain e2 where e2: "get_entry mid s2 = Some e2" "en_uid e2 = en_uid e"
        "en_abort_loading e2 = ld_abort r" "en_load_failed e2 = en_load_failed e"
      using fl by (auto simp: load_flags_def)
    ultimately show ?thesis using f
      by (auto simp: failed_load_def end_load_entry abort_asked_def mark_load_failure_def [of _ e2] split: if_splits)
  next
    case (Inr g)
    note na = start_stage_not_aborted [OF st [unfolded Inr]]
    have no_abort: "\<not> ld_abort r" using fl na by (auto simp: load_flags_def abort_asked_def)
    have at: "attached mid (en_uid e) g (attach r mid g e s2)" using attach_attached [OF aw] na by blast
    obtain y s4 where tl: "tail_stage r mid e (attach r mid g e s2) = (y, s4)" by fastforce
    have at4: "attached mid (en_uid e) g s4" and d: "\<And>err d. y = Some (err, d) \<Longrightarrow> \<not> d"
      using tail_attached [OF env(2) at] tl by auto
    obtain e4 where e4: "get_entry mid s4 = Some e4" "en_uid e4 = en_uid e" "en_engine e4 = Some g"
        "\<not> en_abort_loading e4" "\<not> en_load_failed e4"
      using at4 by (auto simp: attached_def)
    show ?thesis
    proof (cases y)
      case None
      then have "t = end_load r True mid e s4" "res = Inr ()"
        using load e st Inr tl by (simp_all add: load_engine_def Let_def)
      then show ?thesis using e4 no_abort na start_stage_starts [OF st [unfolded Inr]] by (simp add: snd_end_load)
    next
      case (Some p)
      then obtain err where y: "y = Some (err, False)" using d by (cases p) auto
      obtain err' s5 where f: "failed_load r mid e err False s4 = (err', s5)" by fastforce
      have "t = end_load r True mid e s5" "res = Inl err'"
        using load e st Inr tl y f by (simp_all add: load_engine_def Let_def)
      then show ?thesis using f e4 no_abort
        by (auto simp: failed_load_def end_load_entry abort_asked_def mark_load_failure_def [of _ e4] split: if_splits)
    qed
  qed
qed

lemma load_engine_outcome_witness:
  "\<exists>t. load_engine sample_load False [97] sample_found = (Inr (), t) \<and>
    map_option en_engine (get_entry [97] t) = Some (Some sample_engine)"
proof -
  have e: "get_entry [97] sample_found = Some (fresh_entry 0 False sample_info)" by (simp add: sample_found_eq get_entry_def)
  obtain res t where r: "load_engine sample_load False [97] sample_found = (res, t)" by fastforce
  have "fst (load_engine sample_load False [97] sample_found) = Inr ()"
    by (simp add: sample_found_eq sample_run_defs init_pool_def get_entry_def is_loaded_def ret_def bind_st_def
      is_deepseek_def qwen_moe_engine_def modify_def upd_entry_def load_engine_def start_stage_def start_engine_def
      wants_dflash_def natural_class_def effective_type_def batched_class_def Let_def gets_def abort_asked_def
      validate_ready_def type_now_def attach_def clear_load_failure_def tail_stage_def upd_object_eq still_registered_def)
  then have "res = Inr ()" using r by simp
  moreover have "\<exists>e'. get_entry [97] t = Some e' \<and> en_engine e' = Some sample_engine"
    using load_engine_outcome [OF _ _ e _ _ r, of settling] \<open>res = Inr ()\<close>
    by (auto simp: quiet_id sample_load_def fresh_entry_def is_loaded_def)
  ultimately show ?thesis using r by auto
qed

subsection \<open>Leases one by one\<close>

definition touched :: "get_run \<Rightarrow> engine_entry \<Rightarrow> engine_entry" where
  "touched r e = e\<lparr>en_signature := (if en_signature e = None then gr_expected r else en_signature e),
     en_last_access := gr_now r\<rparr>"

lemma get_loaded:
  assumes e: "get_entry mid s = Some e" "en_engine e = Some g" "validate_ready (Some g) = Inr ()"
    and "as_loaded r force_lm mid s"
  shows "get_engine r force_lm lease mid s = (Inr g, upd_entry mid (\<lambda>e. take_lease lease (touched r e)) s)"
proof -
  have "reload_if (variant_changed r) (gr_variant_unload r) mid s = (Inr False, s)"
      "reload_if (needs_lm force_lm) (gr_lm_unload r) mid s = (Inr False, s)"
    using assms by (auto simp: as_loaded_def reload_if_def on_entry_def ret_def is_loaded_def)
  then show ?thesis using e
    by (simp add: get_engine_def bind_st_def on_entry_at is_loaded_def use_loaded_def ret_def modify_def touched_def)
qed

lemma pending_ready_touched [simp]: "pending_ready (touched r e) = pending_ready e"
  by (simp add: pending_ready_def touched_def has_reason_def is_loaded_def is_busy_def has_active_requests_def)

lemma get_upd_same: "get_entry m s = Some x \<Longrightarrow> get_entry m (upd_entry m f s) = Some (f x)"
  by simp

lemma unload_uncut:
  "get_entry mid s = Some e \<Longrightarrow> is_loaded e \<Longrightarrow> un_cut r = Uncut \<Longrightarrow>
    get_entry mid (snd (unload r mid s)) = Some (drop_engine e)"
  by (simp add: unload_effect)

text \<open>
  C24. A lease on a loaded engine: \<open>get_engine\<close> answers that engine, counts one lease more on the entry,
  renews its last access and leaves every other model alone; releasing the lease restores the
  count, and carries out an unload that was left pending exactly when this was the last activity.
\<close>

theorem lease_roundtrip:
  assumes e: "get_entry mid s = Some e" "en_engine e = Some g" "validate_ready (Some g) = Inr ()" "0 \<le> en_in_use e"
    and as: "as_loaded r force_lm mid s" and get: "get_engine r force_lm True mid s = (res, t)"
    and after: "w = snd (run_release ru mid (release_engine mid t))" and ru: "un_cut ru = Uncut"
  shows "res = Inr g \<and> get_entry mid t = Some ((touched r e)\<lparr>en_in_use := en_in_use e + 1\<rparr>) \<and>
    (\<forall>m. m \<noteq> mid \<longrightarrow> get_entry m t = get_entry m s \<and> get_entry m w = get_entry m s) \<and>
    (if pending_ready e then (\<exists>e'. get_entry mid w = Some e' \<and> \<not> is_loaded e' \<and> en_pending e' = None)
     else get_entry mid w = Some (touched r e))"
proof -
  have t: "res = Inr g" "t = upd_entry mid (\<lambda>e. take_lease True (touched r e)) s"
    using get get_loaded [OF e(1-3) as, of True] by simp_all
  have et: "get_entry mid t = Some ((touched r e)\<lparr>en_in_use := en_in_use e + 1\<rparr>)"
    using e(1) by (simp add: t take_lease_def touched_def)
  let ?v = "upd_entry mid (\<lambda>e. if en_in_use e > 0 then e\<lparr>en_in_use := en_in_use e - 1\<rparr> else e)
    (t\<lparr>ep_releases := remove1 mid (ep_releases t @ [mid])\<rparr>)"
  have v: "get_entry mid ?v = Some (touched r e)" using et e(4) by (simp add: touched_def)
  have w_eq: "w = snd (unload_pending_if_idle ru mid ?v)"
    unfolding after by (simp add: run_release_def release_engine_def release_lease_def)
  have others: "get_entry m t = get_entry m s \<and> get_entry m w = get_entry m s" if "m \<noteq> mid" for m
    using that v unfolding w_eq
    by (auto simp: t unload_pending_if_idle_def unload_others split: option.split)
  show ?thesis
  proof (cases "pending_ready e")
    case True
    then have "w = snd (unload ru mid (upd_entry mid (\<lambda>e. e\<lparr>en_pending := None, en_abort_requested := False\<rparr>) ?v))"
      unfolding w_eq unload_pending_if_idle_def v by simp
    moreover have "get_entry mid (upd_entry mid (\<lambda>e. e\<lparr>en_pending := None, en_abort_requested := False\<rparr>) ?v) =
        Some ((touched r e)\<lparr>en_pending := None, en_abort_requested := False\<rparr>)"
      by (rule get_upd_same [OF v])
    moreover have "is_loaded ((touched r e)\<lparr>en_pending := None, en_abort_requested := False\<rparr>)"
      using e(2) by (simp add: is_loaded_def touched_def)
    ultimately have "get_entry mid w = Some (drop_engine ((touched r e)\<lparr>en_pending := None, en_abort_requested := False\<rparr>))"
      using ru unload_uncut by simp
    then show ?thesis using True t(1) et others by (simp add: drop_engine_def is_loaded_def)
  next
    case False
    then have "w = ?v" unfolding w_eq unload_pending_if_idle_def v by simp
    then show ?thesis using False t(1) et others v by simp
  qed
qed

lemma lease_roundtrip_witness:
  "\<exists>t. get_engine sample_get False True [97] sample_pool = (Inr sample_engine, t) \<and>
    map_option en_in_use (get_entry [97] t) = Some 2 \<and>
    map_option en_in_use (get_entry [97] (snd (run_release sample_unload [97] (release_engine [97] t)))) = Some 1"
proof -
  have e: "get_entry [97] sample_pool = Some sample_entry" "en_engine sample_entry = Some sample_engine"
      "validate_ready (Some sample_engine) = Inr ()" "0 \<le> en_in_use sample_entry" "\<not> pending_ready sample_entry"
    by (simp_all add: sample_pool_def get_entry_def sample_entry_def validate_ready_def sample_engine_def
        pending_ready_def has_reason_def fresh_entry_def)
  have as: "as_loaded sample_get False [97] sample_pool"
    using e(1) by (simp add: as_loaded_def variant_changed_def needs_lm_def sample_get_def)
  obtain res t where r: "get_engine sample_get False True [97] sample_pool = (res, t)" by fastforce
  show ?thesis
    using lease_roundtrip [OF e(1-4) as r refl, of sample_unload] r e(5)
    by (simp add: sample_unload_def touched_def sample_entry_def)
qed

end
