(* ===== verification/EngineGuarantees.thy ===== *)
theory EngineGuarantees
  imports EngineProperties
begin

section \<open>Settings, limits and faults of the engine pool\<close>

text \<open>
  Which settings make \<open>get_engine\<close> rebuild an engine; the tracked memory after a whole \<open>get_engine\<close>; and the ways in which unlocked or cancelled unloads and a conflict between
  draft engines leave the pool with wrong books or a model marked as broken.
\<close>

subsection \<open>Settings that matter\<close>

definition moe_keys :: "engine_entry option \<Rightarrow> string set" where
  "moe_keys entry = (case entry of None \<Rightarrow> {} | Some e \<Rightarrow>
     if is_deepseek e \<or> qwen_moe_engine e then {''moe_execution_mode'', ''cache_moe_memory_tier''} else {})"

definition dflash_keys :: "settings \<Rightarrow> string set" where
  "dflash_keys data =
     {''dflash_draft_quant_enabled'', ''dflash_max_ctx'', ''dflash_in_memory_cache'', ''dflash_in_memory_cache_max_entries'',
      ''dflash_in_memory_cache_max_bytes'', ''dflash_ssd_cache'', ''dflash_draft_window_size'', ''dflash_draft_sink_size'',
      ''dflash_verify_mode''} \<union>
     (if flag ''dflash_draft_quant_enabled'' data
      then {''dflash_draft_quant_weight_bits'', ''dflash_draft_quant_activation_bits'', ''dflash_draft_quant_group_size''} else {}) \<union>
     (if flag ''dflash_ssd_cache'' data then {''dflash_ssd_cache_max_bytes''} else {})"

text \<open>The settings an engine is built from: the switches, and of a feature that is on its parameters\<close>

definition relevant :: "engine_entry option \<Rightarrow> settings \<Rightarrow> string set" where
  "relevant entry data =
     {''trust_remote_code'', ''index_cache_freq'', ''mtp_enabled'', ''turboquant_kv_enabled'', ''specprefill_enabled'',
      ''specprefill_draft_model'', ''dflash_enabled'', ''dflash_draft_model'', ''vlm_mtp_enabled'', ''vlm_mtp_draft_model''} \<union>
     moe_keys entry \<union>
     (if flag ''turboquant_kv_enabled'' data then {''turboquant_kv_bits'', ''turboquant_skip_last''} else {}) \<union>
     (if specprefill_active data then {''specprefill_keep_pct'', ''specprefill_threshold''} else {}) \<union>
     (if dflash_active entry data then dflash_keys data else {}) \<union>
     (if vlm_mtp_active data then {''vlm_mtp_draft_block_size''} else {})"

definition agree :: "string set \<Rightarrow> settings \<Rightarrow> settings \<Rightarrow> bool" where
  "agree K data data' \<longleftrightarrow> (\<forall>k \<in> K. map_of data' k = map_of data k)"

lemma agreeD:
  "agree K data data' \<Longrightarrow> k \<in> K \<Longrightarrow>
    setting_or d k data' = setting_or d k data \<and> flag k data' = flag k data \<and> has_value k data' = has_value k data"
  by (simp add: agree_def setting_or_def flag_def has_value_def)

lemma agree_subset: "agree K data data' \<Longrightarrow> L \<subseteq> K \<Longrightarrow> agree L data data'"
  by (auto simp: agree_def)

lemma base_part_agree:
  assumes "agree {''trust_remote_code'', ''index_cache_freq'', ''mtp_enabled''} data data'"
  shows "base_part p data' = base_part p data"
  using agreeD [OF assms] by (simp add: base_part_def index_cache_freq_def)

lemma moe_part_agree:
  assumes "agree (moe_keys entry) data data'"
  shows "moe_part entry data' = moe_part entry data"
  using agreeD [OF assms] by (auto simp: moe_part_def moe_keys_def split: option.split)

lemma turboquant_part_agree:
  assumes "agree ({''turboquant_kv_enabled''} \<union>
    (if flag ''turboquant_kv_enabled'' data then {''turboquant_kv_bits'', ''turboquant_skip_last''} else {})) data data'"
  shows "turboquant_part data' = turboquant_part data"
  using agreeD [OF assms] by (cases "flag ''turboquant_kv_enabled'' data") (simp_all add: turboquant_part_def)

lemma specprefill_part_agree:
  assumes "agree ({''specprefill_enabled'', ''specprefill_draft_model''} \<union>
    (if specprefill_active data then {''specprefill_keep_pct'', ''specprefill_threshold''} else {})) data data'"
  shows "specprefill_part data' = specprefill_part data"
proof -
  have "specprefill_active data' = specprefill_active data"
    using agreeD [OF assms] by (simp add: specprefill_active_def)
  then show ?thesis
    using agreeD [OF assms] by (cases "specprefill_active data") (simp_all add: specprefill_part_def)
qed

lemma vlm_mtp_part_agree:
  assumes "agree ({''vlm_mtp_enabled'', ''vlm_mtp_draft_model''} \<union>
    (if vlm_mtp_active data then {''vlm_mtp_draft_block_size''} else {})) data data'"
  shows "vlm_mtp_part data' = vlm_mtp_part data"
proof -
  have "vlm_mtp_active data' = vlm_mtp_active data"
    using agreeD [OF assms] by (simp add: vlm_mtp_active_def)
  then show ?thesis
    using agreeD [OF assms] by (cases "vlm_mtp_active data") (simp_all add: vlm_mtp_part_def)
qed

lemma dflash_values_agree:
  assumes "agree (dflash_keys data) data data'"
  shows "dflash_quant data' = dflash_quant data" and "dflash_caches data' = dflash_caches data"
proof -
  show "dflash_quant data' = dflash_quant data"
    using agreeD [OF assms]
    by (cases "flag ''dflash_draft_quant_enabled'' data") (simp_all add: dflash_quant_def dflash_keys_def)
  show "dflash_caches data' = dflash_caches data"
    using agreeD [OF assms]
    by (cases "flag ''dflash_ssd_cache'' data") (simp_all add: dflash_caches_def dflash_keys_def)
qed

lemma dflash_part_agree:
  assumes a: "agree ({''dflash_enabled'', ''dflash_draft_model''} \<union>
    (if dflash_active entry data then dflash_keys data else {})) data data'"
  shows "dflash_part entry data' = dflash_part entry data"
proof -
  have act: "dflash_active entry data' = dflash_active entry data"
    using agreeD [OF a] by (simp add: dflash_active_def)
  have "setting ''dflash_draft_model'' data' = setting ''dflash_draft_model'' data"
    using agreeD [OF a] by simp
  moreover have "agree (dflash_keys data) data data'" if "dflash_active entry data"
    using a that by (auto intro: agree_subset)
  ultimately show ?thesis
    using act dflash_values_agree by (cases "dflash_active entry data") (simp_all add: dflash_part_def)
qed

lemma signature_values_agree:
  assumes a: "agree (relevant entry data) data data'"
  shows "signature_values p entry data' = signature_values p entry data"
  unfolding signature_values_def
  by (intro arg_cong2 [where f = "(@)"] base_part_agree moe_part_agree turboquant_part_agree specprefill_part_agree
      dflash_part_agree vlm_mtp_part_agree agree_subset [OF a]) (auto simp: relevant_def)

text \<open>
  C25. A loaded engine is rebuilt only for settings that matter: a request whose settings differ from the
  ones the engine was built with only in parameters of features that are switched off gets
  the engine as it is; and a request for settings with another signature is refused as busy, the
  pool unchanged, while the engine is in use.
\<close>

theorem irrelevant_settings_keep_engine:
  assumes e: "get_entry mid s = Some e" "en_engine e = Some g" "validate_ready (Some g) = Inr ()"
    and built: "en_signature e = engine_runtime_signature p (Some data) kept mid s"
    and expected: "gr_expected r = engine_runtime_signature p (Some data') kept mid s"
    and lm: "\<not> needs_lm force_lm e"
  shows "(agree (relevant (Some e) data) data data' \<longrightarrow>
      get_engine r force_lm lease mid s = (Inr g, upd_entry mid (\<lambda>e. take_lease lease (touched r e)) s)) \<and>
    (gr_expected r \<noteq> en_signature e \<and> is_busy e \<longrightarrow> get_engine r force_lm lease mid s = (Inl ModelBusyError, s))"
proof (intro conjI impI)
  assume "agree (relevant (Some e) data) data data'"
  then have "gr_expected r = en_signature e"
    using built expected e(1) by (simp add: engine_runtime_signature_def signature_values_agree)
  moreover have "en_signature e \<noteq> None" using built by (simp add: engine_runtime_signature_def)
  ultimately have "as_loaded r force_lm mid s" using e(1) lm by (simp add: as_loaded_def variant_changed_def)
  then show "get_engine r force_lm lease mid s = (Inr g, upd_entry mid (\<lambda>e. take_lease lease (touched r e)) s)"
    using e by (intro get_loaded)
next
  assume "gr_expected r \<noteq> en_signature e \<and> is_busy e"
  moreover have "en_signature e \<noteq> None" "gr_expected r \<noteq> None"
    using built expected by (simp_all add: engine_runtime_signature_def)
  ultimately show "get_engine r force_lm lease mid s = (Inl ModelBusyError, s)"
    using e by (auto simp: get_engine_def reload_if_def on_entry_def bind_st_def variant_changed_def is_loaded_def raise_st_def)
qed

definition sample_text :: python_text where
  "sample_text = \<lparr>pt_repr = render, pt_dumps = canonical, pt_int = (\<lambda>_. None)\<rparr>"

lemma signature_values_frame:
  "signature_values p (Some (e\<lparr>en_signature := x\<rparr>)) data = signature_values p (Some e) data"
  by (simp add: signature_values_def moe_part_def dflash_part_def dflash_active_def is_deepseek_def
      qwen_moe_engine_def is_diffusion_def)

text \<open>The bits of the quantised cache are set, but the feature is off.\<close>

lemma irrelevant_settings_keep_engine_witness:
  "\<exists>s r. fst (get_engine r False False [97] s) = Inr sample_engine \<and>
    gr_expected r = engine_runtime_signature sample_text (Some [(''turboquant_kv_bits'', JInt 8)]) None [97] s"
proof -
  let ?data' = "[(''turboquant_kv_bits'', JInt 8)]"
  obtain e where e: "e = sample_entry\<lparr>en_signature := engine_runtime_signature sample_text (Some []) None [97] sample_pool\<rparr>"
    by simp
  obtain s where s: "s = sample_pool\<lparr>ep_entries := [([97], e)]\<rparr>" by simp
  obtain r where r: "r = sample_get\<lparr>gr_expected := engine_runtime_signature sample_text (Some ?data') None [97] s\<rparr>" by simp
  have g: "get_entry [97] sample_pool = Some sample_entry" "get_entry [97] s = Some e"
    by (simp_all add: sample_pool_def get_entry_def s)
  have c: "en_config_type e = ''llama''" "en_moe e = None"
    by (simp_all add: e sample_entry_def fresh_entry_def sample_info_def)
  have "en_signature e = engine_runtime_signature sample_text (Some []) None [97] s"
    unfolding engine_runtime_signature_def g
    by (simp add: e signature_values_frame engine_runtime_signature_def g(1))
  moreover have "agree (relevant (Some e) []) [] ?data'"
  proof -
    have "\<not> is_deepseek e" "\<not> qwen_moe_engine e" by (simp_all add: is_deepseek_def qwen_moe_engine_def c)
    then show ?thesis
      by (simp add: agree_def relevant_def moe_keys_def flag_def setting_or_def specprefill_active_def dflash_active_def
          vlm_mtp_active_def)
  qed
  moreover have "en_engine e = Some sample_engine" "validate_ready (Some sample_engine) = Inr ()" "\<not> needs_lm False e"
    by (simp_all add: e sample_entry_def validate_ready_def sample_engine_def needs_lm_def)
  moreover have "gr_expected r = engine_runtime_signature sample_text (Some ?data') None [97] s" by (simp add: r)
  ultimately have "get_engine r False False [97] s = (Inr sample_engine, upd_entry [97] (\<lambda>e. take_lease False (touched r e)) s)"
    using irrelevant_settings_keep_engine [OF g(2), of sample_engine sample_text "[]" None r ?data'] by simp
  then show ?thesis using r by (intro exI [of _ s] exI [of _ r]) simp
qed

subsection \<open>The limit\<close>

lemma unlocked_memory:
  "unlocked A mid f \<Longrightarrow> al_force A = {} \<Longrightarrow> al_race A = {} \<Longrightarrow> ep_memory (f s) = ep_memory s"
proof (induction rule: unlocked.induct)
  case (quiet_discover f pinned found)
  have "ep_memory (discover_one pinned x s) = ep_memory s" for x s
    by (cases x) (simp add: discover_one_def split: option.split)
  then have "ep_memory (fold (discover_one pinned) xs s) = ep_memory s" for xs s
    by (induction xs arbitrary: s) simp_all
  with quiet_discover show ?case by (simp add: discover_models_def Let_def)
qed (simp_all add: set_pinned_state mark_state apply_settings_overrides_def release_engine_def)

text \<open>No other model has a negative size, so unloading them only lowers the tracked memory.\<close>

definition others_sized :: "pystr \<Rightarrow> engine_pool \<Rightarrow> bool" where
  "others_sized mid s \<longleftrightarrow> (\<forall>m x. get_entry m s = Some x \<longrightarrow> m \<noteq> mid \<longrightarrow> 0 \<le> en_size x)"

lemma others_sized_unload: "others_sized mid s \<Longrightarrow> others_sized mid (snd (unload r m s))"
  unfolding others_sized_def
proof (intro allI impI)
  fix k x assume s: "\<forall>m x. get_entry m s = Some x \<longrightarrow> m \<noteq> mid \<longrightarrow> 0 \<le> en_size x"
    and k: "get_entry k (snd (unload r m s)) = Some x" "k \<noteq> mid"
  show "0 \<le> en_size x" using unload_entry [of k r m s] s k by auto
qed

lemma others_sized_upd: "others_sized mid (upd_entry mid f s) \<longleftrightarrow> others_sized mid s"
  by (auto simp: others_sized_def)

lemma unload_lowers_memory:
  "others_sized mid s \<Longrightarrow> m \<noteq> mid \<Longrightarrow> ep_memory (snd (unload r m s)) \<le> ep_memory s"
  by (auto simp: unload_effect others_sized_def split: option.split)

lemma unload_other_dflash_memory:
  assumes "others_sized mid s"
  shows "ep_memory (snd (unload_other_dflash r mid s)) \<le> ep_memory s"
proof -
  let ?J = "\<lambda>t. others_sized mid t \<and> ep_memory t \<le> ep_memory s"
  have step: "keeps (unload (r i) m) ?J" if "m \<noteq> mid" for i m
    using that by (intro keepsI) (auto intro: others_sized_unload order_trans [OF unload_lowers_memory])
  have loop: "keeps (for_each (enumerate 0 (map fst (other_dflash mid s))) (\<lambda>(i, m). unload (r i) m)) ?J"
  proof (rule keeps_for_each)
    fix x assume "x \<in> set (enumerate 0 (map fst (other_dflash mid s)))"
    then have "snd x \<in> set (map snd (enumerate 0 (map fst (other_dflash mid s))))"
      unfolding set_map by (rule imageI)
    then obtain i m where x: "x = (i, m)" "m \<in> set (map fst (other_dflash mid s))"
      by (metis map_snd_enumerate surjective_pairing)
    then have "m \<noteq> mid" by (auto simp: other_dflash_def)
    then show "keeps (case x of (i, m) \<Rightarrow> unload (r i) m) ?J" unfolding x(1) by (simp add: step)
  qed
  show ?thesis using keepsD [OF loop, of s] assms
    by (auto simp: unload_other_dflash_def split: sum.split)
qed

lemma bind_at: "I (snd (m s)) \<Longrightarrow> (\<And>x. keeps (f x) I) \<Longrightarrow> I (snd (bind_st m f s))"
  by (auto simp: bind_st_def keeps_def split: prod.split sum.split)

lemma start_engine_memory:
  assumes w: "unlocked A mid (ld_waiting r)" "al_force A = {}" "al_race A = {}" and s: "others_sized mid s"
  shows "ep_memory (snd (start_engine r force_lm mid e s)) \<le> ep_memory s"
proof -
  let ?J = "\<lambda>t. ep_memory t \<le> ep_memory s"
  have up: "keeps (modify (upd_object mid uid f)) ?J" "keeps (modify (ld_waiting r)) ?J" for f uid
    by (rule keeps_modify, simp add: upd_object_eq unlocked_memory [OF w])+
  have first: "?J (snd ((if c then unload_other_dflash (ld_unload r) mid else ret ()) s))" for c
    using unload_other_dflash_memory [OF s] by (simp add: ret_def)
  show ?thesis
    unfolding start_engine_def Let_def
    by (rule bind_at [where I = ?J], rule first)
      (intro keeps_option keeps_bind keeps_if keeps_raise keeps_ret keeps_gets keeps_try_start up)
qed

lemma start_stage_memory:
  assumes w: "unlocked A mid (ld_waiting r)" "al_force A = {}" "al_race A = {}" and s: "others_sized mid s"
  shows "ep_memory (snd (start_stage r force_lm mid e s)) \<le> ep_memory s"
proof -
  let ?J = "\<lambda>t. ep_memory t \<le> ep_memory s"
  let ?s = "upd_entry mid (\<lambda>e. if ld_abort r then e\<lparr>en_abort_loading := True\<rparr> else e) s"
  have 1: "?J (snd (start_engine r force_lm mid e ?s))"
    using start_engine_memory [OF w, of ?s] s by (simp add: others_sized_upd)
  have 2: "keeps (if abort then raise_st err else case validate_ready g of Inl err \<Rightarrow> raise_st err | Inr _ \<Rightarrow> ret g') ?J"
    for abort err g and g' :: engine
    by (cases "validate_ready g") (simp_all add: keeps_ret keeps_raise)
  have "?J (snd (bind_st (start_engine r force_lm mid e) (\<lambda>g. bind_st (gets (abort_asked mid)) (\<lambda>abort.
      if abort then raise_st ModelLoadingError
      else (case validate_ready (Some g) of Inl err \<Rightarrow> raise_st err | Inr _ \<Rightarrow> ret g))) ?s))"
    by (rule bind_at [where I = ?J], rule 1) (intro keeps_bind keeps_gets 2)
  then show ?thesis by (simp add: start_stage_def bind_st_def [of "modify _"] modify_def)
qed

lemma load_engine_memory:
  assumes env: "unlocked A mid (ld_waiting r)" "unlocked A mid (ld_env r)" "al_force A = {}" "al_race A = {}"
    and e: "get_entry mid s = Some e" "\<not> is_loaded e" and s: "others_sized mid s"
    and load: "load_engine r force_lm mid s = (Inr x, t)"
  shows "ep_memory t \<le> ep_memory s + en_size e"
proof -
  have l: "\<not> en_loading e" using load e by (auto simp: load_engine_def split: if_splits)
  let ?s1 = "upd_entry mid (\<lambda>e. e\<lparr>en_loading := True, en_loading_started := Some (ld_started r), en_abort_loading := False\<rparr>) s"
  obtain y s2 where st: "start_stage r force_lm mid e ?s1 = (y, s2)" by fastforce
  have m2: "ep_memory s2 \<le> ep_memory s"
    using start_stage_memory [OF env(1,3,4), of ?s1 force_lm e] s st by (simp add: others_sized_upd)
  obtain g where y: "y = Inr g"
    using load e l st by (cases y) (auto simp: load_engine_def Let_def split: prod.splits)
  obtain z s4 where tl: "tail_stage r mid e (attach r mid g e s2) = (z, s4)" by fastforce
  have z: "z = None" "t = end_load r True mid e s4"
    using load e l st y tl by (auto simp: load_engine_def Let_def split: option.splits prod.splits)
  have "ep_memory (ld_env r (attach r mid g e s2)) \<le> ep_memory s + en_size e"
    using m2 by (simp add: unlocked_memory [OF env(2-4)] attach_def upd_object_eq)
  then have "ep_memory s4 \<le> ep_memory s + en_size e"
    using tl z(1) by (auto simp: tail_stage_def Let_def upd_object_eq split: if_splits)
  then show ?thesis by (simp add: z end_load_def upd_object_eq load_speed_def Let_def)
qed

lemma bind_st_InrD: "bind_st m f s = (Inr x, t) \<Longrightarrow> \<exists>y u. m s = (Inr y, u) \<and> f y u = (Inr x, t)"
  by (auto simp: bind_st_def split: prod.splits sum.splits)

lemma evict_target_le: "evict_target a limit \<le> limit"
  by (simp add: evict_target_def Let_def)

lemma admit_limit:
  assumes e: "get_entry mid s = Some e" "\<not> is_loaded e" and s: "others_sized mid s"
    and sizes: "admission_sizes force_lm (gr_settings r) (gr_sizes r) e = (bytes, booked)"
    and limit: "ceiling_of (gr_admission r) = (limit, False)" "0 < limit"
    and adm: "admit r force_lm unloaded mid s = (Inr x, t)"
  shows "ep_memory t + bytes \<le> limit" and "get_entry mid t = Some (e\<lparr>en_size := booked\<rparr>)" and "others_sized mid t"
proof -
  let ?s = "upd_entry mid (\<lambda>e. e\<lparr>en_size := booked\<rparr>) s"
  have l: "admission_loop (gr_admission r) bytes limit (evict_target (gr_admission r) limit) False 0 unloaded ?s = (Inr x, t)"
    using adm limit by (simp add: admit_def on_entry_at [OF e(1)] sizes)
  then show "ep_memory t + bytes \<le> limit"
    using admission_outcome' [OF l evict_target_le refl refl] by simp
  let ?J = "\<lambda>s. get_entry mid s = Some (e\<lparr>en_size := booked\<rparr>)"
  have un: "?J (snd (unload u v s))" if "?J s" for u v s
    using that e(2) unload_entry [of mid u v s] by (auto simp: is_loaded_def)
  have "?J (snd (admission_loop (gr_admission r) bytes limit (evict_target (gr_admission r) limit) False 0 unloaded ?s))"
    by (rule admission_loop_rule [where J = ?J]) (rule un, assumption, rule get_upd_same [OF e(1)])
  then show "?J t" using l by simp
  have "others_sized mid (snd (admission_loop (gr_admission r) bytes limit (evict_target (gr_admission r) limit) False 0 unloaded ?s))"
    by (rule admission_loop_rule [where J = "others_sized mid"]) (simp_all add: others_sized_unload others_sized_upd s)
  then show "others_sized mid t" using l by simp
qed

lemma load_anew_limit:
  assumes e: "get_entry mid s = Some e" "\<not> is_loaded e" and s: "others_sized mid s"
    and sizes: "admission_sizes force_lm (gr_settings r) (gr_sizes r) e = (bytes, booked)"
    and limit: "ceiling_of (gr_admission r) = (limit, False)" "0 < limit"
    and env: "unlocked A mid (ld_waiting (gr_load r))" "unlocked A mid (ld_env (gr_load r))" "al_force A = {}" "al_race A = {}"
    and get: "load_anew r force_lm lease unloaded mid s = (Inr g, t)"
  shows "ep_memory t \<le> limit + (booked - bytes)" and "\<exists>e'. get_entry mid t = Some e' \<and> en_engine e' = Some g"
proof -
  obtain s1 where adm: "admit r force_lm unloaded mid s = (Inr (), s1)"
    and rest: "bind_st (load_engine (gr_load r) force_lm mid) (\<lambda>_. hand_out lease mid) s1 = (Inr g, t)"
    using get e(1) unfolding load_anew_def
    by (auto simp: check_path_def check_failed_def on_entry_at ret_def raise_st_def split: if_splits dest!: bind_st_InrD)
  obtain s2 where load: "load_engine (gr_load r) force_lm mid s1 = (Inr (), s2)"
    and out: "hand_out lease mid s2 = (Inr g, t)"
    using bind_st_InrD [OF rest] by auto
  note s1 = admit_limit [OF e s sizes limit adm]
  have e1: "\<not> is_loaded (e\<lparr>en_size := booked\<rparr>)" using e(2) by (simp add: is_loaded_def)
  have m2: "ep_memory s2 \<le> ep_memory s1 + booked"
    using load_engine_memory [OF env s1(2) e1 s1(3) load] by simp
  obtain e2 where "get_entry mid s2 = Some e2" "t = upd_entry mid (take_lease lease) s2" "en_engine e2 = Some g"
    using out by (auto simp: hand_out_def on_entry_def ret_def modify_def raise_st_def validate_ready_def
        split: option.splits sum.splits if_splits)
  then show "ep_memory t \<le> limit + (booked - bytes)" "\<exists>e'. get_entry mid t = Some e' \<and> en_engine e' = Some g"
    using s1(1) m2 by (auto simp: take_lease_def)
qed

lemma reload_if_Inr:
  assumes "reload_if P r mid s = (Inr b, t)" and e: "get_entry mid s = Some e"
  shows "if is_loaded e \<and> P e then get_entry mid t = Some (drop_engine e) \<and> t = snd (unload r mid s) else t = s"
proof -
  obtain y u where u: "unload r mid s = (y, u)" by fastforce
  then have "get_entry mid u = Some (drop_engine e)" if "y = Inr z" "is_loaded e" for z
    using that e by (auto simp: unload_def bind_st_def unload_engine_def ret_def Let_def split: if_splits)
  then show ?thesis using assms u
    by (auto simp: reload_if_def on_entry_def ret_def raise_st_def bind_st_def split: if_splits sum.splits)
qed

lemma admission_sizes_dropped [simp]:
  "admission_sizes force_lm ls z (drop_engine e) = admission_sizes force_lm ls z e"
proof -
  have same: "en_moe (drop_engine e) = en_moe e" "en_config_type (drop_engine e) = en_config_type e"
      "en_text_size (drop_engine e) = en_text_size e" "en_engine_type (drop_engine e) = en_engine_type e"
    by (simp_all add: drop_engine_def)
  show ?thesis unfolding admission_sizes_def chosen_size_def is_deepseek_def qwen_moe_engine_def same drop_engine_fields ..
qed

text \<open>
  C22. With the memory guard on, a \<open>get_engine\<close> that answers an engine leaves the tracked memory as it was when
  the engine was loaded and need not be rebuilt. When it loads the model (anew, after dropping the
  engine that was there, or as a draft engine that displaces another), the tracked memory ends
  within the limit plus the difference between the bytes the model is booked with and those it was admitted
  by: within the limit, unless a multimodal model is admitted by the smaller size of its text part.
  The other models have sizes that are not negative, and while the model loads, what runs without
  the lock neither unloads nor deletes by force.
\<close>

theorem get_engine_within_limit:
  assumes e: "get_entry mid s = Some e" and others: "others_sized mid s"
    and sizes: "admission_sizes force_lm (gr_settings r) (gr_sizes r) e = (bytes, booked)"
    and limit: "ceiling_of (gr_admission r) = (limit, False)" "0 < limit"
    and env: "unlocked A mid (ld_waiting (gr_load r))" "unlocked A mid (ld_env (gr_load r))" "al_force A = {}" "al_race A = {}"
    and get: "get_engine r force_lm lease mid s = (Inr g, t)"
  shows "(if is_loaded e \<and> as_loaded r force_lm mid s then ep_memory t = ep_memory s
      else ep_memory t \<le> limit + (booked - bytes)) \<and>
    (\<exists>e'. get_entry mid t = Some e' \<and> en_engine e' = Some g)"
proof -
  obtain b u where 1: "reload_if (variant_changed r) (gr_variant_unload r) mid s = (Inr b, u)"
    and rest: "bind_st (reload_if (needs_lm force_lm) (gr_lm_unload r) mid) (\<lambda>as_lm.
           on_entry mid (\<lambda>e. if is_loaded e then use_loaded r lease mid
             else load_anew r force_lm lease (b \<or> as_lm) mid)) u = (Inr g, t)"
    using get e by (auto simp: get_engine_def dest!: bind_st_InrD)
  obtain c v where 2: "reload_if (needs_lm force_lm) (gr_lm_unload r) mid u = (Inr c, v)"
    and last: "on_entry mid (\<lambda>e. if is_loaded e then use_loaded r lease mid
             else load_anew r force_lm lease (b \<or> c) mid) v = (Inr g, t)"
    using bind_st_InrD [OF rest] by auto
  note r1 = reload_if_Inr [OF 1 e]
  obtain eu where eu: "get_entry mid u = Some eu" using r1 e by (auto split: if_splits)
  note r2 = reload_if_Inr [OF 2 eu]
  show ?thesis
  proof (cases "is_loaded e \<and> as_loaded r force_lm mid s")
    case True
    then have v: "v = s" using r1 r2 e eu by (auto simp: as_loaded_def)
    have "use_loaded r lease mid s = (Inr g, t)" using last True e by (simp add: v on_entry_at)
    then show ?thesis using True e
      by (auto simp: use_loaded_def on_entry_at ret_def modify_def raise_st_def validate_ready_def take_lease_def
          split: option.splits if_splits)
  next
    case False
    define ev where "ev = (if is_loaded e then drop_engine e else e)"
    have ev: "get_entry mid v = Some ev" "\<not> is_loaded ev" "others_sized mid v"
      using r1 r2 e eu False others others_sized_unload
      by (auto simp: ev_def as_loaded_def split: if_splits)
    have "load_anew r force_lm lease (b \<or> c) mid v = (Inr g, t)" using last ev by (simp add: on_entry_at)
    moreover have "admission_sizes force_lm (gr_settings r) (gr_sizes r) ev = (bytes, booked)"
      using sizes by (simp add: ev_def)
    ultimately show ?thesis using load_anew_limit [OF ev _ limit env] False by auto
  qed
qed

lemma get_engine_within_limit_witness:
  "ep_memory (snd (get_engine sample_get False True [97] sample_found)) \<le> 150 \<and>
    fst (get_engine sample_get False True [97] sample_found) = Inr sample_engine"
proof -
  have e: "get_entry [97] sample_found = Some (fresh_entry 0 False sample_info)" "\<not> is_loaded (fresh_entry 0 False sample_info)"
    by (simp_all add: sample_found_eq get_entry_def fresh_entry_def is_loaded_def)
  have sizes: "admission_sizes False (gr_settings sample_get) (gr_sizes sample_get) (fresh_entry 0 False sample_info) = (100, 100)"
    by (simp add: admission_sizes_def chosen_size_def is_deepseek_def qwen_moe_engine_def sample_run_defs)
  have limit: "ceiling_of (gr_admission sample_get) = (150, False)" "(0 :: int) < 150"
    by (simp_all add: ceiling_of_def callback_value_def sample_run_defs)
  have env: "unlocked (settling\<lparr>al_force := {}\<rparr>) [97] (ld_waiting (gr_load sample_get))"
      "unlocked (settling\<lparr>al_force := {}\<rparr>) [97] (ld_env (gr_load sample_get))"
    by (simp_all add: sample_run_defs quiet_id)
  have others: "others_sized [97] sample_found"
    by (simp add: others_sized_def sample_found_eq get_entry_def)
  show ?thesis
    using get_engine_within_limit [OF e(1) others sizes limit env _ _ sample_get_eq] e(2) by (simp add: sample_get_eq settling_def)
qed

subsection \<open>What breaks the books\<close>

text \<open>One unlocked unload is an unload; two that overlap take the bytes of the model off twice.\<close>

lemma unlocked_unload:
  assumes "begin_unload mid s = Some x" and "un_cut r = Uncut"
  shows "finish_unload x s = snd (unload r mid s)"
  using assms by (auto simp: begin_unload_def finish_unload_def unload_effect still_registered_def upd_object_def Let_def
      split: option.splits if_splits)

lemma racing_unloads_subtract_twice:
  assumes "begin_unload mid s = Some x" and "pool_ok s"
  shows "ep_memory (finish_unload x (finish_unload x s)) = loaded_bytes (finish_unload x (finish_unload x s)) - en_size (snd x)"
proof -
  obtain e where x: "x = (mid, e)" and e: "get_entry mid s = Some e" "is_loaded e"
    using assms(1) by (auto simp: begin_unload_def split: option.splits if_splits)
  have ok: "pool_ok (snd (unload sample_unload mid s))"
    by (rule pool_ok_unload [OF assms(2)]) (simp add: sample_unload_def)
  have f: "finish_unload x s = snd (unload sample_unload mid s)"
    by (rule unlocked_unload [OF assms(1)]) (simp add: sample_unload_def)
  obtain t where t: "t = finish_unload x s" by simp
  have et: "get_entry mid t = Some (drop_engine e)"
    using e unload_uncut [OF e, of sample_unload] by (simp add: t f sample_unload_def)
  have "upd_entry mid drop_engine t = t"
  proof -
    have "drop_engine (drop_engine e) = drop_engine e" by (simp add: drop_engine_def)
    then have "dict_set mid (drop_engine (drop_engine e)) (ep_entries t) = ep_entries t"
      using et by (simp add: get_entry_def update_triv)
    then show ?thesis using et by (simp add: upd_entry_def)
  qed
  then have "finish_unload x t = t\<lparr>ep_memory := ep_memory t - en_size e\<rparr>"
    using et by (simp add: x finish_unload_def still_registered_def upd_object_def Let_def)
  moreover have "ep_memory t = loaded_bytes t" using ok unfolding t f by (simp add: pool_ok_def)
  moreover have "loaded_bytes (t\<lparr>ep_memory := n\<rparr>) = loaded_bytes t" for n by (simp add: loaded_bytes_def)
  ultimately show ?thesis unfolding t by (simp add: x)
qed

text \<open>An unload that is cancelled in its settle barrier drops the engine and keeps its bytes on the books.\<close>

lemma cancelled_unload_keeps_bytes:
  assumes "pool_ok s" and "get_entry mid s = Some e" and "is_loaded e" and "un_cut r = CutSettling"
  shows "fst (unload r mid s) = Inl CancelledError" and "get_entry mid (snd (unload r mid s)) = Some (drop_engine e)"
    and "ep_memory (snd (unload r mid s)) = loaded_bytes (snd (unload r mid s)) + en_size e"
proof -
  show "fst (unload r mid s) = Inl CancelledError"
    using assms by (simp add: unload_def unload_engine_def bind_st_def Let_def)
  show "get_entry mid (snd (unload r mid s)) = Some (drop_engine e)"
    using assms by (simp add: unload_effect)
  let ?u = "snd (unload (r\<lparr>un_cut := Uncut\<rparr>) mid s)"
  have "pool_ok ?u" by (rule pool_ok_unload [OF assms(1)]) simp
  moreover have "ep_memory ?u = ep_memory (snd (unload r mid s)) - en_size e" "loaded_bytes ?u = loaded_bytes (snd (unload r mid s))"
    using assms by (simp_all add: unload_effect loaded_bytes_def)
  ultimately show "ep_memory (snd (unload r mid s)) = loaded_bytes (snd (unload r mid s)) + en_size e"
    by (simp add: pool_ok_def)
qed

text \<open>
  A load that only meets another draft engine in use is remembered as a broken model: every later request
  is refused until the next discovery, also when the other engine is idle or gone.
\<close>

lemma map_res_Inl: "map_res f xs = Inl err \<Longrightarrow> \<exists>x \<in> set xs. f x = Inl err"
  by (induction xs) (auto simp: bind_res_def split: sum.splits)

lemma other_dflash_refuses:
  assumes "(m, x) \<in> set (other_dflash mid s)" and "dflash_conflict x = Inr True"
  shows "unload_other_dflash r mid s = (Inl RuntimeError, s)"
proof (cases "map_res (\<lambda>(_, e). dflash_conflict e) (other_dflash mid s)")
  case (Inl err)
  then obtain y where "dflash_conflict y = Inl err" by (auto dest!: map_res_Inl)
  then have "err = RuntimeError" by (auto simp: dflash_conflict_def split: if_splits option.splits activity_probe.splits bool.splits)
  then show ?thesis using Inl by (simp add: unload_other_dflash_def)
next
  case (Inr bs)
  then have l: "list_all2 (\<lambda>x y. (case x of (_, e) \<Rightarrow> dflash_conflict e) = Inr y) (other_dflash mid s) bs"
    by (simp add: map_res_Inr_iff)
  obtain i where i: "i < length (other_dflash mid s)" "other_dflash mid s ! i = (m, x)"
    using assms(1) by (auto simp: in_set_conv_nth)
  then have "bs ! i" using list_all2_nthD [OF l i(1)] assms(2) by simp
  moreover have "bs ! i \<in> set bs" using i(1) list_all2_lengthD [OF l] by simp
  ultimately have "True \<in> set bs" by simp
  then show ?thesis using Inr by (simp add: unload_other_dflash_def)
qed

lemma dflash_conflict_is_cached:
  assumes e: "get_entry mid s = Some e" "\<not> is_loaded e" "\<not> en_loading e"
    and d: "wants_dflash (ld_settings r) e" "ld_dflash_ready r" "\<not> ld_abort r"
    and other: "get_entry m s = Some x" "m \<noteq> mid" "map_option eg_class (en_engine x) = Some DFlash" "en_in_use x > 0"
    and load: "load_engine r force_lm mid s = (res, t)"
  shows "res = Inl ModelUnavailableError" and "\<exists>e'. get_entry mid t = Some e' \<and> en_load_failed e'"
proof -
  let ?s1 = "upd_entry mid (\<lambda>e. e\<lparr>en_loading := True, en_loading_started := Some (ld_started r), en_abort_loading := False\<rparr>) s"
  let ?s2 = "upd_entry mid (\<lambda>e. if ld_abort r then e\<lparr>en_abort_loading := True\<rparr> else e) ?s1"
  have "(m, x) \<in> set (other_dflash mid ?s2)" using other by (simp add: other_dflash_def items_iff)
  moreover have "dflash_conflict x = Inr True" using other(4) by (simp add: dflash_conflict_def)
  ultimately have "unload_other_dflash (ld_unload r) mid ?s2 = (Inl RuntimeError, ?s2)" by (rule other_dflash_refuses)
  then have st: "start_stage r force_lm mid e ?s1 = (Inl RuntimeError, ?s2)"
    using d by (simp add: start_stage_def start_engine_def Let_def)
  have e2: "get_entry mid ?s2 = Some (e\<lparr>en_loading := True, en_loading_started := Some (ld_started r), en_abort_loading := False\<rparr>)"
    using e d(3) by simp
  have ab: "abort_asked mid ?s2 = False" unfolding abort_asked_def e2 by simp
  have f: "failed_load r mid e RuntimeError False ?s2 =
      (ModelUnavailableError, upd_object mid (en_uid e) (mark_load_failure (ld_now r)) ?s2)"
    unfolding failed_load_def ab by simp
  have "res = Inl ModelUnavailableError \<and> t = end_load r False mid e (upd_object mid (en_uid e) (mark_load_failure (ld_now r)) ?s2)"
    using load e st f by (simp add: load_engine_def Let_def)
  then show "res = Inl ModelUnavailableError" "\<exists>e'. get_entry mid t = Some e' \<and> en_load_failed e'"
    using end_load_entry(2) [OF e2, of e r False] by (simp_all add: mark_load_failure_def)
qed

text \<open>
  A model that is deleted while its load is being finished: the deletion takes its bytes off with the
  unload, and the load takes them off again when it finds its entry gone.
\<close>

lemma deletion_during_load_subtracts_twice:
  assumes s: "attached mid (en_uid e) g s" "\<And>x. get_entry mid s = Some x \<Longrightarrow> en_size x = en_size e"
    and r: "ld_env r = (\<lambda>s. forget_model mid (snd (unload sample_unload mid s)))" "ld_cut r = Unbroken" "\<not> ld_fails r"
    and d: "dict_ok (ep_entries s)"
  shows "fst (tail_stage r mid e s) = Some (ModelLoadingError, True)"
    and "ep_memory (snd (tail_stage r mid e s)) = max 0 (ep_memory s - 2 * en_size e)"
proof -
  obtain x where x: "get_entry mid s = Some x" "en_uid x = en_uid e" "is_loaded x"
    using s(1) by (auto simp: attached_def is_loaded_def)
  have m: "ep_memory (ld_env r s) = ep_memory s - en_size e"
    using x s(2) by (simp add: r(1) forget_model_def unload_effect sample_unload_def)
  have gone: "get_entry mid (ld_env r s) = None"
    by (simp add: r(1) forget_model_def get_entry_def)
  have same: "upd_object mid uid f (ld_env r s) = ld_env r s" for uid f
    using gone by (simp add: upd_object_def still_registered_def)
  have "\<not> still_registered mid (en_uid e) (ld_env r s)" using gone by (simp add: still_registered_def)
  then have "tail_stage r mid e s = (Some (ModelLoadingError, True),
      (ld_env r s)\<lparr>ep_memory := max 0 (ep_memory (ld_env r s) - en_size e)\<rparr>)"
    using r(2,3) by (simp add: tail_stage_def Let_def same)
  then show "fst (tail_stage r mid e s) = Some (ModelLoadingError, True)"
      "ep_memory (snd (tail_stage r mid e s)) = max 0 (ep_memory s - 2 * en_size e)"
    using m by simp_all
qed

end
