(* ===== verification/Spec2Isabelle.thy ===== *)
theory Spec2Isabelle
  imports CacheProperties SchedulerProperties ResourceProperties ContextProperties AgentProperties
    GuardProperties CheckpointAcceptance EngineGuarantees
begin

text \<open>
  \<^bold>\<open>What is modelled.\<close> AI2Apps is a local AI runtime in Python: an inference server
  (\<^verbatim>\<open>src/omlx\<close>) and an agent platform around it (\<^verbatim>\<open>src/ai2apps\<close>). This library models the parts
  whose correctness is a matter of logic rather than of tensors, SQL or HTTP:

  \<^item> the paged KV cache of the server (\<^verbatim>\<open>src/omlx/cache/paged_cache.py\<close>, \<^verbatim>\<open>stats.py\<close>): \<open>FreeQueue\<close>
    is the doubly linked LRU queue of blocks (\<^verbatim>\<open>FreeKVCacheBlockQueue\<close>, over an explicit heap of block
    objects, so the aliasing of the links is the code's), \<open>BlockIndex\<close> the hash index and the chained
    block hashes, \<open>PagedCache\<close> the manager with one definition per method;
  \<^item> the worker job scheduler (\<^verbatim>\<open>src/ai2apps/worker_scheduler.py\<close>): \<open>WorkerScheduler\<close>;
  \<^item> the admission of jobs by memory (\<^verbatim>\<open>src/ai2apps/worker_resources.py\<close>): \<open>WorkerResources\<close>. The
    scheduler calls it: \<open>try_reserve\<close> before a ticket starts, \<open>release\<close> when it ends;
  \<^item> context compaction (\<^verbatim>\<open>src/ai2apps/context_engine/core.py\<close>): \<open>ContextEngine\<close> holds nodes, surfaces,
    routes, policies, measuring and the selection of a span, \<open>ContextTransaction\<close> its replacement,
    the transaction \<open>compact\<close> over a store of the host, overflow recovery, the policy table and the
    journal store of \<^verbatim>\<open>src/tests/context_engine_isolated/test_engine.py\<close>;
  \<^item> its use by the agents (\<open>AgentContext\<close>: \<^verbatim>\<open>context_engine_adapter.py\<close>, \<^verbatim>\<open>context_meter.py\<close> and
    \<^verbatim>\<open>context.py\<close> of \<^verbatim>\<open>src/ai2apps/agents\<close>, \<^verbatim>\<open>images.py\<close> and \<^verbatim>\<open>pruning.py\<close> of the context engine);
  \<^item> durable checkpoints of an agent's transcript (\<open>CheckpointReplay\<close>: \<^verbatim>\<open>compaction.py\<close> of
    \<^verbatim>\<open>src/ai2apps/agents\<close> and the step records of \<^verbatim>\<open>models.py\<close>): the partition of a transcript into
    groups, the replay of recorded summaries, the memory message, and the next summary to ask for.
    It calls the context engine's selection through \<open>compactable_end\<close>;
  \<^item> the pool of model engines of the server (\<^verbatim>\<open>src/omlx/engine_pool.py\<close>): \<open>EnginePool\<close> has the entries,
    names, eviction candidates, unloading, leases and idle timeouts, \<open>EngineLoad\<close> sizes, admission and
    \<^verbatim>\<open>_load_engine\<close>, \<open>EngineOps\<close> \<^verbatim>\<open>get_engine\<close>, eviction for a prefill, discovery and shutdown,
    \<open>EngineSignature\<close> the settings an engine is built from;
  \<^item> guards around tools (\<open>AgentGuards\<close>: \<^verbatim>\<open>loop_guard.py\<close> and \<^verbatim>\<open>tool_recovery.py\<close> of the agents,
    \<^verbatim>\<open>risk.py\<close>, \<^verbatim>\<open>policy.py\<close> and the records of \<^verbatim>\<open>models.py\<close> of \<^verbatim>\<open>src/ai2apps/capabilities\<close>).

  \<^bold>\<open>How.\<close> \<open>Prelude\<close> has the shared vocabulary: results that may be an exception (\<open>'a res\<close>),
  methods as functions from the object's state to a result and the state they leave, also when they
  raise (\<open>method_st\<close>), dictionaries as association lists in insertion order. A method that runs under
  a lock is one atomic step. An \<^verbatim>\<open>await\<close> in the middle of an operation is split: the wait in
  \<^verbatim>\<open>acquire\<close> into its outcomes, the summariser of \<open>compact\<close> into an arbitrary change of the host's
  state, the start and the end of a load into arbitrary or unlocked changes of the pool, a cancelled
  unload into the points where it can stop. Floating-point numbers are exact rationals. \<open>JsonText\<close> has strings as code points and the
  JSON printer and parser of the standard library, as far as the program uses them. Parameters stand
  for SHA-256, clocks, memory readings, the stores, meters and summarisers of the host, the auditor
  and the repository of policies, the engine classes that start, and the profiles of model files.

  \<^bold>\<open>Fuel.\<close> \<open>parse_value\<close> is the only definition with fuel; \<open>loads\<close> gives it twice the length of the
  text plus one, and \<open>parse_enough\<close> shows that more never changes the result. All other loops are
  structural or have a measure (the number of loaded models for the evictions of the engine pool); the pointer walks of \<open>FreeQueue\<close> that may not end on a corrupted
  queue are partial functions whose \<open>None\<close> is excluded by the invariant.

  \<^bold>\<open>What is proved.\<close>
  \<^item> \<open>PoolInvariant\<close>, \<open>PoolSafety\<close>, \<open>PrefixLookup\<close>, \<open>CacheProperties\<close>: the invariant of the block pool
    over every sequence of calls in which callers pass the manager's own blocks and evict for good only
    blocks in use, what each call does to queue, index and references, the lookup of a prefix in the
    index and on the SSD, and which calls break the queue.
  \<^item> \<open>SchedulerInvariant\<close>, \<open>SchedulerSafety\<close>, \<open>SchedulerProperties\<close>: the limits, the ordering and the
    bookkeeping of tickets over every sequence of calls. The locale \<open>step_invariant\<close> is interpreted
    three times: for the invariant, for the record of finished tickets, and after shutdown.
  \<^item> \<open>ResourceProperties\<close>: reservations within the memory limits, pins within their limit or as many as
    were restored at the start, and the idle sweep. The locale \<open>admission\<close> is what the scheduler relies on.
  \<^item> \<open>SpanLemmas\<close>, \<open>Compaction\<close>, \<open>ContextProperties\<close>: the span \<open>prepare\<close> selects, when \<open>replacement\<close>
    succeeds, and the refinement: \<open>compact\<close> over any store of the locale \<open>store\<close> is a sequence of
    \<open>condenses\<close> steps interleaved with the environment. The locale \<open>additive_meter\<close> bounds its cost,
    also while the host appends. Overflow recovery is described by the log of its calls.
  \<^item> \<open>CheckpointProperties\<close>, \<open>CheckpointAcceptance\<close>: no message is lost by a checkpoint, what is replayed
    covers what it replaces, when a summary is asked for, and exactly when an answered one is accepted later.
  \<^item> \<open>EngineInvariant\<close>, \<open>EngineSafety\<close>, \<open>EngineProperties\<close>, \<open>EngineGuarantees\<close>: the locale \<open>pool_property\<close>
    states the small changes the pool's operations are made of and proves once that every step keeps
    what they keep. The steps are the pool's methods, unlocked calls during loads, forced unloads and
    deletions. It is interpreted for the books (tracked memory is what is loaded, as long as unloads
    are not cut in their settle barrier and do not overlap) and, through
    the contract \<open>held_entry\<close>, for leased and for pinned engines, which nothing drops but a forced
    unload or deletion of the model itself and the shutdown. Then
    the victim, admission, the memory limit, the outcome of a load, leases and settings one by one.
  \<^item> \<open>AgentProperties\<close>, \<open>GuardProperties\<close>: bounds of what is compacted, dropped, offloaded or
    pruned; repeated cycles; decisions on tool calls fail closed.

  \<^bold>\<open>What modelling showed.\<close> Evicting a block that is already free loses the rest of the free queue;
  the two LRU eviction calls evict nothing; \<open>prepare\<close> can select a system message behind the head,
  which \<open>prepare_range\<close> refuses; an unhashable error code makes \<open>provider_overflow\<close> raise; a NaN in a
  user's message makes the coverage check of a checkpoint fail. In the
  engine pool, unlocked unloads that overlap and a deletion during a load take the bytes of a model off
  the books twice, an unload cancelled in its settle barrier never takes them off, and a conflict with
  a draft engine in use is remembered as a broken model.

  \<^bold>\<open>Not modelled.\<close> Within the files above: logging, \<^verbatim>\<open>__repr__\<close>, probing of media files, the
  sweeper's background task, \<^verbatim>\<open>action_preview\<close>, the clock of \<^verbatim>\<open>GrantLeaseRecord.active\<close>. Beyond them:
  tensor code (scheduler, engines, prefix and SSD caches, quantisation and model patches of
  \<^verbatim>\<open>src/omlx\<close>), SQL repositories and migrations (session memory among them), HTTP and admin routes,
  subprocess and browser management, packages and downloads, media and application features. Of the
  engine pool: status reports, texts of errors, the reclaim task after a failed load, the policies and
  drafters that are attached to an engine, and the thresholds of the memory enforcer that calls it.
\<close>

end
